(* ===== verification/Prelude.thy ===== *)
theory Prelude
  imports Main "HOL-Library.Multiset" "HOL-Library.Sublist"
begin

text \<open>
  Shared vocabulary of the development: Rust strings as lists of Unicode scalar values with the
  operations of \<open>str\<close> that the modelled sources call, results as sums, the slice operations
  \<open>position\<close>, \<open>remove\<close> and \<open>insert\<close>, unsigned arithmetic with an explicit bound, and two
  generic interfaces: \<open>op_machine\<close> (a state machine whose operations keep an invariant) and
  \<open>token_codec\<close> (minted tokens, their printer and their parser).
\<close>

named_theorems op_defs \<open>definitions of operations, unfolded by invariant proofs\<close>

section \<open>Results\<close>

abbreviation Ok :: "'a \<Rightarrow> 'e + 'a" where "Ok \<equiv> Inr"
abbreviation Err :: "'e \<Rightarrow> 'e + 'a" where "Err \<equiv> Inl"

definition bind_result :: "'e + 'a \<Rightarrow> ('a \<Rightarrow> 'e + 'b) \<Rightarrow> 'e + 'b" where
  "bind_result r f = (case r of Inl e \<Rightarrow> Inl e | Inr a \<Rightarrow> f a)"

lemma bind_result_simps [simp]:
  "bind_result (Inl e) f = Inl e" "bind_result (Inr a) f = f a"
  by (simp_all add: bind_result_def)

lemma bind_result_eq_Inr [simp]:
  "bind_result r f = Inr b \<longleftrightarrow> (\<exists>a. r = Inr a \<and> f a = Inr b)"
  by (cases r) auto

section \<open>Strings\<close>

text \<open>A Rust \<open>String\<close> is a sequence of Unicode scalar values; \<open>len\<close> counts UTF-8 bytes.\<close>

type_synonym uchar = nat
type_synonym rstr = "uchar list"

definition lit :: "string \<Rightarrow> rstr" where
  "lit s = map of_char s"

lemma lit_simps [simp]: "lit [] = []" "lit (c # s) = of_char c # lit s"
  by (simp_all add: lit_def)

lemma lit_append [simp]: "lit (a @ b) = lit a @ lit b"
  by (simp add: lit_def)

lemma length_lit [simp]: "length (lit s) = length s"
  by (simp add: lit_def)

definition len_utf8 :: "uchar \<Rightarrow> nat" where
  "len_utf8 c = (if c < 128 then 1 else if c < 2048 then 2 else if c < 65536 then 3 else 4)"

lemma len_utf8_bounds: "1 \<le> len_utf8 c" "len_utf8 c \<le> 4"
  by (auto simp: len_utf8_def)

definition byte_len :: "rstr \<Rightarrow> nat" where
  "byte_len s = sum_list (map len_utf8 s)"

lemma byte_len_simps [simp]:
  "byte_len [] = 0" "byte_len (c # s) = len_utf8 c + byte_len s"
  "byte_len (s @ t) = byte_len s + byte_len t"
  by (simp_all add: byte_len_def)

lemma length_le_byte_len: "length s \<le> byte_len s"
proof (induction s)
  case (Cons c s)
  then show ?case using len_utf8_bounds(1) [of c] by simp
qed simp

text \<open>The UTF-8 encoding, as \<open>str::bytes\<close> yields it.\<close>

definition utf8_char :: "uchar \<Rightarrow> nat list" where
  "utf8_char c =
     (if c < 128 then [c]
      else if c < 2048 then [192 + c div 64, 128 + c mod 64]
      else if c < 65536 then [224 + c div 4096, 128 + c div 64 mod 64, 128 + c mod 64]
      else [240 + c div 262144, 128 + c div 4096 mod 64, 128 + c div 64 mod 64, 128 + c mod 64])"

definition str_bytes :: "rstr \<Rightarrow> nat list" where
  "str_bytes s = concat (map utf8_char s)"

lemma length_str_bytes: "length (str_bytes s) = byte_len s"
  by (induction s) (simp_all add: str_bytes_def utf8_char_def len_utf8_def)

lemma str_bytes_simps [simp]:
  "str_bytes [] = []" "str_bytes (c # s) = utf8_char c @ str_bytes s"
  by (simp_all add: str_bytes_def)

lemma str_bytes_ascii: "\<forall>c\<in>set s. c < 128 \<Longrightarrow> str_bytes s = s"
  by (induction s) (auto simp: utf8_char_def)

lemma utf8_char_high: "128 \<le> c \<Longrightarrow> \<exists>x\<in>set (utf8_char c). 128 \<le> x"
  by (simp add: utf8_char_def)

lemma ascii_str_bytes: "\<forall>x\<in>set (str_bytes s). x < 128 \<Longrightarrow> \<forall>c\<in>set s. c < 128"
proof (induction s)
  case (Cons c s)
  then have "\<forall>x\<in>set (utf8_char c). x < 128" by simp
  then have "c < 128" using utf8_char_high [of c] by (meson linorder_not_less)
  with Cons show ?case by simp
qed simp

text \<open>\<open>char::is_whitespace\<close>: the Unicode property White_Space.\<close>

definition is_whitespace :: "uchar \<Rightarrow> bool" where
  "is_whitespace c \<longleftrightarrow>
     (9 \<le> c \<and> c \<le> 13) \<or> c = 32 \<or> c = 133 \<or> c = 160 \<or> c = 5760 \<or> (8192 \<le> c \<and> c \<le> 8202) \<or>
     c = 8232 \<or> c = 8233 \<or> c = 8239 \<or> c = 8287 \<or> c = 12288"

definition trim_start :: "rstr \<Rightarrow> rstr" where
  "trim_start s = dropWhile is_whitespace s"

definition trim_end :: "rstr \<Rightarrow> rstr" where
  "trim_end s = rev (dropWhile is_whitespace (rev s))"

definition trim :: "rstr \<Rightarrow> rstr" where
  "trim s = trim_end (trim_start s)"

text \<open>No leading and no trailing white space: the fixed points of \<open>trim\<close>.\<close>

definition trimmed :: "rstr \<Rightarrow> bool" where
  "trimmed s \<longleftrightarrow> s = [] \<or> (\<not> is_whitespace (hd s) \<and> \<not> is_whitespace (last s))"

lemma trim_Nil [simp]: "trim [] = []"
  by (simp add: trim_def trim_start_def trim_end_def)

lemma trimmed_trim [simp]:
  assumes "trimmed s"
  shows "trim s = s"
proof (cases "s = []")
  case False
  with assms have "\<not> is_whitespace (hd s)" and "\<not> is_whitespace (hd (rev s))"
    by (auto simp: trimmed_def hd_rev)
  then have "dropWhile is_whitespace s = s" and "dropWhile is_whitespace (rev s) = rev s"
    using False by (auto simp: dropWhile_eq_self_iff)
  then show ?thesis by (simp add: trim_def trim_start_def trim_end_def)
qed simp

lemma trim_end_last: "trim_end s \<noteq> [] \<Longrightarrow> \<not> is_whitespace (last (trim_end s))"
  unfolding trim_end_def by (simp add: last_rev hd_dropWhile)

lemma trim_end_hd: "trim_end s \<noteq> [] \<Longrightarrow> hd (trim_end s) = hd s"
proof (induction s rule: rev_induct)
  case (snoc c s)
  show ?case
  proof (cases "is_whitespace c")
    case True
    then have eq: "trim_end (s @ [c]) = trim_end s" by (simp add: trim_end_def)
    with snoc have "hd (trim_end s) = hd s" and "trim_end s \<noteq> []" by auto
    moreover from this have "s \<noteq> []" by (auto simp: trim_end_def)
    ultimately show ?thesis by (simp add: eq)
  qed (simp add: trim_end_def)
qed (simp add: trim_end_def)

lemma trim_trimmed [simp]: "trimmed (trim s)"
proof (cases "trim s = []")
  case False
  then have ne: "trim_end (trim_start s) \<noteq> []" by (simp add: trim_def)
  then have start: "trim_start s \<noteq> []" by (auto simp: trim_end_def)
  then have "\<not> is_whitespace (hd (trim_start s))" by (simp add: trim_start_def hd_dropWhile)
  with ne show ?thesis by (simp add: trimmed_def trim_def trim_end_hd trim_end_last)
qed (simp add: trimmed_def)

lemma trim_idem [simp]: "trim (trim s) = trim s"
  by simp

definition strip_prefix :: "rstr \<Rightarrow> rstr \<Rightarrow> rstr option" where
  "strip_prefix p s = (if prefix p s then Some (drop (length p) s) else None)"

lemma strip_prefix_append [simp]: "strip_prefix p (p @ s) = Some s"
  by (simp add: strip_prefix_def)

lemma strip_prefix_Some: "strip_prefix p s = Some t \<longleftrightarrow> s = p @ t"
  by (auto simp: strip_prefix_def prefix_def)

definition strip_suffix :: "rstr \<Rightarrow> rstr \<Rightarrow> rstr option" where
  "strip_suffix p s = (if suffix p s then Some (take (length s - length p) s) else None)"

text \<open>\<open>str::split\<close> by one character: always at least one piece.\<close>

fun split_char :: "uchar \<Rightarrow> rstr \<Rightarrow> rstr list" where
  "split_char d [] = [[]]"
| "split_char d (c # s) =
     (if c = d then [] # split_char d s
      else case split_char d s of [] \<Rightarrow> [[c]] | w # ws \<Rightarrow> (c # w) # ws)"

fun join :: "rstr \<Rightarrow> rstr list \<Rightarrow> rstr" where
  "join sep [] = []"
| "join sep [w] = w"
| "join sep (w # v # ws) = w @ sep @ join sep (v # ws)"

lemma split_char_not_Nil [simp]: "split_char d s \<noteq> []"
  by (cases s) (auto split: list.splits)

lemma join_split_char: "join [d] (split_char d s) = s"
proof (induction s)
  case (Cons c s)
  obtain w ws where eq: "split_char d s = w # ws" by (cases "split_char d s") auto
  with Cons show ?case by (cases ws) auto
qed simp

lemma split_char_pieces: "w \<in> set (split_char d s) \<Longrightarrow> d \<notin> set w"
  by (induction s arbitrary: w) (auto split: list.splits if_splits)

lemma split_char_append_sep: "d \<notin> set w \<Longrightarrow> split_char d (w @ d # s) = w # split_char d s"
  by (induction w) auto

lemma split_char_single: "d \<notin> set w \<Longrightarrow> split_char d w = [w]"
  by (induction w) auto

lemma split_char_join:
  "ws \<noteq> [] \<Longrightarrow> \<forall>w\<in>set ws. d \<notin> set w \<Longrightarrow> split_char d (join [d] ws) = ws"
  by (induction "[d]" ws rule: join.induct) (auto simp: split_char_append_sep split_char_single)

lemma join_Cons: "join sep (w # ws) = w @ (if ws = [] then [] else sep @ join sep ws)"
  by (cases ws) auto

lemma join_snoc: "join sep (ws @ [w]) = (if ws = [] then w else join sep ws @ sep @ w)"
  by (induction ws) (auto simp: join_Cons)

text \<open>\<open>str::lines\<close>: a line ends at a line feed, less a carriage return before it; the text after
  the last line feed is a line only when it is not empty.\<close>

definition strip_cr :: "rstr \<Rightarrow> rstr" where
  "strip_cr l = (if l \<noteq> [] \<and> last l = 13 then butlast l else l)"

definition str_lines :: "rstr \<Rightarrow> rstr list" where
  "str_lines s =
     (let ps = split_char 10 s
      in map strip_cr (butlast ps) @ (if last ps = [] then [] else [last ps]))"

text \<open>\<open>str::split_whitespace\<close>.\<close>

fun split_whitespace_loop :: "rstr \<Rightarrow> rstr \<Rightarrow> rstr list" where
  "split_whitespace_loop [] w = (if w = [] then [] else [w])"
| "split_whitespace_loop (c # s) w =
     (if is_whitespace c then (if w = [] then split_whitespace_loop s [] else w # split_whitespace_loop s [])
      else split_whitespace_loop s (w @ [c]))"

definition split_whitespace :: "rstr \<Rightarrow> rstr list" where
  "split_whitespace s = split_whitespace_loop s []"

text \<open>ASCII case folding.\<close>

definition to_ascii_lower :: "uchar \<Rightarrow> uchar" where
  "to_ascii_lower c = (if 65 \<le> c \<and> c \<le> 90 then c + 32 else c)"

definition to_ascii_lowercase :: "rstr \<Rightarrow> rstr" where
  "to_ascii_lowercase s = map to_ascii_lower s"

definition eq_ignore_ascii_case :: "rstr \<Rightarrow> rstr \<Rightarrow> bool" where
  "eq_ignore_ascii_case s t \<longleftrightarrow> to_ascii_lowercase s = to_ascii_lowercase t"

section \<open>Numerals in text\<close>

fun radix_digits :: "nat \<Rightarrow> nat \<Rightarrow> nat list" where
  "radix_digits b n = (if b < 2 \<or> n < b then [n] else radix_digits b (n div b) @ [n mod b])"

declare radix_digits.simps [simp del]

definition digit_char :: "nat \<Rightarrow> uchar" where
  "digit_char d = (if d < 10 then 48 + d else 87 + d)"

definition show_dec :: "nat \<Rightarrow> rstr" where
  "show_dec n = map digit_char (radix_digits 10 n)"

definition show_hex :: "nat \<Rightarrow> rstr" where
  "show_hex n = map digit_char (radix_digits 16 n)"

text \<open>\<open>u64::from_str\<close> and its kin: an optional plus sign, then digits, within the bound.\<close>

fun digits_value :: "nat \<Rightarrow> rstr \<Rightarrow> nat option" where
  "digits_value acc [] = Some acc"
| "digits_value acc (c # s) =
     (if 48 \<le> c \<and> c \<le> 57 then digits_value (10 * acc + (c - 48)) s else None)"

definition parse_uint :: "nat \<Rightarrow> rstr \<Rightarrow> nat option" where
  "parse_uint w s =
     (let ds = (case s of c # t \<Rightarrow> if c = 43 then t else s | [] \<Rightarrow> [])
      in if ds = [] then None
         else case digits_value 0 ds of
                None \<Rightarrow> None
              | Some n \<Rightarrow> if n < 2 ^ w then Some n else None)"

lemma radix_digits_small: "2 \<le> b \<Longrightarrow> \<forall>d\<in>set (radix_digits b n). d < b"
proof (induction b n rule: radix_digits.induct)
  case (1 b n)
  then show ?case by (subst radix_digits.simps) auto
qed

lemma radix_digits_not_Nil [simp]: "radix_digits b n \<noteq> []"
  by (subst radix_digits.simps) simp

lemma digits_value_append:
  "digits_value acc (s @ t) = Option.bind (digits_value acc s) (\<lambda>a. digits_value a t)"
  by (induction s arbitrary: acc) auto

lemma digits_value_show: "digits_value 0 (map digit_char (radix_digits 10 n)) = Some n"
proof (induction "10::nat" n rule: radix_digits.induct)
  case (1 n)
  show ?case
  proof (cases "n < 10")
    case True
    then show ?thesis by (subst radix_digits.simps) (simp add: digit_char_def)
  next
    case False
    then have "digits_value 0 (map digit_char (radix_digits 10 (n div 10))) = Some (n div 10)"
      using 1 by simp
    moreover have "n mod 10 < 10" by simp
    ultimately show ?thesis using False
      by (subst radix_digits.simps) (simp add: digits_value_append digit_char_def)
  qed
qed

lemma digits_value_digits: "digits_value a s \<noteq> None \<Longrightarrow> \<forall>c\<in>set s. 48 \<le> c \<and> c \<le> 57"
  by (induction s arbitrary: a) (auto split: if_splits)

lemma show_dec_digits: "\<forall>c\<in>set (show_dec n). 48 \<le> c \<and> c \<le> 57"
  using digits_value_digits digits_value_show unfolding show_dec_def by blast

lemma show_dec_not_Nil [simp]: "show_dec n \<noteq> []"
  by (simp add: show_dec_def)

lemma parse_uint_show_dec: "n < 2 ^ w \<Longrightarrow> parse_uint w (show_dec n) = Some n"
proof -
  assume n: "n < 2 ^ w"
  obtain c s where eq: "show_dec n = c # s" by (cases "show_dec n") auto
  then have "48 \<le> c" using show_dec_digits [of n] by simp
  then have "(case show_dec n of c # t \<Rightarrow> if c = 43 then t else show_dec n | [] \<Rightarrow> []) = show_dec n"
    by (simp add: eq)
  then show ?thesis using n digits_value_show [of n]
    unfolding parse_uint_def Let_def by (simp add: show_dec_def [symmetric])
qed

lemma show_dec_inj: "show_dec m = show_dec n \<Longrightarrow> m = n"
  by (metis digits_value_show option.inject show_dec_def)

lemma radix_digits_value:
  "2 \<le> b \<Longrightarrow> foldl (\<lambda>a d. b * a + d) 0 (radix_digits b n) = n"
proof (induction b n rule: radix_digits.induct)
  case (1 b n)
  show ?case
  proof (cases "n < b")
    case True
    then have "radix_digits b n = [n]" by (subst radix_digits.simps) simp
    then show ?thesis by simp
  next
    case False
    then have "radix_digits b n = radix_digits b (n div b) @ [n mod b]"
      using 1 by (subst radix_digits.simps) simp
    moreover have "foldl (\<lambda>a d. b * a + d) 0 (radix_digits b (n div b)) = n div b"
      using 1 False by simp
    ultimately show ?thesis by simp
  qed
qed

lemma digit_char_inj: "d < 16 \<Longrightarrow> e < 16 \<Longrightarrow> digit_char d = digit_char e \<Longrightarrow> d = e"
  by (auto simp: digit_char_def split: if_splits)

lemma show_hex_inj:
  assumes "show_hex m = show_hex n"
  shows "m = n"
proof -
  have "set (radix_digits 16 k) \<subseteq> {..<16}" for k
    using radix_digits_small [of 16 k] by auto
  moreover have "inj_on digit_char {..<16}" by (rule inj_onI) (simp add: digit_char_inj)
  ultimately have "inj_on digit_char (set (radix_digits 16 m) \<union> set (radix_digits 16 n))"
    by (meson Un_least inj_on_subset)
  then have "radix_digits 16 m = radix_digits 16 n"
    by (intro map_inj_on [OF assms [unfolded show_hex_def]])
  moreover have "(2::nat) \<le> 16" by simp
  ultimately show ?thesis by (metis radix_digits_value)
qed

definition is_lower_hex :: "nat \<Rightarrow> bool" where
  "is_lower_hex c \<longleftrightarrow> (48 \<le> c \<and> c \<le> 57) \<or> (97 \<le> c \<and> c \<le> 102)"

lemma show_hex_chars: "\<forall>c\<in>set (show_hex n). is_lower_hex c"
  using radix_digits_small [of 16 n] by (auto simp: show_hex_def digit_char_def is_lower_hex_def)

lemma show_hex_not_Nil [simp]: "show_hex n \<noteq> []"
  by (simp add: show_hex_def)

lemma is_lower_hex_ascii: "is_lower_hex c \<Longrightarrow> c < 128 \<and> \<not> is_whitespace c"
  by (auto simp: is_lower_hex_def is_whitespace_def)

section \<open>Slices\<close>

fun position :: "('a \<Rightarrow> bool) \<Rightarrow> 'a list \<Rightarrow> nat option" where
  "position P [] = None"
| "position P (x # xs) = (if P x then Some 0 else map_option Suc (position P xs))"

lemma position_Some:
  "position P xs = Some i \<Longrightarrow> i < length xs \<and> P (xs ! i) \<and> (\<forall>j<i. \<not> P (xs ! j))"
proof (induction xs arbitrary: i)
  case (Cons x xs)
  show ?case
  proof (cases "P x")
    case False
    with Cons.prems obtain k where "position P xs = Some k" and "i = Suc k" by auto
    with Cons.IH False show ?thesis by (auto simp: less_Suc_eq_0_disj)
  qed (use Cons.prems in auto)
qed simp

lemma position_None: "position P xs = None \<longleftrightarrow> (\<forall>x\<in>set xs. \<not> P x)"
  by (induction xs) auto

lemma position_find: "find P xs = map_option (nth xs) (position P xs)"
  by (induction xs) (auto simp: option.map_comp o_def)

definition remove_at :: "nat \<Rightarrow> 'a list \<Rightarrow> 'a list" where
  "remove_at i xs = take i xs @ drop (Suc i) xs"

definition insert_at :: "nat \<Rightarrow> 'a \<Rightarrow> 'a list \<Rightarrow> 'a list" where
  "insert_at i x xs = take i xs @ x # drop i xs"

lemma remove_at_simps [simp]:
  "remove_at 0 (x # xs) = xs" "remove_at (Suc i) (x # xs) = x # remove_at i xs"
  by (simp_all add: remove_at_def)

lemma remove_at_split: "i < length xs \<Longrightarrow> xs = take i xs @ xs ! i # drop (Suc i) xs"
  by (rule id_take_nth_drop)

lemma mset_remove_at: "i < length xs \<Longrightarrow> mset xs = add_mset (xs ! i) (mset (remove_at i xs))"
  by (subst remove_at_split, assumption) (simp add: remove_at_def)

lemma set_remove_at: "set (remove_at i xs) \<subseteq> set xs"
  unfolding remove_at_def by (auto dest: in_set_takeD in_set_dropD)

lemma length_remove_at: "i < length xs \<Longrightarrow> length (remove_at i xs) = length xs - 1"
  by (simp add: remove_at_def)

lemma map_remove_at: "map f (remove_at i xs) = remove_at i (map f xs)"
  by (simp add: remove_at_def take_map drop_map)

lemma distinct_remove_at: "distinct xs \<Longrightarrow> distinct (remove_at i xs)"
  unfolding remove_at_def
  by (auto simp: distinct_take distinct_drop dest: set_take_disj_set_drop_if_distinct [of _ i "Suc i"])

text \<open>Update the first element that satisfies a predicate (\<open>iter_mut().find(..)\<close>).\<close>

fun update_first :: "('a \<Rightarrow> bool) \<Rightarrow> ('a \<Rightarrow> 'a) \<Rightarrow> 'a list \<Rightarrow> 'a list" where
  "update_first P f [] = []"
| "update_first P f (x # xs) = (if P x then f x # xs else x # update_first P f xs)"

lemma length_update_first [simp]: "length (update_first P f xs) = length xs"
  by (induction xs) auto

lemma map_update_first: "(\<And>x. P x \<Longrightarrow> g (f x) = g x) \<Longrightarrow> map g (update_first P f xs) = map g xs"
  by (induction xs) auto

section \<open>Unsigned arithmetic\<close>

text \<open>
  Unsigned machine integers are naturals with the bound written out where an operation can
  reach it: saturating operations clamp to \<open>2 ^ w - 1\<close>, a wrapping operation reduces modulo
  \<open>2 ^ w\<close>, a checked operation returns \<open>None\<close>. Saturating subtraction is subtraction on \<open>nat\<close>.
\<close>

definition u64_max :: nat where "u64_max = 2 ^ 64 - 1"
definition u32_max :: nat where "u32_max = 2 ^ 32 - 1"

definition sat_add :: "nat \<Rightarrow> nat \<Rightarrow> nat \<Rightarrow> nat" where
  "sat_add mx a b = min mx (a + b)"

definition sat_mul :: "nat \<Rightarrow> nat \<Rightarrow> nat \<Rightarrow> nat" where
  "sat_mul mx a b = min mx (a * b)"

definition wrapping_add64 :: "nat \<Rightarrow> nat \<Rightarrow> nat" where
  "wrapping_add64 a b = (a + b) mod 2 ^ 64"

lemma wrapping_add64_bound [simp]: "wrapping_add64 a b < 2 ^ 64"
  by (simp add: wrapping_add64_def)

lemma wrapping_add64_neq [simp]: "wrapping_add64 v 1 \<noteq> v"
proof
  assume eq: "wrapping_add64 v 1 = v"
  then have "v < 2 ^ 64" by (metis wrapping_add64_bound)
  with eq show False
    by (cases "Suc v = 2 ^ 64") (simp_all add: wrapping_add64_def)
qed

definition checked_mul64 :: "nat \<Rightarrow> nat \<Rightarrow> nat option" where
  "checked_mul64 a b = (if a * b \<le> u64_max then Some (a * b) else None)"

section \<open>Interfaces\<close>

text \<open>
  A component whose public operations all keep one invariant: the operations are given as one
  function over a type of calls, so that any interleaving of calls is a list.
\<close>

locale op_machine =
  fixes start :: "'s \<Rightarrow> bool"
    and step :: "'op \<Rightarrow> 's \<Rightarrow> 's"
    and inv :: "'s \<Rightarrow> bool"
  assumes start_inv: "start s \<Longrightarrow> inv s"
    and step_inv: "inv s \<Longrightarrow> inv (step c s)"
begin

lemma run_inv: "inv s \<Longrightarrow> inv (fold step cs s)"
  by (induction cs arbitrary: s) (auto intro: step_inv)

lemma reach_inv: "start s \<Longrightarrow> inv (fold step cs s)"
  by (blast intro: run_inv start_inv)

end

text \<open>
  A token format: minted tokens parse back, a parsed token prints as the text that was presented
  less the surrounding white space, and different entropy gives different tokens.
\<close>

locale token_codec =
  fixes mint :: "nat \<Rightarrow> 'v" and print :: "'v \<Rightarrow> rstr" and parse :: "rstr \<Rightarrow> 'v option"
  assumes parse_mint: "parse (print (mint n)) = Some (mint n)"
    and parse_trim: "parse (trim s) = parse s"
    and print_parse: "parse s = Some v \<Longrightarrow> print v = trim s"
    and mint_inj: "print (mint m) = print (mint n) \<Longrightarrow> m = n"
begin

lemma parse_stable: "parse s = Some v \<Longrightarrow> parse (print v) = Some v"
  by (simp add: print_parse parse_trim)

lemma parse_padded: "trim s = print (mint n) \<Longrightarrow> parse s = Some (mint n)"
  by (metis parse_trim parse_mint)

lemma mint_eq [simp]: "mint m = mint n \<longleftrightarrow> m = n"
  using mint_inj by auto

end

end
