(* ===== verification/Json.thy ===== *)
theory Json
  imports Complex_Main Prelude "HOL-Library.AList"
begin

text \<open>
  \<open>serde_json::Value\<close> and the accessors the adapter uses. Numbers keep serde's three
  representations: a non-negative integer, a negative integer, a (finite) float. An object is an
  association list; \<open>get\<close> is \<open>map_of\<close> and an indexed assignment is \<open>AList.update\<close>.
\<close>

datatype json =
    JNull
  | JBool bool
  | JPosInt nat
  | JNegInt int
  | JFloat rat
  | JString rstr
  | JArray "json list"
  | JObject "(rstr \<times> json) list"

definition json_get :: "rstr \<Rightarrow> json \<Rightarrow> json option" where
  "json_get k v = (case v of JObject kvs \<Rightarrow> map_of kvs k | _ \<Rightarrow> None)"

definition as_array :: "json \<Rightarrow> json list option" where
  "as_array v = (case v of JArray xs \<Rightarrow> Some xs | _ \<Rightarrow> None)"

definition as_str :: "json \<Rightarrow> rstr option" where
  "as_str v = (case v of JString s \<Rightarrow> Some s | _ \<Rightarrow> None)"

definition as_u64 :: "json \<Rightarrow> nat option" where
  "as_u64 v = (case v of JPosInt n \<Rightarrow> Some n | _ \<Rightarrow> None)"

definition as_i64 :: "json \<Rightarrow> int option" where
  "as_i64 v = (case v of JPosInt n \<Rightarrow> if n < 2 ^ 63 then Some (int n) else None
                       | JNegInt i \<Rightarrow> Some i | _ \<Rightarrow> None)"

definition is_null :: "json \<Rightarrow> bool" where
  "is_null v \<longleftrightarrow> v = JNull"

definition json_set :: "rstr \<Rightarrow> json \<Rightarrow> json \<Rightarrow> json" where
  "json_set k x v = (case v of JObject kvs \<Rightarrow> JObject (AList.update k x kvs) | _ \<Rightarrow> v)"

lemma json_get_set:
  "json_get k (json_set j x (JObject kvs)) = (if k = j then Some x else json_get k (JObject kvs))"
  by (simp add: json_get_def json_set_def update_conv)

lemma as_str_simps [simp]: "as_str (JString s) = Some s"
  by (simp add: as_str_def)

lemma as_array_simps [simp]: "as_array (JArray xs) = Some xs"
  by (simp add: as_array_def)

end
