(* ===== verification/Queue_Mirror.thy ===== *)
theory Queue_Mirror
  imports Json
begin

text \<open>
  The adapter-owned prompt queue of \<open>pi-grok-adapter/src/queue_bridge.rs\<close>: local rows that the
  adapter still holds, the mirror of Pi's own two arrays, reservations, parked follow-ups and the
  running slot. One definition per method of \<open>QueueMirror\<close>; attached images are never inspected
  and stay a type parameter.
\<close>

section \<open>State\<close>

datatype QueueLane = Steering | FollowUp

datatype QueueOrigin = Client | Extension | PiOrigin

record 'img QueueEntry =
  qe_id :: rstr
  qe_execution_text :: rstr
  qe_display_text :: rstr
  qe_images :: "'img list"
  qe_version :: nat
  qe_lane :: QueueLane
  qe_origin :: QueueOrigin

record 'img ReservedPrompt =
  rp_id :: rstr
  rp_execution_text :: rstr
  rp_display_text :: rstr
  rp_images :: "'img list"
  rp_lane :: QueueLane
  rp_origin :: QueueOrigin

record 'img QueueMirror =
  local_entries :: "'img QueueEntry list"
  pi_entries :: "'img QueueEntry list"
  reserved :: "'img ReservedPrompt list"
  parked :: "'img QueueEntry list"
  next_seq :: nat
  running :: "'img QueueEntry option"

definition empty_mirror :: "'img QueueMirror" where
  "empty_mirror = \<lparr>local_entries = [], pi_entries = [], reserved = [], parked = [],
     next_seq = 0, running = None\<rparr>"

record QueueSnapshot =
  snap_entries :: "json list"
  snap_running_prompt_id :: "rstr option"
  snap_running_text :: "rstr option"
  snap_steering_count :: nat
  snap_follow_up_count :: nat

section \<open>Operations\<close>

definition next_id :: "rstr \<Rightarrow> 'img QueueMirror \<Rightarrow> 'img QueueMirror \<times> rstr" where
  "next_id pre m =
     (let s = max (wrapping_add64 (next_seq m) 1) 1
      in (m\<lparr>next_seq := s\<rparr>, pre @ lit ''-'' @ show_dec s))"

definition origin_prefix :: "QueueOrigin \<Rightarrow> rstr" where
  "origin_prefix g = (case g of Client \<Rightarrow> lit ''pi-client-queue''
                              | Extension \<Rightarrow> lit ''pi-extension-queue''
                              | PiOrigin \<Rightarrow> lit ''pi-queue'')"

definition resolve_id :: "rstr option \<Rightarrow> QueueOrigin \<Rightarrow> 'img QueueMirror \<Rightarrow> 'img QueueMirror \<times> rstr" where
  "resolve_id i g m =
     (case i of Some x \<Rightarrow> if trim x \<noteq> [] then (m, x) else next_id (origin_prefix g) m
              | None \<Rightarrow> next_id (origin_prefix g) m)"

definition enqueue_local ::
  "rstr option \<Rightarrow> rstr \<Rightarrow> rstr \<Rightarrow> 'img list \<Rightarrow> QueueLane \<Rightarrow> QueueOrigin \<Rightarrow> 'img QueueMirror \<Rightarrow>
   'img QueueMirror \<times> rstr" where
  "enqueue_local i et dt im la g m =
     (let (m1, x) = resolve_id i g m
      in if \<exists>e\<in>set (local_entries m1). qe_id e = x
         then (m1\<lparr>local_entries :=
                 update_first (\<lambda>e. qe_id e = x)
                   (\<lambda>e. e\<lparr>qe_execution_text := et, qe_display_text := dt, qe_images := im,
                            qe_lane := la, qe_origin := g\<rparr>) (local_entries m1)\<rparr>, x)
         else (m1\<lparr>local_entries := local_entries m1 @
                 [\<lparr>qe_id = x, qe_execution_text = et, qe_display_text = dt, qe_images = im,
                   qe_version = 0, qe_lane = la, qe_origin = g\<rparr>]\<rparr>, x))"

definition take_local ::
  "rstr \<Rightarrow> nat option \<Rightarrow> 'img QueueMirror \<Rightarrow> 'img QueueMirror \<times> 'img QueueEntry option" where
  "take_local i ver m =
     (case position (\<lambda>e. qe_id e = i \<and> (case ver of None \<Rightarrow> True | Some v \<Rightarrow> v = qe_version e))
             (local_entries m) of
        None \<Rightarrow> (m, None)
      | Some k \<Rightarrow> (m\<lparr>local_entries := remove_at k (local_entries m)\<rparr>, Some (local_entries m ! k)))"

definition pop_next_local :: "'img QueueMirror \<Rightarrow> 'img QueueMirror \<times> 'img QueueEntry option" where
  "pop_next_local m =
     (case local_entries m of
        [] \<Rightarrow> (m, None)
      | e # es \<Rightarrow> (m\<lparr>local_entries := es\<rparr>, Some e))"

definition next_local_in_lane :: "QueueLane \<Rightarrow> 'img QueueMirror \<Rightarrow> (rstr \<times> nat) option" where
  "next_local_in_lane la m =
     map_option (\<lambda>e. (qe_id e, qe_version e)) (find (\<lambda>e. qe_lane e = la) (local_entries m))"

definition push_front_local :: "'img QueueEntry \<Rightarrow> 'img QueueMirror \<Rightarrow> 'img QueueMirror" where
  "push_front_local e m =
     m\<lparr>local_entries := e # filter (\<lambda>c. qe_id c \<noteq> qe_id e) (local_entries m)\<rparr>"

definition edit_local :: "rstr \<Rightarrow> rstr \<Rightarrow> 'img QueueMirror \<Rightarrow> 'img QueueMirror \<times> bool" where
  "edit_local i t m =
     (if \<exists>e\<in>set (local_entries m). qe_id e = i
      then (m\<lparr>local_entries :=
              update_first (\<lambda>e. qe_id e = i)
                (\<lambda>e. e\<lparr>qe_execution_text := t, qe_display_text := t,
                         qe_version := wrapping_add64 (qe_version e) 1\<rparr>) (local_entries m)\<rparr>, True)
      else (m, False))"

text \<open>The loop of \<open>reorder_local\<close>: pull the requested ids out of \<open>remaining\<close> one by one.\<close>

fun pull_ids ::
  "rstr list \<Rightarrow> 'img QueueEntry list \<Rightarrow> 'img QueueEntry list \<Rightarrow> 'img QueueEntry list" where
  "pull_ids [] rem acc = acc @ rem"
| "pull_ids (i # is) rem acc =
     (case position (\<lambda>e. qe_id e = i) rem of
        None \<Rightarrow> pull_ids is rem acc
      | Some k \<Rightarrow> pull_ids is (remove_at k rem) (acc @ [rem ! k]))"

definition reorder_local :: "rstr list \<Rightarrow> 'img QueueMirror \<Rightarrow> 'img QueueMirror \<times> bool" where
  "reorder_local ids m =
     (if length (local_entries m) < 2 then (m, False)
      else let re = pull_ids ids (local_entries m) []
           in (m\<lparr>local_entries := re\<rparr>, map qe_id (local_entries m) \<noteq> map qe_id re))"

definition clear_local :: "'img QueueMirror \<Rightarrow> 'img QueueMirror \<times> 'img QueueEntry list" where
  "clear_local m = (m\<lparr>local_entries := []\<rparr>, local_entries m)"

definition reserve ::
  "rstr \<Rightarrow> rstr \<Rightarrow> rstr \<Rightarrow> 'img list \<Rightarrow> QueueLane \<Rightarrow> QueueOrigin \<Rightarrow> 'img QueueMirror \<Rightarrow> 'img QueueMirror" where
  "reserve i et dt im la g m =
     (if trim i = [] then m
      else m\<lparr>reserved := filter (\<lambda>r. rp_id r \<noteq> i) (reserved m) @
             [\<lparr>rp_id = i, rp_execution_text = et, rp_display_text = dt, rp_images = im,
               rp_lane = la, rp_origin = g\<rparr>]\<rparr>)"

definition release_reservation :: "rstr \<Rightarrow> 'img QueueMirror \<Rightarrow> 'img QueueMirror" where
  "release_reservation i m = m\<lparr>reserved := filter (\<lambda>r. rp_id r \<noteq> i) (reserved m)\<rparr>"

definition set_running :: "'img QueueEntry \<Rightarrow> 'img QueueMirror \<Rightarrow> 'img QueueMirror" where
  "set_running e m = m\<lparr>running := Some e\<rparr>"

definition set_running_primary ::
  "rstr \<Rightarrow> rstr \<Rightarrow> rstr \<Rightarrow> 'img list \<Rightarrow> QueueOrigin \<Rightarrow> 'img QueueMirror \<Rightarrow> 'img QueueMirror" where
  "set_running_primary i et dt im g m =
     (if trim i = [] then m
      else m\<lparr>running := Some \<lparr>qe_id = i, qe_execution_text = et, qe_display_text = dt,
              qe_images = im, qe_version = 0, qe_lane = FollowUp, qe_origin = g\<rparr>\<rparr>)"

definition clear_running :: "'img QueueMirror \<Rightarrow> 'img QueueMirror \<times> 'img QueueEntry option" where
  "clear_running m = (m\<lparr>reserved := [], running := None\<rparr>, running m)"

definition queue_row :: "nat \<Rightarrow> 'img QueueEntry \<Rightarrow> json" where
  "queue_row n e = JObject
     [(lit ''id'', JString (qe_id e)), (lit ''version'', JPosInt (qe_version e)),
      (lit ''kind'', JString (lit ''prompt'')), (lit ''text'', JString (qe_display_text e)),
      (lit ''position'', JPosInt n)]"

definition snapshot :: "'img QueueMirror \<Rightarrow> QueueSnapshot" where
  "snapshot m =
     (let rows = pi_entries m @ local_entries m;
          steering = length (filter (\<lambda>e. qe_lane e = Steering) rows);
          total = length (pi_entries m) + length (local_entries m) + length (parked m)
      in \<lparr>snap_entries = map (\<lambda>(n, e). queue_row n e) (zip [0..<length rows] rows),
          snap_running_prompt_id = map_option qe_id (running m),
          snap_running_text = map_option qe_display_text (running m),
          snap_steering_count = steering,
          snap_follow_up_count = total - steering\<rparr>)"

text \<open>
  \<open>apply_queue_update\<close> matches each text of Pi's arrays against an unused previous mirror row,
  then a reservation of the same lane (exact text first), and otherwise mints a Pi row.
\<close>

definition claim_reserved ::
  "rstr \<Rightarrow> QueueLane \<Rightarrow> 'img ReservedPrompt list \<Rightarrow> nat option" where
  "claim_reserved t la rs =
     (case position (\<lambda>r. rp_lane r = la \<and> rp_execution_text r = t) rs of
        Some k \<Rightarrow> Some k
      | None \<Rightarrow> position (\<lambda>r. rp_lane r = la) rs)"

type_synonym 'img claim_state = "bool list \<times> 'img QueueEntry list \<times> 'img QueueMirror"

definition claim_one ::
  "'img QueueEntry list \<Rightarrow> rstr \<times> QueueLane \<Rightarrow> 'img claim_state \<Rightarrow> 'img claim_state" where
  "claim_one prev d s =
     (case (d, s) of ((t, la), (used, nxt, m)) \<Rightarrow>
        (case position (\<lambda>(e, u). \<not> u \<and> qe_lane e = la \<and> qe_execution_text e = t) (zip prev used) of
           Some k \<Rightarrow> (used[k := True], nxt @ [prev ! k], m)
         | None \<Rightarrow>
             (case claim_reserved t la (reserved m) of
                Some k \<Rightarrow>
                  (let r = reserved m ! k
                   in (used,
                       nxt @ [\<lparr>qe_id = rp_id r, qe_execution_text = t,
                               qe_display_text = rp_display_text r, qe_images = rp_images r,
                               qe_version = 0, qe_lane = la, qe_origin = rp_origin r\<rparr>],
                       m\<lparr>reserved := remove_at k (reserved m)\<rparr>))
              | None \<Rightarrow>
                  (let (m1, i) = next_id (lit ''pi-queue'') m
                   in (used,
                       nxt @ [\<lparr>qe_id = i, qe_execution_text = t, qe_display_text = t,
                               qe_images = [], qe_version = 0, qe_lane = la,
                               qe_origin = PiOrigin\<rparr>], m1)))))"

definition park_or_promote :: "'img QueueEntry list \<Rightarrow> 'img QueueMirror \<Rightarrow> 'img QueueMirror" where
  "park_or_promote deq m =
     (case (running m, deq) of
        (None, e # es) \<Rightarrow> m\<lparr>running := Some e, parked := parked m @ es\<rparr>
      | (_, _) \<Rightarrow> m\<lparr>parked := parked m @ deq\<rparr>)"

definition desired_rows :: "rstr list \<Rightarrow> rstr list \<Rightarrow> (rstr \<times> QueueLane) list" where
  "desired_rows st fu = map (\<lambda>t. (t, Steering)) st @ map (\<lambda>t. (t, FollowUp)) fu"

definition dequeued_follow_ups :: "'img QueueEntry list \<Rightarrow> bool list \<Rightarrow> 'img QueueEntry list" where
  "dequeued_follow_ups prev used =
     map fst (filter (\<lambda>(e, u). \<not> u \<and> qe_lane e = FollowUp) (zip prev used))"

definition apply_queue_update ::
  "rstr list \<Rightarrow> rstr list \<Rightarrow> 'img QueueMirror \<Rightarrow> 'img QueueMirror \<times> QueueSnapshot" where
  "apply_queue_update st fu m =
     (let prev = pi_entries m;
          (used, nxt, m1) = fold (claim_one prev) (desired_rows st fu)
                              (replicate (length prev) False, [], m\<lparr>pi_entries := []\<rparr>);
          m2 = m1\<lparr>reserved := filter (\<lambda>r. \<not> (\<exists>e\<in>set nxt. qe_id e = rp_id r)) (reserved m1)\<rparr>;
          m3 = (park_or_promote (dequeued_follow_ups prev used) m2)\<lparr>pi_entries := nxt\<rparr>
      in (m3, snapshot m3))"

text \<open>The loop of \<open>promote_parked_running\<close> pops from the end of \<open>parked\<close>; here over the reversal.\<close>

fun promote_scan ::
  "('img QueueEntry \<Rightarrow> bool) \<Rightarrow> 'img QueueEntry list \<Rightarrow> 'img QueueEntry list \<times> 'img QueueEntry option" where
  "promote_scan requeued [] = ([], None)"
| "promote_scan requeued (e # es) = (if requeued e then promote_scan requeued es else (es, Some e))"

definition promote_parked_running :: "'img QueueMirror \<Rightarrow> 'img QueueMirror \<times> bool" where
  "promote_parked_running m =
     (if running m \<noteq> None then (m, False)
      else let (rest, found) =
             promote_scan (\<lambda>e. \<exists>c\<in>set (pi_entries m @ local_entries m). qe_id c = qe_id e)
               (rev (parked m))
           in case found of
                None \<Rightarrow> (m\<lparr>parked := rev rest\<rparr>, False)
              | Some e \<Rightarrow> (m\<lparr>parked := rev rest, running := Some e\<rparr>, True))"

definition clear_mirror :: "'img QueueMirror \<Rightarrow> 'img QueueMirror \<times> QueueSnapshot" where
  "clear_mirror m =
     (let m1 = m\<lparr>local_entries := [], pi_entries := [], reserved := [], parked := [],
                  running := None\<rparr>
      in (m1, snapshot m1))"

definition string_list :: "json option \<Rightarrow> rstr list" where
  "string_list v =
     (case Option.bind v as_array of
        None \<Rightarrow> []
      | Some items \<Rightarrow> List.map_filter as_str items)"

definition queue_changed_params :: "rstr \<Rightarrow> QueueSnapshot \<Rightarrow> json" where
  "queue_changed_params sid s =
     (let p0 = JObject [(lit ''sessionId'', JString sid), (lit ''entries'', JArray (snap_entries s))];
          p1 = (case snap_running_prompt_id s of
                  None \<Rightarrow> p0
                | Some i \<Rightarrow> json_set (lit ''runningKind'') (JString (lit ''prompt''))
                             (json_set (lit ''runningPromptId'') (JString i) p0))
      in case snap_running_text s of
           None \<Rightarrow> p1
         | Some t \<Rightarrow> json_set (lit ''runningText'') (JString t) p1)"

lemmas mirror_defs =
  next_id_def resolve_id_def enqueue_local_def take_local_def pop_next_local_def
  push_front_local_def edit_local_def reorder_local_def clear_local_def reserve_def
  release_reservation_def set_running_def set_running_primary_def clear_running_def
  clear_mirror_def

section \<open>Invariant\<close>

text \<open>
  Rows the adapter holds are keyed by id, reservations are keyed by a non-blank id, and the
  sequence counter stays inside \<open>u64\<close>.
\<close>

definition mirror_inv :: "'img QueueMirror \<Rightarrow> bool" where
  "mirror_inv m \<longleftrightarrow>
     distinct (map qe_id (local_entries m)) \<and>
     distinct (map rp_id (reserved m)) \<and>
     (\<forall>r\<in>set (reserved m). trim (rp_id r) \<noteq> []) \<and>
     next_seq m < 2 ^ 64"

datatype 'img mirror_call =
    Enqueue_local "rstr option" rstr rstr "'img list" QueueLane QueueOrigin
  | Take_local rstr "nat option"
  | Pop_next_local
  | Push_front_local "'img QueueEntry"
  | Edit_local rstr rstr
  | Reorder_local "rstr list"
  | Clear_local
  | Reserve rstr rstr rstr "'img list" QueueLane QueueOrigin
  | Release_reservation rstr
  | Set_running "'img QueueEntry"
  | Set_running_primary rstr rstr rstr "'img list" QueueOrigin
  | Clear_running
  | Apply_queue_update "rstr list" "rstr list"
  | Promote_parked_running
  | Clear_all

fun mirror_step :: "'img mirror_call \<Rightarrow> 'img QueueMirror \<Rightarrow> 'img QueueMirror" where
  "mirror_step (Enqueue_local i et dt im la g) m = fst (enqueue_local i et dt im la g m)"
| "mirror_step (Take_local i v) m = fst (take_local i v m)"
| "mirror_step Pop_next_local m = fst (pop_next_local m)"
| "mirror_step (Push_front_local e) m = push_front_local e m"
| "mirror_step (Edit_local i t) m = fst (edit_local i t m)"
| "mirror_step (Reorder_local ids) m = fst (reorder_local ids m)"
| "mirror_step Clear_local m = fst (clear_local m)"
| "mirror_step (Reserve i et dt im la g) m = reserve i et dt im la g m"
| "mirror_step (Release_reservation i) m = release_reservation i m"
| "mirror_step (Set_running e) m = set_running e m"
| "mirror_step (Set_running_primary i et dt im g) m = set_running_primary i et dt im g m"
| "mirror_step Clear_running m = fst (clear_running m)"
| "mirror_step (Apply_queue_update st fu) m = fst (apply_queue_update st fu m)"
| "mirror_step Promote_parked_running m = fst (promote_parked_running m)"
| "mirror_step Clear_all m = fst (clear_mirror m)"

lemma next_id_fields:
  "fst (next_id p m) = m\<lparr>next_seq := max (wrapping_add64 (next_seq m) 1) 1\<rparr>"
  by (simp add: next_id_def Let_def)

lemma next_id_inv: "mirror_inv m \<Longrightarrow> mirror_inv (fst (next_id p m))"
  by (simp add: next_id_fields mirror_inv_def wrapping_add64_def)

lemma resolve_id_inv: "mirror_inv m \<Longrightarrow> mirror_inv (fst (resolve_id i g m))"
  by (auto simp: resolve_id_def next_id_inv split: option.splits)

lemma update_first_ids [simp]:
  "(\<And>e. qe_id (f e) = qe_id e) \<Longrightarrow> map qe_id (update_first P f es) = map qe_id es"
  by (rule map_update_first)

lemma enqueue_local_inv: "mirror_inv m \<Longrightarrow> mirror_inv (fst (enqueue_local i et dt im la g m))"
  using resolve_id_inv [of m i g]
  by (auto simp: enqueue_local_def mirror_inv_def Let_def split: prod.splits)

lemma take_local_inv: "mirror_inv m \<Longrightarrow> mirror_inv (fst (take_local i v m))"
  by (auto simp: take_local_def mirror_inv_def map_remove_at distinct_remove_at split: option.splits)

lemma pop_next_local_inv: "mirror_inv m \<Longrightarrow> mirror_inv (fst (pop_next_local m))"
  by (auto simp: pop_next_local_def mirror_inv_def split: list.splits)

lemma push_front_local_inv: "mirror_inv m \<Longrightarrow> mirror_inv (push_front_local e m)"
  by (auto simp: push_front_local_def mirror_inv_def distinct_map_filter)

lemma edit_local_inv: "mirror_inv m \<Longrightarrow> mirror_inv (fst (edit_local i t m))"
  by (auto simp: edit_local_def mirror_inv_def)

lemma mset_pull_ids: "mset (pull_ids ids rem acc) = mset acc + mset rem"
  by (induction ids rem acc rule: pull_ids.induct)
     (auto simp: mset_remove_at dest: position_Some split: option.splits)

lemma distinct_iff_mset: "mset xs = mset ys \<Longrightarrow> distinct xs = distinct ys"
  by (metis mset_eq_imp_distinct_iff)

lemma reorder_local_inv: "mirror_inv m \<Longrightarrow> mirror_inv (fst (reorder_local ids m))"
proof -
  have "mset (map qe_id (pull_ids ids (local_entries m) [])) = mset (map qe_id (local_entries m))"
    by (simp add: mset_pull_ids)
  then have "distinct (map qe_id (pull_ids ids (local_entries m) [])) = distinct (map qe_id (local_entries m))"
    by (rule distinct_iff_mset)
  then show "mirror_inv m \<Longrightarrow> ?thesis"
    by (auto simp: reorder_local_def mirror_inv_def Let_def)
qed

lemma reserve_inv: "mirror_inv m \<Longrightarrow> mirror_inv (reserve i et dt im la g m)"
  by (auto simp: reserve_def mirror_inv_def distinct_map_filter)

lemma claim_one_inv: "mirror_inv m \<Longrightarrow> mirror_inv (snd (snd (claim_one prev d (used, nxt, m))))"
  using next_id_inv [of m "lit ''pi-queue''"] set_remove_at [of _ "reserved m"]
  by (fastforce simp: claim_one_def mirror_inv_def Let_def map_remove_at distinct_remove_at
      split: prod.splits option.splits)

lemma claim_fold_inv: "mirror_inv (snd (snd s)) \<Longrightarrow> mirror_inv (snd (snd (fold (claim_one prev) ds s)))"
proof (induction ds arbitrary: s)
  case (Cons d ds)
  obtain used nxt m where s: "s = (used, nxt, m)" by (cases s)
  with Cons.prems have "mirror_inv (snd (snd (claim_one prev d s)))" by (simp add: claim_one_inv)
  with Cons.IH show ?case by simp
qed simp

lemma park_or_promote_fields [simp]:
  "local_entries (park_or_promote d m) = local_entries m"
  "pi_entries (park_or_promote d m) = pi_entries m"
  "reserved (park_or_promote d m) = reserved m"
  "next_seq (park_or_promote d m) = next_seq m"
  by (auto simp: park_or_promote_def split: option.splits list.splits)

lemma apply_queue_update_inv:
  assumes "mirror_inv m"
  shows "mirror_inv (fst (apply_queue_update st fu m))"
proof -
  obtain used nxt m1 where f: "fold (claim_one (pi_entries m)) (desired_rows st fu)
      (replicate (length (pi_entries m)) False, [], m\<lparr>pi_entries := []\<rparr>) = (used, nxt, m1)"
    by (cases "fold (claim_one (pi_entries m)) (desired_rows st fu)
      (replicate (length (pi_entries m)) False, [], m\<lparr>pi_entries := []\<rparr>)")
  have "mirror_inv m1"
    using claim_fold_inv [of "(replicate (length (pi_entries m)) False, [], m\<lparr>pi_entries := []\<rparr>)"
        "pi_entries m" "desired_rows st fu"] assms f
    by (simp add: mirror_inv_def)
  then show ?thesis
    by (auto simp: apply_queue_update_def f mirror_inv_def Let_def distinct_map_filter)
qed

lemma promote_parked_running_inv: "mirror_inv m \<Longrightarrow> mirror_inv (fst (promote_parked_running m))"
  by (auto simp: promote_parked_running_def mirror_inv_def Let_def split: prod.splits option.splits)

lemma simple_calls_inv:
  assumes "mirror_inv m"
  shows "mirror_inv (fst (clear_local m))" "mirror_inv (release_reservation i m)"
    "mirror_inv (set_running e m)" "mirror_inv (set_running_primary i et dt im g m)"
    "mirror_inv (fst (clear_running m))" "mirror_inv (fst (clear_mirror m))"
  using assms
  by (auto simp: mirror_inv_def clear_local_def release_reservation_def set_running_def
      set_running_primary_def clear_running_def clear_mirror_def Let_def distinct_map_filter)

lemmas mirror_call_invs =
  enqueue_local_inv take_local_inv pop_next_local_inv push_front_local_inv edit_local_inv
  reorder_local_inv reserve_inv apply_queue_update_inv promote_parked_running_inv simple_calls_inv

interpretation mirror: op_machine "\<lambda>m. m = empty_mirror" mirror_step mirror_inv
proof unfold_locales
  fix m :: "'a QueueMirror"
  show "m = empty_mirror \<Longrightarrow> mirror_inv m" by (simp add: mirror_inv_def empty_mirror_def)
next
  fix m :: "'a QueueMirror" and c
  show "mirror_inv m \<Longrightarrow> mirror_inv (mirror_step c m)"
    by (cases c) (simp_all add: mirror_call_invs)
qed

section \<open>Reordering\<close>

text \<open>
  What \<open>reorder_local\<close> promises: the requested rows first, in the order of the first mention of
  their id, then every row that was not mentioned, in its old order.
\<close>

fun dedup_first :: "'a list \<Rightarrow> 'a list" where
  "dedup_first [] = []"
| "dedup_first (x # xs) = x # filter (\<lambda>y. y \<noteq> x) (dedup_first xs)"

definition reorder_spec :: "rstr list \<Rightarrow> 'img QueueEntry list \<Rightarrow> 'img QueueEntry list" where
  "reorder_spec ids es =
     List.map_filter (\<lambda>i. find (\<lambda>e. qe_id e = i) es) (dedup_first ids) @
     filter (\<lambda>e. qe_id e \<notin> set ids) es"

lemma find_filter_other:
  "find (\<lambda>e. qe_id e = j) (filter (\<lambda>e. qe_id e \<noteq> i) es) =
     (if j = i then None else find (\<lambda>e. qe_id e = j) es)"
  by (induction es) auto

lemma map_filter_skip:
  "List.map_filter (\<lambda>j. if j = i then None else f j) xs = List.map_filter f (filter (\<lambda>y. y \<noteq> i) xs)"
  by (induction xs) (auto simp: map_filter_simps split: option.splits)

lemma remove_at_position:
  "distinct (map qe_id es) \<Longrightarrow> position (\<lambda>e. qe_id e = i) es = Some k \<Longrightarrow>
     remove_at k es = filter (\<lambda>e. qe_id e \<noteq> i) es"
proof (induction es arbitrary: k)
  case (Cons e es)
  show ?case
  proof (cases "qe_id e = i")
    case True
    with Cons.prems have "k = 0" by simp
    moreover from True Cons.prems(1) have "\<forall>x\<in>set es. qe_id x \<noteq> i" by (auto simp: image_iff)
    ultimately show ?thesis using True by (simp add: filter_True)
  qed (use Cons in auto)
qed simp

lemma pull_ids_spec:
  "distinct (map qe_id rem) \<Longrightarrow> pull_ids ids rem acc = acc @ reorder_spec ids rem"
proof (induction ids arbitrary: rem acc)
  case (Cons i ids)
  show ?case
  proof (cases "position (\<lambda>e. qe_id e = i) rem")
    case None
    then have none: "find (\<lambda>e. qe_id e = i) rem = None" and no: "\<forall>e\<in>set rem. qe_id e \<noteq> i"
      by (auto simp: position_find position_None)
    have "List.map_filter (\<lambda>j. find (\<lambda>e. qe_id e = j) rem) (filter (\<lambda>y. y \<noteq> i) xs) =
        List.map_filter (\<lambda>j. find (\<lambda>e. qe_id e = j) rem) xs" for xs
      by (induction xs) (auto simp: map_filter_simps none split: option.splits)
    moreover have "filter (\<lambda>e. qe_id e \<notin> set (i # ids)) rem = filter (\<lambda>e. qe_id e \<notin> set ids) rem"
      using no by (auto intro: filter_cong)
    ultimately show ?thesis using None Cons
      by (simp add: reorder_spec_def map_filter_simps none)
  next
    case (Some k)
    let ?rest = "filter (\<lambda>e. qe_id e \<noteq> i) rem"
    have rm: "remove_at k rem = ?rest" using Cons.prems Some by (rule remove_at_position)
    have found: "find (\<lambda>e. qe_id e = i) rem = Some (rem ! k)" by (simp add: position_find Some)
    have "distinct (map qe_id ?rest)" using Cons.prems by (simp add: distinct_map_filter)
    then have "pull_ids ids ?rest (acc @ [rem ! k]) = (acc @ [rem ! k]) @ reorder_spec ids ?rest"
      by (rule Cons.IH)
    then show ?thesis using found
      by (simp add: Some rm reorder_spec_def map_filter_simps find_filter_other map_filter_skip
          conj_commute)
  qed
qed (simp add: reorder_spec_def map_filter_simps)

lemma short_reorder_spec:
  assumes "distinct (map qe_id es)" "length es < 2"
  shows "reorder_spec ids es = es"
proof -
  have "mset (reorder_spec ids es) = mset es"
    using mset_pull_ids [of ids es "[]"] pull_ids_spec [OF assms(1), of ids "[]"] by simp
  with assms(2) show ?thesis
    by (cases es; cases "tl es") (auto simp: mset_single_iff)
qed

lemma reorder_local_rows:
  assumes "mirror_inv m"
  shows "local_entries (fst (reorder_local ids m)) = reorder_spec ids (local_entries m)"
proof -
  from assms have d: "distinct (map qe_id (local_entries m))" by (simp add: mirror_inv_def)
  show ?thesis
    using pull_ids_spec [OF d, of ids "[]"] short_reorder_spec [OF d, of ids]
    by (simp add: reorder_local_def Let_def)
qed

section \<open>Mirroring Pi's arrays\<close>

definition row_key :: "'img QueueEntry \<Rightarrow> rstr \<times> QueueLane" where
  "row_key e = (qe_execution_text e, qe_lane e)"

definition is_follow_up :: "'img QueueEntry \<Rightarrow> bool" where
  "is_follow_up e \<longleftrightarrow> qe_lane e = FollowUp"

definition picked :: "'a list \<Rightarrow> bool list \<Rightarrow> 'a list" where
  "picked xs used = map fst (filter snd (zip xs used))"

lemma mset_picked_update:
  "k < length xs \<Longrightarrow> length used = length xs \<Longrightarrow> \<not> used ! k \<Longrightarrow>
     mset (picked xs (used[k := True])) = add_mset (xs ! k) (mset (picked xs used))"
proof (induction xs arbitrary: k used)
  case (Cons x xs)
  then obtain u us where "used = u # us" by (cases used) auto
  with Cons show ?case by (cases k) (auto simp: picked_def)
qed simp

lemma mset_picked_split:
  "length used = length xs \<Longrightarrow>
     mset (filter P xs) = mset (filter P (picked xs used)) +
       mset (map fst (filter (\<lambda>(x, u). \<not> u \<and> P x) (zip xs used)))"
proof (induction xs arbitrary: used)
  case (Cons x xs)
  then obtain u us where "used = u # us" by (cases used) auto
  with Cons show ?case by (auto simp: picked_def)
qed (simp add: picked_def)

lemma picked_replicate_False: "picked xs (replicate (length xs) False) = []"
  by (auto simp: picked_def filter_empty_conv in_set_zip)

text \<open>What one round of the matching loop keeps true.\<close>

definition claim_inv ::
  "'img QueueEntry list \<Rightarrow> (rstr \<times> QueueLane) list \<Rightarrow> 'img QueueMirror \<Rightarrow> 'img claim_state \<Rightarrow> bool" where
  "claim_inv prev ds m0 s \<longleftrightarrow>
     (case s of (used, nxt, m) \<Rightarrow>
        length used = length prev \<and> map row_key nxt = ds \<and>
        mset (picked prev used) \<subseteq># mset nxt \<and>
        local_entries m = local_entries m0 \<and> parked m = parked m0 \<and> running m = running m0)"

lemma claim_one_claim_inv:
  assumes "claim_inv prev ds m0 s"
  shows "claim_inv prev (ds @ [d]) m0 (claim_one prev d s)"
proof -
  obtain used nxt m where s: "s = (used, nxt, m)" by (cases s)
  obtain t la where d: "d = (t, la)" by (cases d)
  note inv = assms [unfolded s claim_inv_def, simplified]
  let ?P = "\<lambda>(e, u). \<not> u \<and> qe_lane e = la \<and> qe_execution_text e = t"
  show ?thesis
  proof (cases "position ?P (zip prev used)")
    case (Some k)
    from position_Some [OF Some] inv
    have k: "k < length prev" "\<not> used ! k" "row_key (prev ! k) = (t, la)"
      by (auto simp: row_key_def)
    then have "mset (picked prev (used[k := True])) = add_mset (prev ! k) (mset (picked prev used))"
      using inv by (simp add: mset_picked_update)
    with k inv show ?thesis by (simp add: s d claim_one_def Some claim_inv_def)
  next
    case None
    with inv show ?thesis
      by (auto simp: s d claim_one_def claim_inv_def row_key_def next_id_def Let_def
          split: option.splits intro: subset_mset.trans)
  qed
qed

lemma claim_fold_claim_inv:
  "claim_inv prev ds0 m0 s \<Longrightarrow> claim_inv prev (ds0 @ ds) m0 (fold (claim_one prev) ds s)"
proof (induction ds arbitrary: ds0 s)
  case (Cons d ds)
  from Cons.IH [OF claim_one_claim_inv [OF Cons.prems]] show ?case by simp
qed simp

lemma claim_result:
  assumes "fold (claim_one (pi_entries m)) (desired_rows st fu)
      (replicate (length (pi_entries m)) False, [], m\<lparr>pi_entries := []\<rparr>) = (used, nxt, m1)"
  shows "claim_inv (pi_entries m) (desired_rows st fu) m (used, nxt, m1)"
proof -
  have "claim_inv (pi_entries m) [] m (replicate (length (pi_entries m)) False, [], m\<lparr>pi_entries := []\<rparr>)"
    by (simp add: claim_inv_def picked_replicate_False)
  from claim_fold_claim_inv [OF this, of "desired_rows st fu"] show ?thesis by (simp add: assms)
qed

section \<open>Properties\<close>

definition opt_mset :: "'a option \<Rightarrow> 'a multiset" where
  "opt_mset x = (case x of None \<Rightarrow> {#} | Some a \<Rightarrow> {#a#})"

text \<open>The follow-ups the mirror still accounts for: listed, parked, or running.\<close>

definition accounted :: "'img QueueMirror \<Rightarrow> 'img QueueEntry multiset" where
  "accounted m =
     mset (filter is_follow_up (pi_entries m)) + mset (parked m) + opt_mset (running m)"

lemma park_or_promote_accounted:
  "mset (parked (park_or_promote d m)) + opt_mset (running (park_or_promote d m)) =
     mset (parked m) + opt_mset (running m) + mset d"
  by (cases "running m"; cases d) (auto simp: park_or_promote_def opt_mset_def)

lemma park_or_promote_running:
  "running m = Some e \<Longrightarrow> running (park_or_promote d m) = Some e"
  by (simp add: park_or_promote_def)

lemma apply_queue_update_cases:
  obtains used nxt m2 where
    "claim_inv (pi_entries m) (desired_rows st fu) m (used, nxt, m2)"
    "fst (apply_queue_update st fu m) =
       (park_or_promote (dequeued_follow_ups (pi_entries m) used) m2)\<lparr>pi_entries := nxt\<rparr>"
proof -
  obtain used nxt m1 where f: "fold (claim_one (pi_entries m)) (desired_rows st fu)
      (replicate (length (pi_entries m)) False, [], m\<lparr>pi_entries := []\<rparr>) = (used, nxt, m1)"
    by (cases "fold (claim_one (pi_entries m)) (desired_rows st fu)
      (replicate (length (pi_entries m)) False, [], m\<lparr>pi_entries := []\<rparr>)")
  let ?m2 = "m1\<lparr>reserved := filter (\<lambda>r. \<not> (\<exists>e\<in>set nxt. qe_id e = rp_id r)) (reserved m1)\<rparr>"
  have "claim_inv (pi_entries m) (desired_rows st fu) m (used, nxt, ?m2)"
    using claim_result [OF f] by (simp add: claim_inv_def)
  then show ?thesis by (rule that) (simp add: apply_queue_update_def f Let_def)
qed

lemma filter_mset_mono_list: "mset xs \<subseteq># mset ys \<Longrightarrow> mset (filter P xs) \<subseteq># mset (filter P ys)"
  by (simp add: multiset_filter_mono)

lemma apply_queue_update_accounted: "accounted m \<subseteq># accounted (fst (apply_queue_update st fu m))"
proof -
  obtain used nxt m2 where inv: "claim_inv (pi_entries m) (desired_rows st fu) m (used, nxt, m2)"
    and res: "fst (apply_queue_update st fu m) =
       (park_or_promote (dequeued_follow_ups (pi_entries m) used) m2)\<lparr>pi_entries := nxt\<rparr>"
    by (rule apply_queue_update_cases)
  let ?deq = "dequeued_follow_ups (pi_entries m) used"
  from inv have keep: "mset (filter is_follow_up (picked (pi_entries m) used)) \<subseteq># mset (filter is_follow_up nxt)"
    by (intro filter_mset_mono_list) (simp add: claim_inv_def)
  have "mset (filter is_follow_up (pi_entries m)) =
      mset (filter is_follow_up (picked (pi_entries m) used)) + mset ?deq"
    using mset_picked_split [of used "pi_entries m" is_follow_up] inv
    by (simp add: claim_inv_def dequeued_follow_ups_def is_follow_up_def)
  then have "accounted m = mset (filter is_follow_up (picked (pi_entries m) used)) +
      (mset (parked m2) + opt_mset (running m2) + mset ?deq)"
    using inv by (simp add: accounted_def claim_inv_def)
  moreover have "accounted (fst (apply_queue_update st fu m)) =
      mset (filter is_follow_up nxt) + (mset (parked m2) + opt_mset (running m2) + mset ?deq)"
    using park_or_promote_accounted [of ?deq m2] by (simp add: accounted_def res)
  ultimately show ?thesis using keep by simp
qed

lemma promote_scan_spec:
  "promote_scan q es = (rest, Some e) \<Longrightarrow>
     \<exists>skipped. es = skipped @ e # rest \<and> (\<forall>x\<in>set skipped. q x) \<and> \<not> q e"
proof (induction es)
  case (Cons x es)
  show ?case
  proof (cases "q x")
    case True
    with Cons obtain sk where "es = sk @ e # rest" "\<forall>y\<in>set sk. q y" "\<not> q e" by auto
    with True show ?thesis by (intro exI [of _ "x # sk"]) auto
  next
    case False
    with Cons.prems show ?thesis by (intro exI [of _ "[]"]) auto
  qed
qed simp

lemma promote_scan_None: "promote_scan q es = (rest, None) \<Longrightarrow> rest = [] \<and> (\<forall>e\<in>set es. q e)"
  by (induction es) (auto split: if_splits)

lemma qe_id_in_rows: "e \<in> set es \<Longrightarrow> \<exists>x\<in>set es. qe_id x = qe_id e"
  by blast

lemma edited_row:
  "distinct (map qe_id es) \<Longrightarrow> e \<in> set es \<Longrightarrow> (\<And>e. qe_id (f e) = qe_id e) \<Longrightarrow>
     x \<in> set (update_first (\<lambda>c. qe_id c = qe_id e) f es) \<Longrightarrow> qe_id x = qe_id e \<Longrightarrow> x = f e"
  by (induction es) (auto split: if_splits simp: image_iff)

lemma edited_row_version:
  assumes "distinct (map qe_id es)" and "e \<in> set es" and "qe_id x = qe_id e"
    and "x \<in> set (update_first (\<lambda>c. qe_id c = qe_id e)
          (\<lambda>e. e\<lparr>qe_execution_text := t, qe_display_text := t,
                   qe_version := wrapping_add64 (qe_version e) 1\<rparr>) es)"
  shows "qe_version e \<noteq> qe_version x"
  using edited_row [OF assms(1,2) _ assms(4,3)] wrapping_add64_neq [of "qe_version e"] by auto

lemma map_zip_index:
  "map (\<lambda>(n, x). f x) (zip [0..<length xs] xs) = map f xs"
  "map (\<lambda>(n, x). g n) (zip [0..<length xs] xs) = map g [0..<length xs]"
  by (rule nth_equalityI; simp)+

lemma snapshot_row_ids:
  "map (json_get (lit ''id'')) (snap_entries (snapshot m)) =
     map (\<lambda>e. Some (JString (qe_id e))) (pi_entries m @ local_entries m)"
proof -
  have "map (json_get (lit ''id'')) (snap_entries (snapshot m)) =
      map (\<lambda>(n, e). Some (JString (qe_id e)))
        (zip [0..<length (pi_entries m @ local_entries m)] (pi_entries m @ local_entries m))"
    by (simp add: snapshot_def Let_def queue_row_def json_get_def case_prod_unfold)
  then show ?thesis by (simp only: map_zip_index)
qed

lemma snapshot_row_positions:
  "map (json_get (lit ''position'')) (snap_entries (snapshot m)) =
     map (\<lambda>n. Some (JPosInt n)) [0..<length (pi_entries m) + length (local_entries m)]"
proof -
  have "map (json_get (lit ''position'')) (snap_entries (snapshot m)) =
      map (\<lambda>(n, e). Some (JPosInt n))
        (zip [0..<length (pi_entries m @ local_entries m)] (pi_entries m @ local_entries m))"
    by (simp add: snapshot_def Let_def queue_row_def json_get_def case_prod_unfold)
  also have "\<dots> = map (\<lambda>n. Some (JPosInt n)) [0..<length (pi_entries m @ local_entries m)]"
    by (rule map_zip_index(2))
  finally show ?thesis by simp
qed

lemma snapshot_row_count:
  "snap_steering_count (snapshot m) + snap_follow_up_count (snapshot m) =
     length (snap_entries (snapshot m)) + length (parked m)"
proof -
  have "length (filter P (xs @ ys)) \<le> length xs + length ys" for P and xs ys :: "'a QueueEntry list"
    by (metis length_append length_filter_le)
  from this [of "\<lambda>e. qe_lane e = Steering" "pi_entries m" "local_entries m"] show ?thesis
    by (simp add: snapshot_def Let_def)
qed

text \<open>A parked row is listed again when a mirrored or held row carries its id.\<close>

definition listed :: "'img QueueMirror \<Rightarrow> 'img QueueEntry \<Rightarrow> bool" where
  "listed m e \<longleftrightarrow> (\<exists>c\<in>set (pi_entries m @ local_entries m). qe_id c = qe_id e)"

lemma promote_parked_running_listed:
  "promote_parked_running m =
     (if running m \<noteq> None then (m, False)
      else let (rest, found) = promote_scan (listed m) (rev (parked m))
           in case found of
                None \<Rightarrow> (m\<lparr>parked := rev rest\<rparr>, False)
              | Some e \<Rightarrow> (m\<lparr>parked := rev rest, running := Some e\<rparr>, True))"
proof -
  have "listed m = (\<lambda>e. \<exists>c\<in>set (pi_entries m @ local_entries m). qe_id c = qe_id e)"
    by (simp add: listed_def fun_eq_iff)
  then show ?thesis by (simp only: promote_parked_running_def)
qed

lemma promote_free:
  assumes "running m = None"
  shows "(\<exists>e older newer. parked m = older @ e # newer \<and> \<not> listed m e \<and> list_all (listed m) newer \<and>
          promote_parked_running m = (m\<lparr>parked := older, running := Some e\<rparr>, True)) \<or>
       (list_all (listed m) (parked m) \<and> promote_parked_running m = (m\<lparr>parked := []\<rparr>, False))"
proof -
  obtain rest found where scan: "promote_scan (listed m) (rev (parked m)) = (rest, found)" by fastforce
  show ?thesis
  proof (cases found)
    case None
    with scan have "rest = []" and "\<forall>e\<in>set (parked m). listed m e" by (auto dest: promote_scan_None)
    with None scan assms show ?thesis by (simp add: promote_parked_running_listed list_all_iff)
  next
    case (Some e)
    with scan obtain sk where "rev (parked m) = sk @ e # rest"
      and sk: "\<forall>x\<in>set sk. listed m x" "\<not> listed m e"
      by (auto dest: promote_scan_spec)
    then have "parked m = rev rest @ e # rev sk" by (simp add: rev_swap)
    moreover have "promote_parked_running m = (m\<lparr>parked := rev rest, running := Some e\<rparr>, True)"
      using Some scan assms by (simp add: promote_parked_running_listed)
    moreover have "list_all (listed m) (rev sk)" using sk(1) by (simp add: list_all_iff)
    ultimately show ?thesis using sk(2) by blast
  qed
qed

text \<open>
  C1: whatever sequence of calls the session makes, starting from the empty mirror, the rows the
  adapter holds keep pairwise distinct ids, reservations keep pairwise distinct non-blank ids and
  the sequence counter stays inside \<open>u64\<close>.
\<close>

theorem mirror_reachable_inv: "mirror_inv (fold mirror_step calls empty_mirror)"
  by (rule mirror.reach_inv) simp

text \<open>
  C2: \<open>apply_queue_update\<close> leaves the mirror listing exactly Pi's arrays, steering rows first and
  each lane in Pi's order, and does not touch the rows the adapter holds.
\<close>

theorem apply_queue_update_mirrors:
  "map row_key (pi_entries (fst (apply_queue_update st fu m))) = desired_rows st fu \<and>
   local_entries (fst (apply_queue_update st fu m)) = local_entries m"
proof -
  obtain used nxt m2 where inv: "claim_inv (pi_entries m) (desired_rows st fu) m (used, nxt, m2)"
    and res: "fst (apply_queue_update st fu m) =
       (park_or_promote (dequeued_follow_ups (pi_entries m) used) m2)\<lparr>pi_entries := nxt\<rparr>"
    by (rule apply_queue_update_cases)
  then show ?thesis by (simp add: claim_inv_def)
qed

text \<open>
  C3: an update from Pi never takes the running slot away from the prompt that owns it, and no
  follow-up the mirror accounts for is dropped: each one is still listed, parked, or running.
\<close>

theorem apply_queue_update_keeps_follow_ups:
  "accounted m \<subseteq># accounted (fst (apply_queue_update st fu m)) \<and>
   (case running m of None \<Rightarrow> True | Some e \<Rightarrow> running (fst (apply_queue_update st fu m)) = Some e)"
proof -
  obtain used nxt m2 where inv: "claim_inv (pi_entries m) (desired_rows st fu) m (used, nxt, m2)"
    and res: "fst (apply_queue_update st fu m) =
       (park_or_promote (dequeued_follow_ups (pi_entries m) used) m2)\<lparr>pi_entries := nxt\<rparr>"
    by (rule apply_queue_update_cases)
  then have "running m = Some e \<Longrightarrow> running (fst (apply_queue_update st fu m)) = Some e" for e
    by (simp add: claim_inv_def park_or_promote_running)
  then show ?thesis by (auto simp: apply_queue_update_accounted split: option.split)
qed

text \<open>
  reordering is a permutation that puts the named rows first, in the order named, and keeps
  the order of the others.
\<close>

lemma reorder_local_refines:
  assumes "mirror_inv m"
  shows "local_entries (fst (reorder_local ids m)) = reorder_spec ids (local_entries m) \<and>
    mset (local_entries (fst (reorder_local ids m))) = mset (local_entries m)"
proof
  show "local_entries (fst (reorder_local ids m)) = reorder_spec ids (local_entries m)"
    using assms by (rule reorder_local_rows)
  show "mset (local_entries (fst (reorder_local ids m))) = mset (local_entries m)"
    by (simp add: reorder_local_def Let_def mset_pull_ids)
qed

definition sample_entry :: "rstr \<Rightarrow> nat QueueEntry" where
  "sample_entry i = \<lparr>qe_id = i, qe_execution_text = i, qe_display_text = i, qe_images = [],
     qe_version = 0, qe_lane = FollowUp, qe_origin = Client\<rparr>"

definition sample_mirror :: "nat QueueMirror" where
  "sample_mirror = empty_mirror\<lparr>local_entries := map sample_entry [[97], [98], [99]]\<rparr>"

lemma sample_mirror_inv: "mirror_inv sample_mirror"
  by (simp add: mirror_inv_def sample_mirror_def empty_mirror_def sample_entry_def)

theorem reorder_local_refines_witness:
  "mirror_inv sample_mirror \<and>
   map qe_id (local_entries (fst (reorder_local [[99], [120], [97], [99]] sample_mirror))) = [[99], [97], [98]]"
  using sample_mirror_inv reorder_local_refines [OF sample_mirror_inv, of "[[99], [120], [97], [99]]"]
  by (simp add: reorder_spec_def sample_mirror_def empty_mirror_def sample_entry_def map_filter_simps)

text \<open>
  an in-place edit bumps the version, so a removal that still carries the version seen before
  the edit finds nothing and leaves the queue as it is.
\<close>

lemma edit_local_invalidates_version:
  assumes "mirror_inv m" and "e \<in> set (local_entries m)"
  shows "snd (edit_local (qe_id e) t m) \<and>
    take_local (qe_id e) (Some (qe_version e)) (fst (edit_local (qe_id e) t m)) =
      (fst (edit_local (qe_id e) t m), None)"
  using assms edited_row_version [of "local_entries m" e] qe_id_in_rows [OF assms(2)]
  by (auto simp: edit_local_def take_local_def mirror_inv_def position_None split: option.split)

theorem edit_local_invalidates_version_witness:
  "snd (edit_local [98] [120] sample_mirror) \<and>
   snd (take_local [98] (Some 0) (fst (edit_local [98] [120] sample_mirror))) = None"
proof -
  have "sample_entry [98] \<in> set (local_entries sample_mirror)"
    by (simp add: sample_mirror_def)
  from edit_local_invalidates_version [OF sample_mirror_inv this, of "[120]"] show ?thesis
    by (simp add: sample_entry_def)
qed

text \<open>
  the snapshot lists the mirrored rows and then the held rows, numbered from 0 in order; the
  two lane counters add up to the listed rows plus the parked ones, so the subtraction in
  \<open>follow_up_count\<close> never underflows.
\<close>

lemma snapshot_counts:
  "snap_steering_count (snapshot m) + snap_follow_up_count (snapshot m) =
     length (snap_entries (snapshot m)) + length (parked m) \<and>
   map (json_get (lit ''id'')) (snap_entries (snapshot m)) =
     map (\<lambda>e. Some (JString (qe_id e))) (pi_entries m @ local_entries m) \<and>
   map (json_get (lit ''position'')) (snap_entries (snapshot m)) =
     map (\<lambda>n. Some (JPosInt n)) [0..<length (pi_entries m) + length (local_entries m)]"
  using snapshot_row_count snapshot_row_ids snapshot_row_positions by blast

text \<open>
  \<open>promote_parked_running\<close> leaves an owned slot alone; on a free slot it claims the most
  recently parked follow-up that is not listed again, dropping exactly the newer parked rows that
  are listed, and reports failure only when every parked row is listed again.
\<close>

lemma promote_parked_running_spec:
  "case running m of
     Some e \<Rightarrow> promote_parked_running m = (m, False)
   | None \<Rightarrow>
       (\<exists>e older newer. parked m = older @ e # newer \<and> \<not> listed m e \<and> list_all (listed m) newer \<and>
          promote_parked_running m = (m\<lparr>parked := older, running := Some e\<rparr>, True)) \<or>
       (list_all (listed m) (parked m) \<and> promote_parked_running m = (m\<lparr>parked := []\<rparr>, False))"
proof (cases "running m")
  case None
  from promote_free [OF this] None show ?thesis by simp
next
  case (Some e)
  then show ?thesis by (simp add: promote_parked_running_def)
qed

end
