(* ===== verification/Plan_Mode.thy ===== *)
theory Plan_Mode
  imports Prelude
begin

text \<open>
  The plan-mode state machine of the adapter, \<open>pi-grok-adapter/src/plan_mode.rs\<close>: one definition per
  method of \<open>PiPlanTracker\<close>. Pi has no mode of its own, so the tracker decides which reminder is
  put before a prompt. The reminder counter is a \<open>u32\<close>; its increment is written modulo \<open>2 ^ 32\<close>,
  which keeps its parity. Paths are Unix paths, compared by their components as \<open>Path::eq\<close> does.
\<close>

section \<open>State\<close>

datatype PiPlanState = Inactive | Pending | Active | ExitPending

record PiPlanSnapshot =
  ps_state :: PiPlanState
  ps_was_previously_active :: bool
  ps_reminder_count :: nat
  ps_pending_exit_reminder :: bool
  ps_awaiting_plan_approval :: bool

record PiPlanTracker =
  plan_state :: PiPlanState
  was_previously_active :: bool
  reminder_count :: nat
  pending_exit_reminder :: bool
  awaiting_plan_approval :: bool
  plan_file_path :: rstr

definition with_plan_file :: "rstr \<Rightarrow> PiPlanTracker" where
  "with_plan_file p =
     \<lparr>plan_state = Inactive, was_previously_active = False, reminder_count = 0,
      pending_exit_reminder = False, awaiting_plan_approval = False, plan_file_path = p\<rparr>"

definition from_snapshot_with_plan_file :: "rstr \<Rightarrow> PiPlanSnapshot \<Rightarrow> PiPlanTracker" where
  "from_snapshot_with_plan_file p s0 =
     (let s = (case ps_state s0 of
                 Pending \<Rightarrow> s0\<lparr>ps_state := Inactive\<rparr>
               | ExitPending \<Rightarrow> s0\<lparr>ps_state := Inactive, ps_pending_exit_reminder := True\<rparr>
               | _ \<Rightarrow> s0)
      in \<lparr>plan_state = ps_state s, was_previously_active = ps_was_previously_active s,
          reminder_count = ps_reminder_count s, pending_exit_reminder = ps_pending_exit_reminder s,
          awaiting_plan_approval = ps_awaiting_plan_approval s, plan_file_path = p\<rparr>)"

definition plan_snapshot :: "PiPlanTracker \<Rightarrow> PiPlanSnapshot" where
  "plan_snapshot t =
     \<lparr>ps_state = plan_state t, ps_was_previously_active = was_previously_active t,
      ps_reminder_count = reminder_count t, ps_pending_exit_reminder = pending_exit_reminder t,
      ps_awaiting_plan_approval = awaiting_plan_approval t\<rparr>"

section \<open>Queries\<close>

definition is_active :: "PiPlanTracker \<Rightarrow> bool" where
  "is_active t \<longleftrightarrow> plan_state t = Active"

definition should_use_full_reminder :: "PiPlanTracker \<Rightarrow> bool" where
  "should_use_full_reminder t \<longleftrightarrow> even (reminder_count t)"

definition is_reentry :: "PiPlanTracker \<Rightarrow> bool" where
  "is_reentry t \<longleftrightarrow> was_previously_active t \<and> plan_state t = Pending"

definition set_awaiting_plan_approval :: "bool \<Rightarrow> PiPlanTracker \<Rightarrow> PiPlanTracker" where
  "set_awaiting_plan_approval b t = t\<lparr>awaiting_plan_approval := b\<rparr>"

definition path_components :: "rstr \<Rightarrow> bool \<times> rstr list" where
  "path_components p =
     (let rooted = (p \<noteq> [] \<and> hd p = 47);
          cs = filter (\<lambda>c. c \<noteq> []) (split_char 47 p)
      in (rooted, case cs of
            [] \<Rightarrow> []
          | c # rest \<Rightarrow> (if c = [46] \<and> rooted then [] else [c]) @ filter (\<lambda>c. c \<noteq> [46]) rest))"

definition path_eq :: "rstr \<Rightarrow> rstr \<Rightarrow> bool" where
  "path_eq p q \<longleftrightarrow> path_components p = path_components q"

definition should_auto_approve_edit :: "rstr \<Rightarrow> PiPlanTracker \<Rightarrow> bool" where
  "should_auto_approve_edit p t \<longleftrightarrow> is_active t \<and> path_eq p (plan_file_path t)"

section \<open>Transitions\<close>

definition enter_pending :: "PiPlanTracker \<Rightarrow> PiPlanTracker \<times> bool" where
  "enter_pending t =
     (case plan_state t of
        Inactive \<Rightarrow> (t\<lparr>plan_state := Pending, pending_exit_reminder := False\<rparr>, True)
      | ExitPending \<Rightarrow> (t\<lparr>plan_state := Active, pending_exit_reminder := False\<rparr>, True)
      | _ \<Rightarrow> (t, False))"

definition activate :: "PiPlanTracker \<Rightarrow> PiPlanTracker \<times> bool" where
  "activate t =
     (if plan_state t \<noteq> Pending then (t, False)
      else (t\<lparr>plan_state := Active, was_previously_active := True, reminder_count := 0\<rparr>, True))"

definition user_exit :: "bool \<Rightarrow> PiPlanTracker \<Rightarrow> PiPlanTracker" where
  "user_exit turn_in_flight t0 =
     (let t = t0\<lparr>awaiting_plan_approval := False\<rparr>
      in case plan_state t of
           Pending \<Rightarrow> t\<lparr>plan_state := Inactive\<rparr>
         | Active \<Rightarrow> if turn_in_flight then t\<lparr>plan_state := ExitPending\<rparr>
                     else t\<lparr>plan_state := Inactive, pending_exit_reminder := True\<rparr>
         | _ \<Rightarrow> t)"

definition complete_deferred_exit :: "PiPlanTracker \<Rightarrow> PiPlanTracker" where
  "complete_deferred_exit t =
     (if plan_state t \<noteq> ExitPending then t
      else t\<lparr>plan_state := Inactive, pending_exit_reminder := True\<rparr>)"

definition deactivate_approved :: "PiPlanTracker \<Rightarrow> PiPlanTracker \<times> bool" where
  "deactivate_approved t =
     (if plan_state t \<noteq> Active then (t, False)
      else (t\<lparr>plan_state := Inactive, reminder_count := 0, awaiting_plan_approval := False\<rparr>, True))"

definition record_reminder_injected :: "PiPlanTracker \<Rightarrow> PiPlanTracker" where
  "record_reminder_injected t = t\<lparr>reminder_count := (reminder_count t + 1) mod 2 ^ 32\<rparr>"

definition clear_pending_exit_reminder :: "PiPlanTracker \<Rightarrow> PiPlanTracker" where
  "clear_pending_exit_reminder t = t\<lparr>pending_exit_reminder := False\<rparr>"

definition reset_after_compaction :: "PiPlanTracker \<Rightarrow> PiPlanTracker" where
  "reset_after_compaction t = (if plan_state t = Active then t\<lparr>reminder_count := 0\<rparr> else t)"

section \<open>Reminders\<close>

definition plan_mode_full_reminder :: rstr where
  "plan_mode_full_reminder =
     lit ''Plan mode is active. Do not make any edits or writes to the system.'' @ [10, 10] @
     lit ''## Plan File:'' @ [10] @
     lit ''Write your plan to {plan_path} using the write or edit tool.'' @ [10] @
     lit ''This is the only file you are allowed to edit.'' @ [10, 10] @
     lit ''Ask clarifying questions in your response when needed, or call '' @
     lit ''exit_plan_mode to present your plan to the user.''"

definition plan_mode_sparse_reminder :: rstr where
  "plan_mode_sparse_reminder =
     lit ''Plan mode is still active. Do not make any edits or writes to the system '' @
     lit ''except for the plan file.''"

definition plan_mode_reentry_reminder :: rstr where
  "plan_mode_reentry_reminder =
     lit ''## Returning to Plan Mode'' @ [10, 10] @
     lit ''You are entering plan mode again after having previously exited it.'' @ [10] @
     lit ''A plan file exists at {plan_path} from your previous planning session.'' @ [10, 10] @
     lit ''Ask clarifying questions in your response when needed, or call '' @
     lit ''exit_plan_mode to present your plan to the user.''"

definition plan_mode_exit_reminder :: rstr where
  "plan_mode_exit_reminder =
     lit ''You have exited plan mode. You can now make edits, run tools, and take actions.''"

definition plan_mode_edit_rejected :: "rstr \<Rightarrow> rstr" where
  "plan_mode_edit_rejected plan_path =
     lit ''Rejected: file edits are not allowed in plan mode - the only editable file is the plan file ('' @
     plan_path @ lit '').''"

text \<open>\<open>str::replace\<close>: non-overlapping occurrences, left to right.\<close>

fun str_replace :: "rstr \<Rightarrow> rstr \<Rightarrow> rstr \<Rightarrow> nat \<Rightarrow> rstr" where
  "str_replace pat rep [] skip = []"
| "str_replace pat rep (c # s) skip =
     (if 0 < skip then str_replace pat rep s (skip - 1)
      else if pat \<noteq> [] \<and> prefix pat (c # s) then rep @ str_replace pat rep s (length pat - 1)
      else c # str_replace pat rep s 0)"

definition system_reminder :: "rstr \<Rightarrow> rstr" where
  "system_reminder body = lit ''<system-reminder>'' @ [10] @ body @ [10] @ lit ''</system-reminder>''"

definition format_reminder :: "rstr \<Rightarrow> rstr \<Rightarrow> rstr" where
  "format_reminder template plan_path =
     system_reminder (str_replace (lit ''{plan_path}'') plan_path template 0)"

definition build_reminder_for_prompt :: "PiPlanTracker \<Rightarrow> PiPlanTracker \<times> rstr option" where
  "build_reminder_for_prompt t =
     (if plan_state t = Pending then
        (let reentry = is_reentry t;
             t1 = record_reminder_injected (fst (activate t));
             template = (if reentry then plan_mode_reentry_reminder else plan_mode_full_reminder)
         in (t1, Some (format_reminder template (plan_file_path t1))))
      else if plan_state t = Active then
        (let use_full = should_use_full_reminder t;
             t1 = record_reminder_injected t;
             template = (if use_full then plan_mode_full_reminder else plan_mode_sparse_reminder)
         in (t1, Some (format_reminder template (plan_file_path t1))))
      else if pending_exit_reminder t then
        (clear_pending_exit_reminder t, Some (system_reminder plan_mode_exit_reminder))
      else (t, None))"

section \<open>Invariant\<close>

datatype plan_call =
    EnterPending | UserExit bool | CompleteDeferredExit | DeactivateApproved | ResetAfterCompaction
  | SetAwaiting bool | BuildReminder | Restart

fun plan_step :: "plan_call \<Rightarrow> PiPlanTracker \<Rightarrow> PiPlanTracker" where
  "plan_step EnterPending t = fst (enter_pending t)"
| "plan_step (UserExit b) t = user_exit b t"
| "plan_step CompleteDeferredExit t = complete_deferred_exit t"
| "plan_step DeactivateApproved t = fst (deactivate_approved t)"
| "plan_step ResetAfterCompaction t = reset_after_compaction t"
| "plan_step (SetAwaiting b) t = set_awaiting_plan_approval b t"
| "plan_step BuildReminder t = fst (build_reminder_for_prompt t)"
| "plan_step Restart t = from_snapshot_with_plan_file (plan_file_path t) (plan_snapshot t)"

text \<open>
  An exit reminder is owed only when the mode is off and was on before; a mode that is on was
  announced; the counter is a \<open>u32\<close>.
\<close>

definition plan_inv :: "PiPlanTracker \<Rightarrow> bool" where
  "plan_inv t \<longleftrightarrow>
     (pending_exit_reminder t \<longrightarrow> plan_state t = Inactive \<and> was_previously_active t) \<and>
     (plan_state t \<in> {Active, ExitPending} \<longrightarrow> was_previously_active t) \<and>
     reminder_count t < 2 ^ 32"

lemmas plan_defs =
  enter_pending_def activate_def user_exit_def complete_deferred_exit_def deactivate_approved_def
  record_reminder_injected_def clear_pending_exit_reminder_def reset_after_compaction_def
  set_awaiting_plan_approval_def build_reminder_for_prompt_def from_snapshot_with_plan_file_def
  plan_snapshot_def Let_def

interpretation plan: op_machine "\<lambda>t. \<exists>p. t = with_plan_file p" plan_step plan_inv
proof
  show "plan_inv t" if "\<exists>p. t = with_plan_file p" for t
    using that by (auto simp: plan_inv_def with_plan_file_def)
  show "plan_inv (plan_step c t)" if "plan_inv t" for c t
    using that by (cases c; cases "plan_state t") (auto simp: plan_inv_def plan_defs)
qed

text \<open>The reminders of a run of prompts with no other call in between.\<close>

fun prompt_reminders :: "nat \<Rightarrow> PiPlanTracker \<Rightarrow> rstr option list" where
  "prompt_reminders 0 t = []"
| "prompt_reminders (Suc n) t =
     (let (t', r) = build_reminder_for_prompt t in r # prompt_reminders n t')"

lemma active_reminders:
  assumes "plan_state t = Active"
  shows "prompt_reminders n t =
    map (\<lambda>i. Some (format_reminder (if even (reminder_count t + i) then plan_mode_full_reminder
                                   else plan_mode_sparse_reminder) (plan_file_path t))) [0..<n]"
  using assms
proof (induction n arbitrary: t)
  case (Suc n)
  let ?t = "record_reminder_injected t"
  have par: "even ((m + 1) mod 2 ^ 32 + i) \<longleftrightarrow> even (m + Suc i)" for m i :: nat
    by (auto simp: even_add dvd_mod_iff)
  have fields: "reminder_count ?t = (reminder_count t + 1) mod 2 ^ 32" "plan_file_path ?t = plan_file_path t"
    by (simp_all add: record_reminder_injected_def)
  have "prompt_reminders n ?t = map (\<lambda>i. Some (format_reminder (if even (reminder_count ?t + i)
      then plan_mode_full_reminder else plan_mode_sparse_reminder) (plan_file_path ?t))) [0..<n]"
    using Suc by (intro Suc.IH) (simp add: record_reminder_injected_def)
  also have "\<dots> = map (\<lambda>i. Some (format_reminder (if even (reminder_count t + Suc i)
      then plan_mode_full_reminder else plan_mode_sparse_reminder) (plan_file_path t))) [0..<n]"
    by (simp only: fields par)
  finally show ?case using Suc.prems
    by (simp add: build_reminder_for_prompt_def should_use_full_reminder_def Let_def fields(2) upt_rec [of 0 "Suc n"]
        map_Suc_upt [symmetric] o_def del: upt_Suc)
qed simp

lemma inactive_reminders:
  "plan_state t \<notin> {Pending, Active} \<Longrightarrow> \<not> pending_exit_reminder t \<Longrightarrow> prompt_reminders n t = replicate n None"
  by (induction n) (simp_all add: build_reminder_for_prompt_def Let_def)

text \<open>An approved exit leaves no reminder behind, unlike an exit by the user.\<close>

lemma approved_exit_silent:
  "plan_inv t \<Longrightarrow> plan_state t = Active \<Longrightarrow> prompt_reminders n (fst (deactivate_approved t)) = replicate n None"
  by (rule inactive_reminders) (auto simp: plan_inv_def deactivate_approved_def)

section \<open>Properties\<close>

text \<open>
  C38: in every state the tracker can reach, restarts included, an exit reminder is owed only while
  the mode is off and after it had been on, a mode that is on has been announced, and the counter
  is in range.
\<close>

theorem plan_reachable_inv: "plan_inv (fold plan_step calls (with_plan_file p))"
  by (rule plan.reach_inv) blast

text \<open>
  what the model is told. The first prompt after the mode was switched on carries the full
  reminder (the re-entry one when the mode was on before), and the prompts that follow alternate
  between the sparse and the full reminder, starting with the sparse one.
\<close>

lemma activation_reminders:
  assumes "plan_state t = Pending"
  shows "prompt_reminders (Suc n) t =
    Some (format_reminder (if was_previously_active t then plan_mode_reentry_reminder
                           else plan_mode_full_reminder) (plan_file_path t)) #
    map (\<lambda>i. Some (format_reminder (if even i then plan_mode_sparse_reminder else plan_mode_full_reminder)
                     (plan_file_path t))) [0..<n]"
proof -
  let ?t = "record_reminder_injected (fst (activate t))"
  have "plan_state ?t = Active" "reminder_count ?t = 1" "plan_file_path ?t = plan_file_path t"
    using assms by (simp_all add: activate_def record_reminder_injected_def)
  then have "prompt_reminders n ?t = map (\<lambda>i. Some (format_reminder (if even i then plan_mode_sparse_reminder
      else plan_mode_full_reminder) (plan_file_path t))) [0..<n]"
    using active_reminders [of ?t n] by simp
  then show ?thesis using assms
    by (simp add: build_reminder_for_prompt_def is_reentry_def Let_def activate_def record_reminder_injected_def)
qed

theorem activation_reminders_witness:
  "prompt_reminders 2 (fst (enter_pending (with_plan_file [47, 112]))) =
     [Some (format_reminder plan_mode_full_reminder [47, 112]),
      Some (format_reminder plan_mode_sparse_reminder [47, 112])]"
  using activation_reminders [of "fst (enter_pending (with_plan_file [47, 112]))" 1]
  by (simp add: enter_pending_def with_plan_file_def numeral_2_eq_2 del: prompt_reminders.simps)

text \<open>
  the exit reminder is sent exactly once. After the user switches the mode off, at once or with
  a turn still running that then completes, the next prompt carries the exit reminder and no later
  one does.
\<close>

lemma exit_reminder_once:
  assumes "plan_state t = Active"
  shows "prompt_reminders (Suc n) (user_exit False t) =
      Some (system_reminder plan_mode_exit_reminder) # replicate n None \<and>
    prompt_reminders (Suc n) (complete_deferred_exit (user_exit True t)) =
      Some (system_reminder plan_mode_exit_reminder) # replicate n None"
  using assms inactive_reminders
  by (simp add: user_exit_def complete_deferred_exit_def build_reminder_for_prompt_def
      clear_pending_exit_reminder_def Let_def)

theorem exit_reminder_once_witness:
  "prompt_reminders 2 (user_exit False (fst (activate (fst (enter_pending (with_plan_file []))))))  =
     [Some (system_reminder plan_mode_exit_reminder), None]"
  using exit_reminder_once [of "fst (activate (fst (enter_pending (with_plan_file []))))" 1]
  by (simp add: activate_def enter_pending_def with_plan_file_def numeral_2_eq_2 del: prompt_reminders.simps)

text \<open>
  a restart from the persisted snapshot loses no obligation: a settled state is restored as it
  was, a mode that was only requested is dropped, and a deferred exit becomes an exit whose reminder
  is owed.
\<close>

lemma restart_settles:
  "let t' = from_snapshot_with_plan_file (plan_file_path t) (plan_snapshot t) in
     plan_state t' \<in> {Inactive, Active} \<and>
     (if plan_state t \<in> {Inactive, Active} then t' = t
      else plan_state t' = Inactive \<and>
           pending_exit_reminder t' = (pending_exit_reminder t \<or> plan_state t = ExitPending))"
  by (cases "plan_state t") (simp_all add: plan_defs)

end
