(* ===== verification/Queue_Runtime.thy ===== *)
theory Queue_Runtime
  imports Queue_Mirror Plan_Mode
begin

text \<open>
  The queue half of the adapter's runtime, \<open>pi-grok-adapter/src/pi_adapter/queue_runtime.rs\<close>, over
  the part of \<open>AdapterState\<close> (\<open>pi_adapter.rs\<close>) that it reads and writes: it composes the queue
  mirror and the plan tracker, sends prompts to Pi and answers the clients waiting for them.

  Pi is outside: its answer to the \<open>n\<close>-th request is the parameter \<open>rpc\<close> (\<open>Some\<close> an error text, or
  \<open>None\<close>). What leaves the adapter is appended to a log in the state: notifications, writes of the
  plan-mode files, and completions, where the sending half of a one-shot channel is a number. A
  handler runs to its end; the idle probe that \<open>dispatch_next_queued\<close> spawns is a later handler.
\<close>

section \<open>State\<close>

datatype StopReason = EndTurn | Cancelled

definition stop_reason_wire :: "StopReason \<Rightarrow> rstr" where
  "stop_reason_wire r = (case r of Cancelled \<Rightarrow> lit ''cancelled'' | _ \<Rightarrow> lit ''end_turn'')"

record PromptCompletion =
  pc_reason :: StopReason
  pc_client_prompt_id :: "rstr option"

record ActivePrompt =
  ap_id :: nat
  ap_client_prompt_id :: "rstr option"
  ap_completion :: nat
  ap_agent_started :: bool
  ap_cancelled :: bool

datatype effect =
    ExtNotification rstr json
  | Complete nat PromptCompletion
  | PersistPlanMode PiPlanSnapshot
  | SyncPlanMode bool rstr

record AdapterState =
  acp_session_id :: rstr
  active_prompts :: "ActivePrompt list"
  queued_prompt_completions :: "(rstr \<times> nat) list"
  next_prompt_id :: nat
  agent_running :: bool
  cancelling :: bool
  bash_running :: bool
  live_prompt_id :: "rstr option"
  queue_mirror :: "json QueueMirror"
  plan_mode :: PiPlanTracker
  rpc_calls :: nat
  effects :: "effect list"

type_synonym pi_rpc = "nat \<Rightarrow> json \<Rightarrow> rstr option"

definition emit :: "effect list \<Rightarrow> AdapterState \<Rightarrow> AdapterState" where
  "emit es st = st\<lparr>effects := effects st @ es\<rparr>"

section \<open>Notifications\<close>

definition opt_string :: "rstr option \<Rightarrow> json" where
  "opt_string x = (case x of None \<Rightarrow> JNull | Some s \<Rightarrow> JString s)"

definition send_status :: "rstr \<Rightarrow> rstr option \<Rightarrow> AdapterState \<Rightarrow> AdapterState" where
  "send_status key t = emit [ExtNotification (lit ''pi/ui/status'')
     (JObject [(lit ''statusKey'', JString key), (lit ''statusText'', opt_string t)])]"

definition send_ui_notification :: "rstr \<Rightarrow> rstr option \<Rightarrow> AdapterState \<Rightarrow> AdapterState" where
  "send_ui_notification m kind = emit [ExtNotification (lit ''pi/ui/notify'')
     (JObject [(lit ''message'', JString m), (lit ''notifyType'', opt_string kind)])]"

definition publish_queue_snapshot :: "AdapterState \<Rightarrow> AdapterState" where
  "publish_queue_snapshot st =
     (let s = snapshot (queue_mirror st);
          steering_text = (if 0 < snap_steering_count s
            then Some (show_dec (snap_steering_count s) @ lit '' steering'') else None);
          follow_up_text = (if 0 < snap_follow_up_count s
            then Some (show_dec (snap_follow_up_count s) @ lit '' follow-up'') else None)
      in emit [ExtNotification (lit ''x.ai/queue/changed'') (queue_changed_params (acp_session_id st) s)]
           (send_status (lit ''follow-up'') follow_up_text
             (send_status (lit ''steering'') steering_text st)))"

definition apply_pi_queue_update :: "json \<Rightarrow> AdapterState \<Rightarrow> AdapterState" where
  "apply_pi_queue_update event st =
     publish_queue_snapshot (st\<lparr>queue_mirror :=
       fst (apply_queue_update (string_list (json_get (lit ''steering'') event))
              (string_list (json_get (lit ''followUp'') event)) (queue_mirror st))\<rparr>)"

definition send_server_prompt_complete :: "json QueueEntry \<Rightarrow> StopReason \<Rightarrow> AdapterState \<Rightarrow> AdapterState" where
  "send_server_prompt_complete entry reason st =
     emit [ExtNotification (lit ''x.ai/session/prompt_complete'') (JObject
       [(lit ''sessionId'', JString (acp_session_id st)), (lit ''promptId'', JString (qe_id entry)),
        (lit ''stopReason'', JString (stop_reason_wire reason)), (lit ''agentResult'', JNull)])] st"

section \<open>Helpers\<close>

definition adapter_busy :: "AdapterState \<Rightarrow> bool" where
  "adapter_busy st \<longleftrightarrow> agent_running st \<or> cancelling st \<or> bash_running st \<or> active_prompts st \<noteq> [] \<or>
     running (queue_mirror st) \<noteq> None"

definition prepare_execution_text :: "AdapterState \<Rightarrow> rstr \<Rightarrow> AdapterState \<times> rstr" where
  "prepare_execution_text st message =
     (case build_reminder_for_prompt (plan_mode st) of
        (pm, None) \<Rightarrow> (st\<lparr>plan_mode := pm\<rparr>, message)
      | (pm, Some reminder) \<Rightarrow>
          (st\<lparr>plan_mode := pm\<rparr>, if message = [] then reminder else reminder @ [10, 10] @ message))"

definition completion_remove :: "rstr \<Rightarrow> AdapterState \<Rightarrow> AdapterState \<times> nat option" where
  "completion_remove i st =
     (st\<lparr>queued_prompt_completions := filter (\<lambda>(k, _). k \<noteq> i) (queued_prompt_completions st)\<rparr>,
      map_of (queued_prompt_completions st) i)"

fun collect_completions :: "json QueueEntry list \<Rightarrow> AdapterState \<Rightarrow> AdapterState \<times> (rstr \<times> nat) list" where
  "collect_completions [] st = (st, [])"
| "collect_completions (e # es) st =
     (let (st1, c) = completion_remove (qe_id e) st;
          (st2, cs) = collect_completions es st1
      in (st2, (case c of None \<Rightarrow> cs | Some k \<Rightarrow> (qe_id e, k) # cs)))"

definition finish_queued_entries :: "json QueueEntry list \<Rightarrow> StopReason \<Rightarrow> AdapterState \<Rightarrow> AdapterState" where
  "finish_queued_entries entries reason st =
     (let (st1, completions) = collect_completions entries st
      in emit (map (\<lambda>(i, k). Complete k \<lparr>pc_reason = reason, pc_client_prompt_id = Some i\<rparr>) completions) st1)"

definition activate_queued_client :: "rstr \<Rightarrow> AdapterState \<Rightarrow> AdapterState \<times> nat option" where
  "activate_queued_client entry_id st =
     (case completion_remove entry_id st of
        (_, None) \<Rightarrow> (st, None)
      | (st1, Some k) \<Rightarrow>
          (st1\<lparr>next_prompt_id := max (wrapping_add64 (next_prompt_id st) 1) 1,
               active_prompts := active_prompts st @
                 [\<lparr>ap_id = next_prompt_id st, ap_client_prompt_id = Some entry_id, ap_completion = k,
                   ap_agent_started = False, ap_cancelled = False\<rparr>]\<rparr>, Some (next_prompt_id st)))"

definition take_active_prompt :: "nat \<Rightarrow> AdapterState \<Rightarrow> AdapterState \<times> ActivePrompt option" where
  "take_active_prompt i st =
     (case position (\<lambda>a. ap_id a = i) (active_prompts st) of
        None \<Rightarrow> (st, None)
      | Some k \<Rightarrow> (st\<lparr>active_prompts := remove_at k (active_prompts st)\<rparr>, Some (active_prompts st ! k)))"

definition take_active_opt :: "nat option \<Rightarrow> AdapterState \<Rightarrow> AdapterState \<times> ActivePrompt option" where
  "take_active_opt i st = (case i of None \<Rightarrow> (st, None) | Some k \<Rightarrow> take_active_prompt k st)"

definition cancel_active :: "ActivePrompt \<Rightarrow> AdapterState \<Rightarrow> AdapterState" where
  "cancel_active a = emit [Complete (ap_completion a)
     \<lparr>pc_reason = Cancelled, pc_client_prompt_id = ap_client_prompt_id a\<rparr>]"

definition prompt_request :: "json QueueEntry \<Rightarrow> bool \<Rightarrow> json" where
  "prompt_request entry steer =
     (let r = JObject ([(lit ''type'', JString (lit ''prompt'')), (lit ''message'', JString (qe_execution_text entry))] @
                (if steer then [(lit ''streamingBehavior'', JString (lit ''steer''))] else []))
      in if qe_images entry = [] then r else json_set (lit ''images'') (JArray (qe_images entry)) r)"

definition request :: "pi_rpc \<Rightarrow> json \<Rightarrow> AdapterState \<Rightarrow> AdapterState \<times> rstr option" where
  "request rpc r st = (st\<lparr>rpc_calls := rpc_calls st + 1\<rparr>, rpc (rpc_calls st) r)"

section \<open>Dispatch\<close>

definition begin_dispatch :: "AdapterState \<Rightarrow> (AdapterState \<times> json QueueEntry \<times> nat option) option" where
  "begin_dispatch st =
     (if adapter_busy st then None
      else case pop_next_local (queue_mirror st) of
             (_, None) \<Rightarrow> None
           | (m, Some entry0) \<Rightarrow>
               (let (st1, t) = prepare_execution_text (st\<lparr>queue_mirror := m\<rparr>) (qe_execution_text entry0);
                    entry = entry0\<lparr>qe_execution_text := t\<rparr>;
                    (st2, active_id) = activate_queued_client (qe_id entry) st1;
                    st3 = st2\<lparr>agent_running := True, live_prompt_id := Some (qe_id entry),
                              queue_mirror := set_running entry (queue_mirror st2)\<rparr>
                in Some (st3, entry, active_id)))"

definition announce_dispatch :: "AdapterState \<Rightarrow> AdapterState" where
  "announce_dispatch st = publish_queue_snapshot
     (emit [PersistPlanMode (plan_snapshot (plan_mode st)),
            SyncPlanMode (is_active (plan_mode st)) (plan_file_path (plan_mode st))] st)"

definition fail_dispatch :: "json QueueEntry \<Rightarrow> nat option \<Rightarrow> rstr \<Rightarrow> AdapterState \<Rightarrow> AdapterState" where
  "fail_dispatch entry active_id err st =
     (let (st1, active) = take_active_opt active_id st;
          st2 = st1\<lparr>agent_running := False, live_prompt_id := None,
                    queue_mirror := fst (clear_running (queue_mirror st1))\<rparr>;
          st3 = (case active of
                   Some a \<Rightarrow> cancel_active a st2
                 | None \<Rightarrow> send_server_prompt_complete entry Cancelled st2)
      in publish_queue_snapshot (send_ui_notification (lit ''Queued Pi message failed: '' @ err)
           (Some (lit ''error'')) st3))"

abbreviation held :: "AdapterState \<Rightarrow> json QueueEntry list" where
  "held st \<equiv> local_entries (queue_mirror st)"

lemma emit_fields [simp]:
  "queue_mirror (emit es st) = queue_mirror st" "active_prompts (emit es st) = active_prompts st"
  "agent_running (emit es st) = agent_running st" "cancelling (emit es st) = cancelling st"
  "bash_running (emit es st) = bash_running st" "plan_mode (emit es st) = plan_mode st"
  "queued_prompt_completions (emit es st) = queued_prompt_completions st"
  "effects (emit es st) = effects st @ es" "live_prompt_id (emit es st) = live_prompt_id st"
  "next_prompt_id (emit es st) = next_prompt_id st" "rpc_calls (emit es st) = rpc_calls st"
  "acp_session_id (emit es st) = acp_session_id st"
  by (simp_all add: emit_def)

lemmas notify_defs = send_status_def send_ui_notification_def publish_queue_snapshot_def
  send_server_prompt_complete_def announce_dispatch_def cancel_active_def Let_def

lemma begin_dispatch_held:
  "begin_dispatch st = Some (st', entry, a) \<Longrightarrow>
     \<exists>e0. held st = e0 # held st' \<and> qe_id entry = qe_id e0 \<and> \<not> adapter_busy st"
  by (auto simp: begin_dispatch_def pop_next_local_def prepare_execution_text_def activate_queued_client_def
      completion_remove_def set_running_def Let_def split: if_splits list.splits prod.splits option.splits)

lemma fail_dispatch_held [simp]: "held (fail_dispatch entry a err st) = held st"
  by (auto simp: fail_dispatch_def notify_defs take_active_opt_def take_active_prompt_def clear_running_def
      split: option.split prod.split)

function dispatch_next_queued :: "pi_rpc \<Rightarrow> AdapterState \<Rightarrow> AdapterState \<times> bool" where
  "dispatch_next_queued rpc st =
     (case begin_dispatch st of
        None \<Rightarrow> (st, False)
      | Some (st1, entry, active_id) \<Rightarrow>
          (case request rpc (prompt_request entry False) (announce_dispatch st1) of
             (st2, None) \<Rightarrow> (st2, True)
           | (st2, Some err) \<Rightarrow> dispatch_next_queued rpc (fail_dispatch entry active_id err st2)))"
  by pat_completeness auto
termination
  by (relation "measure (\<lambda>(_, st). length (held st))")
     (auto dest!: begin_dispatch_held simp: request_def notify_defs)

declare dispatch_next_queued.simps [simp del]

section \<open>Extension messages and interjections\<close>

definition enqueue_extension_message ::
  "pi_rpc \<Rightarrow> rstr \<Rightarrow> json list \<Rightarrow> rstr option \<Rightarrow> AdapterState \<Rightarrow> AdapterState" where
  "enqueue_extension_message rpc t images streaming_behavior st =
     (if trim t = [] \<and> images = [] then st
      else let lane = (if streaming_behavior = Some (lit ''steer'') then Steering else FollowUp)
           in if cancelling st then st
              else fst (dispatch_next_queued rpc (publish_queue_snapshot
                     (st\<lparr>queue_mirror := fst (enqueue_local None t t images lane Extension (queue_mirror st))\<rparr>))))"

datatype interject_plan = NotFound | Held | Idle | Steer "json QueueEntry" "nat option"

definition begin_interject ::
  "rstr \<Rightarrow> nat option \<Rightarrow> rstr option \<Rightarrow> AdapterState \<Rightarrow> AdapterState \<times> interject_plan" where
  "begin_interject i expected_version new_text st =
     (case take_local i expected_version (queue_mirror st) of
        (_, None) \<Rightarrow> (st, NotFound)
      | (m, Some e0) \<Rightarrow>
          (let st1 = st\<lparr>queue_mirror := m\<rparr>;
               entry = (case new_text of
                          None \<Rightarrow> e0
                        | Some t \<Rightarrow> e0\<lparr>qe_execution_text := t, qe_display_text := t,
                                       qe_version := wrapping_add64 (qe_version e0) 1\<rparr>)
           in if cancelling st1 then (st1\<lparr>queue_mirror := push_front_local entry m\<rparr>, Held)
              else if \<not> agent_running st1 \<and> active_prompts st1 = []
              then (st1\<lparr>queue_mirror := push_front_local entry m\<rparr>, Idle)
              else (let (st2, t) = prepare_execution_text st1 (qe_execution_text entry);
                        entry' = entry\<lparr>qe_execution_text := t\<rparr>;
                        (st3, active_id) = activate_queued_client (qe_id entry') st2
                    in (st3\<lparr>queue_mirror := reserve (qe_id entry') (qe_execution_text entry')
                              (qe_display_text entry') (qe_images entry') Steering (qe_origin entry')
                              (queue_mirror st3)\<rparr>, Steer entry' active_id))))"

definition fail_interject :: "json QueueEntry \<Rightarrow> nat option \<Rightarrow> rstr \<Rightarrow> AdapterState \<Rightarrow> AdapterState" where
  "fail_interject entry active_id err st =
     (let st1 = st\<lparr>queue_mirror := release_reservation (qe_id entry) (queue_mirror st)\<rparr>;
          (st2, active) = take_active_opt active_id st1;
          st3 = (case active of Some a \<Rightarrow> cancel_active a st2 | None \<Rightarrow> st2)
      in publish_queue_snapshot (send_ui_notification (lit ''Pi queue interject failed: '' @ err)
           (Some (lit ''error'')) st3))"

definition interject_local_queue ::
  "pi_rpc \<Rightarrow> rstr \<Rightarrow> nat option \<Rightarrow> rstr option \<Rightarrow> AdapterState \<Rightarrow> AdapterState \<times> bool" where
  "interject_local_queue rpc i expected_version new_text st =
     (case begin_interject i expected_version new_text st of
        (st1, NotFound) \<Rightarrow> (st1, False)
      | (st1, Held) \<Rightarrow> (publish_queue_snapshot st1, False)
      | (st1, Idle) \<Rightarrow> dispatch_next_queued rpc (publish_queue_snapshot st1)
      | (st1, Steer entry active_id) \<Rightarrow>
          (case request rpc (prompt_request entry True) (publish_queue_snapshot st1) of
             (st2, None) \<Rightarrow> (st2, True)
           | (st2, Some err) \<Rightarrow> (fail_interject entry active_id err st2, False)))"

definition next_steering :: "AdapterState \<Rightarrow> (rstr \<times> nat) option" where
  "next_steering st =
     (if cancelling st \<or> \<not> agent_running st then None
      else next_local_in_lane Steering (queue_mirror st))"

lemma activate_held [simp]:
  "held (fst (activate_queued_client i st)) = held st"
  "cancelling (fst (activate_queued_client i st)) = cancelling st"
  "agent_running (fst (activate_queued_client i st)) = agent_running st"
  "queue_mirror (fst (activate_queued_client i st)) = queue_mirror st"
  "plan_mode (fst (activate_queued_client i st)) = plan_mode st"
  by (auto simp: activate_queued_client_def completion_remove_def split: option.split)

lemma prepare_fields [simp]:
  "queue_mirror (fst (prepare_execution_text st t)) = queue_mirror st"
  "cancelling (fst (prepare_execution_text st t)) = cancelling st"
  "agent_running (fst (prepare_execution_text st t)) = agent_running st"
  "active_prompts (fst (prepare_execution_text st t)) = active_prompts st"
  "queued_prompt_completions (fst (prepare_execution_text st t)) = queued_prompt_completions st"
  "effects (fst (prepare_execution_text st t)) = effects st"
  by (auto simp: prepare_execution_text_def split: prod.split option.split)

lemma publish_fields [simp]:
  "queue_mirror (publish_queue_snapshot st) = queue_mirror st"
  "cancelling (publish_queue_snapshot st) = cancelling st"
  "agent_running (publish_queue_snapshot st) = agent_running st"
  "active_prompts (publish_queue_snapshot st) = active_prompts st"
  "queued_prompt_completions (publish_queue_snapshot st) = queued_prompt_completions st"
  by (simp_all add: notify_defs)

lemma reserve_local [simp]: "local_entries (reserve i et dt im la g m) = local_entries m"
  by (simp add: reserve_def)

text \<open>While the agent runs and nothing is being cancelled, an interjection takes its row out of the
  held rows and steers it.\<close>

lemma begin_interject_running:
  assumes "agent_running st" "\<not> cancelling st"
    and "position (\<lambda>e. qe_id e = i \<and> (case v of None \<Rightarrow> True | Some v \<Rightarrow> v = qe_version e)) (held st) = Some k"
  shows "\<exists>st' entry a. begin_interject i v nt st = (st', Steer entry a) \<and> held st' = remove_at k (held st) \<and>
    qe_id entry = qe_id (held st ! k) \<and> agent_running st' \<and> \<not> cancelling st'"
proof -
  let ?m = "(queue_mirror st)\<lparr>local_entries := remove_at k (held st)\<rparr>"
  let ?st = "st\<lparr>queue_mirror := ?m\<rparr>"
  let ?e = "case nt of None \<Rightarrow> held st ! k | Some t \<Rightarrow> (held st ! k)\<lparr>qe_execution_text := t, qe_display_text := t,
      qe_version := wrapping_add64 (qe_version (held st ! k)) 1\<rparr>"
  obtain st2 t where p: "prepare_execution_text ?st (qe_execution_text ?e) = (st2, t)" by fastforce
  obtain st3 a where c: "activate_queued_client (qe_id ?e) st2 = (st3, a)" by fastforce
  have "queue_mirror st3 = ?m" "agent_running st3" "\<not> cancelling st3"
    using prepare_fields [of ?st "qe_execution_text ?e"] activate_held [of "qe_id ?e" st2] assms(1,2)
    by (auto simp: p c)
  moreover have "qe_id ?e = qe_id (held st ! k)" by (simp split: option.split)
  ultimately show ?thesis using assms p c
    by (simp add: begin_interject_def take_local_def Let_def)
qed

lemma next_steering_position:
  assumes "next_steering st = Some (i, v)"
  shows "agent_running st" "\<not> cancelling st"
    and "\<exists>k. position (\<lambda>e. qe_id e = i \<and> v = qe_version e) (held st) = Some k"
proof -
  show "agent_running st" "\<not> cancelling st" using assms by (auto simp: next_steering_def split: if_splits)
  have "\<exists>e\<in>set (held st). qe_id e = i \<and> v = qe_version e"
    using assms by (auto simp: next_steering_def next_local_in_lane_def find_Some_iff split: if_splits)
  then show "\<exists>k. position (\<lambda>e. qe_id e = i \<and> v = qe_version e) (held st) = Some k"
    using position_None [of "\<lambda>e. qe_id e = i \<and> v = qe_version e" "held st"] by auto
qed

lemma interject_decreases:
  assumes "next_steering st = Some (i, v)" "interject_local_queue rpc i (Some v) None st = (st', True)"
  shows "length (held st') < length (held st)"
proof -
  obtain k where k: "position (\<lambda>e. qe_id e = i \<and> v = qe_version e) (held st) = Some k"
    using next_steering_position(3) [OF assms(1)] by blast
  note run = next_steering_position(1,2) [OF assms(1)]
  obtain st1 entry a where b: "begin_interject i (Some v) None st = (st1, Steer entry a)" "held st1 = remove_at k (held st)"
    using begin_interject_running [of st i "Some v" k None] run k by auto
  then have "held st' = remove_at k (held st)"
    using assms(2) by (auto simp: interject_local_queue_def request_def split: option.splits)
  moreover have "k < length (held st)" using position_Some [OF k] by blast
  ultimately show ?thesis by (cases "held st") (simp_all add: length_remove_at)
qed

function flush_pending_steering :: "pi_rpc \<Rightarrow> AdapterState \<Rightarrow> AdapterState" where
  "flush_pending_steering rpc st =
     (case next_steering st of
        None \<Rightarrow> st
      | Some (i, v) \<Rightarrow>
          (case interject_local_queue rpc i (Some v) None st of
             (st', False) \<Rightarrow> st'
           | (st', True) \<Rightarrow> flush_pending_steering rpc st'))"
  by pat_completeness auto
termination
  by (relation "measure (\<lambda>(_, st). length (held st))") (auto dest: interject_decreases [OF _ sym])

declare flush_pending_steering.simps [simp del]

section \<open>Who is waiting\<close>

text \<open>
  Every waiting client holds the other half of a one-shot channel. Its sender is in the map of
  queued completions, in an active prompt, or has been used.
\<close>

definition used_senders :: "effect list \<Rightarrow> nat list" where
  "used_senders es = List.map_filter (\<lambda>e. case e of Complete k _ \<Rightarrow> Some k | _ \<Rightarrow> None) es"

definition senders :: "AdapterState \<Rightarrow> nat multiset" where
  "senders st = mset (map snd (queued_prompt_completions st)) +
     mset (map ap_completion (active_prompts st)) + mset (used_senders (effects st))"

definition runtime_inv :: "nat multiset \<Rightarrow> AdapterState \<Rightarrow> bool" where
  "runtime_inv S st \<longleftrightarrow> distinct (map fst (queued_prompt_completions st)) \<and> senders st = S \<and>
     mirror_inv (queue_mirror st) \<and> plan_inv (plan_mode st)"

lemma used_senders_simps [simp]:
  "used_senders [] = []" "used_senders (es @ fs) = used_senders es @ used_senders fs"
  "used_senders (Complete k c # es) = k # used_senders es"
  "used_senders (ExtNotification m p # es) = used_senders es"
  "used_senders (PersistPlanMode q # es) = used_senders es"
  "used_senders (SyncPlanMode b f # es) = used_senders es"
  by (simp_all add: used_senders_def map_filter_def)

lemma runtime_inv_emit: "used_senders es = [] \<Longrightarrow> runtime_inv S (emit es st) = runtime_inv S st"
  by (simp add: runtime_inv_def senders_def)

lemma runtime_inv_publish [simp]:
  "runtime_inv S (publish_queue_snapshot st) = runtime_inv S st"
  "runtime_inv S (send_ui_notification m k st) = runtime_inv S st"
  "runtime_inv S (send_server_prompt_complete e r st) = runtime_inv S st"
  "runtime_inv S (announce_dispatch st) = runtime_inv S st"
  by (simp_all add: notify_defs runtime_inv_emit)

lemma runtime_inv_mirror:
  "runtime_inv S st \<Longrightarrow> mirror_inv m \<Longrightarrow> runtime_inv S (st\<lparr>queue_mirror := m\<rparr>)"
  by (simp add: runtime_inv_def senders_def)

lemma runtime_inv_flags [simp]:
  "runtime_inv S (st\<lparr>agent_running := b\<rparr>) = runtime_inv S st"
  "runtime_inv S (st\<lparr>live_prompt_id := x\<rparr>) = runtime_inv S st"
  "runtime_inv S (st\<lparr>rpc_calls := n\<rparr>) = runtime_inv S st"
  by (simp_all add: runtime_inv_def senders_def)

lemma runtime_inv_prepare: "runtime_inv S st \<Longrightarrow> runtime_inv S (fst (prepare_execution_text st t))"
  using plan.step_inv [of "plan_mode st" BuildReminder]
  by (auto simp: prepare_execution_text_def runtime_inv_def senders_def split: prod.splits option.split)

lemma mset_map_of_remove:
  "distinct (map fst xs) \<Longrightarrow>
     mset (map snd xs) = mset (map snd (filter (\<lambda>(k, _). k \<noteq> i) xs)) + (case map_of xs i of None \<Rightarrow> {#} | Some v \<Rightarrow> {#v#})"
proof (induction xs)
  case (Cons x xs)
  obtain k v where x: "x = (k, v)" by fastforce
  show ?case
  proof (cases "k = i")
    case True
    then have "map_of xs i = None" "filter (\<lambda>(k, _). k \<noteq> i) xs = xs"
      using Cons.prems x by (auto simp: map_of_eq_None_iff filter_id_conv image_iff)
    then show ?thesis using True x by simp
  qed (use Cons x in simp)
qed simp

lemma runtime_inv_activate: "runtime_inv S st \<Longrightarrow> runtime_inv S (fst (activate_queued_client i st))"
  using mset_map_of_remove [of "queued_prompt_completions st" i]
  by (auto simp: activate_queued_client_def completion_remove_def runtime_inv_def senders_def
      distinct_map_filter split: option.split)

lemma runtime_inv_take:
  "runtime_inv S st \<Longrightarrow>
     (case take_active_opt i st of (st', Some a) \<Rightarrow> runtime_inv S (cancel_active a st') | (st', None) \<Rightarrow> st' = st)"
proof (cases i)
  case (Some n)
  assume inv: "runtime_inv S st"
  show ?thesis
  proof (cases "position (\<lambda>a. ap_id a = n) (active_prompts st)")
    case None
    then show ?thesis by (simp add: Some take_active_opt_def take_active_prompt_def)
  next
    case (Some k)
    then have "k < length (active_prompts st)" using position_Some by blast
    then show ?thesis using inv mset_remove_at [of k "active_prompts st"]
      by (simp add: \<open>i = Some n\<close> Some take_active_opt_def take_active_prompt_def runtime_inv_def senders_def cancel_active_def)
  qed
qed (simp add: take_active_opt_def)

lemma runtime_inv_take_active:
  assumes "runtime_inv S st" "take_active_opt i st = (st', Some a)"
  shows "runtime_inv S (cancel_active a st')"
  using runtime_inv_take [OF assms(1), of i] assms(2) by simp

lemma cancel_active_upd:
  "cancel_active a (st\<lparr>agent_running := b, live_prompt_id := x, queue_mirror := m\<rparr>) =
     (cancel_active a st)\<lparr>agent_running := b, live_prompt_id := x, queue_mirror := m\<rparr>"
  by (simp add: cancel_active_def emit_def)

lemma begin_dispatch_Some:
  assumes "begin_dispatch st = Some (st', entry, a)"
  obtains m e0 t st1 st2 where "\<not> adapter_busy st" "pop_next_local (queue_mirror st) = (m, Some e0)"
    "prepare_execution_text (st\<lparr>queue_mirror := m\<rparr>) (qe_execution_text e0) = (st1, t)"
    "activate_queued_client (qe_id e0) st1 = (st2, a)" "entry = e0\<lparr>qe_execution_text := t\<rparr>"
    "st' = st2\<lparr>agent_running := True, live_prompt_id := Some (qe_id e0), queue_mirror := set_running entry (queue_mirror st2)\<rparr>"
proof -
  obtain m e0 where pop: "pop_next_local (queue_mirror st) = (m, Some e0)" and nb: "\<not> adapter_busy st"
    using assms by (auto simp: begin_dispatch_def split: if_splits prod.splits option.splits)
  obtain st1 t where p: "prepare_execution_text (st\<lparr>queue_mirror := m\<rparr>) (qe_execution_text e0) = (st1, t)" by fastforce
  obtain st2 a' where c: "activate_queued_client (qe_id e0) st1 = (st2, a')" by fastforce
  have "st' = st2\<lparr>agent_running := True, live_prompt_id := Some (qe_id e0), queue_mirror := set_running entry (queue_mirror st2)\<rparr>"
    "entry = e0\<lparr>qe_execution_text := t\<rparr>" "a = a'"
    using assms nb pop p c by (auto simp: begin_dispatch_def Let_def)
  then show thesis using nb pop p c by (intro that) simp_all
qed

lemma runtime_inv_begin:
  assumes "runtime_inv S st" "begin_dispatch st = Some (st', entry, a)"
  shows "runtime_inv S st'"
proof -
  obtain m e0 t st1 st2 where b: "pop_next_local (queue_mirror st) = (m, Some e0)"
    "prepare_execution_text (st\<lparr>queue_mirror := m\<rparr>) (qe_execution_text e0) = (st1, t)"
    "activate_queued_client (qe_id e0) st1 = (st2, a)"
    "st' = st2\<lparr>agent_running := True, live_prompt_id := Some (qe_id e0), queue_mirror := set_running entry (queue_mirror st2)\<rparr>"
    using assms(2) by (rule begin_dispatch_Some)
  have "mirror_inv (queue_mirror st)" using assms(1) by (simp add: runtime_inv_def)
  then have "mirror_inv m" using pop_next_local_inv [of "queue_mirror st"] b(1) by simp
  then have "runtime_inv S (st\<lparr>queue_mirror := m\<rparr>)" using assms(1) by (intro runtime_inv_mirror)
  from runtime_inv_activate [OF runtime_inv_prepare [OF this, of "qe_execution_text e0"], of "qe_id e0"]
  have "runtime_inv S st2" by (simp add: b(2,3))
  then show ?thesis using simple_calls_inv(3) [of "queue_mirror st2" entry]
    by (simp add: b(4) runtime_inv_def senders_def)
qed

lemma runtime_inv_fail:
  assumes "runtime_inv S st"
  shows "runtime_inv S (fail_dispatch entry a err st)"
proof -
  obtain st1 act where t: "take_active_opt a st = (st1, act)" by fastforce
  have clear: "runtime_inv S (x\<lparr>agent_running := False, live_prompt_id := None,
      queue_mirror := fst (clear_running (queue_mirror x))\<rparr>)" if "runtime_inv S x" for x
    using that simple_calls_inv(5) [of "queue_mirror x"] by (simp add: runtime_inv_def senders_def)
  show ?thesis
  proof (cases act)
    case None
    then have "st1 = st" using runtime_inv_take [OF assms, of a] t by simp
    then show ?thesis using clear [OF assms] by (simp add: fail_dispatch_def t None)
  next
    case (Some ap)
    then have "runtime_inv S (cancel_active ap st1)" using assms t by (intro runtime_inv_take_active) auto
    from clear [OF this] show ?thesis
      by (simp add: fail_dispatch_def t Some cancel_active_upd) (simp add: cancel_active_def)
  qed
qed

lemma runtime_inv_fail_interject:
  assumes "runtime_inv S st"
  shows "runtime_inv S (fail_interject entry a err st)"
proof -
  let ?st = "st\<lparr>queue_mirror := release_reservation (qe_id entry) (queue_mirror st)\<rparr>"
  have inv: "runtime_inv S ?st"
    using assms simple_calls_inv(2) by (intro runtime_inv_mirror) (auto simp: runtime_inv_def)
  obtain st1 act where t: "take_active_opt a ?st = (st1, act)" by fastforce
  show ?thesis
  proof (cases act)
    case None
    then have "st1 = ?st" using runtime_inv_take [OF inv, of a] t by simp
    then show ?thesis using inv by (simp add: fail_interject_def t None)
  next
    case (Some ap)
    then have "runtime_inv S (cancel_active ap st1)" using inv t by (intro runtime_inv_take_active) auto
    then show ?thesis by (simp add: fail_interject_def t Some)
  qed
qed

definition requested :: "AdapterState \<Rightarrow> AdapterState" where
  "requested st = st\<lparr>rpc_calls := rpc_calls st + 1\<rparr>"

lemma dispatch_cases:
  obtains (idle) "begin_dispatch st = None" "dispatch_next_queued rpc st = (st, False)"
  | (sent) st1 entry a where "begin_dispatch st = Some (st1, entry, a)"
      "dispatch_next_queued rpc st = (requested (announce_dispatch st1), True)"
      "rpc (rpc_calls (announce_dispatch st1)) (prompt_request entry False) = None"
  | (failed) st1 entry a err where "begin_dispatch st = Some (st1, entry, a)"
      "rpc (rpc_calls (announce_dispatch st1)) (prompt_request entry False) = Some err"
      "dispatch_next_queued rpc st = dispatch_next_queued rpc (fail_dispatch entry a err (requested (announce_dispatch st1)))"
proof (cases "begin_dispatch st")
  case None
  then show thesis using idle by (simp add: dispatch_next_queued.simps)
next
  case (Some r)
  obtain st1 entry a where r: "r = (st1, entry, a)" using prod_cases3 by blast
  show thesis
    using sent [of st1 entry a] failed [of st1 entry a] Some r
    by (cases "rpc (rpc_calls (announce_dispatch st1)) (prompt_request entry False)")
       (simp_all add: dispatch_next_queued.simps [of rpc st] request_def requested_def)
qed

lemma requested_fields [simp]:
  "queue_mirror (requested st) = queue_mirror st" "active_prompts (requested st) = active_prompts st"
  "agent_running (requested st) = agent_running st" "cancelling (requested st) = cancelling st"
  "bash_running (requested st) = bash_running st" "live_prompt_id (requested st) = live_prompt_id st"
  "runtime_inv S (requested st) = runtime_inv S st"
  by (simp_all add: requested_def)

lemma announce_fields [simp]:
  "queue_mirror (announce_dispatch st) = queue_mirror st" "active_prompts (announce_dispatch st) = active_prompts st"
  "agent_running (announce_dispatch st) = agent_running st" "cancelling (announce_dispatch st) = cancelling st"
  "bash_running (announce_dispatch st) = bash_running st" "live_prompt_id (announce_dispatch st) = live_prompt_id st"
  by (simp_all add: notify_defs)

lemma runtime_inv_dispatch: "runtime_inv S st \<Longrightarrow> runtime_inv S (fst (dispatch_next_queued rpc st))"
proof (induction "length (held st)" arbitrary: st rule: less_induct)
  case less
  show ?case
  proof (cases rule: dispatch_cases [of st rpc])
    case idle
    then show ?thesis using less by simp
  next
    case (sent st1 entry a)
    then show ?thesis using runtime_inv_begin [OF less(2)] by simp
  next
    case (failed st1 entry a err)
    have "runtime_inv S st1" using runtime_inv_begin [OF less(2)] failed(1) by blast
    then show ?thesis using less(1) begin_dispatch_held [OF failed(1)] failed(3) runtime_inv_fail by auto
  qed
qed

lemma runtime_inv_enqueue:
  assumes "runtime_inv S st"
  shows "runtime_inv S (enqueue_extension_message rpc t im sb st)"
proof -
  have "runtime_inv S (publish_queue_snapshot (st\<lparr>queue_mirror := fst (enqueue_local None t t im la Extension (queue_mirror st))\<rparr>))" for la
    unfolding runtime_inv_publish
    using assms by (intro runtime_inv_mirror enqueue_local_inv) (simp_all add: runtime_inv_def)
  then show ?thesis using assms
    by (auto simp: enqueue_extension_message_def Let_def intro: runtime_inv_dispatch)
qed

lemma runtime_inv_begin_interject:
  assumes "runtime_inv S st"
  shows "runtime_inv S (fst (begin_interject i v nt st))"
proof (cases "snd (take_local i v (queue_mirror st))")
  case None
  then show ?thesis using assms
    by (cases "take_local i v (queue_mirror st)") (simp add: begin_interject_def)
next
  case (Some e0)
  then obtain m where t: "take_local i v (queue_mirror st) = (m, Some e0)" by (metis prod.collapse)
  have ok: "mirror_inv m"
    using take_local_inv [of "queue_mirror st" i v] assms t by (simp add: runtime_inv_def)
  have reserved: "runtime_inv S (st3\<lparr>queue_mirror := reserve j et dt im la g m\<rparr>)"
    if "runtime_inv S st3" for st3 j et dt im la g
    using that ok by (intro runtime_inv_mirror reserve_inv)
  have "runtime_inv S (st\<lparr>queue_mirror := m\<rparr>)" "runtime_inv S (st\<lparr>queue_mirror := push_front_local e m\<rparr>)" for e
    using assms ok push_front_local_inv by (auto intro!: runtime_inv_mirror)
  moreover note runtime_inv_activate [OF runtime_inv_prepare [OF this(1)]]
  ultimately show ?thesis
    by (simp add: begin_interject_def t Let_def case_prod_unfold reserved)
qed

lemma runtime_inv_interject:
  assumes "runtime_inv S st"
  shows "runtime_inv S (fst (interject_local_queue rpc i v nt st))"
proof -
  obtain st1 p where b: "begin_interject i v nt st = (st1, p)" by fastforce
  have "runtime_inv S st1" using runtime_inv_begin_interject [OF assms, of i v nt] b by simp
  then show ?thesis
    by (cases p) (auto simp: interject_local_queue_def b request_def requested_def [symmetric]
        runtime_inv_dispatch runtime_inv_fail_interject split: option.split)
qed

lemma runtime_inv_flush: "runtime_inv S st \<Longrightarrow> runtime_inv S (flush_pending_steering rpc st)"
proof (induction rpc st rule: flush_pending_steering.induct)
  case (1 rpc st)
  show ?case
  proof (cases "next_steering st")
    case (Some iv)
    obtain i v where iv: "iv = (i, v)" by fastforce
    obtain st' ok where s: "interject_local_queue rpc i (Some v) None st = (st', ok)" by fastforce
    have "runtime_inv S st'" using runtime_inv_interject [OF 1(2), of rpc i "Some v" None] s by simp
    then show ?thesis using 1(1) [OF Some iv [symmetric] s [symmetric]] s Some iv
      by (cases ok) (simp_all add: flush_pending_steering.simps [of rpc st])
  qed (use 1 in \<open>simp add: flush_pending_steering.simps\<close>)
qed

lemma collect_completions_spec:
  "distinct (map fst (queued_prompt_completions st)) \<Longrightarrow> collect_completions es st = (st', cs) \<Longrightarrow>
     \<exists>q. st' = st\<lparr>queued_prompt_completions := q\<rparr> \<and> distinct (map fst q) \<and>
         mset (map snd (queued_prompt_completions st)) = mset (map snd q) + mset (map snd cs)"
proof (induction es arbitrary: st st' cs)
  case (Cons e es)
  let ?q = "filter (\<lambda>(k, _). k \<noteq> qe_id e) (queued_prompt_completions st)"
  obtain cs1 where cs1: "collect_completions es (st\<lparr>queued_prompt_completions := ?q\<rparr>) = (st', cs1)"
    "cs = (case map_of (queued_prompt_completions st) (qe_id e) of None \<Rightarrow> cs1 | Some k \<Rightarrow> (qe_id e, k) # cs1)"
    using Cons.prems(2) by (auto simp: completion_remove_def Let_def split: prod.splits)
  have "distinct (map fst ?q)" using Cons.prems(1) by (simp add: distinct_map_filter)
  with Cons.IH [OF _ cs1(1)] obtain q where "st' = st\<lparr>queued_prompt_completions := q\<rparr>" "distinct (map fst q)"
    "mset (map snd ?q) = mset (map snd q) + mset (map snd cs1)" by auto
  then show ?case using mset_map_of_remove [OF Cons.prems(1), of "qe_id e"] cs1(2)
    by (auto split: option.splits)
next
  case Nil
  then show ?case by (intro exI [of _ "queued_prompt_completions st"]) auto
qed

lemma used_senders_complete:
  "used_senders (map (\<lambda>(i, k). Complete k (f i)) cs) = map snd cs"
  by (induction cs) auto

lemma runtime_inv_finish:
  assumes "runtime_inv S st"
  shows "runtime_inv S (finish_queued_entries es r st)"
proof -
  obtain st' cs where c: "collect_completions es st = (st', cs)" by fastforce
  have "distinct (map fst (queued_prompt_completions st))" using assms by (simp add: runtime_inv_def)
  from collect_completions_spec [OF this c] obtain q where "st' = st\<lparr>queued_prompt_completions := q\<rparr>"
    "distinct (map fst q)" "mset (map snd (queued_prompt_completions st)) = mset (map snd q) + mset (map snd cs)" by blast
  then show ?thesis using assms
    by (simp add: finish_queued_entries_def c runtime_inv_def senders_def used_senders_complete ac_simps del: mset_map)
qed

lemma runtime_inv_update: "runtime_inv S st \<Longrightarrow> runtime_inv S (apply_pi_queue_update ev st)"
  unfolding apply_pi_queue_update_def runtime_inv_publish
  by (intro runtime_inv_mirror apply_queue_update_inv) (simp_all add: runtime_inv_def)

datatype runtime_call =
    PiQueueUpdate json
  | Dispatch
  | ExtensionMessage rstr "json list" "rstr option"
  | Interject_row rstr "nat option" "rstr option"
  | Flush_steering
  | Finish_entries "json QueueEntry list" StopReason

fun runtime_step :: "pi_rpc \<Rightarrow> runtime_call \<Rightarrow> AdapterState \<Rightarrow> AdapterState" where
  "runtime_step rpc (PiQueueUpdate ev) st = apply_pi_queue_update ev st"
| "runtime_step rpc Dispatch st = fst (dispatch_next_queued rpc st)"
| "runtime_step rpc (ExtensionMessage t im sb) st = enqueue_extension_message rpc t im sb st"
| "runtime_step rpc (Interject_row i v nt) st = fst (interject_local_queue rpc i v nt st)"
| "runtime_step rpc Flush_steering st = flush_pending_steering rpc st"
| "runtime_step rpc (Finish_entries es r) st = finish_queued_entries es r st"

interpretation runtime: op_machine "runtime_inv S" "runtime_step rpc" "runtime_inv S" for S rpc
proof
  show "runtime_inv S (runtime_step rpc c st)" if "runtime_inv S st" for c st
    using that by (cases c)
      (simp_all add: runtime_inv_update runtime_inv_dispatch runtime_inv_enqueue runtime_inv_interject
        runtime_inv_flush runtime_inv_finish)
qed

section \<open>Dispatch leaves nothing behind\<close>

lemma take_active_fields:
  "cancelling (fst (take_active_opt a st)) = cancelling st"
  "bash_running (fst (take_active_opt a st)) = bash_running st"
  by (auto simp: take_active_opt_def take_active_prompt_def split: option.split)

lemma fail_dispatch_fields:
  "\<not> agent_running (fail_dispatch entry a err st)" "running (queue_mirror (fail_dispatch entry a err st)) = None"
  "cancelling (fail_dispatch entry a err st) = cancelling st"
  "bash_running (fail_dispatch entry a err st) = bash_running st"
  "active_prompts (fail_dispatch entry a err st) = active_prompts (fst (take_active_opt a st))"
proof -
  obtain st1 act where t: "take_active_opt a st = (st1, act)" by fastforce
  have f: "cancelling st1 = cancelling st" "bash_running st1 = bash_running st"
    using take_active_fields [of a st] by (simp_all add: t)
  show "\<not> agent_running (fail_dispatch entry a err st)" "running (queue_mirror (fail_dispatch entry a err st)) = None"
    "cancelling (fail_dispatch entry a err st) = cancelling st"
    "bash_running (fail_dispatch entry a err st) = bash_running st"
    "active_prompts (fail_dispatch entry a err st) = active_prompts (fst (take_active_opt a st))"
    by (cases act; simp add: fail_dispatch_def t f notify_defs clear_running_def)+
qed

lemma fail_dispatch_idle:
  assumes "begin_dispatch st = Some (st1, entry, a)"
  shows "\<not> adapter_busy (fail_dispatch entry a err (requested (announce_dispatch st1)))"
proof -
  obtain m e0 t st2 st3 where b: "\<not> adapter_busy st" "pop_next_local (queue_mirror st) = (m, Some e0)"
    "prepare_execution_text (st\<lparr>queue_mirror := m\<rparr>) (qe_execution_text e0) = (st2, t)"
    "activate_queued_client (qe_id e0) st2 = (st3, a)"
    "st1 = st3\<lparr>agent_running := True, live_prompt_id := Some (qe_id e0), queue_mirror := set_running entry (queue_mirror st3)\<rparr>"
    using assms by (rule begin_dispatch_Some)
  have "active_prompts st2 = [] \<and> \<not> cancelling st2 \<and> \<not> bash_running st2"
    using b(1,3) by (auto simp: prepare_execution_text_def adapter_busy_def split: prod.splits option.splits)
  then have "\<not> cancelling st1 \<and> \<not> bash_running st1 \<and>
      (case a of None \<Rightarrow> active_prompts st1 = [] | Some i \<Rightarrow> \<exists>ap. active_prompts st1 = [ap] \<and> ap_id ap = i)"
    using b(4,5) by (auto simp: activate_queued_client_def completion_remove_def split: option.splits)
  then show ?thesis
    by (cases a) (auto simp: fail_dispatch_fields adapter_busy_def take_active_opt_def take_active_prompt_def)
qed

text \<open>
  What a dispatch is meant to do, as a specification: the rows it tried and Pi refused, with the
  errors, in the order of the requests; and what the outside is told about them. A refused row
  with a waiting client is answered \<open>Cancelled\<close>, one without is announced as cancelled, and either
  way the user sees the error.
\<close>

definition prompts_row :: "json QueueEntry \<Rightarrow> json QueueEntry \<Rightarrow> bool" where
  "prompts_row e row \<longleftrightarrow> e = row\<lparr>qe_execution_text := qe_execution_text e\<rparr> \<and>
     suffix (qe_execution_text row) (qe_execution_text e)"

fun refused_by :: "pi_rpc \<Rightarrow> nat \<Rightarrow> (json QueueEntry \<times> rstr) list \<Rightarrow> bool" where
  "refused_by rpc n [] \<longleftrightarrow> True"
| "refused_by rpc n ((e, err) # rs) \<longleftrightarrow> rpc n (prompt_request e False) = Some err \<and> refused_by rpc (n + 1) rs"

definition refusal_report :: "rstr \<Rightarrow> (rstr \<times> nat) list \<Rightarrow> json QueueEntry \<Rightarrow> rstr \<Rightarrow> effect list" where
  "refusal_report sid qs e err =
     [case map_of qs (qe_id e) of
        Some k \<Rightarrow> Complete k \<lparr>pc_reason = Cancelled, pc_client_prompt_id = Some (qe_id e)\<rparr>
      | None \<Rightarrow> ExtNotification (lit ''x.ai/session/prompt_complete'') (JObject
          [(lit ''sessionId'', JString sid), (lit ''promptId'', JString (qe_id e)),
           (lit ''stopReason'', JString (lit ''cancelled'')), (lit ''agentResult'', JNull)]),
      ExtNotification (lit ''pi/ui/notify'') (JObject
        [(lit ''message'', JString (lit ''Queued Pi message failed: '' @ err)),
         (lit ''notifyType'', JString (lit ''error''))])]"

fun refusal_reports :: "rstr \<Rightarrow> (rstr \<times> nat) list \<Rightarrow> (json QueueEntry \<times> rstr) list \<Rightarrow> effect list" where
  "refusal_reports sid qs [] = []"
| "refusal_reports sid qs ((e, err) # rs) =
     refusal_report sid qs e err @ refusal_reports sid (filter (\<lambda>(k, _). k \<noteq> qe_id e) qs) rs"

definition outcomes :: "effect list \<Rightarrow> effect list" where
  "outcomes = filter (\<lambda>x. case x of
       Complete _ _ \<Rightarrow> True
     | ExtNotification m _ \<Rightarrow> m = lit ''x.ai/session/prompt_complete'' \<or> m = lit ''pi/ui/notify''
     | _ \<Rightarrow> False)"

lemma outcomes_append [simp]: "outcomes (xs @ ys) = outcomes xs @ outcomes ys"
  by (simp add: outcomes_def)

lemma outcomes_announce [simp]:
  "outcomes (effects (publish_queue_snapshot st)) = outcomes (effects st)"
  "outcomes (effects (announce_dispatch st)) = outcomes (effects st)"
  by (simp_all add: notify_defs outcomes_def lit_def)

lemma activate_fields:
  assumes "activate_queued_client i st = (st', a)"
  shows "effects st' = effects st" "acp_session_id st' = acp_session_id st" "rpc_calls st' = rpc_calls st"
    and "queued_prompt_completions st' = filter (\<lambda>(k, _). k \<noteq> i) (queued_prompt_completions st)"
    and "case map_of (queued_prompt_completions st) i of
        None \<Rightarrow> a = None \<and> st' = st
      | Some k \<Rightarrow> \<exists>ap. a = Some (ap_id ap) \<and> active_prompts st' = active_prompts st @ [ap] \<and>
          ap_completion ap = k \<and> ap_client_prompt_id ap = Some i"
proof -
  have "filter (\<lambda>(k, _). k \<noteq> i) qs = qs" if "map_of qs i = None" for qs :: "(rstr \<times> nat) list"
    using that by (auto simp: map_of_eq_None_iff filter_id_conv image_iff)
  then show "effects st' = effects st" "acp_session_id st' = acp_session_id st" "rpc_calls st' = rpc_calls st"
    "queued_prompt_completions st' = filter (\<lambda>(k, _). k \<noteq> i) (queued_prompt_completions st)"
    "case map_of (queued_prompt_completions st) i of
        None \<Rightarrow> a = None \<and> st' = st
      | Some k \<Rightarrow> \<exists>ap. a = Some (ap_id ap) \<and> active_prompts st' = active_prompts st @ [ap] \<and>
          ap_completion ap = k \<and> ap_client_prompt_id ap = Some i"
    using assms by (auto simp: activate_queued_client_def completion_remove_def split: option.splits)
qed

lemma prepare_text:
  assumes "prepare_execution_text st t = (st', t')"
  shows "suffix t t'" "acp_session_id st' = acp_session_id st" "rpc_calls st' = rpc_calls st"
  using assms by (auto simp: prepare_execution_text_def suffix_def split: prod.splits option.splits if_splits)

text \<open>What one round of the loop has done when the request is about to be sent.\<close>

lemma begin_dispatch_round:
  assumes "begin_dispatch st = Some (st1, entry, a)"
  obtains row where "held st = row # held st1" "prompts_row entry row"
    "running (queue_mirror st1) = Some entry" "live_prompt_id st1 = Some (qe_id entry)" "agent_running st1"
    "effects st1 = effects st" "acp_session_id st1 = acp_session_id st" "rpc_calls st1 = rpc_calls st"
    "queued_prompt_completions st1 = filter (\<lambda>(k, _). k \<noteq> qe_id entry) (queued_prompt_completions st)"
    "case map_of (queued_prompt_completions st) (qe_id entry) of
        None \<Rightarrow> a = None
      | Some k \<Rightarrow> \<exists>ap. a = Some (ap_id ap) \<and> active_prompts st1 = [ap] \<and>
          ap_completion ap = k \<and> ap_client_prompt_id ap = Some (qe_id entry)"
proof -
  obtain m e0 t st2 st3 where b: "\<not> adapter_busy st" "pop_next_local (queue_mirror st) = (m, Some e0)"
    "prepare_execution_text (st\<lparr>queue_mirror := m\<rparr>) (qe_execution_text e0) = (st2, t)"
    "activate_queued_client (qe_id e0) st2 = (st3, a)" "entry = e0\<lparr>qe_execution_text := t\<rparr>"
    "st1 = st3\<lparr>agent_running := True, live_prompt_id := Some (qe_id e0), queue_mirror := set_running entry (queue_mirror st3)\<rparr>"
    using assms by (rule begin_dispatch_Some)
  have p: "queued_prompt_completions st2 = queued_prompt_completions st" "effects st2 = effects st"
    "active_prompts st2 = []"
    using prepare_fields [of "st\<lparr>queue_mirror := m\<rparr>" "qe_execution_text e0"] b(1) by (auto simp: b(3) adapter_busy_def)
  note act = activate_fields [OF b(4), unfolded p] and pt = prepare_text [OF b(3)]
  obtain r where r: "held st = r # held st1" "qe_id entry = qe_id r" using begin_dispatch_held [OF assms] by blast
  moreover have "r = e0" using b(2) r(1) by (auto simp: pop_next_local_def split: list.splits)
  ultimately show thesis using act pt b(5,6)
    by (intro that [of e0]) (auto simp: prompts_row_def set_running_def split: option.splits)
qed

lemma fail_dispatch_round:
  fixes err :: rstr
  assumes "begin_dispatch st = Some (st1, entry, a)"
  defines "f \<equiv> fail_dispatch entry a err (requested (announce_dispatch st1))"
  shows "rpc_calls f = rpc_calls st + 1" "acp_session_id f = acp_session_id st"
    and "queued_prompt_completions f = filter (\<lambda>(k, _). k \<noteq> qe_id entry) (queued_prompt_completions st)"
    and "outcomes (effects f) = outcomes (effects st) @
      refusal_report (acp_session_id st) (queued_prompt_completions st) entry err"
proof -
  let ?r = "requested (announce_dispatch st1)"
  obtain row where b: "effects st1 = effects st" "acp_session_id st1 = acp_session_id st" "rpc_calls st1 = rpc_calls st"
    "queued_prompt_completions st1 = filter (\<lambda>(k, _). k \<noteq> qe_id entry) (queued_prompt_completions st)"
    "case map_of (queued_prompt_completions st) (qe_id entry) of
        None \<Rightarrow> a = None
      | Some k \<Rightarrow> \<exists>ap. a = Some (ap_id ap) \<and> active_prompts st1 = [ap] \<and>
          ap_completion ap = k \<and> ap_client_prompt_id ap = Some (qe_id entry)"
    using assms(1) by (rule begin_dispatch_round)
  have r: "outcomes (effects ?r) = outcomes (effects st)" "acp_session_id ?r = acp_session_id st"
    "rpc_calls ?r = rpc_calls st + 1" "queued_prompt_completions ?r = queued_prompt_completions st1"
    by (simp_all add: requested_def b) (simp_all add: notify_defs b)
  show "rpc_calls f = rpc_calls st + 1" "acp_session_id f = acp_session_id st"
    "queued_prompt_completions f = filter (\<lambda>(k, _). k \<noteq> qe_id entry) (queued_prompt_completions st)"
    using r b(4) by (auto simp: f_def fail_dispatch_def take_active_opt_def take_active_prompt_def notify_defs
        split: option.split prod.split)
  show "outcomes (effects f) = outcomes (effects st) @
      refusal_report (acp_session_id st) (queued_prompt_completions st) entry err"
  proof (cases "map_of (queued_prompt_completions st) (qe_id entry)")
    case None
    then have "take_active_opt a ?r = (?r, None)" using b(5) by (simp add: take_active_opt_def)
    then show ?thesis using None r
      by (simp add: f_def fail_dispatch_def)
        (simp add: notify_defs outcomes_def refusal_report_def stop_reason_wire_def opt_string_def lit_def)
  next
    case (Some k)
    then obtain ap where ap: "a = Some (ap_id ap)" "active_prompts ?r = [ap]"
      "ap_completion ap = k" "ap_client_prompt_id ap = Some (qe_id entry)" using b(5) by auto
    then have "take_active_opt a ?r = (?r\<lparr>active_prompts := []\<rparr>, Some ap)"
      by (simp add: take_active_opt_def take_active_prompt_def remove_at_def)
    then show ?thesis using Some r ap
      by (simp add: f_def fail_dispatch_def)
        (simp add: notify_defs outcomes_def refusal_report_def opt_string_def lit_def)
  qed
qed

lemma dispatch_outcome:
  "\<not> adapter_busy st \<Longrightarrow> dispatch_next_queued rpc st = (st', ok) \<Longrightarrow>
     \<exists>refused rows. refused_by rpc (rpc_calls st) refused \<and> list_all2 prompts_row (map fst refused) rows \<and>
       outcomes (effects st') = outcomes (effects st) @
         refusal_reports (acp_session_id st) (queued_prompt_completions st) refused \<and>
       (if ok then agent_running st' \<and> (\<exists>e row. held st = rows @ row # held st' \<and> prompts_row e row \<and>
            rpc (rpc_calls st + length refused) (prompt_request e False) = None \<and>
            rpc_calls st' = rpc_calls st + length refused + 1 \<and>
            running (queue_mirror st') = Some e \<and> live_prompt_id st' = Some (qe_id e))
        else held st = rows \<and> rpc_calls st' = rpc_calls st + length refused \<and> held st' = [] \<and> \<not> adapter_busy st')"
proof (induction "length (held st)" arbitrary: st rule: less_induct)
  case less
  show ?case
  proof (cases rule: dispatch_cases [of st rpc])
    case idle
    then have "held st = []" using less(2)
      by (auto simp: begin_dispatch_def pop_next_local_def Let_def split: list.splits prod.splits)
    then show ?thesis using idle less(2,3) by (intro exI [of _ "[]"]) auto
  next
    case (sent st1 entry a)
    have st': "st' = requested (announce_dispatch st1)" "ok" using sent less(3) by auto
    have calls: "rpc_calls (announce_dispatch st1) = rpc_calls st1" by (simp add: notify_defs)
    obtain row where r: "held st = row # held st1" "prompts_row entry row"
      "running (queue_mirror st1) = Some entry" "live_prompt_id st1 = Some (qe_id entry)" "agent_running st1"
      "effects st1 = effects st" "rpc_calls st1 = rpc_calls st"
      using sent(1) by (rule begin_dispatch_round)
    have "outcomes (effects st') = outcomes (effects st)" "rpc_calls st' = rpc_calls st + 1"
      by (simp_all add: st'(1) requested_def r calls)
    then show ?thesis using st' r sent(3) calls
      by (intro exI [of _ "[]"]) (auto intro!: exI [of _ entry] exI [of _ row])
  next
    case (failed st1 entry a err)
    let ?f = "fail_dispatch entry a err (requested (announce_dispatch st1))"
    note fr = fail_dispatch_round [OF failed(1), of err]
    obtain row where r: "held st = row # held st1" "prompts_row entry row" "rpc_calls st1 = rpc_calls st"
      using failed(1) by (rule begin_dispatch_round)
    have now: "rpc (rpc_calls st) (prompt_request entry False) = Some err"
      using failed(2) r(3) by (simp add: notify_defs)
    have h: "held st = row # held ?f" using r(1) by simp
    obtain refused rows where ih: "refused_by rpc (rpc_calls ?f) refused" "list_all2 prompts_row (map fst refused) rows"
      "outcomes (effects st') = outcomes (effects ?f) @
         refusal_reports (acp_session_id ?f) (queued_prompt_completions ?f) refused"
      "if ok then agent_running st' \<and> (\<exists>e row. held ?f = rows @ row # held st' \<and> prompts_row e row \<and>
            rpc (rpc_calls ?f + length refused) (prompt_request e False) = None \<and>
            rpc_calls st' = rpc_calls ?f + length refused + 1 \<and>
            running (queue_mirror st') = Some e \<and> live_prompt_id st' = Some (qe_id e))
       else held ?f = rows \<and> rpc_calls st' = rpc_calls ?f + length refused \<and> held st' = [] \<and> \<not> adapter_busy st'"
      using less(1) [of ?f] fail_dispatch_idle [OF failed(1)] failed(3) less(3) h by auto
    show ?thesis
      by (intro exI [of _ "(entry, err) # refused"] exI [of _ "row # rows"])
        (use ih r(2) now h in \<open>auto simp: fr split: if_splits\<close>)
  qed
qed

text \<open>A failed dispatch does not give back the reminder it had put before the prompt: an exit reminder
  that was owed is gone although Pi refused the prompt that carried it.\<close>

lemma fail_dispatch_plan [simp]: "plan_mode (fail_dispatch entry a err st) = plan_mode st"
  by (auto simp: fail_dispatch_def notify_defs take_active_opt_def take_active_prompt_def
      split: option.split prod.split)

lemma failed_dispatch_consumes_reminder:
  assumes "begin_dispatch st = Some (st1, entry, a)" "plan_state (plan_mode st) = Inactive"
    "pending_exit_reminder (plan_mode st)"
  shows "\<not> pending_exit_reminder (plan_mode (fail_dispatch entry a err (requested (announce_dispatch st1))))"
proof -
  obtain m e0 t st2 st3 where b0: "\<not> adapter_busy st" "pop_next_local (queue_mirror st) = (m, Some e0)" and b:
    "prepare_execution_text (st\<lparr>queue_mirror := m\<rparr>) (qe_execution_text e0) = (st2, t)"
    "activate_queued_client (qe_id e0) st2 = (st3, a)"
    "st1 = st3\<lparr>agent_running := True, live_prompt_id := Some (qe_id e0), queue_mirror := set_running entry (queue_mirror st3)\<rparr>"
    using assms(1) by (rule begin_dispatch_Some)
  have "\<not> pending_exit_reminder (plan_mode st2)"
    using b(1) assms(2,3) by (auto simp: prepare_execution_text_def build_reminder_for_prompt_def
        clear_pending_exit_reminder_def split: prod.splits option.splits)
  then show ?thesis using activate_held(5) [of "qe_id e0" st2] by (simp add: b(2,3) requested_def notify_defs)
qed

section \<open>Flushing the steering lane\<close>

lemma flush_step:
  assumes "next_steering st = Some (i, v)" "distinct (map qe_id (held st))" "\<And>n r. rpc n r = None"
  shows "\<exists>st' k. interject_local_queue rpc i (Some v) None st = (st', True) \<and> held st' = remove_at k (held st) \<and>
    k < length (held st) \<and> qe_lane (held st ! k) = Steering \<and> agent_running st' \<and> \<not> cancelling st'"
proof -
  note run = next_steering_position [OF assms(1)]
  obtain k where k: "position (\<lambda>e. qe_id e = i \<and> v = qe_version e) (held st) = Some k" using run(3) by blast
  then have kk: "k < length (held st)" "qe_id (held st ! k) = i" using position_Some by blast+
  have "\<exists>e\<in>set (held st). qe_id e = i \<and> qe_lane e = Steering"
    using assms(1) by (auto simp: next_steering_def next_local_in_lane_def find_Some_iff split: if_splits)
  then obtain e where e: "e \<in> set (held st)" "qe_id e = i" "qe_lane e = Steering" by blast
  have "e = held st ! k"
    using e kk assms(2) by (metis distinct_map inj_on_eq_iff nth_mem)
  moreover obtain st1 entry a where b: "begin_interject i (Some v) None st = (st1, Steer entry a)"
    "held st1 = remove_at k (held st)" "agent_running st1" "\<not> cancelling st1"
    using begin_interject_running [of st i "Some v" k None] run k by auto
  ultimately show ?thesis using e kk
    by (auto simp: interject_local_queue_def request_def assms(3))
qed

lemma flush_all:
  assumes "distinct (map qe_id (held st))" "agent_running st" "\<not> cancelling st" "\<And>n r. rpc n r = None"
  shows "held (flush_pending_steering rpc st) = filter (\<lambda>e. qe_lane e \<noteq> Steering) (held st)"
  using assms(1,2,3)
proof (induction "length (held st)" arbitrary: st rule: less_induct)
  case less
  show ?case
  proof (cases "next_steering st")
    case None
    then have "\<forall>e\<in>set (held st). qe_lane e \<noteq> Steering"
      using less(3,4) by (auto simp: next_steering_def next_local_in_lane_def find_None_iff split: if_splits)
    then show ?thesis using None by (simp add: flush_pending_steering.simps [of rpc st])
  next
    case (Some iv)
    obtain i v where iv: "iv = (i, v)" by fastforce
    then obtain st' k where s: "interject_local_queue rpc i (Some v) None st = (st', True)"
      "held st' = remove_at k (held st)" "k < length (held st)" "qe_lane (held st ! k) = Steering"
      "agent_running st'" "\<not> cancelling st'"
      using flush_step [of st i v rpc] less(2) Some assms(4) by blast
    have "length (held st') < length (held st)" using s(2,3) by (simp add: length_remove_at)
    moreover have "distinct (map qe_id (held st'))" using less(2) by (simp add: s(2) map_remove_at distinct_remove_at)
    moreover have "filter (\<lambda>e. qe_lane e \<noteq> Steering) (held st) = filter (\<lambda>e. qe_lane e \<noteq> Steering) (remove_at k (held st))"
      using s(4) by (subst id_take_nth_drop [OF s(3)]) (simp add: remove_at_def)
    ultimately show ?thesis using less(1) [of st'] s Some iv
      by (simp add: flush_pending_steering.simps [of rpc st])
  qed
qed

section \<open>Properties\<close>

text \<open>
  C4: every waiting client is answered at most once and never forgotten. Over any sequence of queue
  handlers, whatever Pi answers, the senders of the queued completions, of the active prompts and of
  the completions already sent are the same multiset; so a sender is used at most once, and one that
  was not used is still held. The invariants of the queue mirror and of the plan tracker are kept.
\<close>

theorem runtime_conserves_clients:
  assumes "distinct (map fst (queued_prompt_completions st))"
    and "mirror_inv (queue_mirror st)" and "plan_inv (plan_mode st)"
  shows "let st' = fold (runtime_step rpc) calls st in
    senders st' = senders st \<and> mirror_inv (queue_mirror st') \<and> plan_inv (plan_mode st')"
proof -
  have "runtime_inv (senders st) st" using assms by (simp add: runtime_inv_def)
  then have "runtime_inv (senders st) (fold (runtime_step rpc) calls st)" by (rule runtime.reach_inv)
  then show ?thesis by (simp add: runtime_inv_def Let_def)
qed

definition sample_adapter :: "json QueueEntry list \<Rightarrow> (rstr \<times> nat) list \<Rightarrow> bool \<Rightarrow> AdapterState" where
  "sample_adapter es qs r = \<lparr>acp_session_id = [115], active_prompts = [], queued_prompt_completions = qs,
     next_prompt_id = 1, agent_running = r, cancelling = False, bash_running = False, live_prompt_id = None,
     queue_mirror = empty_mirror\<lparr>local_entries := es\<rparr>, plan_mode = with_plan_file [], rpc_calls = 0, effects = []\<rparr>"

definition sample_row :: "nat \<Rightarrow> QueueLane \<Rightarrow> json QueueEntry" where
  "sample_row i la = \<lparr>qe_id = [i], qe_execution_text = [120], qe_display_text = [120], qe_images = [],
     qe_version = 0, qe_lane = la, qe_origin = Client\<rparr>"

theorem runtime_conserves_clients_witness:
  "senders (fold (runtime_step (\<lambda>n r. if n = 0 then Some [] else None)) [Dispatch, Flush_steering]
     (sample_adapter [sample_row 97 FollowUp, sample_row 98 FollowUp] [([97], 7), ([98], 8)] False)) = {#7, 8#}"
  using runtime_conserves_clients [of "sample_adapter [sample_row 97 FollowUp, sample_row 98 FollowUp] [([97], 7), ([98], 8)] False"
      "\<lambda>n r. if n = 0 then Some [] else None" "[Dispatch, Flush_steering]"]
  by (simp add: sample_adapter_def sample_row_def mirror_inv_def empty_mirror_def plan_inv_def with_plan_file_def
      senders_def Let_def)

text \<open>
  C5: dispatch strands no row and drops none unsent. A busy adapter does nothing. An idle one sends
  the held rows to Pi one after another, in order, each possibly with a reminder before its text,
  one request per row. The rows whose request Pi refused are exactly the rows before the one it
  starts, and each of them is reported: its client is answered \<open>Cancelled\<close>, or, without a client, it
  is announced as cancelled, and the user is shown the error; nothing else is reported. The row it
  starts is the first whose request Pi accepts, and the rows after it are still held, in order. It
  returns false only when every held row was requested and refused; then it is idle and holds no row.
\<close>

theorem dispatch_never_strands:
  "case dispatch_next_queued rpc st of (st', ok) \<Rightarrow>
     if adapter_busy st then st' = st \<and> \<not> ok
     else \<exists>refused rows. refused_by rpc (rpc_calls st) refused \<and> list_all2 prompts_row (map fst refused) rows \<and>
       outcomes (effects st') = outcomes (effects st) @
         refusal_reports (acp_session_id st) (queued_prompt_completions st) refused \<and>
       (if ok then agent_running st' \<and> (\<exists>e row. held st = rows @ row # held st' \<and> prompts_row e row \<and>
            rpc (rpc_calls st + length refused) (prompt_request e False) = None \<and>
            rpc_calls st' = rpc_calls st + length refused + 1 \<and>
            running (queue_mirror st') = Some e \<and> live_prompt_id st' = Some (qe_id e))
        else held st = rows \<and> rpc_calls st' = rpc_calls st + length refused \<and> held st' = [] \<and> \<not> adapter_busy st')"
proof (cases "adapter_busy st")
  case True
  then show ?thesis by (simp add: dispatch_next_queued.simps begin_dispatch_def)
next
  case False
  obtain st' ok where d: "dispatch_next_queued rpc st = (st', ok)" by fastforce
  from dispatch_outcome [OF False d] show ?thesis using False by (simp only: d prod.case if_False)
qed

text \<open>
  the safe-point flush delivers the steering lane. While the agent runs, nothing is being
  cancelled and Pi accepts the requests, the flush ends with every held steering row handed over and
  the follow-up rows still held, in order.
\<close>

lemma flush_delivers_steering:
  assumes "mirror_inv (queue_mirror st)" and "agent_running st" and "\<not> cancelling st"
    and "\<forall>n r. rpc n r = None"
  shows "held (flush_pending_steering rpc st) = filter (\<lambda>e. qe_lane e \<noteq> Steering) (held st)"
  using assms by (intro flush_all) (simp_all add: mirror_inv_def)

theorem flush_delivers_steering_witness:
  "held (flush_pending_steering (\<lambda>n r. None)
     (sample_adapter [sample_row 97 Steering, sample_row 98 FollowUp, sample_row 99 Steering] [] True)) =
   [sample_row 98 FollowUp]"
  using flush_delivers_steering [of "sample_adapter [sample_row 97 Steering, sample_row 98 FollowUp, sample_row 99 Steering] [] True"
      "\<lambda>n r. None"]
  by (simp add: sample_adapter_def sample_row_def mirror_inv_def empty_mirror_def)

text \<open>
  cancellation is a barrier. While the adapter is cancelling, an extension message is dropped,
  dispatch and flush change nothing, and an interjection sends nothing to Pi.
\<close>

lemma cancelling_is_a_barrier:
  assumes "cancelling st"
  shows "enqueue_extension_message rpc t im sb st = st \<and>
    rpc_calls (fst (interject_local_queue rpc i v nt st)) = rpc_calls st \<and>
    dispatch_next_queued rpc st = (st, False) \<and> flush_pending_steering rpc st = st"
proof -
  have "begin_dispatch st = None" using assms by (simp add: begin_dispatch_def adapter_busy_def)
  moreover have "rpc_calls (fst (interject_local_queue rpc i v nt st)) = rpc_calls st"
    using assms by (auto simp: interject_local_queue_def begin_interject_def notify_defs
        split: prod.splits option.splits)
  ultimately show ?thesis using assms
    by (simp add: enqueue_extension_message_def dispatch_next_queued.simps flush_pending_steering.simps next_steering_def Let_def)
qed

theorem cancelling_is_a_barrier_witness:
  "dispatch_next_queued (\<lambda>n r. None) ((sample_adapter [sample_row 97 FollowUp] [] False)\<lparr>cancelling := True\<rparr>) =
     ((sample_adapter [sample_row 97 FollowUp] [] False)\<lparr>cancelling := True\<rparr>, False)"
  using cancelling_is_a_barrier [of "(sample_adapter [sample_row 97 FollowUp] [] False)\<lparr>cancelling := True\<rparr>" "\<lambda>n r. None"]
  by simp

end
