(* ===== verification/Prompt_Combine.thy ===== *)
theory Prompt_Combine
  imports Json
begin

text \<open>
  \<open>xai-prompt-queue\<close>: the merge rules for queued prompts (\<open>combine.rs\<close>) and the wire types of the
  shared queue (\<open>types.rs\<close>) with the object form of their derived serde encoding: \<open>camelCase\<close>
  keys, defaults for missing fields, absent options omitted.
\<close>

section \<open>Merge rules\<close>

definition TEXT_SEPARATOR :: rstr where
  "TEXT_SEPARATOR = [10, 10]"

definition COMBINED_DISPLAY_TEXTS_META :: rstr where
  "COMBINED_DISPLAY_TEXTS_META = lit ''combinedDisplayTexts''"

record CombineGate =
  cg_id :: rstr
  is_plain_prompt :: bool
  is_synthetic :: bool
  is_expanded_skill :: bool
  is_bash :: bool
  has_images :: bool
  cg_text :: rstr

definition can_merge_front :: "CombineGate \<Rightarrow> bool" where
  "can_merge_front g \<longleftrightarrow>
     is_plain_prompt g \<and> \<not> is_synthetic g \<and> \<not> is_expanded_skill g \<and> \<not> is_bash g \<and> cg_text g \<noteq> []"

definition can_merge_follower :: "CombineGate \<Rightarrow> rstr list \<Rightarrow> bool" where
  "can_merge_follower g skip_ids \<longleftrightarrow>
     can_merge_front g \<and> \<not> has_images g \<and> cg_id g \<notin> set skip_ids"

fun count_followers :: "rstr list \<Rightarrow> CombineGate list \<Rightarrow> nat \<Rightarrow> nat" where
  "count_followers skip_ids [] n = n"
| "count_followers skip_ids (g # gs) n =
     (if can_merge_follower g skip_ids then count_followers skip_ids gs (n + 1) else n)"

definition combine_prefix_len :: "CombineGate list \<Rightarrow> rstr list \<Rightarrow> nat" where
  "combine_prefix_len items skip_ids =
     (case items of
        [] \<Rightarrow> 0
      | front # rest \<Rightarrow> if can_merge_front front then count_followers skip_ids rest 1 else 1)"

definition join_texts :: "rstr list \<Rightarrow> rstr" where
  "join_texts texts = join TEXT_SEPARATOR (filter (\<lambda>t. t \<noteq> []) texts)"

definition is_combined :: "rstr list \<Rightarrow> bool" where
  "is_combined segs \<longleftrightarrow> 2 \<le> length segs"

definition stamp_combined_display_texts :: "rstr list \<Rightarrow> (rstr \<times> json) list \<Rightarrow> (rstr \<times> json) list" where
  "stamp_combined_display_texts segs meta =
     (if is_combined segs
      then AList.update COMBINED_DISPLAY_TEXTS_META (JArray (map JString segs)) meta else meta)"

section \<open>Wire types\<close>

record QueueEntryMeta =
  qm_id :: rstr
  qm_version :: nat
  qm_owner :: "rstr option"
  qm_last_editor :: "rstr option"
  qm_kind :: rstr
  qm_text :: rstr
  qm_combined_texts :: "rstr list option"

record QueueEntryWire =
  qw_id :: rstr
  qw_version :: nat
  qw_owner :: "rstr option"
  qw_last_editor :: "rstr option"
  qw_kind :: rstr
  qw_text :: rstr
  qw_combined_texts :: "rstr list option"
  qw_position :: nat

record QueueChanged =
  qc_session_id :: rstr
  qc_entries :: "QueueEntryWire list"
  qc_running_prompt_id :: "rstr option"
  qc_running_text :: "rstr option"
  qc_running_kind :: "rstr option"
  qc_running_combined_texts :: "rstr list option"

text \<open>Field decoders; the result \<open>None\<close> is serde's error.\<close>

fun all_some :: "'a option list \<Rightarrow> 'a list option" where
  "all_some [] = Some []"
| "all_some (x # xs) = Option.bind x (\<lambda>a. map_option (Cons a) (all_some xs))"

definition dec_texts :: "json \<Rightarrow> rstr list option" where
  "dec_texts v = Option.bind (as_array v) (\<lambda>xs. all_some (map as_str xs))"

definition required :: "(json \<Rightarrow> 'a option) \<Rightarrow> string \<Rightarrow> json \<Rightarrow> 'a option" where
  "required dec k v = Option.bind (json_get (lit k) v) dec"

definition defaulted :: "(json \<Rightarrow> 'a option) \<Rightarrow> 'a \<Rightarrow> string \<Rightarrow> json \<Rightarrow> 'a option" where
  "defaulted dec d k v = (case json_get (lit k) v of None \<Rightarrow> Some d | Some x \<Rightarrow> dec x)"

definition optional :: "(json \<Rightarrow> 'a option) \<Rightarrow> string \<Rightarrow> json \<Rightarrow> 'a option option" where
  "optional dec k v =
     (case json_get (lit k) v of
        None \<Rightarrow> Some None
      | Some x \<Rightarrow> if is_null x then Some None else map_option Some (dec x))"

definition QueueEntryWire_deserialize :: "json \<Rightarrow> QueueEntryWire option" where
  "QueueEntryWire_deserialize v =
     Option.bind (required as_str ''id'' v) (\<lambda>i.
     Option.bind (defaulted as_u64 0 ''version'' v) (\<lambda>ver.
     Option.bind (optional as_str ''owner'' v) (\<lambda>ow.
     Option.bind (optional as_str ''lastEditor'' v) (\<lambda>le.
     Option.bind (defaulted as_str [] ''kind'' v) (\<lambda>ki.
     Option.bind (defaulted as_str [] ''text'' v) (\<lambda>tx.
     Option.bind (optional dec_texts ''combinedTexts'' v) (\<lambda>ct.
     Option.bind (defaulted as_u64 0 ''position'' v) (\<lambda>pos.
       Some \<lparr>qw_id = i, qw_version = ver, qw_owner = ow, qw_last_editor = le, qw_kind = ki,
             qw_text = tx, qw_combined_texts = ct, qw_position = pos\<rparr>))))))))"

definition QueueChanged_deserialize :: "json \<Rightarrow> QueueChanged option" where
  "QueueChanged_deserialize v =
     Option.bind (required as_str ''sessionId'' v) (\<lambda>sid.
     Option.bind (defaulted (\<lambda>a. Option.bind (as_array a)
        (\<lambda>xs. all_some (map QueueEntryWire_deserialize xs))) [] ''entries'' v) (\<lambda>es.
     Option.bind (optional as_str ''runningPromptId'' v) (\<lambda>rp.
     Option.bind (optional as_str ''runningText'' v) (\<lambda>rt.
     Option.bind (optional as_str ''runningKind'' v) (\<lambda>rk.
     Option.bind (optional dec_texts ''runningCombinedTexts'' v) (\<lambda>rc.
       Some \<lparr>qc_session_id = sid, qc_entries = es, qc_running_prompt_id = rp, qc_running_text = rt,
             qc_running_kind = rk, qc_running_combined_texts = rc\<rparr>))))))"

definition opt_field :: "('a \<Rightarrow> json) \<Rightarrow> string \<Rightarrow> 'a option \<Rightarrow> (rstr \<times> json) list" where
  "opt_field enc k x = (case x of None \<Rightarrow> [] | Some a \<Rightarrow> [(lit k, enc a)])"

definition enc_texts :: "rstr list \<Rightarrow> json" where
  "enc_texts ts = JArray (map JString ts)"

definition QueueEntryWire_serialize :: "QueueEntryWire \<Rightarrow> json" where
  "QueueEntryWire_serialize w = JObject (
     [(lit ''id'', JString (qw_id w)), (lit ''version'', JPosInt (qw_version w))] @
     opt_field JString ''owner'' (qw_owner w) @
     opt_field JString ''lastEditor'' (qw_last_editor w) @
     [(lit ''kind'', JString (qw_kind w)), (lit ''text'', JString (qw_text w))] @
     opt_field enc_texts ''combinedTexts'' (qw_combined_texts w) @
     [(lit ''position'', JPosInt (qw_position w))])"

definition QueueChanged_serialize :: "QueueChanged \<Rightarrow> json" where
  "QueueChanged_serialize q = JObject (
     [(lit ''sessionId'', JString (qc_session_id q)),
      (lit ''entries'', JArray (map QueueEntryWire_serialize (qc_entries q)))] @
     opt_field JString ''runningPromptId'' (qc_running_prompt_id q) @
     opt_field JString ''runningText'' (qc_running_text q) @
     opt_field JString ''runningKind'' (qc_running_kind q) @
     opt_field enc_texts ''runningCombinedTexts'' (qc_running_combined_texts q))"

section \<open>Lemmas\<close>

lemma count_followers_takeWhile:
  "count_followers skip_ids gs n = n + length (takeWhile (\<lambda>g. can_merge_follower g skip_ids) gs)"
  by (induction gs arbitrary: n) auto

lemma join_texts_byte_len:
  "byte_len (join_texts ts) =
     sum_list (map byte_len ts) + 2 * (length (filter (\<lambda>t. t \<noteq> []) ts) - 1)"
proof -
  have "byte_len (join TEXT_SEPARATOR ws) = sum_list (map byte_len ws) + 2 * (length ws - 1)" for ws
    by (induction TEXT_SEPARATOR ws rule: join.induct)
       (auto simp: TEXT_SEPARATOR_def len_utf8_def)
  moreover have "sum_list (map byte_len (filter (\<lambda>t. t \<noteq> []) ts)) = sum_list (map byte_len ts)"
    by (induction ts) auto
  ultimately show ?thesis by (simp add: join_texts_def)
qed

lemma all_some_map: "(\<And>x. x \<in> set xs \<Longrightarrow> f x = Some (g x)) \<Longrightarrow> all_some (map f xs) = Some (map g xs)"
  by (induction xs) auto

lemma dec_enc_texts [simp]: "dec_texts (enc_texts ts) = Some ts"
  using all_some_map [of ts "\<lambda>t. as_str (JString t)" id]
  by (simp add: dec_texts_def enc_texts_def o_def)

lemma enc_texts_not_null [simp]: "\<not> is_null (enc_texts ts)" "\<not> is_null (JString s)"
  by (simp_all add: is_null_def enc_texts_def)

lemmas field_defs =
  required_def defaulted_def optional_def json_get_def as_u64_def opt_field_def

lemma QueueEntryWire_roundtrip: "QueueEntryWire_deserialize (QueueEntryWire_serialize w) = Some w"
  by (cases "qw_owner w"; cases "qw_last_editor w"; cases "qw_combined_texts w")
     (simp_all add: QueueEntryWire_deserialize_def QueueEntryWire_serialize_def field_defs)

section \<open>Properties\<close>

text \<open>
  the merge run is the front alone when it cannot merge, and otherwise the front and the longest
  run of followers that may; so the run never leaves the queue, every follower in it is mergeable,
  and the row right after it (if any) is one that must not be merged.
\<close>

lemma combine_prefix_maximal:
  assumes "items \<noteq> []"
  shows "let n = combine_prefix_len items skip_ids in
     1 \<le> n \<and> n \<le> length items \<and>
     (\<forall>g\<in>set (tl (take n items)). can_merge_front (hd items) \<and> can_merge_follower g skip_ids) \<and>
     (n < length items \<longrightarrow>
        \<not> can_merge_front (hd items) \<or> \<not> can_merge_follower (items ! n) skip_ids)"
proof (cases items)
  case (Cons front rest)
  let ?P = "\<lambda>g. can_merge_follower g skip_ids"
  define k where "k = length (takeWhile ?P rest)"
  have "k \<le> length rest" unfolding k_def by (rule length_takeWhile_le)
  moreover have "\<forall>g\<in>set (take k rest). ?P g"
    unfolding k_def takeWhile_eq_take [symmetric] by (blast dest: set_takeWhileD)
  moreover have "k < length rest \<longrightarrow> \<not> ?P (rest ! k)"
    unfolding k_def using nth_length_takeWhile [of ?P rest] by simp
  moreover have "combine_prefix_len items skip_ids = (if can_merge_front front then Suc k else 1)"
    by (simp add: k_def Cons combine_prefix_len_def count_followers_takeWhile)
  ultimately show ?thesis
    by (cases "can_merge_front front") (simp_all add: Cons Let_def)
qed (use assms in simp)

definition sample_gate :: "nat \<Rightarrow> CombineGate" where
  "sample_gate i = \<lparr>cg_id = [i], is_plain_prompt = True, is_synthetic = False,
     is_expanded_skill = False, is_bash = False, has_images = False, cg_text = [65]\<rparr>"

theorem combine_prefix_maximal_witness:
  "combine_prefix_len [sample_gate 1, sample_gate 2, sample_gate 3] [[3]] = 2 \<and>
   \<not> can_merge_follower (sample_gate 3) [[3]]"
proof -
  let ?items = "[sample_gate 1, sample_gate 2, sample_gate 3]"
  have n: "combine_prefix_len ?items [[3]] = 2"
    by (simp add: combine_prefix_len_def can_merge_front_def can_merge_follower_def sample_gate_def)
  have "can_merge_front (sample_gate 1)" by (simp add: can_merge_front_def sample_gate_def)
  then show ?thesis using combine_prefix_maximal [of ?items "[[3]]"]
    by (simp add: n Let_def del: One_nat_def)
qed

text \<open>
  the broadcast of the shared queue survives its wire encoding: deserialising a serialised
  \<open>QueueChanged\<close> gives it back, whichever optional fields are present.
\<close>

lemma QueueChanged_roundtrip: "QueueChanged_deserialize (QueueChanged_serialize q) = Some q"
proof -
  have es: "all_some (map QueueEntryWire_deserialize (map QueueEntryWire_serialize ws)) = Some ws" for ws
    using all_some_map [of ws "\<lambda>w. QueueEntryWire_deserialize (QueueEntryWire_serialize w)" id]
    by (simp add: QueueEntryWire_roundtrip o_def)
  show ?thesis
    by (cases "qc_running_prompt_id q"; cases "qc_running_text q"; cases "qc_running_kind q";
        cases "qc_running_combined_texts q")
       (simp_all add: QueueChanged_deserialize_def QueueChanged_serialize_def field_defs es [simplified])
qed

end
