(* ===== verification/Float64.thy ===== *)
theory Float64
  imports Complex_Main Prelude
begin

text \<open>
  The \<open>f64\<close> operations the modelled code relies on. The quotient of two small counters: for
  \<open>a \<le> b < 2 ^ 53\<close> both casts are exact and the result is the rational \<open>a / b\<close> rounded to 53
  significant bits, ties to even; the value is kept as the rational it denotes. And the product of a
  counter and a configured ratio, with the casts back to an unsigned integer.
\<close>

definition round_half_even :: "nat \<Rightarrow> nat \<Rightarrow> nat" where
  "round_half_even n d =
     (let q = n div d; r = n mod d
      in if 2 * r < d then q else if d < 2 * r then q + 1 else if even q then q else q + 1)"

text \<open>The binary exponent that brings the significand into \<open>2 ^ 52 \<le> _ < 2 ^ 53\<close>.\<close>

definition f64_scale :: "nat \<Rightarrow> nat \<Rightarrow> nat" where
  "f64_scale a b = (case find (\<lambda>k. 2 ^ 52 * b \<le> a * 2 ^ k) [0..<128] of Some k \<Rightarrow> k | None \<Rightarrow> 128)"

definition f64_div :: "nat \<Rightarrow> nat \<Rightarrow> rat" where
  "f64_div a b =
     (if a = 0 then 0
      else of_nat (round_half_even (a * 2 ^ f64_scale a b) b) / 2 ^ f64_scale a b)"

lemma round_half_even_ge: "0 < d \<Longrightarrow> m * d \<le> n \<Longrightarrow> m \<le> round_half_even n d"
  by (auto simp: round_half_even_def Let_def less_eq_div_iff_mult_less_eq intro: le_SucI)

lemma round_half_even_le:
  assumes "0 < d" "n \<le> m * d"
  shows "round_half_even n d \<le> m"
proof (cases "n mod d = 0")
  case True
  then show ?thesis using assms
    by (auto simp: round_half_even_def Let_def div_le_mono [of n "m * d" d, simplified])
next
  case False
  then have "n < m * d" using assms by (metis le_neq_implies_less mod_mult_self2_is_0)
  then have "n div d < m" using assms by (simp add: div_less_iff_less_mult)
  then show ?thesis by (auto simp: round_half_even_def Let_def)
qed

lemma round_half_even_less:
  assumes "0 < d" "2 * n + d < 2 * m * d"
  shows "round_half_even n d < m"
proof -
  have split: "n = d * (n div d) + n mod d" by simp
  have "n div d < m" using assms by (auto simp: div_less_iff_less_mult)
  moreover have False if "n div d + 1 = m" "d \<le> 2 * (n mod d)"
  proof -
    have "2 * m * d = 2 * (d * (n div d)) + 2 * d" using that(1) by (auto simp: algebra_simps)
    also have "\<dots> \<le> 2 * n + d" using split that(2) by linarith
    finally show False using assms(2) by simp
  qed
  ultimately show ?thesis
    by (auto simp: round_half_even_def Let_def not_less) (metis Suc_eq_plus1 Suc_lessI less_imp_le)+
qed

lemma f64_scale_ge: "a \<le> b \<Longrightarrow> 0 < b \<Longrightarrow> 52 \<le> f64_scale a b"
proof -
  assume ab: "a \<le> b" "0 < b"
  have "\<not> 2 ^ 52 * b \<le> a * 2 ^ k" if "k < 52" for k
  proof -
    have "(2::nat) ^ k < 2 ^ 52" using that by (rule power_strict_increasing) simp
    then have "a * 2 ^ k < b * 2 ^ 52"
      using ab by (metis mult_le_less_imp_less mult_le_mono1 mult_less_cancel1 order_le_less_trans)
    then show ?thesis by (simp add: mult.commute)
  qed
  then show ?thesis
    by (auto simp: f64_scale_def find_Some_iff split: option.split)
       (metis (no_types, lifting) add_0 diff_zero linorder_not_less nth_upt)
qed

lemma f64_div_nonneg: "0 \<le> f64_div a b"
  by (simp add: f64_div_def)

lemma f64_div_le_one:
  assumes "a \<le> b" "0 < b"
  shows "f64_div a b \<le> 1"
proof -
  have "round_half_even (a * 2 ^ f64_scale a b) b \<le> 2 ^ f64_scale a b"
    using assms by (intro round_half_even_le) (auto simp: mult.commute)
  then have "of_nat (round_half_even (a * 2 ^ f64_scale a b) b) \<le> (2 ^ f64_scale a b :: rat)"
    by (metis of_nat_le_iff of_nat_numeral of_nat_power)
  then show ?thesis by (simp add: f64_div_def)
qed

text \<open>The comparison with one half is exact, although the quotient is rounded.\<close>

lemma f64_div_ge_half:
  assumes "a \<le> b" "0 < b" "b < 2 ^ 50"
  shows "1 / 2 \<le> f64_div a b \<longleftrightarrow> b \<le> 2 * a"
proof (cases "a = 0")
  case True
  then show ?thesis using assms by (simp add: f64_div_def)
next
  case False
  define k where "k = f64_scale a b"
  have "52 \<le> k" using assms by (simp add: k_def f64_scale_ge)
  then obtain j where k: "k = Suc j" and j: "51 \<le> j" by (cases k) auto
  have half: "1 / 2 \<le> f64_div a b \<longleftrightarrow> 2 ^ j \<le> round_half_even (a * 2 ^ k) b"
  proof -
    have "1 / 2 \<le> f64_div a b \<longleftrightarrow> (2 ^ j :: rat) \<le> of_nat (round_half_even (a * 2 ^ k) b)"
      using False by (simp add: f64_div_def k_def [symmetric] k field_simps)
    also have "\<dots> \<longleftrightarrow> 2 ^ j \<le> round_half_even (a * 2 ^ k) b"
      by (metis of_nat_le_iff of_nat_numeral of_nat_power)
    finally show ?thesis .
  qed
  show ?thesis
  proof
    assume "b \<le> 2 * a"
    then have "2 ^ j * b \<le> 2 ^ j * (2 * a)" by (rule mult_le_mono2)
    then have "2 ^ j * b \<le> a * 2 ^ k" by (simp add: k mult.commute mult.left_commute)
    with assms(2) have "2 ^ j \<le> round_half_even (a * 2 ^ k) b" by (rule round_half_even_ge)
    then show "1 / 2 \<le> f64_div a b" by (simp only: half)
  next
    assume ge: "1 / 2 \<le> f64_div a b"
    show "b \<le> 2 * a"
    proof (rule ccontr)
      assume "\<not> b \<le> 2 * a"
      then have "2 * a + 1 \<le> b" by simp
      then have "2 ^ j * (2 * a + 1) \<le> 2 ^ j * b" by (rule mult_le_mono2)
      then have "2 ^ j * (2 * a + 1) * 2 \<le> 2 ^ j * b * 2" by (rule mult_le_mono1)
      moreover have "b < 2 * 2 ^ j"
      proof -
        have "(2::nat) ^ 50 \<le> 2 ^ j" using j by (intro power_increasing) auto
        with assms(3) show ?thesis by linarith
      qed
      ultimately have "2 * (a * 2 ^ k) + b < 2 * 2 ^ j * b"
        by (simp add: k algebra_simps)
      then have "round_half_even (a * 2 ^ k) b < 2 ^ j"
        using assms(2) by (intro round_half_even_less) auto
      with ge show False by (simp only: half)
    qed
  qed
qed

section \<open>Products and casts\<close>

text \<open>
  A double is a sign and a dyadic rational \<open>m / 2 ^ k\<close>, an infinity or not a number. Products are rounded to 53
  significant bits, ties to even. The range of the exponent is left out: the values are only cast to
  integers, and a product that overflows or underflows is cast to what its unbounded value is cast to.
\<close>

datatype f64 = F64_NaN | F64_Inf bool | F64_Fin bool nat nat

definition bit_len :: "nat \<Rightarrow> nat" where
  "bit_len n = length (radix_digits 2 n)"

definition round53 :: "nat \<Rightarrow> nat" where
  "round53 n = round_half_even n (2 ^ (bit_len n - 53)) * 2 ^ (bit_len n - 53)"

definition f64_of_nat :: "nat \<Rightarrow> f64" where
  "f64_of_nat n = F64_Fin False (round53 n) 0"

definition f64_is_zero :: "f64 \<Rightarrow> bool" where
  "f64_is_zero x = (case x of F64_Fin _ m _ \<Rightarrow> m = 0 | _ \<Rightarrow> False)"

definition f64_neg :: "f64 \<Rightarrow> bool" where
  "f64_neg x = (case x of F64_Fin s _ _ \<Rightarrow> s | F64_Inf s \<Rightarrow> s | F64_NaN \<Rightarrow> False)"

definition f64_mul :: "f64 \<Rightarrow> f64 \<Rightarrow> f64" where
  "f64_mul x y =
     (case (x, y) of
        (F64_Fin s m k, F64_Fin t n l) \<Rightarrow> F64_Fin (s \<noteq> t) (round53 (m * n)) (k + l)
      | (F64_NaN, _) \<Rightarrow> F64_NaN
      | (_, F64_NaN) \<Rightarrow> F64_NaN
      | _ \<Rightarrow> if f64_is_zero x \<or> f64_is_zero y then F64_NaN else F64_Inf (f64_neg x \<noteq> f64_neg y))"

definition f64_ceil :: "f64 \<Rightarrow> f64" where
  "f64_ceil x =
     (case x of
        F64_Fin s m k \<Rightarrow> F64_Fin s (if s then m div 2 ^ k else (m + (2 ^ k - 1)) div 2 ^ k) 0
      | _ \<Rightarrow> x)"

text \<open>\<open>as u32\<close> and \<open>as u64\<close>: truncation, saturating at the bounds, zero for not a number.\<close>

definition f64_as_uint :: "nat \<Rightarrow> f64 \<Rightarrow> nat" where
  "f64_as_uint mx x =
     (case x of
        F64_NaN \<Rightarrow> 0
      | F64_Inf s \<Rightarrow> if s then 0 else mx
      | F64_Fin s m k \<Rightarrow> if s then 0 else min mx (m div 2 ^ k))"

text \<open>\<open>(n as f64 * ratio) as u32\<close>.\<close>

definition scaled_u32 :: "nat \<Rightarrow> f64 \<Rightarrow> nat" where
  "scaled_u32 n ratio = f64_as_uint u32_max (f64_mul (f64_of_nat n) ratio)"

lemma bit_len_bounds: "0 < n \<Longrightarrow> 2 ^ (bit_len n - 1) \<le> n \<and> n < 2 ^ bit_len n"
proof (induction "2::nat" n rule: radix_digits.induct)
  case (1 n)
  show ?case
  proof (cases "n < 2")
    case True
    then show ?thesis using 1(2) by (simp add: bit_len_def radix_digits.simps [of 2 n])
  next
    case False
    then have len: "bit_len n = Suc (bit_len (n div 2))" by (simp add: bit_len_def radix_digits.simps [of 2 n])
    have "0 < n div 2" using False by simp
    moreover have "0 < bit_len (n div 2)" by (simp add: bit_len_def)
    ultimately show ?thesis using 1(1) False len by (cases "bit_len (n div 2)") auto
  qed
qed

lemma bit_len_small: "n < 2 ^ k \<Longrightarrow> 0 < k \<Longrightarrow> bit_len n \<le> k"
proof (cases "n = 0")
  case True
  then show "0 < k \<Longrightarrow> ?thesis" by (simp add: bit_len_def radix_digits.simps [of 2 0])
next
  case False
  assume "n < 2 ^ k"
  then have "(2::nat) ^ (bit_len n - 1) < 2 ^ k" using bit_len_bounds [of n] False by linarith
  then show ?thesis by simp
qed

lemma round53_exact: "n < 2 ^ 53 \<Longrightarrow> round53 n = n"
  using bit_len_small [of n 53] by (simp add: round53_def round_half_even_def)

text \<open>Rounding does not cross a number that has 53 significant bits.\<close>

lemma round53_le:
  assumes "n \<le> c * 2 ^ k" and "c < 2 ^ 53"
  shows "round53 n \<le> c * 2 ^ k"
proof (cases "bit_len n - 53 \<le> k")
  case True
  let ?e = "bit_len n - 53"
  from True have "c * 2 ^ k = c * 2 ^ (k - ?e) * 2 ^ ?e" by (simp add: power_add [symmetric] mult.assoc)
  moreover from this have "round_half_even n (2 ^ ?e) \<le> c * 2 ^ (k - ?e)"
    using assms(1) by (intro round_half_even_le) auto
  ultimately show ?thesis by (metis mult_le_mono1 round53_def)
next
  case False
  then have "n \<noteq> 0" by (cases "n = 0") (simp_all add: bit_len_def radix_digits.simps [of 2 0])
  have "c * 2 ^ k < 2 ^ 53 * 2 ^ k" using assms(2) by simp
  also have "\<dots> = 2 ^ (53 + k)" by (simp add: power_add)
  also have "\<dots> \<le> (2::nat) ^ (bit_len n - 1)" using False by (intro power_increasing) auto
  also have "\<dots> \<le> n" using bit_len_bounds [of n] \<open>n \<noteq> 0\<close> by simp
  finally show ?thesis using assms(1) by simp
qed

text \<open>A ratio of at most one does not enlarge a count.\<close>

definition at_most_one :: "f64 \<Rightarrow> bool" where
  "at_most_one x = (case x of F64_Fin s m k \<Rightarrow> s \<or> m \<le> 2 ^ k | F64_Inf s \<Rightarrow> s | F64_NaN \<Rightarrow> True)"

lemma scaled_u32_le:
  assumes "at_most_one ratio" and "n < 2 ^ 53"
  shows "scaled_u32 n ratio \<le> n"
proof (cases ratio)
  case (F64_Fin s m k)
  show ?thesis
  proof (cases s)
    case False
    then have "n * m \<le> n * 2 ^ k" using assms(1) F64_Fin by (simp add: at_most_one_def)
    from round53_le [OF this assms(2)] have "round53 (n * m) div 2 ^ k \<le> n"
      by (metis div_le_mono nonzero_mult_div_cancel_right power_not_zero zero_neq_numeral)
    then show ?thesis using F64_Fin assms(2) by (simp add: scaled_u32_def f64_as_uint_def f64_mul_def f64_of_nat_def round53_exact min.coboundedI2)
  qed (use F64_Fin in \<open>simp add: scaled_u32_def f64_as_uint_def f64_mul_def f64_of_nat_def\<close>)
qed (use assms in \<open>auto simp: scaled_u32_def f64_as_uint_def f64_mul_def f64_of_nat_def at_most_one_def f64_neg_def\<close>)

end
