(* ===== verification/Breaker_Window.thy ===== *)
theory Breaker_Window
  imports Float64
begin

text \<open>
  The bounded sliding window of \<open>xai-circuit-breaker/src/window.rs\<close>. Instants are nanoseconds on
  the monotonic clock. The interface \<open>sample_window\<close> is what the breaker relies on: the list of
  live samples, an incremental failure counter that agrees with it, and the memory bound.
\<close>

section \<open>Model\<close>

definition MAX_WINDOW_ENTRIES :: nat where
  "MAX_WINDOW_ENTRIES = 10000"

record SlidingWindow =
  entries :: "(nat \<times> bool) list"
  failures :: nat

definition SlidingWindow_new :: SlidingWindow where
  "SlidingWindow_new = \<lparr>entries = [], failures = 0\<rparr>"

definition drop_oldest :: "SlidingWindow \<Rightarrow> SlidingWindow" where
  "drop_oldest w =
     (case entries w of
        [] \<Rightarrow> w
      | (ts, was_failure) # es \<Rightarrow>
          w\<lparr>entries := es, failures := if was_failure then failures w - 1 else failures w\<rparr>)"

definition SlidingWindow_push :: "bool \<Rightarrow> nat \<Rightarrow> SlidingWindow \<Rightarrow> SlidingWindow" where
  "SlidingWindow_push is_failure t w =
     (let w1 = (if MAX_WINDOW_ENTRIES \<le> length (entries w) then drop_oldest w else w)
      in w1\<lparr>entries := entries w1 @ [(t, is_failure)],
            failures := if is_failure then failures w1 + 1 else failures w1\<rparr>)"

fun evict_loop :: "nat \<Rightarrow> (nat \<times> bool) list \<Rightarrow> nat \<Rightarrow> (nat \<times> bool) list \<times> nat" where
  "evict_loop cutoff [] n = ([], n)"
| "evict_loop cutoff ((ts, was_failure) # es) n =
     (if ts < cutoff then evict_loop cutoff es (if was_failure then n - 1 else n)
      else ((ts, was_failure) # es, n))"

definition SlidingWindow_evict :: "nat \<Rightarrow> nat \<Rightarrow> SlidingWindow \<Rightarrow> SlidingWindow" where
  "SlidingWindow_evict window now w =
     (if now < window then w
      else let (es, n) = evict_loop (now - window) (entries w) (failures w)
           in w\<lparr>entries := es, failures := n\<rparr>)"

definition SlidingWindow_error_rate :: "SlidingWindow \<Rightarrow> rat" where
  "SlidingWindow_error_rate w =
     (if entries w = [] then 0 else f64_div (failures w) (length (entries w)))"

definition SlidingWindow_sample_count :: "SlidingWindow \<Rightarrow> nat" where
  "SlidingWindow_sample_count w = length (entries w)"

definition SlidingWindow_clear :: "SlidingWindow \<Rightarrow> SlidingWindow" where
  "SlidingWindow_clear w = w\<lparr>entries := [], failures := 0\<rparr>"

section \<open>Interface\<close>

definition failing :: "(nat \<times> bool) list \<Rightarrow> nat" where
  "failing es = length (filter snd es)"

definition live :: "nat \<Rightarrow> nat \<Rightarrow> (nat \<times> bool) list \<Rightarrow> (nat \<times> bool) list" where
  "live window now es = (if now < window then es else filter (\<lambda>(t, f). now - window \<le> t) es)"

locale sample_window =
  fixes samples :: "'w \<Rightarrow> (nat \<times> bool) list"
    and fails :: "'w \<Rightarrow> nat"
    and winv :: "'w \<Rightarrow> bool"
    and empty_w :: 'w
    and push :: "bool \<Rightarrow> nat \<Rightarrow> 'w \<Rightarrow> 'w"
    and evict :: "nat \<Rightarrow> nat \<Rightarrow> 'w \<Rightarrow> 'w"
  assumes winv_fails: "winv w \<Longrightarrow> fails w = failing (samples w)"
    and winv_bound: "winv w \<Longrightarrow> length (samples w) \<le> MAX_WINDOW_ENTRIES"
    and empty_winv: "winv empty_w"
    and samples_empty: "samples empty_w = []"
    and push_winv: "winv w \<Longrightarrow> winv (push f t w)"
    and samples_push: "length (samples w) < MAX_WINDOW_ENTRIES \<Longrightarrow> samples (push f t w) = samples w @ [(t, f)]"
    and evict_winv: "winv w \<Longrightarrow> winv (evict d t w)"
    and samples_evict: "winv w \<Longrightarrow> sorted (map fst (samples w)) \<Longrightarrow> samples (evict d t w) = live d t (samples w)"
begin

lemma fails_le: "winv w \<Longrightarrow> fails w \<le> length (samples w)"
  by (simp add: winv_fails failing_def)

lemma rate_ge_half:
  assumes "winv w" "samples w \<noteq> []"
  shows "1 / 2 \<le> f64_div (fails w) (length (samples w)) \<longleftrightarrow>
    length (samples w) \<le> 2 * failing (samples w)"
proof -
  have "length (samples w) < 2 ^ 50"
    using winv_bound [OF assms(1)] by (simp add: MAX_WINDOW_ENTRIES_def)
  then show ?thesis
    using f64_div_ge_half [OF fails_le [OF assms(1)]] assms winv_fails by simp
qed

lemma rate_bounds:
  assumes "winv w" "samples w \<noteq> []"
  shows "0 \<le> f64_div (fails w) (length (samples w))" "f64_div (fails w) (length (samples w)) \<le> 1"
  using f64_div_nonneg f64_div_le_one [OF fails_le [OF assms(1)]] assms by auto

end

section \<open>The window implements it\<close>

definition window_inv :: "SlidingWindow \<Rightarrow> bool" where
  "window_inv w \<longleftrightarrow> failures w = failing (entries w) \<and> length (entries w) \<le> MAX_WINDOW_ENTRIES"

lemma failing_simps [simp]:
  "failing [] = 0" "failing ((t, f) # es) = (if f then Suc (failing es) else failing es)"
  "failing (es @ fs) = failing es + failing fs"
  by (auto simp: failing_def)

lemma drop_oldest_spec:
  "failures w = failing (entries w) \<Longrightarrow>
     entries (drop_oldest w) = tl (entries w) \<and> failures (drop_oldest w) = failing (tl (entries w))"
  by (cases "entries w") (auto simp: drop_oldest_def)

lemma push_window_inv: "window_inv w \<Longrightarrow> window_inv (SlidingWindow_push f t w)"
  using drop_oldest_spec [of w]
  by (auto simp: SlidingWindow_push_def window_inv_def Let_def MAX_WINDOW_ENTRIES_def)

lemma evict_loop_spec:
  "evict_loop c es (failing es) = (es', n) \<Longrightarrow>
     es' = dropWhile (\<lambda>(t, f). t < c) es \<and> n = failing es'"
  by (induction c es "failing es" rule: evict_loop.induct) (auto split: if_splits)

lemma evict_entries:
  "window_inv w \<Longrightarrow> \<not> now < d \<Longrightarrow>
     entries (SlidingWindow_evict d now w) = dropWhile (\<lambda>(t, f). t < now - d) (entries w)"
  using evict_loop_spec [of "now - d" "entries w"]
  by (auto simp: SlidingWindow_evict_def window_inv_def split: prod.split)

lemma evict_window_inv:
  assumes "window_inv w"
  shows "window_inv (SlidingWindow_evict d now w)"
proof (cases "now < d")
  case True
  with assms show ?thesis by (simp add: SlidingWindow_evict_def)
next
  case False
  obtain es n where loop: "evict_loop (now - d) (entries w) (failing (entries w)) = (es, n)"
    by fastforce
  then have "es = dropWhile (\<lambda>(t, f). t < now - d) (entries w)" and n: "n = failing es"
    by (auto dest: evict_loop_spec)
  then have "length es \<le> length (entries w)" by (simp add: length_dropWhile_le)
  with assms False loop n show ?thesis by (simp add: SlidingWindow_evict_def window_inv_def)
qed

lemma dropWhile_sorted:
  "sorted (map fst es) \<Longrightarrow> dropWhile (\<lambda>(t, f). t < c) es = filter (\<lambda>(t, f). c \<le> t) es"
proof (induction es)
  case (Cons e es)
  show ?case
  proof (cases "fst e < c")
    case False
    with Cons.prems have "\<forall>x\<in>set (e # es). c \<le> fst x" by auto
    then have "filter (\<lambda>(t, f). c \<le> t) (e # es) = e # es" by (intro filter_True) auto
    with False show ?thesis by (simp add: case_prod_unfold)
  qed (use Cons in \<open>auto simp: case_prod_unfold\<close>)
qed simp

lemma samples_evict_live:
  assumes "window_inv w" "sorted (map fst (entries w))"
  shows "entries (SlidingWindow_evict d now w) = live d now (entries w)"
proof (cases "now < d")
  case True
  then show ?thesis by (simp add: SlidingWindow_evict_def live_def)
next
  case False
  with assms show ?thesis by (simp add: evict_entries dropWhile_sorted live_def)
qed

interpretation win: sample_window entries failures window_inv SlidingWindow_new
  SlidingWindow_push SlidingWindow_evict
proof unfold_locales
  show "window_inv SlidingWindow_new" and "entries SlidingWindow_new = []"
    by (simp_all add: window_inv_def SlidingWindow_new_def)
  fix w f t
  show "length (entries w) < MAX_WINDOW_ENTRIES \<Longrightarrow>
      entries (SlidingWindow_push f t w) = entries w @ [(t, f)]"
    by (simp add: SlidingWindow_push_def)
qed (auto simp: window_inv_def [symmetric] push_window_inv evict_window_inv samples_evict_live
    dest: window_inv_def [THEN iffD1])

lemma clear_window_inv: "window_inv (SlidingWindow_clear w)"
  by (simp add: window_inv_def SlidingWindow_clear_def)

text \<open>Samples stay in the order they were taken as long as the clock does not run backwards.\<close>

definition window_sorted :: "nat \<Rightarrow> SlidingWindow \<Rightarrow> bool" where
  "window_sorted now w \<longleftrightarrow> sorted (map fst (entries w)) \<and> (\<forall>e\<in>set (entries w). fst e \<le> now)"

lemma push_window_sorted: "window_sorted t w \<Longrightarrow> window_sorted t (SlidingWindow_push f t w)"
  by (cases "entries w")
     (auto simp: window_sorted_def SlidingWindow_push_def drop_oldest_def Let_def sorted_append)

lemma evict_window_sorted:
  assumes "window_inv w" "window_sorted t w"
  shows "window_sorted t (SlidingWindow_evict d now w)"
  using assms samples_evict_live [of w d now]
  by (auto simp: window_sorted_def live_def sorted_filter)

end
