(* ===== verification/Breaker.thy ===== *)
theory Breaker
  imports Breaker_Window "HOL-Library.AList"
begin

text \<open>
  The circuit breaker of \<open>xai-circuit-breaker\<close>: \<open>state.rs\<close>, \<open>config.rs\<close>, \<open>breaker.rs\<close>,
  \<open>observer.rs\<close> and \<open>registry.rs\<close>. Durations and instants are nanoseconds. Every read of the
  clock is its own argument, so a call may see time advance while it runs. The observer is the log
  of the calls made to it. Here a call runs without interference, with one exception: \<open>check_open\<close>
  takes the calls that others complete between its load and its compare-and-swap as a function on the
  shared state, so the lost-race branch is reachable. Callers that overlap access by access are the
  subject of \<open>Breaker_Conc\<close>.
\<close>

section \<open>State and configuration\<close>

datatype BreakerState = Closed | Open | HalfOpen

definition state_to_u8 :: "BreakerState \<Rightarrow> nat" where
  "state_to_u8 s = (case s of Closed \<Rightarrow> 0 | Open \<Rightarrow> 1 | HalfOpen \<Rightarrow> 2)"

definition BreakerState_from_u8 :: "nat \<Rightarrow> BreakerState" where
  "BreakerState_from_u8 v =
     (if v = 0 then Closed else if v = 1 then Open else if v = 2 then HalfOpen else Closed)"

datatype Outcome = Success | Failure

record BreakerOpen =
  retry_after :: nat

record BreakerConfig =
  window_duration :: nat
  min_samples :: nat
  error_rate_threshold :: rat
  open_duration :: nat
  half_open_max_probes :: nat
  failure_codes :: "nat set"
  enabled :: bool

definition secs :: "nat \<Rightarrow> nat" where
  "secs n = n * 10 ^ 9"

definition default_failure_codes :: "nat set" where
  "default_failure_codes = {429, 500, 502, 503, 504}"

definition parse_failure_codes :: "rstr \<Rightarrow> nat set" where
  "parse_failure_codes s = set (List.map_filter (\<lambda>c. parse_uint 16 (trim c)) (split_char 44 s))"

definition BreakerConfig_server :: BreakerConfig where
  "BreakerConfig_server = \<lparr>window_duration = secs 60, min_samples = 10,
     error_rate_threshold = 1 / 2, open_duration = secs 10, half_open_max_probes = 1,
     failure_codes = default_failure_codes, enabled = True\<rparr>"

definition BreakerConfig_client :: BreakerConfig where
  "BreakerConfig_client = \<lparr>window_duration = secs 60, min_samples = 5,
     error_rate_threshold = 1 / 2, open_duration = secs 60, half_open_max_probes = 1,
     failure_codes = {401}, enabled = True\<rparr>"

definition lookup_or :: "(rstr \<Rightarrow> rstr option) \<Rightarrow> (rstr \<Rightarrow> 'a option) \<Rightarrow> rstr \<Rightarrow> 'a \<Rightarrow> 'a" where
  "lookup_or get parse key dflt =
     (case get key of
        Some v \<Rightarrow> (case parse v of Some x \<Rightarrow> x | None \<Rightarrow> dflt)
      | None \<Rightarrow> dflt)"

definition parse_bool :: "rstr \<Rightarrow> bool option" where
  "parse_bool s = (if s = lit ''true'' then Some True else if s = lit ''false'' then Some False else None)"

text \<open>\<open>parse_f64\<close> stands for \<open>f64::from_str\<close>; the environment is the function \<open>get\<close>.\<close>

definition from_lookup_with_prefix ::
  "(rstr \<Rightarrow> rat option) \<Rightarrow> rstr \<Rightarrow> (rstr \<Rightarrow> rstr option) \<Rightarrow> BreakerConfig" where
  "from_lookup_with_prefix parse_f64 pre get =
     (let key = (\<lambda>k. pre @ lit k);
          codes = (case get (key ''FAILURE_CODES'') of
                     Some raw \<Rightarrow> (let cs = parse_failure_codes raw
                                  in if cs = {} then default_failure_codes else cs)
                   | None \<Rightarrow> default_failure_codes)
      in \<lparr>window_duration = secs (lookup_or get (parse_uint 64) (key ''WINDOW_SECS'') 60),
          min_samples = lookup_or get (parse_uint 64) (key ''MIN_SAMPLES'') 10,
          error_rate_threshold = lookup_or get parse_f64 (key ''ERROR_RATE_THRESHOLD'') (1 / 2),
          open_duration = secs (lookup_or get (parse_uint 64) (key ''OPEN_DURATION_SECS'') 10),
          half_open_max_probes = max (lookup_or get (parse_uint 64) (key ''HALF_OPEN_MAX_PROBES'') 1) 1,
          failure_codes = codes,
          enabled = lookup_or get parse_bool (key ''ENABLED'') True\<rparr>)"

definition is_failure_status :: "BreakerConfig \<Rightarrow> nat \<Rightarrow> bool" where
  "is_failure_status c s \<longleftrightarrow> s \<in> failure_codes c"

datatype Observation =
    on_state_change BreakerState BreakerState string
  | on_probe_admission bool
  | on_outcome Outcome BreakerState

record CircuitBreaker =
  config :: BreakerConfig
  state_u8 :: nat
  baseline :: nat
  opened_at_millis :: nat
  half_open_probes :: nat
  probe_claimed_at_millis :: nat
  is_open_fast :: bool
  window :: SlidingWindow
  observed :: "Observation list"

section \<open>Operations\<close>

definition CircuitBreaker_with_clock :: "BreakerConfig \<Rightarrow> nat \<Rightarrow> CircuitBreaker" where
  "CircuitBreaker_with_clock cfg now =
     \<lparr>config = cfg\<lparr>half_open_max_probes := max (half_open_max_probes cfg) 1\<rparr>,
      state_u8 = state_to_u8 Closed, baseline = now, opened_at_millis = 0, half_open_probes = 0,
      probe_claimed_at_millis = 0, is_open_fast = False, window = SlidingWindow_new,
      observed = []\<rparr>"

definition breaker_state :: "CircuitBreaker \<Rightarrow> BreakerState" where
  "breaker_state b = BreakerState_from_u8 (state_u8 b)"

definition observe :: "Observation \<Rightarrow> CircuitBreaker \<Rightarrow> CircuitBreaker" where
  "observe ev b = b\<lparr>observed := observed b @ [ev]\<rparr>"

definition elapsed_millis :: "CircuitBreaker \<Rightarrow> nat \<Rightarrow> nat" where
  "elapsed_millis b now = ((now - baseline b) div 10 ^ 6) mod 2 ^ 64"

definition from_millis :: "nat \<Rightarrow> nat" where
  "from_millis ms = ms * 10 ^ 6"

definition as_millis :: "nat \<Rightarrow> nat" where
  "as_millis d = (d div 10 ^ 6) mod 2 ^ 64"

definition HALF_OPEN_PROBE_BACKOFF :: nat where
  "HALF_OPEN_PROBE_BACKOFF = from_millis 50"

definition try_half_open_probe :: "nat \<Rightarrow> CircuitBreaker \<Rightarrow> CircuitBreaker \<times> (BreakerOpen + unit)" where
  "try_half_open_probe now b =
     (let t = elapsed_millis b now; prev = half_open_probes b
      in if prev < half_open_max_probes (config b)
         then (observe (on_probe_admission True)
                 (b\<lparr>half_open_probes := prev + 1, probe_claimed_at_millis := t\<rparr>), Ok ())
         else let lease = as_millis (open_duration (config b));
                  claimed = probe_claimed_at_millis b
              in if lease \<le> t - claimed
                 then (observe (on_probe_admission True) (b\<lparr>probe_claimed_at_millis := t\<rparr>), Ok ())
                 else (observe (on_probe_admission False) b,
                       Err \<lparr>retry_after = min HALF_OPEN_PROBE_BACKOFF (open_duration (config b))\<rparr>))"

definition cas_state :: "BreakerState \<Rightarrow> BreakerState \<Rightarrow> CircuitBreaker \<Rightarrow> CircuitBreaker \<times> bool" where
  "cas_state from to b =
     (if state_u8 b = state_to_u8 from then (b\<lparr>state_u8 := state_to_u8 to\<rparr>, True) else (b, False))"

definition check_open ::
  "(CircuitBreaker \<Rightarrow> CircuitBreaker) \<Rightarrow> nat \<Rightarrow> nat \<Rightarrow> CircuitBreaker \<Rightarrow> CircuitBreaker \<times> (BreakerOpen + unit)" where
  "check_open others now now' b =
     (let od = open_duration (config b);
          elapsed = from_millis (elapsed_millis b now - opened_at_millis b)
      in if od \<le> elapsed
         then case cas_state Open HalfOpen (others b) of
                (b1, True) \<Rightarrow>
                  try_half_open_probe now'
                    (observe (on_state_change Open HalfOpen ''open_elapsed'') (b1\<lparr>is_open_fast := False\<rparr>))
              | (b1, False) \<Rightarrow>
                  (case breaker_state b1 of
                     Closed \<Rightarrow> (b1, Ok ())
                   | HalfOpen \<Rightarrow> try_half_open_probe now' b1
                   | Open \<Rightarrow>
                       (b1, Err \<lparr>retry_after =
                          od - from_millis (elapsed_millis b1 now' - opened_at_millis b1)\<rparr>))
         else (b, Err \<lparr>retry_after = od - elapsed\<rparr>))"

definition CircuitBreaker_check ::
  "(CircuitBreaker \<Rightarrow> CircuitBreaker) \<Rightarrow> nat \<Rightarrow> nat \<Rightarrow> CircuitBreaker \<Rightarrow> CircuitBreaker \<times> (BreakerOpen + unit)" where
  "CircuitBreaker_check others now now' b =
     (if \<not> enabled (config b) then (b, Ok ())
      else case breaker_state b of
             Closed \<Rightarrow> (b, Ok ())
           | Open \<Rightarrow> check_open others now now' b
           | HalfOpen \<Rightarrow> try_half_open_probe now b)"

definition trip :: "BreakerState \<Rightarrow> string \<Rightarrow> nat \<Rightarrow> CircuitBreaker \<Rightarrow> CircuitBreaker" where
  "trip prev reason now b =
     (let b1 = b\<lparr>state_u8 := state_to_u8 Open, opened_at_millis := elapsed_millis b now,
                 half_open_probes := 0, is_open_fast := True\<rparr>
      in if prev \<noteq> Open then observe (on_state_change prev Open reason) b1 else b1)"

definition close_breaker :: "BreakerState \<Rightarrow> string \<Rightarrow> CircuitBreaker \<Rightarrow> CircuitBreaker" where
  "close_breaker prev reason b =
     (let b1 = b\<lparr>state_u8 := state_to_u8 Closed, window := SlidingWindow_clear (window b),
                 half_open_probes := 0, is_open_fast := False\<rparr>
      in if prev \<noteq> Closed then observe (on_state_change prev Closed reason) b1 else b1)"

definition push_sample :: "bool \<Rightarrow> nat \<Rightarrow> CircuitBreaker \<Rightarrow> CircuitBreaker" where
  "push_sample is_failure now b =
     b\<lparr>window := SlidingWindow_evict (window_duration (config b)) now
                   (SlidingWindow_push is_failure now (window b))\<rparr>"

definition should_trip :: "CircuitBreaker \<Rightarrow> bool" where
  "should_trip b \<longleftrightarrow>
     min_samples (config b) \<le> SlidingWindow_sample_count (window b) \<and>
     error_rate_threshold (config b) \<le> SlidingWindow_error_rate (window b)"

definition CircuitBreaker_record :: "Outcome \<Rightarrow> nat \<Rightarrow> nat \<Rightarrow> CircuitBreaker \<Rightarrow> CircuitBreaker" where
  "CircuitBreaker_record outcome now now' b =
     (if \<not> enabled (config b) then b
      else let is_failure = (outcome = Failure);
               prev = breaker_state b;
               b1 = (case prev of
                       Closed \<Rightarrow> (let w = push_sample is_failure now b
                                  in if should_trip w then trip prev ''trip'' now' w else w)
                     | HalfOpen \<Rightarrow> if is_failure then trip prev ''probe_failure'' now' b
                                   else close_breaker prev ''probe_success'' b
                     | Open \<Rightarrow> push_sample is_failure now b)
           in observe (on_outcome outcome (breaker_state b1)) b1)"

definition is_open :: "CircuitBreaker \<Rightarrow> bool" where
  "is_open b = is_open_fast b"

definition CircuitBreaker_error_rate :: "nat \<Rightarrow> CircuitBreaker \<Rightarrow> CircuitBreaker \<times> rat" where
  "CircuitBreaker_error_rate now b =
     (let w = SlidingWindow_evict (window_duration (config b)) now (window b)
      in (b\<lparr>window := w\<rparr>, SlidingWindow_error_rate w))"

definition force_half_open :: "CircuitBreaker \<Rightarrow> CircuitBreaker" where
  "force_half_open b =
     (let prev = breaker_state b;
          b1 = b\<lparr>state_u8 := state_to_u8 HalfOpen, is_open_fast := False, half_open_probes := 0\<rparr>
      in if prev \<noteq> HalfOpen then observe (on_state_change prev HalfOpen ''force_half_open'') b1 else b1)"

text \<open>
  The registry hands out one shared breaker per key; a handle is the key, its breaker lives in the
  registry's map.
\<close>

record Registry =
  reg_config :: BreakerConfig
  breakers :: "(rstr \<times> CircuitBreaker) list"

definition Registry_new :: "BreakerConfig \<Rightarrow> Registry" where
  "Registry_new c = \<lparr>reg_config = c, breakers = []\<rparr>"

definition Registry_get :: "rstr \<Rightarrow> nat \<Rightarrow> Registry \<Rightarrow> Registry \<times> CircuitBreaker option" where
  "Registry_get key now r =
     (if \<not> enabled (reg_config r) then (r, None)
      else case map_of (breakers r) key of
             Some cb \<Rightarrow> (r, Some cb)
           | None \<Rightarrow> (let cb = CircuitBreaker_with_clock (reg_config r) now
                      in (r\<lparr>breakers := AList.update key cb (breakers r)\<rparr>, Some cb)))"

section \<open>Calls\<close>

text \<open>
  One call of the public surface. A check carries the calls other threads complete between its
  load of the opening time and its compare-and-swap.
\<close>

datatype breaker_call =
    Check "breaker_call list" nat nat
  | Record Outcome nat nat
  | Error_rate nat
  | Force_half_open

fun breaker_step :: "breaker_call \<Rightarrow> CircuitBreaker \<Rightarrow> CircuitBreaker"
and breaker_steps :: "breaker_call list \<Rightarrow> CircuitBreaker \<Rightarrow> CircuitBreaker" where
  "breaker_step (Check cs now now') b = fst (CircuitBreaker_check (breaker_steps cs) now now' b)"
| "breaker_step (Record outcome now now') b = CircuitBreaker_record outcome now now' b"
| "breaker_step (Error_rate now) b = fst (CircuitBreaker_error_rate now b)"
| "breaker_step Force_half_open b = force_half_open b"
| "breaker_steps [] b = b"
| "breaker_steps (c # cs) b = breaker_steps cs (breaker_step c b)"

section \<open>Invariant\<close>

text \<open>
  The mirror \<open>is_open_fast\<close> agrees with the authoritative state, the window is well formed, probe
  slots are within the limit and none is held outside \<open>HalfOpen\<close>, and the observed state changes
  are a path from \<open>Closed\<close> to the current state along the transitions of the state machine.
\<close>

fun transition_path :: "BreakerState \<Rightarrow> Observation list \<Rightarrow> BreakerState option" where
  "transition_path s [] = Some s"
| "transition_path s (on_state_change old new r # evs) =
     (if old = s \<and> (s, new, r) \<in> {(Closed, Open, ''trip''), (Open, HalfOpen, ''open_elapsed''),
          (HalfOpen, Open, ''probe_failure''), (HalfOpen, Closed, ''probe_success''),
          (Closed, HalfOpen, ''force_half_open''), (Open, HalfOpen, ''force_half_open'')}
      then transition_path new evs else None)"
| "transition_path s (on_probe_admission a # evs) = transition_path s evs"
| "transition_path s (on_outcome u st # evs) = transition_path s evs"

definition breaker_inv :: "CircuitBreaker \<Rightarrow> bool" where
  "breaker_inv b \<longleftrightarrow>
     state_u8 b \<le> 2 \<and>
     (is_open_fast b \<longleftrightarrow> breaker_state b = Open) \<and>
     window_inv (window b) \<and>
     1 \<le> half_open_max_probes (config b) \<and>
     half_open_probes b \<le> half_open_max_probes (config b) \<and>
     (breaker_state b \<noteq> HalfOpen \<longrightarrow> half_open_probes b = 0) \<and>
     transition_path Closed (observed b) = Some (breaker_state b)"

lemma state_u8_roundtrip [simp]: "BreakerState_from_u8 (state_to_u8 s) = s"
  by (cases s) (simp_all add: BreakerState_from_u8_def state_to_u8_def)

lemma state_to_u8_bound [simp]: "state_to_u8 s \<le> 2"
  by (cases s) (simp_all add: state_to_u8_def)

lemma breaker_state_set [simp]: "breaker_state (b\<lparr>state_u8 := state_to_u8 s\<rparr>) = s"
  by (simp add: breaker_state_def)

lemma transition_path_append:
  "transition_path s (xs @ ys) = Option.bind (transition_path s xs) (\<lambda>t. transition_path t ys)"
  by (induction s xs rule: transition_path.induct) auto

lemma observe_fields [simp]:
  "config (observe ev b) = config b" "state_u8 (observe ev b) = state_u8 b"
  "baseline (observe ev b) = baseline b" "opened_at_millis (observe ev b) = opened_at_millis b"
  "half_open_probes (observe ev b) = half_open_probes b"
  "probe_claimed_at_millis (observe ev b) = probe_claimed_at_millis b"
  "is_open_fast (observe ev b) = is_open_fast b" "window (observe ev b) = window b"
  "observed (observe ev b) = observed b @ [ev]" "breaker_state (observe ev b) = breaker_state b"
  by (simp_all add: observe_def breaker_state_def)

lemma breaker_state_cong [simp]:
  "breaker_state (b\<lparr>half_open_probes := n\<rparr>) = breaker_state b"
  "breaker_state (b\<lparr>probe_claimed_at_millis := n\<rparr>) = breaker_state b"
  "breaker_state (b\<lparr>is_open_fast := f\<rparr>) = breaker_state b"
  "breaker_state (b\<lparr>window := w\<rparr>) = breaker_state b"
  "breaker_state (b\<lparr>opened_at_millis := n\<rparr>) = breaker_state b"
  by (simp_all add: breaker_state_def)

lemma probe_inv:
  "breaker_inv b \<Longrightarrow> breaker_state b = HalfOpen \<Longrightarrow> breaker_inv (fst (try_half_open_probe now b))"
  by (auto simp: try_half_open_probe_def breaker_inv_def Let_def transition_path_append)

lemma cas_state_True:
  "cas_state Open HalfOpen b = (b1, True) \<Longrightarrow>
     breaker_state b = Open \<and> b1 = b\<lparr>state_u8 := state_to_u8 HalfOpen\<rparr>"
  by (auto simp: cas_state_def breaker_state_def state_to_u8_def BreakerState_from_u8_def split: if_splits)

lemma cas_state_False: "cas_state Open HalfOpen b = (b1, False) \<Longrightarrow> b1 = b"
  by (auto simp: cas_state_def split: if_splits)

lemma opened_inv:
  "breaker_inv b \<Longrightarrow> breaker_state b = Open \<Longrightarrow>
     breaker_inv (observe (on_state_change Open HalfOpen ''open_elapsed'')
       (b\<lparr>state_u8 := state_to_u8 HalfOpen, is_open_fast := False\<rparr>))"
  by (auto simp: breaker_inv_def transition_path_append breaker_state_def)

lemma check_open_inv:
  assumes "breaker_inv b" "\<And>x. breaker_inv x \<Longrightarrow> breaker_inv (others x)"
  shows "breaker_inv (fst (check_open others now now' b))"
proof -
  obtain b1 won where cas: "cas_state Open HalfOpen (others b) = (b1, won)" by fastforce
  have ob: "breaker_inv (others b)" using assms by blast
  show ?thesis
  proof (cases won)
    case True
    with cas have st: "breaker_state (others b) = Open"
      and b1: "b1 = (others b)\<lparr>state_u8 := state_to_u8 HalfOpen\<rparr>"
      by (auto dest: cas_state_True)
    have "breaker_inv (observe (on_state_change Open HalfOpen ''open_elapsed'') (b1\<lparr>is_open_fast := False\<rparr>))"
      using opened_inv [OF ob st] by (simp add: b1)
    then show ?thesis using True cas assms(1)
      by (auto simp: check_open_def Let_def b1 intro!: probe_inv)
  next
    case False
    with cas have "b1 = others b" by (auto dest: cas_state_False)
    with False cas ob assms(1) show ?thesis
      by (auto simp: check_open_def Let_def probe_inv split: BreakerState.split)
  qed
qed

lemma check_inv:
  assumes "breaker_inv b" "\<And>x. breaker_inv x \<Longrightarrow> breaker_inv (others x)"
  shows "breaker_inv (fst (CircuitBreaker_check others now now' b))"
  using assms check_open_inv [OF assms] probe_inv [OF assms(1)]
  by (auto simp: CircuitBreaker_check_def split: BreakerState.split)

lemma push_sample_inv: "breaker_inv b \<Longrightarrow> breaker_inv (push_sample f now b)"
  by (auto simp: push_sample_def breaker_inv_def push_window_inv evict_window_inv)

lemma trip_inv:
  "breaker_inv b \<Longrightarrow> (breaker_state b, r) \<in> {(Closed, ''trip''), (HalfOpen, ''probe_failure'')} \<Longrightarrow>
     breaker_inv (trip (breaker_state b) r now b)"
  by (auto simp: trip_def breaker_inv_def transition_path_append breaker_state_def)

lemma close_inv:
  "breaker_inv b \<Longrightarrow> breaker_state b = HalfOpen \<Longrightarrow> breaker_inv (close_breaker HalfOpen ''probe_success'' b)"
  by (auto simp: close_breaker_def breaker_inv_def transition_path_append breaker_state_def clear_window_inv)

lemma observe_outcome_inv: "breaker_inv b \<Longrightarrow> breaker_inv (observe (on_outcome u s) b)"
  by (auto simp: breaker_inv_def transition_path_append)

lemma push_sample_state [simp]: "breaker_state (push_sample f now b) = breaker_state b"
  by (simp add: push_sample_def)

lemma record_inv: "breaker_inv b \<Longrightarrow> breaker_inv (CircuitBreaker_record u now now' b)"
  using push_sample_inv [of b "u = Failure" now] trip_inv [of b "''probe_failure''" now'] close_inv [of b]
    trip_inv [of "push_sample (u = Failure) now b" "''trip''" now']
  by (auto simp: CircuitBreaker_record_def Let_def observe_outcome_inv split: BreakerState.split)

lemma error_rate_inv: "breaker_inv b \<Longrightarrow> breaker_inv (fst (CircuitBreaker_error_rate now b))"
  by (auto simp: CircuitBreaker_error_rate_def breaker_inv_def Let_def evict_window_inv)

lemma force_half_open_inv: "breaker_inv b \<Longrightarrow> breaker_inv (force_half_open b)"
  by (cases "breaker_state b")
     (auto simp: force_half_open_def breaker_inv_def transition_path_append Let_def breaker_state_def)

lemma breaker_steps_inv:
  "breaker_inv b \<Longrightarrow> breaker_inv (breaker_step c b)"
  "breaker_inv b \<Longrightarrow> breaker_inv (breaker_steps cs b)"
proof (induction c b and cs b rule: breaker_step_breaker_steps.induct)
qed (auto intro: check_inv record_inv error_rate_inv force_half_open_inv)

interpretation breaker: op_machine "\<lambda>b. \<exists>cfg now. b = CircuitBreaker_with_clock cfg now"
  breaker_step breaker_inv
proof unfold_locales
  fix b
  show "\<exists>cfg now. b = CircuitBreaker_with_clock cfg now \<Longrightarrow> breaker_inv b"
    using win.empty_winv
    by (auto simp: CircuitBreaker_with_clock_def breaker_inv_def breaker_state_def)
qed (rule breaker_steps_inv)

section \<open>Behaviour\<close>

lemma push_entries:
  "entries (SlidingWindow_push f t w) =
     (if MAX_WINDOW_ENTRIES \<le> length (entries w) then tl (entries w) else entries w) @ [(t, f)]"
  by (cases "entries w") (auto simp: SlidingWindow_push_def drop_oldest_def Let_def)

lemma live_last: "live d now (es @ [(now, f)]) = live d now es @ [(now, f)]"
  by (simp add: live_def)

lemma sampled_window:
  assumes "window_inv w" "window_sorted now w" "length (entries w) < MAX_WINDOW_ENTRIES"
  shows "entries (SlidingWindow_evict d now (SlidingWindow_push f now w)) =
      live d now (entries w @ [(now, f)])"
    and "window_inv (SlidingWindow_evict d now (SlidingWindow_push f now w))"
proof -
  have inv: "window_inv (SlidingWindow_push f now w)" using assms(1) by (rule push_window_inv)
  moreover have "sorted (map fst (entries (SlidingWindow_push f now w)))"
    using push_window_sorted [OF assms(2)] by (simp add: window_sorted_def)
  ultimately show "entries (SlidingWindow_evict d now (SlidingWindow_push f now w)) =
      live d now (entries w @ [(now, f)])"
    using assms(3) by (simp add: samples_evict_live push_entries)
  show "window_inv (SlidingWindow_evict d now (SlidingWindow_push f now w))"
    using inv by (rule evict_window_inv)
qed

lemma half_threshold_trips:
  assumes "window_inv w" "entries w \<noteq> []"
  shows "1 / 2 \<le> SlidingWindow_error_rate w \<longleftrightarrow> length (entries w) \<le> 2 * failing (entries w)"
  using win.rate_ge_half [OF assms] assms(2) by (simp only: SlidingWindow_error_rate_def if_False)

lemma trip_state [simp]: "breaker_state (trip prev r now b) = Open"
  by (simp add: trip_def breaker_state_def Let_def)

lemma record_closed_state:
  assumes "enabled (config b)" "breaker_state b = Closed"
  shows "breaker_state (CircuitBreaker_record u now now' b) =
    (if should_trip (push_sample (u = Failure) now b) then Open else Closed)"
  using assms by (simp add: CircuitBreaker_record_def Let_def)

lemma elapsed_millis_fields:
  "baseline b' = baseline b \<Longrightarrow> elapsed_millis b' now = elapsed_millis b now"
  by (simp add: elapsed_millis_def)

fun run_checks :: "nat list \<Rightarrow> CircuitBreaker \<Rightarrow> CircuitBreaker \<times> (BreakerOpen + unit) list" where
  "run_checks [] b = (b, [])"
| "run_checks (t # ts) b =
     (let (b1, r) = CircuitBreaker_check id t t b; (b2, rs) = run_checks ts b1 in (b2, r # rs))"

definition admitted :: "(BreakerOpen + unit) list \<Rightarrow> nat" where
  "admitted rs = length (filter (\<lambda>r. r = Ok ()) rs)"

lemma admitted_simps [simp]:
  "admitted [] = 0" "admitted (Ok () # rs) = Suc (admitted rs)" "admitted (Err e # rs) = admitted rs"
  by (simp_all add: admitted_def)

lemma probe_claims:
  assumes "half_open_probes b < half_open_max_probes (config b)"
  shows "try_half_open_probe t b = (observe (on_probe_admission True)
      (b\<lparr>half_open_probes := half_open_probes b + 1, probe_claimed_at_millis := elapsed_millis b t\<rparr>), Ok ())"
  using assms by (simp add: try_half_open_probe_def)

lemma probe_rejects:
  assumes "\<not> half_open_probes b < half_open_max_probes (config b)"
    and "elapsed_millis b t - probe_claimed_at_millis b < as_millis (open_duration (config b))"
  shows "try_half_open_probe t b = (observe (on_probe_admission False) b,
      Err \<lparr>retry_after = min HALF_OPEN_PROBE_BACKOFF (open_duration (config b))\<rparr>)"
  using assms by (simp add: try_half_open_probe_def)

lemma check_half_open:
  "enabled (config b) \<Longrightarrow> breaker_state b = HalfOpen \<Longrightarrow>
     CircuitBreaker_check others t t' b = try_half_open_probe t b"
  by (simp add: CircuitBreaker_check_def)

lemma lease_running: "T \<le> c \<Longrightarrow> T \<le> e \<Longrightarrow> e < T + l \<Longrightarrow> e - c < (l::nat)"
  by linarith

lemma run_checks_admits:
  assumes "enabled (config b)" "breaker_state b = HalfOpen"
    and "half_open_probes b \<le> half_open_max_probes (config b)"
    and "half_open_probes b = half_open_max_probes (config b) \<longrightarrow> T \<le> probe_claimed_at_millis b"
    and "\<forall>t\<in>set ts. T \<le> elapsed_millis b t \<and> elapsed_millis b t < T + as_millis (open_duration (config b))"
  shows "admitted (snd (run_checks ts b)) =
    min (length ts) (half_open_max_probes (config b) - half_open_probes b)"
  using assms
proof (induction ts arbitrary: b)
  case (Cons t ts)
  show ?case
  proof (cases "half_open_probes b < half_open_max_probes (config b)")
    case True
    define b1 where "b1 = observe (on_probe_admission True)
      (b\<lparr>half_open_probes := half_open_probes b + 1, probe_claimed_at_millis := elapsed_millis b t\<rparr>)"
    have same: "elapsed_millis b1 = elapsed_millis b" by (simp add: b1_def elapsed_millis_def fun_eq_iff observe_def)
    have st: "config b1 = config b" "breaker_state b1 = breaker_state b"
      "half_open_probes b1 = Suc (half_open_probes b)" "probe_claimed_at_millis b1 = elapsed_millis b t"
      by (simp_all add: b1_def breaker_state_def observe_def)
    have c: "CircuitBreaker_check id t t b = (b1, Ok ())"
      using True Cons.prems by (simp add: check_half_open probe_claims b1_def)
    have "admitted (snd (run_checks ts b1)) =
        min (length ts) (half_open_max_probes (config b1) - half_open_probes b1)"
      using Cons.prems True by (intro Cons.IH) (simp_all add: same st)
    then show ?thesis using True
      by (auto simp: c st Let_def split: prod.split)
  next
    case False
    define b1 where "b1 = observe (on_probe_admission False) b"
    have same: "elapsed_millis b1 = elapsed_millis b" by (simp add: b1_def elapsed_millis_def fun_eq_iff observe_def)
    have st: "config b1 = config b" "breaker_state b1 = breaker_state b"
      "half_open_probes b1 = half_open_probes b" "probe_claimed_at_millis b1 = probe_claimed_at_millis b"
      by (simp_all add: b1_def breaker_state_def observe_def)
    have full: "half_open_probes b = half_open_max_probes (config b)" using False Cons.prems(3) by simp
    have "elapsed_millis b t - probe_claimed_at_millis b < as_millis (open_duration (config b))"
      using Cons.prems(4,5) full by (intro lease_running [of T]) auto
    then have c: "CircuitBreaker_check id t t b =
        (b1, Err \<lparr>retry_after = min HALF_OPEN_PROBE_BACKOFF (open_duration (config b))\<rparr>)"
      using False Cons.prems by (simp add: check_half_open probe_rejects b1_def)
    have "admitted (snd (run_checks ts b1)) =
        min (length ts) (half_open_max_probes (config b1) - half_open_probes b1)"
      using Cons.prems full by (intro Cons.IH) (simp_all add: same st)
    then show ?thesis using full
      by (auto simp: c st Let_def split: prod.split)
  qed
qed simp

lemma elapsed_after:
  assumes "baseline b \<le> now" "(now + d - baseline b) div 10 ^ 6 < 2 ^ 64" "d = k * 10 ^ 6"
  shows "elapsed_millis b (now + d) = elapsed_millis b now + k"
proof -
  have "now + d - baseline b = (now - baseline b) + k * 10 ^ 6" using assms(1,3) by simp
  then have sum: "(now + d - baseline b) div 10 ^ 6 = (now - baseline b) div 10 ^ 6 + k"
    by (simp del: power_numeral)
  with assms(2) have "(now - baseline b) div 10 ^ 6 < 2 ^ 64" by simp
  with sum assms(2) show ?thesis by (simp only: elapsed_millis_def mod_less)
qed

lemma probe_after_lease:
  "as_millis (open_duration (config b)) \<le> elapsed_millis b t - probe_claimed_at_millis b \<Longrightarrow>
     snd (try_half_open_probe t b) = Ok ()"
  by (simp add: try_half_open_probe_def Let_def)

lemma check_open_elapsed:
  assumes "breaker_inv b" "breaker_state b = Open"
    and "open_duration (config b) \<le> from_millis (elapsed_millis b t - opened_at_millis b)"
  shows "snd (check_open id t t' b) = Ok ()"
proof -
  have "state_u8 b = state_to_u8 Open"
    using assms(1,2) by (auto simp: breaker_inv_def breaker_state_def BreakerState_from_u8_def state_to_u8_def split: if_splits)
  moreover have "half_open_probes b < half_open_max_probes (config b)"
    using assms(1,2) by (auto simp: breaker_inv_def)
  ultimately show ?thesis using assms(3)
    by (simp add: check_open_def cas_state_def probe_claims Let_def)
qed

definition sample_breaker :: "nat \<Rightarrow> CircuitBreaker" where
  "sample_breaker s = (CircuitBreaker_with_clock BreakerConfig_server 0)
     \<lparr>state_u8 := s, is_open_fast := (s = 1),
      observed := (if s = 1 then [on_state_change Closed Open ''trip''] else
                   if s = 2 then [on_state_change Closed Open ''trip'',
                                  on_state_change Open HalfOpen ''open_elapsed''] else [])\<rparr>"

lemma sample_breaker_inv: "s \<le> 2 \<Longrightarrow> breaker_inv (sample_breaker s)"
  using win.empty_winv
  by (cases s rule: nat.exhaust; cases "s - 1")
     (auto simp: sample_breaker_def breaker_inv_def CircuitBreaker_with_clock_def breaker_state_def
      BreakerState_from_u8_def state_to_u8_def BreakerConfig_server_def)

section \<open>Properties\<close>

text \<open>
  C26: after any calls on a fresh breaker that run one after the other (a check may in addition be overtaken by
  whole calls of others between its load of the opening time and its compare-and-swap) the lock-free mirror
  agrees with the state, no more than \<open>half_open_max_probes\<close> slots are held and none outside \<open>HalfOpen\<close>,
  the window's counter is exact and bounded, and the state changes reported to the observer form a path
  of the state machine from \<open>Closed\<close> to the current state. For callers that overlap elsewhere the mirror, the
  slots and the path can be wrong (\<open>Breaker_Conc\<close>).
\<close>

theorem breaker_reachable_inv:
  "breaker_inv (fold breaker_step calls (CircuitBreaker_with_clock cfg now))"
  by (rule breaker.reach_inv) blast

text \<open>
  a breaker with a threshold of one half, the value of both presets, leaves \<open>Closed\<close> on a
  recorded outcome exactly when the samples still inside the window, the new one included, are at
  least \<open>min_samples\<close> and at least half of them failed; the rounding of the quotient plays no part.
\<close>

lemma record_trips_iff:
  fixes b :: CircuitBreaker and u :: Outcome and now now' :: nat
  assumes "breaker_inv b" and "enabled (config b)" and "breaker_state b = Closed"
    and "error_rate_threshold (config b) = 1 / 2"
    and "window_sorted now (window b)" and "length (entries (window b)) < MAX_WINDOW_ENTRIES"
  defines "es \<equiv> live (window_duration (config b)) now (entries (window b) @ [(now, u = Failure)])"
  shows "breaker_state (CircuitBreaker_record u now now' b) =
    (if min_samples (config b) \<le> length es \<and> length es \<le> 2 * failing es then Open else Closed)"
proof -
  let ?w = "SlidingWindow_evict (window_duration (config b)) now (SlidingWindow_push (u = Failure) now (window b))"
  have "window_inv (window b)" using assms(1) by (simp add: breaker_inv_def)
  note w = sampled_window [OF this assms(5,6), of "window_duration (config b)" "u = Failure"]
  have ne: "entries ?w \<noteq> []" by (simp add: w(1) live_last)
  have "should_trip (push_sample (u = Failure) now b) \<longleftrightarrow>
      min_samples (config b) \<le> length es \<and> length es \<le> 2 * failing es"
    using half_threshold_trips [OF w(2) ne]
    unfolding should_trip_def push_sample_def SlidingWindow_sample_count_def es_def
    by (simp add: w(1) assms(4) del: le_divide_eq_numeral1 divide_le_eq_numeral1)
  then show ?thesis by (simp add: record_closed_state assms(2,3))
qed

theorem record_trips_iff_witness:
  "breaker_state (CircuitBreaker_record Failure 5 5
      (CircuitBreaker_with_clock (BreakerConfig_client\<lparr>min_samples := 1\<rparr>) 0)) = Open"
proof -
  let ?b = "CircuitBreaker_with_clock (BreakerConfig_client\<lparr>min_samples := 1\<rparr>) 0"
  have "breaker_inv ?b" using breaker.start_inv by blast
  from record_trips_iff [OF this, of 5 Failure 5] show ?thesis
    by (simp add: CircuitBreaker_with_clock_def BreakerConfig_client_def breaker_state_def
        BreakerState_from_u8_def state_to_u8_def SlidingWindow_new_def window_sorted_def
        MAX_WINDOW_ENTRIES_def live_def)
qed

text \<open>
  in \<open>HalfOpen\<close>, checks that all fall within one lease admit exactly the free probe slots and
  reject the rest.
\<close>

lemma half_open_admits_free_slots:
  assumes "breaker_inv b" and "enabled (config b)" and "breaker_state b = HalfOpen"
    and "half_open_probes b = half_open_max_probes (config b) \<longrightarrow> T \<le> probe_claimed_at_millis b"
    and "\<forall>t\<in>set ts. T \<le> elapsed_millis b t \<and> elapsed_millis b t < T + as_millis (open_duration (config b))"
  shows "admitted (snd (run_checks ts b)) =
    min (length ts) (half_open_max_probes (config b) - half_open_probes b)"
  using assms by (intro run_checks_admits) (auto simp: breaker_inv_def)

theorem half_open_admits_free_slots_witness:
  "admitted (snd (run_checks [0, 5000000, 9000000] (sample_breaker 2))) = 1"
proof -
  have "enabled (config (sample_breaker 2))" "breaker_state (sample_breaker 2) = HalfOpen"
    by (simp_all add: sample_breaker_def CircuitBreaker_with_clock_def BreakerConfig_server_def
        breaker_state_def BreakerState_from_u8_def)
  from half_open_admits_free_slots [OF sample_breaker_inv this, of 0 "[0, 5000000, 9000000]"]
  show ?thesis
    by (simp add: sample_breaker_def CircuitBreaker_with_clock_def BreakerConfig_server_def
        elapsed_millis_def as_millis_def secs_def)
qed

text \<open>
  C27: the breaker never strands. Whatever its state at a time \<open>now\<close> not before the last opening
  and the last probe claim, a check one \<open>open_duration\<close> later is admitted, even when the owner of
  the last probe never reported. (\<open>open_duration\<close> in whole milliseconds, as every preset has it, and
  no other caller racing the check.)
\<close>

theorem breaker_never_strands:
  assumes "breaker_inv b" and "open_duration (config b) = k * 10 ^ 6" and "k < 2 ^ 64"
    and "baseline b \<le> now" and "(now + open_duration (config b) - baseline b) div 10 ^ 6 < 2 ^ 64"
    and "opened_at_millis b \<le> elapsed_millis b now"
    and "probe_claimed_at_millis b \<le> elapsed_millis b now"
  shows "snd (CircuitBreaker_check id (now + open_duration (config b)) t' b) = Ok ()"
proof -
  let ?t = "now + open_duration (config b)"
  have el: "elapsed_millis b ?t = elapsed_millis b now + k"
    using assms(4,5,2) by (rule elapsed_after)
  have open_ok: "snd (check_open id ?t t' b) = Ok ()" if "breaker_state b = Open"
    using assms(1) that by (rule check_open_elapsed) (use el assms(2,6) in \<open>simp add: from_millis_def\<close>)
  have "as_millis (open_duration (config b)) = k"
    using assms(2,3) by (simp add: as_millis_def)
  then have half_ok: "snd (try_half_open_probe ?t b) = Ok ()"
    using el assms(7) by (intro probe_after_lease) simp
  show ?thesis using open_ok half_ok
    by (auto simp: CircuitBreaker_check_def split: BreakerState.split)
qed

theorem breaker_never_strands_witness:
  "snd (CircuitBreaker_check id 10000000000 10000000000 (sample_breaker 1)) = Ok ()"
proof -
  have od: "open_duration (config (sample_breaker 1)) = 10000 * 10 ^ 6"
    by (simp add: sample_breaker_def CircuitBreaker_with_clock_def BreakerConfig_server_def secs_def)
  have fields: "baseline (sample_breaker 1) = 0" "opened_at_millis (sample_breaker 1) = 0"
    "probe_claimed_at_millis (sample_breaker 1) = 0"
    by (simp_all add: sample_breaker_def CircuitBreaker_with_clock_def)
  from breaker_never_strands [OF sample_breaker_inv od, of 0 10000000000] show ?thesis
    by (simp add: od fields del: One_nat_def)
qed

text \<open>
  while the cool-down runs the breaker sheds every request, changes nothing, and the
  advertised delay is positive and at most the cool-down; the other callers play no part.
\<close>

lemma open_sheds:
  assumes "enabled (config b)" and "breaker_state b = Open"
    and "from_millis (elapsed_millis b now - opened_at_millis b) < open_duration (config b)"
  shows "\<exists>d. CircuitBreaker_check others now now' b = (b, Err \<lparr>retry_after = d\<rparr>) \<and>
    0 < d \<and> d \<le> open_duration (config b)"
  using assms by (simp add: CircuitBreaker_check_def check_open_def Let_def)

theorem open_sheds_witness:
  "\<exists>d. CircuitBreaker_check id 5 5 (sample_breaker 1) = (sample_breaker 1, Err \<lparr>retry_after = d\<rparr>) \<and>
    0 < d \<and> d \<le> secs 10"
  using open_sheds [of "sample_breaker 1" 5 id 5]
  by (simp add: sample_breaker_def CircuitBreaker_with_clock_def BreakerConfig_server_def secs_def
      elapsed_millis_def from_millis_def breaker_state_def BreakerState_from_u8_def)

text \<open>
  whatever the environment holds, the configuration read from it admits at least one probe
  and counts at least one status as a failure; with no variable set it is the server preset.
\<close>

lemma from_lookup_well_formed:
  "1 \<le> half_open_max_probes (from_lookup_with_prefix pf pre get) \<and>
   failure_codes (from_lookup_with_prefix pf pre get) \<noteq> {} \<and>
   from_lookup_with_prefix pf pre (\<lambda>_. None) = BreakerConfig_server"
  by (auto simp: from_lookup_with_prefix_def lookup_or_def BreakerConfig_server_def Let_def
      default_failure_codes_def split: option.split)

text \<open>
  an enabled registry hands out one breaker per key: asking again returns the same breaker
  and leaves the registry as it is, and other keys keep theirs.
\<close>

lemma registry_get_stable:
  assumes "enabled (reg_config r)"
  shows "\<exists>cb. snd (Registry_get key t r) = Some cb \<and>
    Registry_get key t' (fst (Registry_get key t r)) = (fst (Registry_get key t r), Some cb) \<and>
    (\<forall>other. other = key \<or> map_of (breakers (fst (Registry_get key t r))) other = map_of (breakers r) other)"
  using assms by (auto simp: Registry_get_def Let_def update_conv split: option.split)

theorem registry_get_stable_witness:
  "\<exists>cb. snd (Registry_get [97] 0 (Registry_new BreakerConfig_server)) = Some cb \<and>
    snd (Registry_get [97] 7 (fst (Registry_get [97] 0 (Registry_new BreakerConfig_server)))) = Some cb"
proof -
  have "enabled (reg_config (Registry_new BreakerConfig_server))"
    by (simp add: Registry_new_def BreakerConfig_server_def)
  from registry_get_stable [OF this, of "[97]" 0 7] show ?thesis by auto
qed

end
