(* ===== verification/Breaker_Conc.thy ===== *)
theory Breaker_Conc
  imports Breaker
begin

text \<open>
  Overlapping callers of the circuit breaker (\<open>xai-circuit-breaker/src/breaker.rs\<close>). The shared cells are
  separate atomics and one mutex, so a call is a sequence of accesses and other callers run between them.
  Here a caller is a program point with its local variables, \<open>atomic\<close> performs its next access (a load, a
  store, a fetch-and-add, a compare-and-swap, one locked section of the window, one call of the observer),
  and a schedule is the list of callers that move. Accesses are sequentially consistent, which is stronger
  than the release and acquire orderings of the source.

  A caller that is not interrupted does what the definitions of \<open>Breaker\<close> say. Under every interleaving the
  state stays one of the three, the window stays exact and bounded and the configuration is untouched; and
  checks alone, within one lease, never admit more than the free probe slots. What does not survive
  interleaving is shown by four schedules at the end.
\<close>

section \<open>Callers\<close>

datatype answer =
    Answered "BreakerOpen + unit"
  | Recorded
  | Rated rat
  | Forced

text \<open>Clock readings still to come are arguments of the program points, as in \<open>Breaker\<close>.\<close>

datatype caller =
    Check_state nat nat
  | Open_opened nat nat
  | Open_cas nat
  | Open_fast nat
  | Open_note nat
  | Lost_state nat
  | Lost_opened nat
  | Probe_add nat
  | Probe_claim nat
  | Probe_sub nat
  | Probe_claimed nat
  | Probe_cas nat nat
  | Probe_note "BreakerOpen + unit"
  | Record_state Outcome nat nat
  | Record_window Outcome nat nat BreakerState
  | Trip_state BreakerState string nat Outcome
  | Trip_opened BreakerState string nat Outcome
  | Trip_probes BreakerState string Outcome
  | Trip_fast BreakerState string Outcome
  | Trip_note BreakerState string Outcome
  | Close_state BreakerState string Outcome
  | Close_window BreakerState string Outcome
  | Close_probes BreakerState string Outcome
  | Close_fast BreakerState string Outcome
  | Close_note BreakerState string Outcome
  | Record_new Outcome
  | Record_note Outcome BreakerState
  | Rate_window nat
  | Force_state
  | Force_store BreakerState
  | Force_fast BreakerState
  | Force_probes BreakerState
  | Force_note BreakerState
  | Done answer

fun check_access :: "caller \<Rightarrow> CircuitBreaker \<Rightarrow> CircuitBreaker \<times> caller" where
  "check_access (Check_state now now') b =
     (b, if \<not> enabled (config b) then Done (Answered (Ok ()))
         else case breaker_state b of
                Closed \<Rightarrow> Done (Answered (Ok ()))
              | Open \<Rightarrow> Open_opened now now'
              | HalfOpen \<Rightarrow> Probe_add now)"
| "check_access (Open_opened now now') b =
     (let od = open_duration (config b);
          elapsed = from_millis (elapsed_millis b now - opened_at_millis b)
      in (b, if od \<le> elapsed then Open_cas now' else Done (Answered (Err \<lparr>retry_after = od - elapsed\<rparr>))))"
| "check_access (Open_cas now') b =
     (case cas_state Open HalfOpen b of
        (b1, True) \<Rightarrow> (b1, Open_fast now')
      | (b1, False) \<Rightarrow> (b1, Lost_state now'))"
| "check_access (Open_fast now') b = (b\<lparr>is_open_fast := False\<rparr>, Open_note now')"
| "check_access (Open_note now') b = (observe (on_state_change Open HalfOpen ''open_elapsed'') b, Probe_add now')"
| "check_access (Lost_state now') b =
     (b, case breaker_state b of
           Closed \<Rightarrow> Done (Answered (Ok ()))
         | HalfOpen \<Rightarrow> Probe_add now'
         | Open \<Rightarrow> Lost_opened now')"
| "check_access (Lost_opened now') b =
     (b, Done (Answered (Err \<lparr>retry_after =
        open_duration (config b) - from_millis (elapsed_millis b now' - opened_at_millis b)\<rparr>)))"
| "check_access c b = (b, c)"

fun probe_access :: "caller \<Rightarrow> CircuitBreaker \<Rightarrow> CircuitBreaker \<times> caller" where
  "probe_access (Probe_add now) b =
     (let prev = half_open_probes b; t = elapsed_millis b now
      in (b\<lparr>half_open_probes := (prev + 1) mod 2 ^ 64\<rparr>,
          if prev < half_open_max_probes (config b) then Probe_claim t else Probe_sub t))"
| "probe_access (Probe_claim t) b = (b\<lparr>probe_claimed_at_millis := t\<rparr>, Probe_note (Ok ()))"
| "probe_access (Probe_sub t) b =
     (b\<lparr>half_open_probes := (half_open_probes b + (2 ^ 64 - 1)) mod 2 ^ 64\<rparr>, Probe_claimed t)"
| "probe_access (Probe_claimed t) b =
     (b, if as_millis (open_duration (config b)) \<le> t - probe_claimed_at_millis b
         then Probe_cas t (probe_claimed_at_millis b)
         else Probe_note (Err \<lparr>retry_after = min HALF_OPEN_PROBE_BACKOFF (open_duration (config b))\<rparr>))"
| "probe_access (Probe_cas t claimed) b =
     (if probe_claimed_at_millis b = claimed then (b\<lparr>probe_claimed_at_millis := t\<rparr>, Probe_note (Ok ()))
      else (b, Probe_note (Err \<lparr>retry_after = min HALF_OPEN_PROBE_BACKOFF (open_duration (config b))\<rparr>)))"
| "probe_access (Probe_note r) b = (observe (on_probe_admission (r = Ok ())) b, Done (Answered r))"
| "probe_access c b = (b, c)"

fun record_access :: "caller \<Rightarrow> CircuitBreaker \<Rightarrow> CircuitBreaker \<times> caller" where
  "record_access (Record_state u now now') b =
     (b, if \<not> enabled (config b) then Done Recorded
         else case breaker_state b of
                HalfOpen \<Rightarrow> (if u = Failure then Trip_state HalfOpen ''probe_failure'' now' u
                              else Close_state HalfOpen ''probe_success'' u)
              | prev \<Rightarrow> Record_window u now now' prev)"
| "record_access (Record_window u now now' prev) b =
     (let b1 = push_sample (u = Failure) now b
      in (b1, if prev = Closed \<and> should_trip b1 then Trip_state prev ''trip'' now' u else Record_new u))"
| "record_access (Record_new u) b = (b, Record_note u (breaker_state b))"
| "record_access (Record_note u s) b = (observe (on_outcome u s) b, Done Recorded)"
| "record_access c b = (b, c)"

fun trip_access :: "caller \<Rightarrow> CircuitBreaker \<Rightarrow> CircuitBreaker \<times> caller" where
  "trip_access (Trip_state prev reason now' u) b = (b\<lparr>state_u8 := state_to_u8 Open\<rparr>, Trip_opened prev reason now' u)"
| "trip_access (Trip_opened prev reason now' u) b =
     (b\<lparr>opened_at_millis := elapsed_millis b now'\<rparr>, Trip_probes prev reason u)"
| "trip_access (Trip_probes prev reason u) b = (b\<lparr>half_open_probes := 0\<rparr>, Trip_fast prev reason u)"
| "trip_access (Trip_fast prev reason u) b =
     (b\<lparr>is_open_fast := True\<rparr>, if prev \<noteq> Open then Trip_note prev reason u else Record_new u)"
| "trip_access (Trip_note prev reason u) b = (observe (on_state_change prev Open reason) b, Record_new u)"
| "trip_access c b = (b, c)"

fun close_access :: "caller \<Rightarrow> CircuitBreaker \<Rightarrow> CircuitBreaker \<times> caller" where
  "close_access (Close_state prev reason u) b = (b\<lparr>state_u8 := state_to_u8 Closed\<rparr>, Close_window prev reason u)"
| "close_access (Close_window prev reason u) b =
     (b\<lparr>window := SlidingWindow_clear (window b)\<rparr>, Close_probes prev reason u)"
| "close_access (Close_probes prev reason u) b = (b\<lparr>half_open_probes := 0\<rparr>, Close_fast prev reason u)"
| "close_access (Close_fast prev reason u) b =
     (b\<lparr>is_open_fast := False\<rparr>, if prev \<noteq> Closed then Close_note prev reason u else Record_new u)"
| "close_access (Close_note prev reason u) b = (observe (on_state_change prev Closed reason) b, Record_new u)"
| "close_access c b = (b, c)"

fun rate_access :: "caller \<Rightarrow> CircuitBreaker \<Rightarrow> CircuitBreaker \<times> caller" where
  "rate_access (Rate_window now) b =
     (case CircuitBreaker_error_rate now b of (b1, r) \<Rightarrow> (b1, Done (Rated r)))"
| "rate_access c b = (b, c)"

fun force_access :: "caller \<Rightarrow> CircuitBreaker \<Rightarrow> CircuitBreaker \<times> caller" where
  "force_access Force_state b = (b, Force_store (breaker_state b))"
| "force_access (Force_store prev) b = (b\<lparr>state_u8 := state_to_u8 HalfOpen\<rparr>, Force_fast prev)"
| "force_access (Force_fast prev) b = (b\<lparr>is_open_fast := False\<rparr>, Force_probes prev)"
| "force_access (Force_probes prev) b =
     (b\<lparr>half_open_probes := 0\<rparr>, if prev \<noteq> HalfOpen then Force_note prev else Done Forced)"
| "force_access (Force_note prev) b = (observe (on_state_change prev HalfOpen ''force_half_open'') b, Done Forced)"
| "force_access c b = (b, c)"

definition atomic :: "caller \<Rightarrow> CircuitBreaker \<Rightarrow> CircuitBreaker \<times> caller" where
  "atomic c =
     (case c of
        Check_state _ _ \<Rightarrow> check_access | Open_opened _ _ \<Rightarrow> check_access | Open_cas _ \<Rightarrow> check_access
      | Open_fast _ \<Rightarrow> check_access | Open_note _ \<Rightarrow> check_access | Lost_state _ \<Rightarrow> check_access
      | Lost_opened _ \<Rightarrow> check_access
      | Probe_add _ \<Rightarrow> probe_access | Probe_claim _ \<Rightarrow> probe_access | Probe_sub _ \<Rightarrow> probe_access
      | Probe_claimed _ \<Rightarrow> probe_access | Probe_cas _ _ \<Rightarrow> probe_access | Probe_note _ \<Rightarrow> probe_access
      | Record_state _ _ _ \<Rightarrow> record_access | Record_window _ _ _ _ \<Rightarrow> record_access
      | Record_new _ \<Rightarrow> record_access | Record_note _ _ \<Rightarrow> record_access
      | Trip_state _ _ _ _ \<Rightarrow> trip_access | Trip_opened _ _ _ _ \<Rightarrow> trip_access | Trip_probes _ _ _ \<Rightarrow> trip_access
      | Trip_fast _ _ _ \<Rightarrow> trip_access | Trip_note _ _ _ \<Rightarrow> trip_access
      | Close_state _ _ _ \<Rightarrow> close_access | Close_window _ _ _ \<Rightarrow> close_access | Close_probes _ _ _ \<Rightarrow> close_access
      | Close_fast _ _ _ \<Rightarrow> close_access | Close_note _ _ _ \<Rightarrow> close_access
      | Rate_window _ \<Rightarrow> rate_access
      | Force_state \<Rightarrow> force_access | Force_store _ \<Rightarrow> force_access | Force_fast _ \<Rightarrow> force_access
      | Force_probes _ \<Rightarrow> force_access | Force_note _ \<Rightarrow> force_access
      | Done _ \<Rightarrow> (\<lambda>c b. (b, c))) c"

text \<open>The pool: all callers and the shared breaker. A schedule names the callers that move, in turn.\<close>

type_synonym pool = "caller list \<times> CircuitBreaker"

definition move :: "nat \<Rightarrow> pool \<Rightarrow> pool" where
  "move i = (\<lambda>(cs, b). if i < length cs then (case atomic (cs ! i) b of (b', c) \<Rightarrow> (cs[i := c], b')) else (cs, b))"

fun alone :: "nat \<Rightarrow> caller \<Rightarrow> CircuitBreaker \<Rightarrow> CircuitBreaker \<times> caller" where
  "alone 0 c b = (b, c)"
| "alone (Suc n) c b = (case atomic c b of (b', c') \<Rightarrow> alone n c' b')"

section \<open>A caller that is not interrupted\<close>

text \<open>\<open>finishes c b b' a\<close>: left alone with the breaker \<open>b\<close>, the caller \<open>c\<close> ends with answer \<open>a\<close> and leaves \<open>b'\<close>.\<close>

definition finishes :: "caller \<Rightarrow> CircuitBreaker \<Rightarrow> CircuitBreaker \<Rightarrow> answer \<Rightarrow> bool" where
  "finishes c b b' a \<longleftrightarrow> (\<exists>n. alone n c b = (b', Done a))"

lemma alone_Done: "alone n (Done a) b = (b, Done a)"
  by (induction n) (simp_all add: atomic_def)

lemma finishes_Done [simp]: "finishes (Done a) b b' a' \<longleftrightarrow> b' = b \<and> a' = a"
  by (auto simp: finishes_def alone_Done)

lemma finishes_atomic: "finishes c b b' a \<longleftrightarrow> (case atomic c b of (b1, c1) \<Rightarrow> finishes c1 b1 b' a)"
proof
  assume "finishes c b b' a"
  then obtain n where n: "alone n c b = (b', Done a)" by (auto simp: finishes_def)
  show "case atomic c b of (b1, c1) \<Rightarrow> finishes c1 b1 b' a"
  proof (cases n)
    case 0
    then show ?thesis using n by (simp add: atomic_def)
  next
    case (Suc m)
    then show ?thesis using n by (auto simp: finishes_def split: prod.splits)
  qed
next
  assume "case atomic c b of (b1, c1) \<Rightarrow> finishes c1 b1 b' a"
  then obtain n where "(case atomic c b of (b1, c1) \<Rightarrow> alone n c1 b1) = (b', Done a)"
    by (auto simp: finishes_def split: prod.splits)
  then have "alone (Suc n) c b = (b', Done a)" by simp
  then show "finishes c b b' a" unfolding finishes_def by blast
qed

lemmas finishes_probe =
  finishes_atomic [of "Probe_add n" for n] finishes_atomic [of "Probe_claim n" for n]
  finishes_atomic [of "Probe_sub n" for n] finishes_atomic [of "Probe_claimed n" for n]
  finishes_atomic [of "Probe_cas n m" for n m] finishes_atomic [of "Probe_note r" for r]

lemmas finishes_check =
  finishes_atomic [of "Check_state n m" for n m] finishes_atomic [of "Open_opened n m" for n m]
  finishes_atomic [of "Open_cas n" for n] finishes_atomic [of "Open_fast n" for n]
  finishes_atomic [of "Open_note n" for n] finishes_atomic [of "Lost_state n" for n]
  finishes_atomic [of "Lost_opened n" for n]

lemmas finishes_record =
  finishes_atomic [of "Record_state u n m" for u n m] finishes_atomic [of "Record_window u n m p" for u n m p]
  finishes_atomic [of "Record_new u" for u] finishes_atomic [of "Record_note u s" for u s]
  finishes_atomic [of "Trip_state p r n u" for p r n u] finishes_atomic [of "Trip_opened p r n u" for p r n u]
  finishes_atomic [of "Trip_probes p r u" for p r u] finishes_atomic [of "Trip_fast p r u" for p r u]
  finishes_atomic [of "Trip_note p r u" for p r u]
  finishes_atomic [of "Close_state p r u" for p r u] finishes_atomic [of "Close_window p r u" for p r u]
  finishes_atomic [of "Close_probes p r u" for p r u] finishes_atomic [of "Close_fast p r u" for p r u]
  finishes_atomic [of "Close_note p r u" for p r u]

lemmas finishes_other =
  finishes_atomic [of "Rate_window n" for n] finishes_atomic [of Force_state]
  finishes_atomic [of "Force_store p" for p] finishes_atomic [of "Force_fast p" for p]
  finishes_atomic [of "Force_probes p" for p] finishes_atomic [of "Force_note p" for p]

lemma wrap_release:
  fixes n :: nat
  shows "n < 2 ^ 64 \<Longrightarrow> ((n + 1) mod 2 ^ 64 + (2 ^ 64 - 1)) mod 2 ^ 64 = n"
  by (cases "n = 2 ^ 64 - 1") (simp_all add: mod_if)

lemma wrap_sub:
  fixes n :: nat
  shows "0 < n \<Longrightarrow> n < 2 ^ 64 \<Longrightarrow> (n + (2 ^ 64 - 1)) mod 2 ^ 64 + 1 = n"
proof -
  assume n: "0 < n" "n < 2 ^ 64"
  have "n + (2 ^ 64 - 1) = (n - 1) + 2 ^ 64" using n(1) by simp
  moreover have "((n - 1) + 2 ^ 64) mod 2 ^ 64 = n - 1" using n unfolding mod_add_self2 by (intro mod_less) linarith
  ultimately have "(n + (2 ^ 64 - 1)) mod 2 ^ 64 = n - 1" by (simp only:)
  then show ?thesis using n(1) by simp
qed

text \<open>The counters fit their cells, as they do in every reachable state.\<close>

definition fits64 :: "CircuitBreaker \<Rightarrow> bool" where
  "fits64 b \<longleftrightarrow> half_open_probes b < 2 ^ 64 \<and> half_open_max_probes (config b) < 2 ^ 64"

lemma alone_probe:
  assumes "fits64 b" and "try_half_open_probe now b = (b', r)"
  shows "finishes (Probe_add now) b b' (Answered r)"
proof (cases "half_open_probes b < half_open_max_probes (config b)")
  case True
  then have "(half_open_probes b + 1) mod 2 ^ 64 = half_open_probes b + 1" using assms(1) by (simp add: fits64_def)
  then show ?thesis using True assms(2) by (auto simp: finishes_probe atomic_def try_half_open_probe_def Let_def)
next
  case False
  have "half_open_probes b < 2 ^ 64" using assms(1) by (simp add: fits64_def)
  then show ?thesis using False wrap_release [of "half_open_probes b"] assms(2)
    by (auto simp: finishes_probe atomic_def try_half_open_probe_def Let_def elapsed_millis_def split: if_splits)
qed

lemma alone_check:
  assumes "fits64 b" and "CircuitBreaker_check id now now' b = (b', r)"
  shows "finishes (Check_state now now') b b' (Answered r)"
proof -
  have "fits64 (observe e (b\<lparr>state_u8 := s, is_open_fast := f\<rparr>))" for e s f
    using assms(1) by (simp add: fits64_def)
  note probe = alone_probe [OF assms(1)] alone_probe [OF this]
  show ?thesis using assms(2) probe
    by (auto simp: finishes_check atomic_def CircuitBreaker_check_def check_open_def cas_state_def Let_def
        split: if_splits BreakerState.splits)
qed

lemma alone_record: "finishes (Record_state u now now') b (CircuitBreaker_record u now now' b) Recorded"
  by (cases "breaker_state b")
    (auto simp: finishes_record atomic_def CircuitBreaker_record_def trip_def close_breaker_def Let_def elapsed_millis_def)

lemma alone_other:
  "finishes (Rate_window now) b (fst (CircuitBreaker_error_rate now b)) (Rated (snd (CircuitBreaker_error_rate now b)))"
  "finishes Force_state b (force_half_open b) Forced"
  by (auto simp: finishes_other atomic_def force_half_open_def Let_def split: prod.split)

section \<open>Every interleaving\<close>

definition shared_inv :: "BreakerConfig \<Rightarrow> nat \<Rightarrow> CircuitBreaker \<Rightarrow> bool" where
  "shared_inv cfg base b \<longleftrightarrow> state_u8 b \<le> 2 \<and> window_inv (window b) \<and> half_open_probes b < 2 ^ 64 \<and>
     config b = cfg \<and> baseline b = base"

lemma shared_inv_upd [simp]:
  "shared_inv cfg base (observe e b) = shared_inv cfg base b"
  "shared_inv cfg base (b\<lparr>is_open_fast := f\<rparr>) = shared_inv cfg base b"
  "shared_inv cfg base (b\<lparr>opened_at_millis := n\<rparr>) = shared_inv cfg base b"
  "shared_inv cfg base (b\<lparr>probe_claimed_at_millis := n\<rparr>) = shared_inv cfg base b"
  by (simp_all add: shared_inv_def)

lemma shared_inv_store:
  "shared_inv cfg base b \<Longrightarrow> shared_inv cfg base (b\<lparr>state_u8 := state_to_u8 s\<rparr>)"
  "shared_inv cfg base b \<Longrightarrow> k < 2 ^ 64 \<Longrightarrow> shared_inv cfg base (b\<lparr>half_open_probes := k\<rparr>)"
  "shared_inv cfg base b \<Longrightarrow> shared_inv cfg base (b\<lparr>window := SlidingWindow_clear (window b)\<rparr>)"
  "shared_inv cfg base b \<Longrightarrow> shared_inv cfg base (push_sample f now b)"
  "shared_inv cfg base b \<Longrightarrow> shared_inv cfg base (fst (CircuitBreaker_error_rate now b))"
  by (simp_all add: shared_inv_def push_sample_def CircuitBreaker_error_rate_def Let_def
      clear_window_inv push_window_inv evict_window_inv)

lemma shared_inv_atomic: "shared_inv cfg base b \<Longrightarrow> shared_inv cfg base (fst (atomic c b))"
  by (cases c) (auto simp: atomic_def cas_state_def Let_def shared_inv_store case_prod_unfold split: BreakerState.split)

interpretation pool: op_machine "\<lambda>(cs, b). shared_inv cfg base b" move "\<lambda>(cs, b). shared_inv cfg base b" for cfg base
  by unfold_locales (auto simp: move_def case_prod_unfold shared_inv_atomic)

text \<open>
  No interleaving of any number of callers, whatever they call and whenever they read the clock, leaves the
  state outside the three values, makes the window's counter wrong or its length unbounded, or touches the
  configuration.
\<close>

lemma interleaved_inv:
  assumes "fold move schedule (cs, CircuitBreaker_with_clock cfg now) = (cs', b)"
  shows "state_u8 b \<le> 2 \<and> window_inv (window b) \<and> half_open_probes b < 2 ^ 64 \<and>
    config b = cfg\<lparr>half_open_max_probes := max (half_open_max_probes cfg) 1\<rparr> \<and> baseline b = now"
proof -
  let ?cfg = "cfg\<lparr>half_open_max_probes := max (half_open_max_probes cfg) 1\<rparr>"
  have "shared_inv ?cfg now (CircuitBreaker_with_clock cfg now)"
    using win.empty_winv by (simp add: shared_inv_def CircuitBreaker_with_clock_def)
  then have "case fold move schedule (cs, CircuitBreaker_with_clock cfg now) of (cs, b) \<Rightarrow> shared_inv ?cfg now b"
    by (intro pool.run_inv) simp
  then show ?thesis by (simp add: assms shared_inv_def)
qed

section \<open>Concurrent probes\<close>

text \<open>
  The counter of probe slots overshoots while a refused caller has not yet taken its increment back. So it
  counts the callers that hold a slot and those that are about to give one back; a caller is admitted only
  when it saw fewer than the maximum, hence fewer than the maximum of the first kind.
\<close>

fun slot :: "caller \<Rightarrow> nat" where
  "slot (Probe_claim _) = 1"
| "slot (Probe_note r) = (if r = Ok () then 1 else 0)"
| "slot (Done a) = (if a = Answered (Ok ()) then 1 else 0)"
| "slot _ = 0"

fun overshoot :: "caller \<Rightarrow> nat" where
  "overshoot (Probe_sub _) = 1"
| "overshoot _ = 0"

definition held_by :: "(caller \<Rightarrow> nat) \<Rightarrow> caller list \<Rightarrow> nat" where
  "held_by f cs = sum_list (map f cs)"

lemma held_by_update: "i < length cs \<Longrightarrow> held_by f (cs[i := c]) + f (cs ! i) = held_by f cs + f c"
proof (induction cs arbitrary: i)
  case (Cons x cs)
  then show ?case by (cases i) (auto simp: held_by_def)
qed simp

lemma held_by_bound: "held_by slot cs + held_by overshoot cs \<le> length cs"
proof -
  have "slot c + overshoot c \<le> 1" for c by (cases c) auto
  then have "sum_list (map (\<lambda>c. slot c + overshoot c) cs) \<le> sum_list (map (\<lambda>_. 1) cs)" by (intro sum_list_mono) auto
  then show ?thesis by (simp add: held_by_def sum_list_addf sum_list_triv)
qed

text \<open>A check of a half-open breaker whose clock reading, \<open>now\<close> or already \<open>t\<close> milliseconds, is within the lease.\<close>

fun in_lease :: "(nat \<Rightarrow> bool) \<Rightarrow> (nat \<Rightarrow> nat) \<Rightarrow> caller \<Rightarrow> bool" where
  "in_lease ok ms (Check_state now _) = ok (ms now)"
| "in_lease ok ms (Probe_add now) = ok (ms now)"
| "in_lease ok ms (Probe_claim t) = ok t"
| "in_lease ok ms (Probe_sub t) = ok t"
| "in_lease ok ms (Probe_claimed t) = ok t"
| "in_lease ok ms (Probe_note _) = True"
| "in_lease ok ms (Done _) = True"
| "in_lease ok ms _ = False"

definition probing_inv :: "nat \<Rightarrow> nat \<Rightarrow> BreakerConfig \<Rightarrow> nat \<Rightarrow> pool \<Rightarrow> bool" where
  "probing_inv lo k cfg base = (\<lambda>(cs, b).
     enabled cfg \<and> config b = cfg \<and> baseline b = base \<and> breaker_state b = HalfOpen \<and>
     half_open_max_probes cfg + length cs < 2 ^ 64 \<and> lo \<le> probe_claimed_at_millis b \<and>
     list_all (in_lease (\<lambda>t. lo \<le> t \<and> t < lo + as_millis (open_duration cfg)) (elapsed_millis b)) cs \<and>
     half_open_probes b = k + held_by slot cs + held_by overshoot cs \<and> k + held_by slot cs \<le> half_open_max_probes cfg)"

lemma elapsed_cong: "baseline b' = baseline b \<Longrightarrow> elapsed_millis b' = elapsed_millis b"
  by (simp add: elapsed_millis_def fun_eq_iff)

lemma probing_access:
  assumes "probing_inv lo k cfg base (cs, b)" and i: "i < length cs" and step: "atomic (cs ! i) b = (b', c)"
  defines "ok \<equiv> \<lambda>t. lo \<le> t \<and> t < lo + as_millis (open_duration cfg)"
  shows "config b' = cfg \<and> baseline b' = base \<and> breaker_state b' = HalfOpen \<and> lo \<le> probe_claimed_at_millis b' \<and>
    in_lease ok (elapsed_millis b) c \<and>
    half_open_probes b' + slot (cs ! i) + overshoot (cs ! i) = half_open_probes b + slot c + overshoot c \<and>
    (slot c = slot (cs ! i) \<or> half_open_probes b < half_open_max_probes cfg)"
proof -
  have inv: "enabled cfg" "config b = cfg" "baseline b = base" "breaker_state b = HalfOpen"
    "half_open_max_probes cfg + length cs < 2 ^ 64" "lo \<le> probe_claimed_at_millis b"
    "half_open_probes b = k + held_by slot cs + held_by overshoot cs" "k + held_by slot cs \<le> half_open_max_probes cfg"
    and "list_all (in_lease ok (elapsed_millis b)) cs"
    using assms(1) by (simp_all add: probing_inv_def ok_def)
  then have chk: "in_lease ok (elapsed_millis b) (cs ! i)" using i by (simp add: list_all_length)
  show ?thesis
  proof (cases "cs ! i")
    case (Probe_add now)
    have "held_by slot cs + held_by overshoot cs < length cs"
    proof -
      have "held_by slot (cs[i := Probe_claim 0]) + held_by overshoot (cs[i := Probe_claim 0]) \<le> length cs"
        using held_by_bound [of "cs[i := Probe_claim 0]"] by simp
      then show ?thesis using held_by_update [OF i, of slot "Probe_claim 0"] held_by_update [OF i, of overshoot "Probe_claim 0"]
        by (simp add: Probe_add)
    qed
    then have "(half_open_probes b + 1) mod 2 ^ 64 = half_open_probes b + 1" using inv by simp
    then show ?thesis using step chk inv by (auto simp: Probe_add atomic_def Let_def)
  next
    case (Probe_sub t)
    have "0 < held_by overshoot cs" using held_by_update [OF i, of overshoot "Probe_claim 0"] by (simp add: Probe_sub)
    moreover have "half_open_probes b < 2 ^ 64" using inv held_by_bound [of cs] by simp
    ultimately have "(half_open_probes b + (2 ^ 64 - 1)) mod 2 ^ 64 + 1 = half_open_probes b"
      using inv(7) by (intro wrap_sub) simp_all
    then show ?thesis using step chk inv by (auto simp: Probe_sub atomic_def)
  qed (use step chk inv in \<open>auto simp: atomic_def ok_def split: if_splits\<close>)
qed

lemma probing_move: "probing_inv lo k cfg base p \<Longrightarrow> probing_inv lo k cfg base (move i p)"
proof -
  assume inv: "probing_inv lo k cfg base p"
  obtain cs b where p: "p = (cs, b)" by fastforce
  show ?thesis
  proof (cases "i < length cs")
    case True
    obtain b' c where step: "atomic (cs ! i) b = (b', c)" by fastforce
    note acc = probing_access [OF inv [unfolded p] True step]
    note upd = held_by_update [OF True, of slot c] held_by_update [OF True, of overshoot c]
    have "slot c \<le> 1" by (cases c) auto
    then have "k + held_by slot (cs[i := c]) \<le> half_open_max_probes cfg" 
      "half_open_probes b' = k + held_by slot (cs[i := c]) + held_by overshoot (cs[i := c])"
      using acc upd inv by (auto simp: p probing_inv_def)
    then show ?thesis using acc inv elapsed_cong [of b' b] True
      by (auto simp: p probing_inv_def move_def step list_all_length nth_list_update)
  qed (use inv in \<open>simp add: p move_def\<close>)
qed

interpretation probing: op_machine "probing_inv lo k cfg base" move "probing_inv lo k cfg base" for lo k cfg base
  by unfold_locales (simp_all add: probing_move)

text \<open>
  Checks alone cannot admit too many probes: however the accesses of any number of checks on a half-open
  breaker interleave, within one lease of the last recorded claim, no more of them are admitted than there
  are free slots, and when all have ended the counter is exact.
\<close>

lemma concurrent_probes_bounded:
  assumes "enabled (config b)" and "breaker_state b = HalfOpen"
    and "half_open_probes b \<le> half_open_max_probes (config b)"
    and "half_open_max_probes (config b) + length readings < 2 ^ 64"
    and "lo \<le> probe_claimed_at_millis b"
    and "\<forall>(now, now') \<in> set readings. lo \<le> elapsed_millis b now \<and>
           elapsed_millis b now < lo + as_millis (open_duration (config b))"
    and "fold move schedule (map (\<lambda>(now, now'). Check_state now now') readings, b) = (cs, b')"
  defines "admitted_checks \<equiv> length (filter (\<lambda>c. c = Done (Answered (Ok ()))) cs)"
  shows "half_open_probes b + admitted_checks \<le> half_open_max_probes (config b)"
    and "list_all (\<lambda>c. \<exists>a. c = Done a) cs \<Longrightarrow> half_open_probes b' = half_open_probes b + admitted_checks"
proof -
  let ?cs = "map (\<lambda>(now, now'). Check_state now now') readings"
  have "held_by slot ?cs = 0" "held_by overshoot ?cs = 0" by (induction readings) (auto simp: held_by_def)
  then have "probing_inv lo (half_open_probes b) (config b) (baseline b) (?cs, b)"
    using assms(1-6) by (auto simp: probing_inv_def list_all_iff)
  from probing.run_inv [OF this, of schedule]
  have inv: "probing_inv lo (half_open_probes b) (config b) (baseline b) (cs, b')" by (simp add: assms(7))
  have "admitted_checks \<le> held_by slot cs" unfolding admitted_checks_def by (induction cs) (auto simp: held_by_def)
  then show "half_open_probes b + admitted_checks \<le> half_open_max_probes (config b)"
    using inv by (simp add: probing_inv_def)
  assume "list_all (\<lambda>c. \<exists>a. c = Done a) cs"
  then have "held_by slot cs = admitted_checks" "held_by overshoot cs = 0"
    unfolding admitted_checks_def by (induction cs) (auto simp: held_by_def split: if_splits)
  then show "half_open_probes b' = half_open_probes b + admitted_checks" using inv by (simp add: probing_inv_def)
qed

section \<open>What overlapping callers can do\<close>

text \<open>
  Four schedules. The breaker below allows one probe, trips on the first failure and has a cool-down of ten
  milliseconds; \<open>conc_breaker s k t\<close> is in state \<open>s\<close> with \<open>k\<close> slots held, opened at millisecond 0 and last
  claimed at millisecond \<open>t\<close>.
\<close>

definition conc_breaker :: "BreakerState \<Rightarrow> nat \<Rightarrow> nat \<Rightarrow> CircuitBreaker" where
  "conc_breaker s k t =
     (CircuitBreaker_with_clock (BreakerConfig_server\<lparr>min_samples := 1, open_duration := from_millis 10\<rparr>) 0)
       \<lparr>state_u8 := state_to_u8 s, half_open_probes := k, probe_claimed_at_millis := t, is_open_fast := (s = Open)\<rparr>"

lemmas conc_evals = move_def atomic_def conc_breaker_def CircuitBreaker_with_clock_def BreakerConfig_server_def
  breaker_state_def BreakerState_from_u8_def state_to_u8_def observe_def elapsed_millis_def from_millis_def
  as_millis_def push_sample_def should_trip_def SlidingWindow_new_def SlidingWindow_push_def SlidingWindow_evict_def
  SlidingWindow_clear_def SlidingWindow_sample_count_def SlidingWindow_error_rate_def MAX_WINDOW_ENTRIES_def secs_def
  cas_state_def Let_def

text \<open>
  A cool-down that just ended. The first caller has moved the breaker to \<open>HalfOpen\<close> and taken the slot, and
  not yet written its claim time; the second is refused by the counter, reads the old claim time, finds it
  older than the lease and takes the claim over. Both are admitted although one probe is allowed.
\<close>

lemma stale_claim_admits_two:
  "fst (fold move [0, 0, 0, 0, 0, 0, 1, 1, 1, 1, 1, 1, 0, 0]
      ([Check_state (from_millis 20) (from_millis 20), Check_state (from_millis 20) (from_millis 20)], conc_breaker Open 0 0)) =
    [Done (Answered (Ok ())), Done (Answered (Ok ()))] \<and>
   half_open_max_probes (config (conc_breaker Open 0 0)) = 1"
  by (simp add: conc_evals)

text \<open>
  A refused caller takes its increment back after a failing probe has tripped the breaker and reset the
  counter: the counter wraps to \<open>2 ^ 64 - 1\<close> in \<open>Open\<close>, where it is taken to be 0, and no later probe is
  admitted by a free slot.
\<close>

lemma released_after_trip_wraps:
  "case fold move [0, 0, 1, 1, 1, 1, 1, 1, 1, 1, 0]
      ([Check_state (from_millis 5) 0, Record_state Failure 0 (from_millis 5)], conc_breaker HalfOpen 1 0) of
     (cs, b) \<Rightarrow> breaker_state b = Open \<and> half_open_probes b = 2 ^ 64 - 1 \<and> cs ! 1 = Done Recorded"
  by (simp add: conc_evals)

text \<open>Two failures recorded at the same time both see \<open>Closed\<close> and both report the transition to \<open>Open\<close>.\<close>

lemma both_trips_reported:
  "filter (\<lambda>e. case e of on_state_change _ _ _ \<Rightarrow> True | _ \<Rightarrow> False)
     (observed (snd (fold move [0, 1, 0, 0, 0, 0, 0, 0, 0, 0, 1, 1, 1, 1, 1, 1, 1, 1]
       ([Record_state Failure 0 0, Record_state Failure 0 0], conc_breaker Closed 0 0)))) =
   [on_state_change Closed Open ''trip'', on_state_change Closed Open ''trip'']"
proof -
  have "1 / 2 \<le> f64_div (Suc 0) (Suc 0)" "1 / 2 \<le> f64_div (Suc (Suc 0)) (Suc (Suc 0))"
    by (subst f64_div_ge_half; simp)+
  then show ?thesis by (simp add: conc_evals)
qed

text \<open>
  A failing and a succeeding probe end together. The one trips, the other closes; the writes of the mirror
  come in the opposite order of the writes of the state. Both calls have returned, the breaker is \<open>Closed\<close>,
  and \<open>is_open\<close> answers true.
\<close>

lemma mirror_left_open:
  "case fold move [0, 1, 0, 1, 1, 1, 1, 1, 1, 1, 0, 0, 0, 0, 0, 0]
      ([Record_state Failure 0 0, Record_state Success 0 0], conc_breaker HalfOpen 1 0) of
     (cs, b) \<Rightarrow> cs = [Done Recorded, Done Recorded] \<and> breaker_state b = Closed \<and> is_open b"
  by (simp add: conc_evals is_open_def)

end
