(* ===== verification/Retry_Policy.thy ===== *)
theory Retry_Policy
  imports Breaker
begin

text \<open>
  The retry classification of \<open>xai-circuit-breaker\<close>: \<open>RetryPolicy\<close> for HTTP statuses
  (\<open>retry_policy.rs\<close>) with its three presets, and \<open>GrpcRetryPolicy\<close> for gRPC codes
  (\<open>grpc.rs\<close>). The codes of \<open>tonic::Code\<close> are the seventeen of the gRPC standard.
\<close>

section \<open>HTTP\<close>

datatype Disposition = Retryable | AuthRefresh | Terminal

record RetryPolicy =
  rt_retryable :: "nat list"
  rt_auth_refresh :: "nat list"
  rt_terminal :: "nat list"
  rt_default :: Disposition

definition classify :: "RetryPolicy \<Rightarrow> nat \<Rightarrow> Disposition option" where
  "classify p st =
     (if 200 \<le> st \<and> st < 300 then None
      else if st \<in> set (rt_auth_refresh p) then Some AuthRefresh
      else if st \<in> set (rt_terminal p) then Some Terminal
      else if st \<in> set (rt_retryable p) \<or> (500 \<le> st \<and> st < 600) then Some Retryable
      else Some (rt_default p))"

definition should_retry :: "RetryPolicy \<Rightarrow> nat \<Rightarrow> bool" where
  "should_retry p st \<longleftrightarrow> classify p st = Some Retryable"

definition RetryPolicy_server :: RetryPolicy where
  "RetryPolicy_server =
     \<lparr>rt_retryable = [429], rt_auth_refresh = [], rt_terminal = [], rt_default = Terminal\<rparr>"

definition RetryPolicy_edge_client :: RetryPolicy where
  "RetryPolicy_edge_client =
     \<lparr>rt_retryable = [429], rt_auth_refresh = [], rt_terminal = [525, 526], rt_default = Terminal\<rparr>"

definition RetryPolicy_client_storage :: RetryPolicy where
  "RetryPolicy_client_storage =
     \<lparr>rt_retryable = [], rt_auth_refresh = [401], rt_terminal = [400, 403, 404, 525, 526],
      rt_default = Retryable\<rparr>"

section \<open>gRPC\<close>

datatype Code =
    Code_Ok | Cancelled | Unknown | InvalidArgument | DeadlineExceeded | NotFound | AlreadyExists
  | PermissionDenied | ResourceExhausted | FailedPrecondition | Aborted | OutOfRange
  | Unimplemented | Internal | Unavailable | DataLoss | Unauthenticated

record GrpcRetryPolicy =
  grpc_retryable :: "Code list"

definition GrpcRetryPolicy_DEFAULT :: GrpcRetryPolicy where
  "GrpcRetryPolicy_DEFAULT = \<lparr>grpc_retryable = [Unavailable, Unknown]\<rparr>"

definition GrpcRetryPolicy_PERMISSIVE :: GrpcRetryPolicy where
  "GrpcRetryPolicy_PERMISSIVE =
     \<lparr>grpc_retryable = [Unavailable, Unknown, Internal, DeadlineExceeded]\<rparr>"

definition is_retryable :: "GrpcRetryPolicy \<Rightarrow> Code \<Rightarrow> bool" where
  "is_retryable p c \<longleftrightarrow> c \<in> set (grpc_retryable p)"

definition grpc_classify :: "GrpcRetryPolicy \<Rightarrow> Code \<Rightarrow> Disposition option" where
  "grpc_classify p c =
     (if c = Code_Ok then None else if is_retryable p c then Some Retryable else Some Terminal)"

lemmas policy_defs =
  classify_def should_retry_def RetryPolicy_server_def RetryPolicy_edge_client_def
  RetryPolicy_client_storage_def

section \<open>Properties\<close>

text \<open>
  what each preset retries. The edge client retries what the server does except the
  origin-TLS codes 525 and 526; the storage client retries everything but success, its five
  terminal statuses and 401; and every status that the server breaker counts as a failure by
  default is one that all three policies retry.
\<close>

lemma retry_presets:
  "(should_retry RetryPolicy_server st \<longleftrightarrow> st = 429 \<or> (500 \<le> st \<and> st < 600)) \<and>
   (should_retry RetryPolicy_edge_client st \<longleftrightarrow>
      should_retry RetryPolicy_server st \<and> st \<notin> {525, 526}) \<and>
   (should_retry RetryPolicy_client_storage st \<longleftrightarrow>
      \<not> (200 \<le> st \<and> st < 300) \<and> st \<notin> {400, 401, 403, 404, 525, 526}) \<and>
   default_failure_codes \<subseteq> {s. should_retry RetryPolicy_server s \<and>
      should_retry RetryPolicy_edge_client s \<and> should_retry RetryPolicy_client_storage s}"
  unfolding policy_defs default_failure_codes_def by auto

end
