(* ===== verification/Event_Queue.thy ===== *)
theory Event_Queue
  imports Prelude
begin

text \<open>
  \<open>xai-interjection-core\<close>: the shared event queue (\<open>events.rs\<close>), the interjection buffer built
  on it (\<open>buffer.rs\<close>) and the framing of a steered prompt (\<open>format.rs\<close>). Every operation of the
  queue runs under its one mutex, so an execution is a sequence of operations on the vector.
\<close>

section \<open>The queue\<close>

record 'e EventQueue =
  events :: "'e list"



definition push_capped :: "'e \<Rightarrow> nat \<Rightarrow> 'e EventQueue \<Rightarrow> 'e EventQueue" where
  "push_capped e mx q =
     (let v = events q @ [e]
      in q\<lparr>events := (if mx < length v then drop (length v - mx) v else v)\<rparr>)"

definition EventQueue_len :: "'e EventQueue \<Rightarrow> nat" where
  "EventQueue_len q = length (events q)"

definition EventQueue_is_empty :: "'e EventQueue \<Rightarrow> bool" where
  "EventQueue_is_empty q \<longleftrightarrow> events q = []"

definition drain_matching :: "('e \<Rightarrow> bool) \<Rightarrow> 'e EventQueue \<Rightarrow> 'e EventQueue \<times> 'e list" where
  "drain_matching f q =
     (let (matched, kept) = List.partition f (events q) in (q\<lparr>events := kept\<rparr>, matched))"

definition drain_all :: "'e EventQueue \<Rightarrow> 'e EventQueue \<times> 'e list" where
  "drain_all q = (q\<lparr>events := []\<rparr>, events q)"


definition EventQueue_clear :: "'e EventQueue \<Rightarrow> 'e EventQueue" where
  "EventQueue_clear q = q\<lparr>events := []\<rparr>"


section \<open>The contract of a restorable queue\<close>



section \<open>Formatting\<close>

definition LARGE_PROMPT_THRESHOLD :: nat where
  "LARGE_PROMPT_THRESHOLD = 25000"

definition INTERJECTION_NOTE :: rstr where
  "INTERJECTION_NOTE = lit ''The user sent a message while you were working:''"

definition INTERRUPT_NOTE :: rstr where
  "INTERRUPT_NOTE = lit ''The user interrupted the previous turn:''"

definition UNFINISHED_TASKS_REMINDER :: rstr where
  "UNFINISHED_TASKS_REMINDER = lit ''Make sure to complete any unfinished tasks from previous turns.''"

definition user_query :: "rstr \<Rightarrow> rstr" where
  "user_query s = lit ''<user_query>'' @ [10] @ s @ [10] @ lit ''</user_query>''"

definition frame_user_turn :: "rstr \<Rightarrow> rstr \<Rightarrow> rstr" where
  "frame_user_turn note assembled = note @ [10] @ assembled @ [10] @ UNFINISHED_TASKS_REMINDER"

text \<open>\<open>char_indices\<close> pairs every character with its byte offset; a slice \<open>&s[..end]\<close> panics
  (here \<open>None\<close>) when \<open>end\<close> is not a character boundary.\<close>

fun char_indices_from :: "nat \<Rightarrow> rstr \<Rightarrow> (nat \<times> uchar) list" where
  "char_indices_from i [] = []"
| "char_indices_from i (c # s) = (i, c) # char_indices_from (i + len_utf8 c) s"

fun slice_to :: "nat \<Rightarrow> rstr \<Rightarrow> rstr option" where
  "slice_to n [] = (if n = 0 then Some [] else None)"
| "slice_to n (c # s) =
     (if n = 0 then Some []
      else if n < len_utf8 c then None
      else map_option (Cons c) (slice_to (n - len_utf8 c) s))"

definition truncation_end :: "rstr \<Rightarrow> nat" where
  "truncation_end s =
     (let kept = takeWhile (\<lambda>(i, c). i < LARGE_PROMPT_THRESHOLD) (char_indices_from 0 s)
      in if kept = [] then byte_len s else fst (last kept) + len_utf8 (snd (last kept)))"

definition format_steered_query :: "rstr \<Rightarrow> rstr \<Rightarrow> rstr option" where
  "format_steered_query note s =
     map_option (\<lambda>t. frame_user_turn note (user_query t))
       (if byte_len s \<le> LARGE_PROMPT_THRESHOLD then Some s
        else map_option (\<lambda>t. t @ lit ''... [truncated]'') (slice_to (truncation_end s) s))"

definition format_interjection :: "rstr \<Rightarrow> rstr option" where
  "format_interjection s = format_steered_query INTERJECTION_NOTE s"

definition format_interrupt :: "rstr \<Rightarrow> rstr option" where
  "format_interrupt s = format_steered_query INTERRUPT_NOTE s"

record 'a PendingInterjection =
  pi_text :: rstr
  pi_attachments :: "'a list"

record 'a FormattedInterjection =
  fi_text :: rstr
  fi_attachments :: "'a list"

fun collect_options :: "'a option list \<Rightarrow> 'a list option" where
  "collect_options [] = Some []"
| "collect_options (x # xs) =
     (case x of None \<Rightarrow> None | Some a \<Rightarrow> map_option (Cons a) (collect_options xs))"

definition drain_formatted ::
  "(rstr \<Rightarrow> rstr) \<Rightarrow> 'a PendingInterjection EventQueue \<Rightarrow>
   'a PendingInterjection EventQueue \<times> 'a FormattedInterjection list option" where
  "drain_formatted sanitize b =
     (let (b', es) = drain_all b
      in (b', collect_options (map (\<lambda>e.
            map_option (\<lambda>t. \<lparr>fi_text = t, fi_attachments = pi_attachments e\<rparr>)
              (format_interjection (sanitize (pi_text e)))) es)))"

section \<open>Truncation\<close>

lemma slice_to_prefix: "slice_to (byte_len p) (p @ s) = Some p"
proof (induction p)
  case Nil
  then show ?case by (cases s) auto
next
  case (Cons c p)
  then show ?case using len_utf8_bounds(1) [of c] by simp
qed

lemma takeWhile_char_indices:
  "\<exists>p r. s = p @ r \<and> takeWhile (\<lambda>(i, c). i < n) (char_indices_from k s) = char_indices_from k p \<and>
     (r = [] \<or> n \<le> k + byte_len p) \<and> (p = [] \<or> k + byte_len (butlast p) < n)"
proof (induction s arbitrary: k)
  case Nil
  then show ?case by simp
next
  case (Cons c s)
  show ?case
  proof (cases "k < n")
    case True
    obtain p r where p: "s = p @ r"
      "takeWhile (\<lambda>(i, c). i < n) (char_indices_from (k + len_utf8 c) s) = char_indices_from (k + len_utf8 c) p"
      "r = [] \<or> n \<le> k + len_utf8 c + byte_len p" "p = [] \<or> k + len_utf8 c + byte_len (butlast p) < n"
      using Cons.IH [of "k + len_utf8 c"] by blast
    then show ?thesis using True by (intro exI [of _ "c # p"] exI [of _ r]) (auto simp: add.assoc)
  next
    case False
    then show ?thesis by (intro exI [of _ "[]"] exI [of _ "c # s"]) simp
  qed
qed

lemma last_char_indices:
  "p \<noteq> [] \<Longrightarrow> last (char_indices_from k p) = (k + byte_len (butlast p), last p)"
  by (induction p arbitrary: k) (auto simp: add.assoc elim: char_indices_from.elims)

lemma char_indices_Nil [simp]: "char_indices_from k p = [] \<longleftrightarrow> p = []"
  by (cases p) auto

lemma truncation_prefix:
  assumes "LARGE_PROMPT_THRESHOLD < byte_len s"
  shows "\<exists>p r. s = p @ r \<and> slice_to (truncation_end s) s = Some p \<and>
    LARGE_PROMPT_THRESHOLD \<le> byte_len p \<and> byte_len p < LARGE_PROMPT_THRESHOLD + 4"
proof -
  obtain p r where p: "s = p @ r"
    "takeWhile (\<lambda>(i, c). i < LARGE_PROMPT_THRESHOLD) (char_indices_from 0 s) = char_indices_from 0 p"
    "r = [] \<or> LARGE_PROMPT_THRESHOLD \<le> byte_len p"
    "p = [] \<or> byte_len (butlast p) < LARGE_PROMPT_THRESHOLD"
    using takeWhile_char_indices [of s LARGE_PROMPT_THRESHOLD 0] by auto
  have ne: "p \<noteq> []" using p assms by (auto simp: LARGE_PROMPT_THRESHOLD_def)
  then have split: "byte_len p = byte_len (butlast p) + len_utf8 (last p)"
    by (metis append_butlast_last_id byte_len_simps(1,2,3) add_0_right)
  then have "truncation_end s = byte_len p"
    using ne by (simp add: truncation_end_def p(2) last_char_indices)
  then have "slice_to (truncation_end s) s = Some p" by (simp add: p(1) slice_to_prefix)
  moreover have "LARGE_PROMPT_THRESHOLD \<le> byte_len p" using p(1,3) assms by auto
  moreover have "byte_len p < LARGE_PROMPT_THRESHOLD + 4"
    using p(4) ne split len_utf8_bounds(2) [of "last p"] by auto
  ultimately show ?thesis using p(1) by blast
qed

lemma format_total: "\<exists>t. format_steered_query note s = Some t"
proof (cases "byte_len s \<le> LARGE_PROMPT_THRESHOLD")
  case False
  then obtain p where "slice_to (truncation_end s) s = Some p" using truncation_prefix [of s] by auto
  then show ?thesis using False by (simp add: format_steered_query_def)
qed (simp add: format_steered_query_def)

lemma collect_options_total: "\<forall>x\<in>set xs. \<exists>y. f x = Some y \<Longrightarrow> collect_options (map f xs) = Some (map (the \<circ> f) xs)"
  by (induction xs) auto

section \<open>Properties\<close>



text \<open>
  a selective drain partitions the queue: what it takes and what it leaves are the matching and
  the other events, each in arrival order, and together they are the events that were queued.
\<close>

lemma drain_matching_partitions:
  "snd (drain_matching f q) = filter f (events q) \<and>
   events (fst (drain_matching f q)) = filter (\<lambda>e. \<not> f e) (events q) \<and>
   mset (snd (drain_matching f q)) + mset (events (fst (drain_matching f q))) = mset (events q)"
proof -
  have "drain_matching f q = (q\<lparr>events := filter (\<lambda>e. \<not> f e) (events q)\<rparr>, filter f (events q))"
    by (simp add: drain_matching_def o_def)
  moreover have "mset (filter f (events q)) + mset (filter (\<lambda>e. \<not> f e) (events q)) = mset (events q)"
    by (simp only: mset_filter multiset_partition [symmetric])
  ultimately show ?thesis by simp
qed

text \<open>
  the capped push never leaves more than \<open>max\<close> events once the queue was within the cap, and
  what it drops are the oldest ones.
\<close>

lemma push_capped_keeps_newest:
  "suffix (events (push_capped e mx q)) (events q @ [e]) \<and>
   EventQueue_len (push_capped e mx q) = min mx (EventQueue_len q + 1)"
  by (auto simp: push_capped_def EventQueue_len_def Let_def suffix_drop)

text \<open>
  framing a prompt never panics, whatever the text: a prompt within the limit is quoted whole,
  and a longer one is cut at a character boundary less than four bytes past the limit.
\<close>

lemma format_steered_query_cut:
  "\<exists>t. format_steered_query note s = Some (frame_user_turn note (user_query t)) \<and>
     (if byte_len s \<le> LARGE_PROMPT_THRESHOLD then t = s
      else \<exists>p r. s = p @ r \<and> t = p @ lit ''... [truncated]'' \<and>
             LARGE_PROMPT_THRESHOLD \<le> byte_len p \<and> byte_len p < LARGE_PROMPT_THRESHOLD + 4)"
proof (cases "byte_len s \<le> LARGE_PROMPT_THRESHOLD")
  case False
  then show ?thesis using truncation_prefix [of s] by (fastforce simp: format_steered_query_def)
qed (simp add: format_steered_query_def)

text \<open>
  draining the interjection buffer empties it and yields one framed message per entry, in
  order, never merged, each with its own attachments.
\<close>

lemma drain_formatted_one_each:
  "\<exists>fs. drain_formatted sanitize b = (b\<lparr>events := []\<rparr>, Some fs) \<and>
     list_all2 (\<lambda>f e. Some (fi_text f) = format_interjection (sanitize (pi_text e)) \<and>
                      fi_attachments f = pi_attachments e) fs (events b)"
proof -
  let ?f = "\<lambda>e. map_option (\<lambda>t. \<lparr>fi_text = t, fi_attachments = pi_attachments e\<rparr>)
              (format_interjection (sanitize (pi_text e)))"
  have ex: "\<exists>t. format_interjection s = Some t" for s
    unfolding format_interjection_def by (rule format_total)
  then have "collect_options (map ?f (events b)) = Some (map (the \<circ> ?f) (events b))"
    by (intro collect_options_total) auto
  moreover have "\<forall>e\<in>set (events b). Some (fi_text ((the \<circ> ?f) e)) =
      format_interjection (sanitize (pi_text e)) \<and> fi_attachments ((the \<circ> ?f) e) = pi_attachments e"
  proof
    fix e
    obtain t where "format_interjection (sanitize (pi_text e)) = Some t" using ex by blast
    then show "Some (fi_text ((the \<circ> ?f) e)) = format_interjection (sanitize (pi_text e)) \<and>
        fi_attachments ((the \<circ> ?f) e) = pi_attachments e" by simp
  qed
  ultimately show ?thesis
    by (simp add: drain_formatted_def drain_all_def list_all2_map1 list_all2_same)
qed

end
