(* ===== verification/Delivery.thy ===== *)
theory Delivery
  imports Prelude
begin

text \<open>
  \<open>xai-message-delivery-core/src/lifecycle.rs\<close>: the turn-bound ownership of messages that may be
  delivered at a safe point. A slot is pending, projecting or delivered; \<open>begin_delivery\<close> hands the
  pending messages of a turn to the host, \<open>finish_delivery\<close> commits them, and \<open>transition\<close> ends a
  turn (or all of them), returning every owned delivery as a fallback or as a completion. The
  identity, source, content, completion, prompt id and epoch types are parameters, as in the code.
\<close>

section \<open>State\<close>

record ('p, 'ep) TurnBinding =
  tb_prompt_id :: 'p
  tb_epoch :: 'ep

record ('i, 's, 'c) DeliveryMessage =
  dm_identity :: 'i
  dm_source :: 's
  dm_content :: 'c

record ('i, 's, 'c, 'k, 'p, 'ep) OwnedDelivery =
  od_binding :: "('p, 'ep) TurnBinding"
  od_message :: "('i, 's, 'c) DeliveryMessage"
  od_completion :: 'k

datatype ('i, 's, 'c, 'k, 'p, 'ep) DeliverySlot =
    Pending "('i, 's, 'c, 'k, 'p, 'ep) OwnedDelivery"
  | Projecting "('i, 's, 'c, 'k, 'p, 'ep) OwnedDelivery"
  | Delivered "('i, 's, 'c, 'k, 'p, 'ep) OwnedDelivery"

fun owned :: "('i, 's, 'c, 'k, 'p, 'ep) DeliverySlot \<Rightarrow> ('i, 's, 'c, 'k, 'p, 'ep) OwnedDelivery" where
  "owned (Pending d) = d"
| "owned (Projecting d) = d"
| "owned (Delivered d) = d"

datatype TerminalCause = Completion | SoftCancel | Rewind | HardTeardown | ActorDrop

definition falls_back :: "TerminalCause \<Rightarrow> bool" where
  "falls_back c \<longleftrightarrow> c \<in> {Completion, SoftCancel, Rewind}"

datatype ('p, 'ep) TerminalTarget = Turn "('p, 'ep) TurnBinding" | All

record ('i, 's, 'c, 'k, 'p, 'ep) TerminalTransition =
  tt_fallbacks :: "('i, 's, 'c, 'k, 'p, 'ep) OwnedDelivery list"
  tt_completions :: "('i, 's, 'c, 'k, 'p, 'ep) OwnedDelivery list"

record ('i, 's, 'c, 'k, 'p, 'ep) MessageDeliveryLifecycle =
  slots :: "('i, 's, 'c, 'k, 'p, 'ep) DeliverySlot list"

definition Lifecycle_default :: "('i, 's, 'c, 'k, 'p, 'ep) MessageDeliveryLifecycle" where
  "Lifecycle_default = \<lparr>slots = []\<rparr>"

section \<open>Operations\<close>

definition Lifecycle_len :: "('i, 's, 'c, 'k, 'p, 'ep) MessageDeliveryLifecycle \<Rightarrow> nat" where
  "Lifecycle_len l = length (slots l)"

definition Lifecycle_is_empty :: "('i, 's, 'c, 'k, 'p, 'ep) MessageDeliveryLifecycle \<Rightarrow> bool" where
  "Lifecycle_is_empty l \<longleftrightarrow> slots l = []"

definition slot_identity :: "('i, 's, 'c, 'k, 'p, 'ep) DeliverySlot \<Rightarrow> 'i" where
  "slot_identity s = dm_identity (od_message (owned s))"

definition contains_identity :: "'i \<Rightarrow> ('i, 's, 'c, 'k, 'p, 'ep) MessageDeliveryLifecycle \<Rightarrow> bool" where
  "contains_identity i l \<longleftrightarrow> list_ex (\<lambda>s. slot_identity s = i) (slots l)"

definition admit_pending ::
  "('p, 'ep) TurnBinding \<Rightarrow> ('i, 's, 'c) DeliveryMessage \<Rightarrow> 'k \<Rightarrow>
   ('i, 's, 'c, 'k, 'p, 'ep) MessageDeliveryLifecycle \<Rightarrow>
   ('i, 's, 'c, 'k, 'p, 'ep) MessageDeliveryLifecycle \<times> (('i, 's, 'c) DeliveryMessage + unit)" where
  "admit_pending b m k l =
     (if list_ex (\<lambda>s. slot_identity s = dm_identity m) (slots l) then (l, Err m)
      else (l\<lparr>slots := slots l @ [Pending \<lparr>od_binding = b, od_message = m, od_completion = k\<rparr>]\<rparr>, Ok ()))"

definition pending_messages ::
  "('p, 'ep) TurnBinding \<Rightarrow> ('i, 's, 'c, 'k, 'p, 'ep) MessageDeliveryLifecycle \<Rightarrow>
   ('i, 's, 'c) DeliveryMessage list" where
  "pending_messages b l =
     List.map_filter (\<lambda>s. case s of Pending d \<Rightarrow> if od_binding d = b then Some (od_message d) else None
                                  | _ \<Rightarrow> None) (slots l)"

definition begin_delivery ::
  "('p, 'ep) TurnBinding \<Rightarrow> ('i, 's, 'c, 'k, 'p, 'ep) MessageDeliveryLifecycle \<Rightarrow>
   ('i, 's, 'c, 'k, 'p, 'ep) MessageDeliveryLifecycle \<times> ('i, 's, 'c) DeliveryMessage list" where
  "begin_delivery b l =
     (let ms = pending_messages b l
      in if ms = [] then (l, ms)
         else (l\<lparr>slots := map (\<lambda>s. case s of Pending d \<Rightarrow> if od_binding d = b then Projecting d else s
                                            | _ \<Rightarrow> s) (slots l)\<rparr>, ms))"

definition projecting_messages ::
  "('p, 'ep) TurnBinding \<Rightarrow> ('i, 's, 'c, 'k, 'p, 'ep) MessageDeliveryLifecycle \<Rightarrow>
   ('i, 's, 'c) DeliveryMessage list" where
  "projecting_messages b l =
     List.map_filter (\<lambda>s. case s of Projecting d \<Rightarrow> if od_binding d = b then Some (od_message d) else None
                                  | _ \<Rightarrow> None) (slots l)"

definition finish_delivery ::
  "('p, 'ep) TurnBinding \<Rightarrow> (('i, 's, 'c) DeliveryMessage list \<Rightarrow> 'err + unit) \<Rightarrow>
   ('i, 's, 'c, 'k, 'p, 'ep) MessageDeliveryLifecycle \<Rightarrow>
   ('i, 's, 'c, 'k, 'p, 'ep) MessageDeliveryLifecycle \<times> ('err + ('i, 's, 'c) DeliveryMessage list)" where
  "finish_delivery b commit l =
     (let ms = projecting_messages b l
      in if ms = [] then (l, Ok ms)
         else case commit ms of
                Inl e \<Rightarrow> (l, Err e)
              | Inr _ \<Rightarrow>
                  (l\<lparr>slots := map (\<lambda>s. case s of Projecting d \<Rightarrow> if od_binding d = b then Delivered d else s
                                              | _ \<Rightarrow> s) (slots l)\<rparr>, Ok ms))"

definition target_matches :: "('p, 'ep) TerminalTarget \<Rightarrow> ('i, 's, 'c, 'k, 'p, 'ep) DeliverySlot \<Rightarrow> bool" where
  "target_matches t s = (case t of Turn b \<Rightarrow> od_binding (owned s) = b | All \<Rightarrow> True)"

fun transition_slots ::
  "('p, 'ep) TerminalTarget \<Rightarrow> TerminalCause \<Rightarrow> ('i, 's, 'c, 'k, 'p, 'ep) DeliverySlot list \<Rightarrow>
   ('i, 's, 'c, 'k, 'p, 'ep) DeliverySlot list \<Rightarrow> ('i, 's, 'c, 'k, 'p, 'ep) TerminalTransition \<Rightarrow>
   ('i, 's, 'c, 'k, 'p, 'ep) DeliverySlot list \<times> ('i, 's, 'c, 'k, 'p, 'ep) TerminalTransition" where
  "transition_slots t c [] kept tr = (kept, tr)"
| "transition_slots t c (s # ss) kept tr =
     (if \<not> target_matches t s then transition_slots t c ss (kept @ [s]) tr
      else case s of
             Pending d \<Rightarrow>
               if falls_back c then transition_slots t c ss kept (tr\<lparr>tt_fallbacks := tt_fallbacks tr @ [d]\<rparr>)
               else transition_slots t c ss kept (tr\<lparr>tt_completions := tt_completions tr @ [d]\<rparr>)
           | Projecting d \<Rightarrow> transition_slots t c ss kept (tr\<lparr>tt_completions := tt_completions tr @ [d]\<rparr>)
           | Delivered d \<Rightarrow> transition_slots t c ss kept (tr\<lparr>tt_completions := tt_completions tr @ [d]\<rparr>))"

definition transition ::
  "('p, 'ep) TerminalTarget \<Rightarrow> TerminalCause \<Rightarrow>
   ('i, 's, 'c, 'k, 'p, 'ep) MessageDeliveryLifecycle \<Rightarrow>
   ('i, 's, 'c, 'k, 'p, 'ep) MessageDeliveryLifecycle \<times> ('i, 's, 'c, 'k, 'p, 'ep) TerminalTransition" where
  "transition t c l =
     (let (kept, tr) = transition_slots t c (slots l) [] \<lparr>tt_fallbacks = [], tt_completions = []\<rparr>
      in (l\<lparr>slots := kept\<rparr>, tr))"

section \<open>Histories\<close>

text \<open>
  A history keeps, beside the lifecycle, what each call handed over: the deliveries admitted, the
  messages returned by \<open>begin_delivery\<close>, the messages whose commit succeeded, and the deliveries
  that left as fallbacks or completions.
\<close>

record ('i, 's, 'c, 'k, 'p, 'ep) history =
  lc :: "('i, 's, 'c, 'k, 'p, 'ep) MessageDeliveryLifecycle"
  h_admitted :: "('i, 's, 'c, 'k, 'p, 'ep) OwnedDelivery list"
  h_handed :: "('i, 's, 'c) DeliveryMessage list"
  h_committed :: "('i, 's, 'c) DeliveryMessage list"
  h_fallbacks :: "('i, 's, 'c, 'k, 'p, 'ep) OwnedDelivery list"
  h_completions :: "('i, 's, 'c, 'k, 'p, 'ep) OwnedDelivery list"

definition history_start :: "('i, 's, 'c, 'k, 'p, 'ep) history" where
  "history_start = \<lparr>lc = Lifecycle_default, h_admitted = [], h_handed = [], h_committed = [],
     h_fallbacks = [], h_completions = []\<rparr>"

datatype ('i, 's, 'c, 'k, 'p, 'ep, 'err) delivery_call =
    Admit "('p, 'ep) TurnBinding" "('i, 's, 'c) DeliveryMessage" 'k
  | Begin "('p, 'ep) TurnBinding"
  | Finish "('p, 'ep) TurnBinding" "('i, 's, 'c) DeliveryMessage list \<Rightarrow> 'err + unit"
  | Terminate "('p, 'ep) TerminalTarget" TerminalCause

fun delivery_step ::
  "('i, 's, 'c, 'k, 'p, 'ep, 'err) delivery_call \<Rightarrow> ('i, 's, 'c, 'k, 'p, 'ep) history \<Rightarrow>
   ('i, 's, 'c, 'k, 'p, 'ep) history" where
  "delivery_step (Admit b m k) h =
     (case admit_pending b m k (lc h) of
        (l, Inl _) \<Rightarrow> h\<lparr>lc := l\<rparr>
      | (l, Inr _) \<Rightarrow> h\<lparr>lc := l, h_admitted := h_admitted h @
                        [\<lparr>od_binding = b, od_message = m, od_completion = k\<rparr>]\<rparr>)"
| "delivery_step (Begin b) h =
     (case begin_delivery b (lc h) of (l, ms) \<Rightarrow> h\<lparr>lc := l, h_handed := h_handed h @ ms\<rparr>)"
| "delivery_step (Finish b commit) h =
     (case finish_delivery b commit (lc h) of
        (l, Inl _) \<Rightarrow> h\<lparr>lc := l\<rparr>
      | (l, Inr ms) \<Rightarrow> h\<lparr>lc := l, h_committed := h_committed h @ ms\<rparr>)"
| "delivery_step (Terminate t c) h =
     (case transition t c (lc h) of
        (l, tr) \<Rightarrow> h\<lparr>lc := l, h_fallbacks := h_fallbacks h @ tt_fallbacks tr,
                     h_completions := h_completions h @ tt_completions tr\<rparr>)"

section \<open>Invariant\<close>

fun is_pending :: "('i, 's, 'c, 'k, 'p, 'ep) DeliverySlot \<Rightarrow> bool" where
  "is_pending (Pending d) = True"
| "is_pending _ = False"

fun is_delivered :: "('i, 's, 'c, 'k, 'p, 'ep) DeliverySlot \<Rightarrow> bool" where
  "is_delivered (Delivered d) = True"
| "is_delivered _ = False"

fun is_projecting :: "('i, 's, 'c, 'k, 'p, 'ep) DeliverySlot \<Rightarrow> bool" where
  "is_projecting (Projecting d) = True"
| "is_projecting _ = False"

definition messages_of ::
  "(('i, 's, 'c, 'k, 'p, 'ep) DeliverySlot \<Rightarrow> bool) \<Rightarrow> ('i, 's, 'c, 'k, 'p, 'ep) DeliverySlot list \<Rightarrow>
   ('i, 's, 'c) DeliveryMessage multiset" where
  "messages_of P ss = mset (map (\<lambda>s. od_message (owned s)) (filter P ss))"

definition owned_in ::
  "('i, 's, 'c, 'k, 'p, 'ep) DeliverySlot list \<Rightarrow> ('i, 's, 'c, 'k, 'p, 'ep) OwnedDelivery multiset" where
  "owned_in ss = mset (map owned ss)"

lemma messages_of_simps [simp]:
  "messages_of P [] = {#}"
  "messages_of P (s # ss) = (if P s then add_mset (od_message (owned s)) (messages_of P ss) else messages_of P ss)"
  "messages_of P (ss @ ts) = messages_of P ss + messages_of P ts"
  by (simp_all add: messages_of_def)

lemma owned_in_simps [simp]:
  "owned_in [] = {#}" "owned_in (s # ss) = add_mset (owned s) (owned_in ss)"
  "owned_in (ss @ ts) = owned_in ss + owned_in ts"
  by (simp_all add: owned_in_def)

definition history_inv :: "('i, 's, 'c, 'k, 'p, 'ep) history \<Rightarrow> bool" where
  "history_inv h \<longleftrightarrow>
     distinct (map slot_identity (slots (lc h))) \<and>
     mset (h_admitted h) =
       owned_in (slots (lc h)) + mset (h_fallbacks h) + mset (h_completions h) \<and>
     mset (h_handed h) \<subseteq>#
       messages_of (\<lambda>s. \<not> is_pending s) (slots (lc h)) + image_mset od_message (mset (h_completions h)) \<and>
     mset (h_committed h) \<subseteq>#
       messages_of is_delivered (slots (lc h)) + image_mset od_message (mset (h_completions h)) \<and>
     messages_of is_projecting (slots (lc h)) + mset (h_committed h) \<subseteq># mset (h_handed h)"

lemma transition_slots_spec:
  "transition_slots t c ss kept tr =
     (kept @ filter (\<lambda>s. \<not> target_matches t s) ss,
      \<lparr>tt_fallbacks = tt_fallbacks tr @
         map owned (filter (\<lambda>s. target_matches t s \<and> is_pending s \<and> falls_back c) ss),
       tt_completions = tt_completions tr @
         map owned (filter (\<lambda>s. target_matches t s \<and> \<not> (is_pending s \<and> falls_back c)) ss)\<rparr>)"
  by (induction t c ss kept tr rule: transition_slots.induct) (auto split: DeliverySlot.split)

lemma transition_spec:
  "transition t c l =
     (l\<lparr>slots := filter (\<lambda>s. \<not> target_matches t s) (slots l)\<rparr>,
      \<lparr>tt_fallbacks = map owned (filter (\<lambda>s. target_matches t s \<and> is_pending s \<and> falls_back c) (slots l)),
       tt_completions = map owned (filter (\<lambda>s. target_matches t s \<and> \<not> (is_pending s \<and> falls_back c)) (slots l))\<rparr>)"
  by (simp add: transition_def transition_slots_spec)

abbreviation pending_in where
  "pending_in b \<equiv> \<lambda>s. is_pending s \<and> od_binding (owned s) = b"

abbreviation projecting_in where
  "projecting_in b \<equiv> \<lambda>s. is_projecting s \<and> od_binding (owned s) = b"

lemma pending_messages_filter:
  "pending_messages b l = map (\<lambda>s. od_message (owned s)) (filter (pending_in b) (slots l))"
proof -
  have "List.map_filter (\<lambda>s. case s of Pending d \<Rightarrow> if od_binding d = b then Some (od_message d) else None
      | _ \<Rightarrow> None) ss = map (\<lambda>s. od_message (owned s)) (filter (pending_in b) ss)" for ss
    by (induction ss) (auto simp: map_filter_simps split: DeliverySlot.split)
  then show ?thesis by (simp add: pending_messages_def)
qed

lemma projecting_messages_filter:
  "projecting_messages b l = map (\<lambda>s. od_message (owned s)) (filter (projecting_in b) (slots l))"
proof -
  have "List.map_filter (\<lambda>s. case s of Projecting d \<Rightarrow> if od_binding d = b then Some (od_message d) else None
      | _ \<Rightarrow> None) ss = map (\<lambda>s. od_message (owned s)) (filter (projecting_in b) ss)" for ss
    by (induction ss) (auto simp: map_filter_simps split: DeliverySlot.split)
  then show ?thesis by (simp add: projecting_messages_def)
qed

lemma begin_delivery_spec:
  "begin_delivery b l =
     (l\<lparr>slots := map (\<lambda>s. if pending_in b s then Projecting (owned s) else s) (slots l)\<rparr>,
      map (\<lambda>s. od_message (owned s)) (filter (pending_in b) (slots l)))"
proof -
  have "(case s of Pending d \<Rightarrow> if od_binding d = b then Projecting d else s | _ \<Rightarrow> s) =
      (if pending_in b s then Projecting (owned s) else s)" for s :: "('a, 'b, 'c, 'd, 'e, 'f) DeliverySlot"
    by (cases s) auto
  moreover have "map (\<lambda>s. if pending_in b s then Projecting (owned s) else s) (slots l) = slots l"
    if "filter (pending_in b) (slots l) = []"
    using that by (intro map_idI) (auto simp: filter_empty_conv)
  ultimately show ?thesis
    by (auto simp: begin_delivery_def pending_messages_filter Let_def)
qed

lemma finish_delivery_spec:
  "finish_delivery b commit l =
     (let ms = map (\<lambda>s. od_message (owned s)) (filter (projecting_in b) (slots l));
          l' = l\<lparr>slots := map (\<lambda>s. if projecting_in b s then Delivered (owned s) else s) (slots l)\<rparr>
      in if ms = [] then (l, Ok [])
         else case commit ms of Inl e \<Rightarrow> (l, Err e) | Inr _ \<Rightarrow> (l', Ok ms))"
proof -
  have "(case s of Projecting d \<Rightarrow> if od_binding d = b then Delivered d else s | _ \<Rightarrow> s) =
      (if projecting_in b s then Delivered (owned s) else s)" for s :: "('a, 'b, 'c, 'd, 'e, 'f) DeliverySlot"
    by (cases s) auto
  then show ?thesis
    by (auto simp: finish_delivery_def projecting_messages_filter Let_def split: sum.split)
qed

subsection \<open>What a call moves\<close>

lemma owned_promoted [simp]:
  "owned (if P then Projecting (owned s) else s) = owned s"
  "owned (if P then Delivered (owned s) else s) = owned s"
  "slot_identity (if P then Projecting (owned s) else s) = slot_identity s"
  "slot_identity (if P then Delivered (owned s) else s) = slot_identity s"
  by (simp_all add: slot_identity_def)

lemma begin_moves:
  "messages_of (\<lambda>s. \<not> is_pending s) (map (\<lambda>s. if pending_in b s then Projecting (owned s) else s) ss) =
     messages_of (\<lambda>s. \<not> is_pending s) ss + messages_of (pending_in b) ss"
  "messages_of is_delivered (map (\<lambda>s. if pending_in b s then Projecting (owned s) else s) ss) =
     messages_of is_delivered ss"
  "messages_of is_projecting (map (\<lambda>s. if pending_in b s then Projecting (owned s) else s) ss) =
     messages_of is_projecting ss + messages_of (pending_in b) ss"
  by (induction ss) (auto elim: is_pending.elims)

lemma finish_moves:
  "messages_of (\<lambda>s. \<not> is_pending s) (map (\<lambda>s. if projecting_in b s then Delivered (owned s) else s) ss) =
     messages_of (\<lambda>s. \<not> is_pending s) ss"
  "messages_of is_delivered (map (\<lambda>s. if projecting_in b s then Delivered (owned s) else s) ss) =
     messages_of is_delivered ss + messages_of (projecting_in b) ss"
  "messages_of is_projecting (map (\<lambda>s. if projecting_in b s then Delivered (owned s) else s) ss) +
     messages_of (projecting_in b) ss = messages_of is_projecting ss"
  by (induction ss) (auto elim: is_pending.elims is_delivered.elims)

lemma finish_commits:
  "messages_of is_projecting (map (\<lambda>s. if projecting_in b s then Delivered (owned s) else s) ss) +
     (C + messages_of (projecting_in b) ss) = messages_of is_projecting ss + C"
  using finish_moves(3) [of b ss] by (simp add: ac_simps)

lemma transition_moves:
  assumes "\<And>s. P s \<Longrightarrow> \<not> is_pending s"
  shows "messages_of P ss \<subseteq>#
    messages_of P (filter (\<lambda>s. \<not> M s) ss) +
    image_mset od_message (owned_in (filter (\<lambda>s. M s \<and> \<not> (is_pending s \<and> F)) ss))"
proof (induction ss)
  case (Cons s ss)
  then show ?case using assms [of s]
    by (auto simp: subset_mset.add_increasing2 intro: subset_mset.order_trans)
qed simp

lemma transition_conserves:
  "owned_in ss = owned_in (filter (\<lambda>s. \<not> M s) ss) +
     owned_in (filter (\<lambda>s. M s \<and> is_pending s \<and> F) ss) +
     owned_in (filter (\<lambda>s. M s \<and> \<not> (is_pending s \<and> F)) ss)"
  by (induction ss) auto

lemma owned_in_map [simp]: "(\<And>s. owned (f s) = owned s) \<Longrightarrow> owned_in (map f ss) = owned_in ss"
  by (induction ss) auto

subsection \<open>The invariant is kept\<close>

lemma admit_inv: "history_inv h \<Longrightarrow> history_inv (delivery_step (Admit b m k) h)"
  by (auto simp: history_inv_def admit_pending_def list_ex_iff slot_identity_def)

lemma begin_inv: "history_inv h \<Longrightarrow> history_inv (delivery_step (Begin b) h)"
  by (simp add: history_inv_def begin_delivery_spec begin_moves o_def messages_of_def [symmetric]
      del: mset_map mset_filter)

lemma finish_inv: "history_inv h \<Longrightarrow> history_inv (delivery_step (Finish b commit) h)"
  by (auto simp: history_inv_def finish_delivery_spec finish_moves finish_commits o_def Let_def messages_of_def [symmetric]
      simp del: mset_map mset_filter
      split: sum.split)

lemma messages_of_filter: "messages_of P (filter Q ss) \<subseteq># messages_of P ss"
  by (induction ss) (auto intro: subset_mset.order_trans)

lemma subseteq_mset_shift: "A \<subseteq># X + C \<Longrightarrow> X \<subseteq># Y + D \<Longrightarrow> A \<subseteq># Y + (C + D)"
  by (rule subset_mset.order_trans, assumption)
     (metis subset_mset.add_right_mono add.assoc add.commute)

lemma terminate_inv:
  assumes "history_inv h"
  shows "history_inv (delivery_step (Terminate t c) h)"
proof -
  let ?ss = "slots (lc h)" and ?M = "target_matches t" and ?F = "falls_back c"
  let ?kept = "filter (\<lambda>s. \<not> ?M s) ?ss"
  let ?gone = "owned_in (filter (\<lambda>s. ?M s \<and> \<not> (is_pending s \<and> ?F)) ?ss)"
  let ?done = "image_mset od_message (mset (h_completions h))"
  have nd: "\<not> is_pending s" if "is_delivered s" for s :: "('a, 'b, 'c, 'd, 'e, 'f) DeliverySlot"
    using that by (cases s) auto
  have "distinct (map slot_identity ?kept)"
    using assms by (simp add: history_inv_def distinct_map_filter)
  moreover have "mset (h_handed h) \<subseteq># messages_of (\<lambda>s. \<not> is_pending s) ?kept + (?done + image_mset od_message ?gone)"
    using assms transition_moves [of "\<lambda>s. \<not> is_pending s" ?ss ?M ?F]
    by (intro subseteq_mset_shift [of _ "messages_of (\<lambda>s. \<not> is_pending s) ?ss"]) (auto simp: history_inv_def)
  moreover have "mset (h_committed h) \<subseteq># messages_of is_delivered ?kept + (?done + image_mset od_message ?gone)"
    using assms transition_moves [of is_delivered ?ss ?M ?F, OF nd]
    by (intro subseteq_mset_shift [of _ "messages_of is_delivered ?ss"]) (auto simp: history_inv_def)
  moreover have "messages_of is_projecting ?kept + mset (h_committed h) \<subseteq># mset (h_handed h)"
    using assms messages_of_filter [of is_projecting "\<lambda>s. \<not> ?M s" ?ss]
    by (meson history_inv_def subset_mset.add_right_mono subset_mset.order_trans)
  moreover note transition_conserves [of ?ss ?M ?F]
  ultimately show ?thesis using assms
    by (simp add: history_inv_def transition_spec owned_in_def [symmetric] del: mset_map mset_filter)
qed

interpretation delivery: op_machine "\<lambda>h. h = history_start" delivery_step history_inv
proof
  fix h :: "('a, 'b, 'c, 'd, 'e, 'f) history"
  show "history_inv h" if "h = history_start"
    using that by (simp add: history_start_def history_inv_def Lifecycle_default_def)
next
  fix h :: "('a, 'b, 'c, 'd, 'e, 'f) history" and call :: "('a, 'b, 'c, 'd, 'e, 'f, 'g) delivery_call"
  show "history_inv (delivery_step call h)" if "history_inv h"
    using that by (cases call) (auto intro: admit_inv begin_inv finish_inv terminate_inv simp del: delivery_step.simps)
qed

lemma history_accounting:
  assumes inv: "history_inv h"
  shows "mset (h_admitted h) =
      mset (map owned (slots (lc h))) + mset (h_fallbacks h) + mset (h_completions h) \<and>
    mset (h_handed h) + mset (map od_message (h_fallbacks h)) \<subseteq># mset (map od_message (h_admitted h)) \<and>
    mset (h_committed h) \<subseteq># mset (h_handed h)"
proof -
  have adm: "mset (h_admitted h) = owned_in (slots (lc h)) + mset (h_fallbacks h) + mset (h_completions h)"
    using inv by (simp add: history_inv_def)
  have "messages_of (\<lambda>s. \<not> is_pending s) ss \<subseteq># image_mset od_message (owned_in ss)" for ss
    by (induction ss) (auto intro: subset_mset.order_trans)
  from subset_mset.add_right_mono [OF this [of "slots (lc h)"], of "image_mset od_message (mset (h_completions h))"]
  have "mset (h_handed h) \<subseteq># image_mset od_message (owned_in (slots (lc h)) + mset (h_completions h))"
    using inv by (auto simp: history_inv_def intro: subset_mset.order_trans)
  from subset_mset.add_right_mono [OF this, of "image_mset od_message (mset (h_fallbacks h))"]
  have "mset (h_handed h) + mset (map od_message (h_fallbacks h)) \<subseteq># mset (map od_message (h_admitted h))"
    using adm by (simp add: ac_simps)
  moreover have "mset (h_committed h) \<subseteq># mset (h_handed h)"
    using inv by (meson history_inv_def mset_subset_eq_add_right subset_mset.order_trans)
  ultimately show ?thesis using adm by (simp add: owned_in_def)
qed

section \<open>Properties\<close>

text \<open>
  C28: exactly-once accounting over every history of calls. Each admitted delivery is in exactly one
  place: still owned, returned once as a fallback, or returned once as a completion. A message that
  was handed to the host never also falls back to the queue, and only what was handed is committed,
  no more often than it was handed.
\<close>

theorem delivery_exactly_once:
  "let h = fold delivery_step calls history_start in
    mset (h_admitted h) =
      mset (map owned (slots (lc h))) + mset (h_fallbacks h) + mset (h_completions h) \<and>
    mset (h_handed h) + mset (map od_message (h_fallbacks h)) \<subseteq># mset (map od_message (h_admitted h)) \<and>
    mset (h_committed h) \<subseteq># mset (h_handed h)"
  unfolding Let_def by (rule history_accounting, rule delivery.reach_inv) (rule refl)

text \<open>
  ending a turn is complete and isolated. The deliveries of the turn leave in admission order:
  as fallbacks exactly when they were never handed over and the cause returns work to the queue, as
  completions otherwise. Every other turn keeps its slots as they were. Ending all turns leaves
  nothing behind.
\<close>

lemma transition_isolated:
  "(let (l', tr) = transition (Turn b) c l;
        mine = filter (\<lambda>s. od_binding (owned s) = b) (slots l)
    in slots l' = filter (\<lambda>s. od_binding (owned s) \<noteq> b) (slots l) \<and>
       tt_fallbacks tr = (if falls_back c then map owned (filter is_pending mine) else []) \<and>
       tt_completions tr = map owned (if falls_back c then filter (\<lambda>s. \<not> is_pending s) mine else mine)) \<and>
   Lifecycle_is_empty (fst (transition All c l))"
  by (simp add: transition_spec Lifecycle_is_empty_def target_matches_def conj_commute)

text \<open>
  a failed commit is retryable: it changes nothing, and the next attempt is offered the same
  messages; a successful one leaves nothing to commit for that turn, so a second finish is a no-op.
\<close>

lemma finish_delivery_retry:
  "(\<exists>e. snd (finish_delivery b commit l) = Err e \<and> fst (finish_delivery b commit l) = l \<and>
        commit (projecting_messages b l) = Err e) \<or>
   (snd (finish_delivery b commit l) = Ok (projecting_messages b l) \<and>
    (projecting_messages b l = [] \<or> commit (projecting_messages b l) = Ok ()) \<and>
    projecting_messages b (fst (finish_delivery b commit l)) = [])"
proof -
  have "filter (projecting_in b) (map (\<lambda>s. if projecting_in b s then Delivered (owned s) else s) ss) = []" for ss
    by (induction ss) auto
  then show ?thesis
    by (cases "commit (projecting_messages b l)")
       (auto simp: finish_delivery_spec projecting_messages_filter Let_def)
qed

end
