(* ===== verification/Identity.thy ===== *)
theory Identity
  imports Prelude "HOL-Library.Word"
begin

text \<open>
  The naming half of \<open>xai-message-delivery-core\<close>: opaque child addresses (\<open>address.rs\<close>),
  restart-stable agent and attempt ids (\<open>identity.rs\<close>) and the delivery envelope with its set of
  authorised operations (\<open>envelope.rs\<close>). The host supplies the entropy of a minted token, so it is
  an argument; \<open>{:x}\<close> prints it in lower-case hexadecimal.
\<close>

section \<open>Addresses\<close>

definition ADDRESS_PREFIX :: rstr where
  "ADDRESS_PREFIX = lit ''aa1.''"

datatype AgentAddress = AgentAddress rstr

fun AgentAddress_as_str :: "AgentAddress \<Rightarrow> rstr" where
  "AgentAddress_as_str (AgentAddress s) = s"

definition AgentAddress_mint :: "nat \<Rightarrow> AgentAddress" where
  "AgentAddress_mint entropy = AgentAddress (ADDRESS_PREFIX @ show_hex entropy)"

definition is_presentable :: "rstr \<Rightarrow> bool" where
  "is_presentable token \<longleftrightarrow>
     token \<noteq> [] \<and> \<not> eq_ignore_ascii_case token (lit ''null'') \<and>
     \<not> eq_ignore_ascii_case token (lit ''none'') \<and> \<not> eq_ignore_ascii_case token (lit ''undefined'')"

definition AgentAddress_parse :: "rstr \<Rightarrow> AgentAddress option" where
  "AgentAddress_parse s =
     (let token = trim s in if is_presentable token then Some (AgentAddress token) else None)"

definition mint_child_address :: "bool \<Rightarrow> nat \<Rightarrow> AgentAddress option" where
  "mint_child_address workflow entropy =
     (if workflow then None else Some (AgentAddress_mint entropy))"

definition advertised_address :: "rstr option \<Rightarrow> bool \<Rightarrow> rstr option" where
  "advertised_address stored workflow =
     (if workflow then None
      else case stored of
             None \<Rightarrow> None
           | Some t \<Rightarrow> if AgentAddress_parse t \<noteq> None then Some t else None)"

datatype AddressPresence = Active | Pending | Gone

record AddressCandidate =
  stored_address :: "rstr option"
  ac_session_id :: rstr
  owner_match :: bool
  generation_current :: bool
  ac_workflow :: bool
  presence :: AddressPresence

datatype AddressDecision =
  Owned AddressPresence | RawSessionId | Foreign | Stale | WorkflowNotAddressable | Unresolved

definition resolve_address :: "rstr \<Rightarrow> AddressCandidate option \<Rightarrow> AddressDecision" where
  "resolve_address presented candidate =
     (case candidate of
        None \<Rightarrow> Unresolved
      | Some c \<Rightarrow>
          (let p = trim presented;
               address_match = (case stored_address c of None \<Rightarrow> False | Some st \<Rightarrow> st = p)
           in if ac_session_id c = p \<and> \<not> address_match then RawSessionId
              else if \<not> address_match then Unresolved
              else if ac_workflow c then WorkflowNotAddressable
              else if \<not> owner_match c then Foreign
              else if \<not> generation_current c \<or> presence c = Gone then Stale
              else Owned (presence c)))"

section \<open>Identities\<close>

definition AGENT_PREFIX :: rstr where "AGENT_PREFIX = lit ''ag1.''"
definition ATTEMPT_PREFIX :: rstr where "ATTEMPT_PREFIX = lit ''at1.''"
definition UUID_TOKEN_LEN :: nat where "UUID_TOKEN_LEN = 36"
definition UUID_HYPHENS :: "nat list" where "UUID_HYPHENS = [8, 13, 18, 23]"
definition UUID_V7_INDEX :: nat where "UUID_V7_INDEX = 14"
definition UUID_VARIANT_INDEX :: nat where "UUID_VARIANT_INDEX = 19"

datatype AgentId = AgentId rstr
datatype AttemptId = AttemptId rstr

fun AgentId_as_str :: "AgentId \<Rightarrow> rstr" where
  "AgentId_as_str (AgentId s) = s"

fun AttemptId_as_str :: "AttemptId \<Rightarrow> rstr" where
  "AttemptId_as_str (AttemptId s) = s"

definition is_uuid_v7 :: "rstr \<Rightarrow> bool" where
  "is_uuid_v7 token \<longleftrightarrow>
     byte_len token = UUID_TOKEN_LEN \<and>
     list_all (\<lambda>(i, b). if i \<in> set UUID_HYPHENS then b = 45 else is_lower_hex b)
       (zip [0..<length (str_bytes token)] (str_bytes token)) \<and>
     str_bytes token ! UUID_V7_INDEX = 55 \<and>
     str_bytes token ! UUID_VARIANT_INDEX \<in> {56, 57, 97, 98}"

definition parse_prefixed :: "rstr \<Rightarrow> rstr \<Rightarrow> rstr option" where
  "parse_prefixed s pre =
     (let token = trim s
      in case strip_prefix pre token of
           None \<Rightarrow> None
         | Some rest \<Rightarrow>
             if rest = [] \<or> \<not> list_all is_lower_hex (str_bytes rest) then None else Some token)"

definition AgentId_mint :: "nat \<Rightarrow> AgentId" where
  "AgentId_mint entropy = AgentId (AGENT_PREFIX @ show_hex entropy)"

definition AgentId_parse :: "rstr \<Rightarrow> AgentId option" where
  "AgentId_parse s =
     (let token = trim s
      in if is_uuid_v7 token then Some (AgentId token)
         else map_option AgentId (parse_prefixed token AGENT_PREFIX))"

definition AgentId_from_uuid_v7 :: "rstr \<Rightarrow> AgentId option" where
  "AgentId_from_uuid_v7 token = (if is_uuid_v7 token then Some (AgentId token) else None)"

definition AttemptId_mint :: "nat \<Rightarrow> AttemptId" where
  "AttemptId_mint entropy = AttemptId (ATTEMPT_PREFIX @ show_hex entropy)"

definition AttemptId_parse :: "rstr \<Rightarrow> AttemptId option" where
  "AttemptId_parse s = map_option AttemptId (parse_prefixed s ATTEMPT_PREFIX)"

datatype IdentityAction =
    Start AgentId AttemptId
  | Resume AgentId AttemptId
  | Fork AgentId AttemptId

definition next_identity :: "AgentId option \<Rightarrow> bool \<Rightarrow> nat \<Rightarrow> nat \<Rightarrow> IdentityAction" where
  "next_identity previous fork agent_entropy attempt_entropy =
     (let attempt = AttemptId_mint attempt_entropy
      in case previous of
           None \<Rightarrow> Start (AgentId_mint agent_entropy) attempt
         | Some agent \<Rightarrow>
             if fork then Fork (AgentId_mint agent_entropy) attempt else Resume agent attempt)"

section \<open>Envelopes\<close>

datatype Principal = Human | Agent | Runtime

datatype Operation = Queue | Steer | Interject | InterruptAndSend

record ('m, 'p) DeliveryIdentity =
  di_message_id :: 'm
  di_prompt_id :: 'p

record ('g, 'c, 'i) DeliveryEnvelope =
  de_principal :: Principal
  de_operation :: Operation
  de_content :: 'c
  de_identity :: 'i
  de_grant :: 'g

definition from_human :: "Operation \<Rightarrow> 'c \<Rightarrow> 'i \<Rightarrow> 'g \<Rightarrow> ('g, 'c, 'i) DeliveryEnvelope" where
  "from_human op c i g =
     \<lparr>de_principal = Human, de_operation = op, de_content = c, de_identity = i, de_grant = g\<rparr>"

definition from_agent :: "Operation \<Rightarrow> 'c \<Rightarrow> 'i \<Rightarrow> 'g \<Rightarrow> ('g, 'c, 'i) DeliveryEnvelope" where
  "from_agent op c i g =
     \<lparr>de_principal = Agent, de_operation = op, de_content = c, de_identity = i, de_grant = g\<rparr>"

definition into_parts :: "('g, 'c, 'i) DeliveryEnvelope \<Rightarrow> Operation \<times> 'c \<times> 'i \<times> 'g" where
  "into_parts e = (de_operation e, de_content e, de_identity e, de_grant e)"

unbundle bit_operations_syntax

type_synonym OperationSet = "8 word"

definition OperationSet_QUEUE :: OperationSet where
  "OperationSet_QUEUE = push_bit 0 1"

definition OperationSet_QUEUE_AND_STEER :: OperationSet where
  "OperationSet_QUEUE_AND_STEER = push_bit 0 1 OR push_bit 1 1"

definition operation_flag :: "Operation \<Rightarrow> 8 word" where
  "operation_flag op = (case op of
       Queue \<Rightarrow> push_bit 0 1 | Steer \<Rightarrow> push_bit 1 1
     | Interject \<Rightarrow> push_bit 2 1 | InterruptAndSend \<Rightarrow> push_bit 3 1)"

definition OperationSet_contains :: "OperationSet \<Rightarrow> Operation \<Rightarrow> bool" where
  "OperationSet_contains s op \<longleftrightarrow> (s AND operation_flag op) \<noteq> 0"

definition authorize_operation :: "OperationSet \<Rightarrow> Operation \<Rightarrow> Operation + Operation" where
  "authorize_operation allowed requested =
     (if OperationSet_contains allowed requested then Ok requested else Err requested)"

section \<open>Tokens\<close>

lemma minted_trimmed: "pre \<noteq> [] \<Longrightarrow> \<not> is_whitespace (hd pre) \<Longrightarrow> trimmed (pre @ show_hex n)"
proof -
  assume pre: "pre \<noteq> []" "\<not> is_whitespace (hd pre)"
  have "last (show_hex n) \<in> set (show_hex n)" by (rule last_in_set) simp
  then have "\<not> is_whitespace (last (show_hex n))" using show_hex_chars is_lower_hex_ascii by blast
  with pre show ?thesis by (simp add: trimmed_def)
qed

lemma hex_bytes: "\<forall>c\<in>set s. is_lower_hex c \<Longrightarrow> str_bytes s = s"
  using is_lower_hex_ascii by (intro str_bytes_ascii) blast

lemma parse_prefixed_mint:
  assumes "pre \<noteq> []" "\<not> is_whitespace (hd pre)"
  shows "parse_prefixed (pre @ show_hex n) pre = Some (pre @ show_hex n)"
  using minted_trimmed [OF assms] show_hex_chars [of n]
  by (simp add: parse_prefixed_def hex_bytes list_all_iff)

lemma parse_prefixed_trim [simp]: "parse_prefixed (trim s) pre = parse_prefixed s pre"
  by (simp add: parse_prefixed_def)

lemma parse_prefixed_Some: "parse_prefixed s pre = Some t \<Longrightarrow> t = trim s \<and> prefix pre (trim s)"
  by (auto simp: parse_prefixed_def Let_def strip_prefix_def split: option.splits if_splits)

interpretation address: token_codec AgentAddress_mint AgentAddress_as_str AgentAddress_parse
proof
  fix n
  have "trimmed (ADDRESS_PREFIX @ show_hex n)"
    by (rule minted_trimmed) (simp_all add: ADDRESS_PREFIX_def is_whitespace_def)
  moreover have "is_presentable (ADDRESS_PREFIX @ show_hex n)"
    by (auto simp: is_presentable_def eq_ignore_ascii_case_def to_ascii_lowercase_def
        to_ascii_lower_def ADDRESS_PREFIX_def)
  ultimately show "AgentAddress_parse (AgentAddress_as_str (AgentAddress_mint n)) = Some (AgentAddress_mint n)"
    by (simp add: AgentAddress_mint_def AgentAddress_parse_def)
qed (auto simp: AgentAddress_parse_def AgentAddress_mint_def Let_def split: if_splits intro: show_hex_inj)

lemma uuid_bytes:
  assumes "is_uuid_v7 t"
  shows "str_bytes t = t" and "length t = 36"
    and "i < 36 \<Longrightarrow> i \<notin> {8, 13, 18, 23} \<Longrightarrow> is_lower_hex (t ! i)"
proof -
  let ?b = "str_bytes t"
  have len: "length ?b = 36" using assms by (simp add: is_uuid_v7_def UUID_TOKEN_LEN_def length_str_bytes)
  have at: "if i \<in> {8, 13, 18, 23} then ?b ! i = 45 else is_lower_hex (?b ! i)" if "i < 36" for i
  proof -
    have "(i, ?b ! i) \<in> set (zip [0..<length ?b] ?b)"
      using that len by (auto simp: set_zip intro!: exI [of _ i])
    then show ?thesis using assms by (auto simp: is_uuid_v7_def list_all_iff UUID_HYPHENS_def split: if_splits)
  qed
  have "\<forall>x\<in>set ?b. x < 128"
  proof
    fix x assume "x \<in> set ?b"
    then obtain i where "i < 36" "x = ?b ! i" using len by (metis in_set_conv_nth)
    then show "x < 128" using at [of i] is_lower_hex_ascii [of x] by (auto split: if_splits)
  qed
  then have "\<forall>c\<in>set t. c < 128" by (rule ascii_str_bytes)
  then show eq: "?b = t" by (rule str_bytes_ascii)
  show "length t = 36" using len eq by simp
  show "is_lower_hex (t ! i)" if "i < 36" "i \<notin> {8, 13, 18, 23}"
    using at [OF that(1)] that(2) eq by simp
qed

lemma uuid_trimmed:
  assumes "is_uuid_v7 t"
  shows "trimmed t"
proof -
  note u = uuid_bytes [OF assms]
  have "\<not> is_whitespace (t ! 0)" "\<not> is_whitespace (t ! 35)"
    using u(3) [of 0] u(3) [of 35] is_lower_hex_ascii by auto
  then show ?thesis using u(2) by (cases t) (auto simp: trimmed_def last_conv_nth)
qed

lemma prefixed_not_uuid: "\<not> is_lower_hex c \<Longrightarrow> \<not> is_uuid_v7 (a # c # s)"
  using uuid_bytes(3) [of "a # c # s" 1] by auto

lemma minted_not_uuid:
  "\<not> is_uuid_v7 (AGENT_PREFIX @ s)" "\<not> is_uuid_v7 (ATTEMPT_PREFIX @ s)"
  by (simp_all add: AGENT_PREFIX_def ATTEMPT_PREFIX_def prefixed_not_uuid is_lower_hex_def)

interpretation agent: token_codec AgentId_mint AgentId_as_str AgentId_parse
proof
  fix n
  have "\<not> is_whitespace (hd AGENT_PREFIX)" "AGENT_PREFIX \<noteq> []"
    by (simp_all add: AGENT_PREFIX_def is_whitespace_def)
  then show "AgentId_parse (AgentId_as_str (AgentId_mint n)) = Some (AgentId_mint n)"
    by (simp add: AgentId_parse_def AgentId_mint_def minted_trimmed minted_not_uuid parse_prefixed_mint Let_def)
qed (auto simp: AgentId_parse_def AgentId_mint_def Let_def split: if_splits
      intro: show_hex_inj dest: parse_prefixed_Some)

interpretation attempt: token_codec AttemptId_mint AttemptId_as_str AttemptId_parse
proof
  fix n
  have "\<not> is_whitespace (hd ATTEMPT_PREFIX)" "ATTEMPT_PREFIX \<noteq> []"
    by (simp_all add: ATTEMPT_PREFIX_def is_whitespace_def)
  then show "AttemptId_parse (AttemptId_as_str (AttemptId_mint n)) = Some (AttemptId_mint n)"
    by (simp add: AttemptId_parse_def AttemptId_mint_def parse_prefixed_mint)
qed (auto simp: AttemptId_parse_def AttemptId_mint_def intro: show_hex_inj dest: parse_prefixed_Some)

section \<open>Properties\<close>

text \<open>
  a minted child address works end to end. The token minted for a child that is not part of a
  workflow is advertised as it stands, and presenting it (with any surrounding white space) resolves
  to the child when the presenter owns it, its generation is current and it is not gone.
\<close>

lemma minted_address_resolves:
  assumes "mint_child_address False entropy = Some a"
    and "stored_address c = Some (AgentAddress_as_str a)" and "\<not> ac_workflow c"
    and "owner_match c" and "generation_current c" and "presence c \<noteq> Gone"
    and "trim presented = AgentAddress_as_str a"
  shows "advertised_address (stored_address c) (ac_workflow c) = Some (AgentAddress_as_str a) \<and>
    AgentAddress_parse presented = Some a \<and>
    resolve_address presented (Some c) = Owned (presence c)"
proof -
  have a: "a = AgentAddress_mint entropy" using assms(1) by (simp add: mint_child_address_def)
  have "AgentAddress_parse presented = Some a"
    unfolding a by (rule address.parse_padded) (simp add: assms(7) a)
  moreover have "advertised_address (stored_address c) (ac_workflow c) = Some (AgentAddress_as_str a)"
    by (simp add: advertised_address_def assms(2,3) a address.parse_mint)
  ultimately show ?thesis using assms(2-7) by (simp add: resolve_address_def)
qed

theorem minted_address_resolves_witness:
  "resolve_address (lit ''  aa1.f '') (Some \<lparr>stored_address = Some (lit ''aa1.f''), ac_session_id = lit ''s'',
     owner_match = True, generation_current = True, ac_workflow = False, presence = Active\<rparr>) = Owned Active"
proof -
  have "show_hex 15 = lit ''f''"
    by (simp add: show_hex_def radix_digits.simps digit_char_def)
  then have m: "mint_child_address False 15 = Some (AgentAddress (lit ''aa1.f''))"
    by (simp add: mint_child_address_def AgentAddress_mint_def ADDRESS_PREFIX_def)
  show ?thesis
    using minted_address_resolves [OF m, of "\<lparr>stored_address = Some (lit ''aa1.f''), ac_session_id = lit ''s'',
     owner_match = True, generation_current = True, ac_workflow = False, presence = Active\<rparr>"
      "lit ''  aa1.f ''"]
    by (simp add: trim_def trim_start_def trim_end_def is_whitespace_def)
qed

text \<open>
  an address is a capability. A presented token is accepted as owned only when it equals the
  candidate's stored address and every other fact holds; a session id that is not the address never
  resolves, and a workflow child is never addressable.
\<close>

lemma resolve_owned_iff:
  "resolve_address presented (Some c) = Owned p \<longleftrightarrow>
     stored_address c = Some (trim presented) \<and> \<not> ac_workflow c \<and> owner_match c \<and>
     generation_current c \<and> presence c = p \<and> p \<noteq> Gone"
  by (auto simp: resolve_address_def Let_def split: option.splits)

text \<open>
  identities across activations. Without a previous agent the activation is a start; a resume
  keeps the agent id; a fork mints a new one; every activation's attempt differs from another's
  whenever the entropy does, both ids parse back from their text, and no text is both an agent id
  and an attempt id.
\<close>

lemma next_identity_spec:
  "(case next_identity previous fork n1 n2 of
      Start ag at \<Rightarrow> previous = None \<and> AgentId_parse (AgentId_as_str ag) = Some ag \<and> at = AttemptId_mint n2
    | Resume ag at \<Rightarrow> previous = Some ag \<and> \<not> fork \<and> at = AttemptId_mint n2
    | Fork ag at \<Rightarrow> previous \<noteq> None \<and> fork \<and> AgentId_parse (AgentId_as_str ag) = Some ag \<and>
        at = AttemptId_mint n2) \<and>
   (AttemptId_mint n2 = AttemptId_mint n3 \<longleftrightarrow> n2 = n3) \<and>
   AttemptId_parse (AttemptId_as_str (AttemptId_mint n2)) = Some (AttemptId_mint n2) \<and>
   (AgentId_parse s = None \<or> AttemptId_parse s = None)"
proof -
  have "AgentId_parse s = None \<or> AttemptId_parse s = None"
  proof (rule ccontr)
    assume "\<not> ?thesis"
    then obtain t ag where "parse_prefixed s ATTEMPT_PREFIX = Some t" and ag: "AgentId_parse s = Some ag"
      by (auto simp: AttemptId_parse_def)
    then obtain r where r: "trim s = ATTEMPT_PREFIX @ r" by (auto dest!: parse_prefixed_Some simp: prefix_def)
    then have "\<not> is_uuid_v7 (trim s)" by (simp add: minted_not_uuid)
    then have "prefix AGENT_PREFIX (trim s)"
      using ag by (auto simp: AgentId_parse_def Let_def dest: parse_prefixed_Some)
    then show False using r by (simp add: AGENT_PREFIX_def ATTEMPT_PREFIX_def)
  qed
  then show ?thesis
    by (auto simp: next_identity_def Let_def agent.parse_mint attempt.parse_mint split: option.split)
qed

text \<open>
  authorisation is exact. The two published operation sets grant queueing, and queueing and
  steering, and nothing else: no published set lets a sender interject or interrupt.
\<close>

lemma authorize_operation_exact:
  "(authorize_operation OperationSet_QUEUE op = (if op = Queue then Ok op else Err op)) \<and>
   (authorize_operation OperationSet_QUEUE_AND_STEER op =
      (if op = Queue \<or> op = Steer then Ok op else Err op))"
  by (cases op) (simp_all add: authorize_operation_def OperationSet_contains_def operation_flag_def
      OperationSet_QUEUE_def OperationSet_QUEUE_AND_STEER_def)

end
