(* ===== verification/Patch_Parser.thy ===== *)
theory Patch_Parser
  imports Prelude
begin

text \<open>
  The patch parser of the apply-patch engine,
  \<open>xai-grok-tools/src/implementations/codex/apply_patch/parser.rs\<close>, with the parse errors of
  \<open>errors.rs\<close>. A slice whose first line is inspected is passed as that line and the rest; the
  loops over the remaining lines are recursive functions whose termination is the fact that every
  chunk and every hunk consumes at least one line.
\<close>

section \<open>Types\<close>

definition BEGIN_PATCH_MARKER :: rstr where "BEGIN_PATCH_MARKER = lit ''*** Begin Patch''"
definition END_PATCH_MARKER :: rstr where "END_PATCH_MARKER = lit ''*** End Patch''"
definition ADD_FILE_MARKER :: rstr where "ADD_FILE_MARKER = lit ''*** Add File: ''"
definition DELETE_FILE_MARKER :: rstr where "DELETE_FILE_MARKER = lit ''*** Delete File: ''"
definition UPDATE_FILE_MARKER :: rstr where "UPDATE_FILE_MARKER = lit ''*** Update File: ''"
definition MOVE_TO_MARKER :: rstr where "MOVE_TO_MARKER = lit ''*** Move to: ''"
definition EOF_MARKER :: rstr where "EOF_MARKER = lit ''*** End of File''"
definition CHANGE_CONTEXT_MARKER :: rstr where "CHANGE_CONTEXT_MARKER = lit ''@@ ''"
definition EMPTY_CHANGE_CONTEXT_MARKER :: rstr where "EMPTY_CHANGE_CONTEXT_MARKER = lit ''@@''"

lemmas marker_defs =
  BEGIN_PATCH_MARKER_def END_PATCH_MARKER_def ADD_FILE_MARKER_def DELETE_FILE_MARKER_def
  UPDATE_FILE_MARKER_def MOVE_TO_MARKER_def EOF_MARKER_def CHANGE_CONTEXT_MARKER_def
  EMPTY_CHANGE_CONTEXT_MARKER_def

datatype ParseError =
    InvalidPatchError rstr
  | InvalidHunkError rstr nat

record UpdateFileChunk =
  change_context :: "rstr option"
  old_lines :: "rstr list"
  new_lines :: "rstr list"
  is_end_of_file :: bool

datatype Hunk =
    AddFile rstr rstr
  | DeleteFile rstr
  | UpdateFile rstr "rstr option" "UpdateFileChunk list"

record ParsedPatch =
  pp_hunks :: "Hunk list"
  pp_patch :: rstr

datatype ParseMode = Strict | Lenient

definition PARSE_IN_STRICT_MODE :: bool where "PARSE_IN_STRICT_MODE = False"

definition quoted :: "rstr \<Rightarrow> rstr" where "quoted s = [39] @ s @ [39]"

section \<open>Chunks\<close>

definition no_lines_error :: "nat \<Rightarrow> ParseError" where
  "no_lines_error n = InvalidHunkError (lit ''Update hunk does not contain any lines'') n"

fun chunk_loop :: "nat \<Rightarrow> rstr list \<Rightarrow> UpdateFileChunk \<Rightarrow> nat \<Rightarrow> ParseError + (UpdateFileChunk \<times> nat)" where
  "chunk_loop line_number [] ch n = Ok (ch, n)"
| "chunk_loop line_number (l # ls) ch n =
     (if l = EOF_MARKER then
        (if n = 0 then Err (no_lines_error (line_number + 1)) else Ok (ch\<lparr>is_end_of_file := True\<rparr>, n + 1))
      else case l of
        [] \<Rightarrow> chunk_loop line_number ls
                (ch\<lparr>old_lines := old_lines ch @ [[]], new_lines := new_lines ch @ [[]]\<rparr>) (n + 1)
      | c # r \<Rightarrow>
          if c = 32 then chunk_loop line_number ls
                (ch\<lparr>old_lines := old_lines ch @ [r], new_lines := new_lines ch @ [r]\<rparr>) (n + 1)
          else if c = 43 then chunk_loop line_number ls (ch\<lparr>new_lines := new_lines ch @ [r]\<rparr>) (n + 1)
          else if c = 45 then chunk_loop line_number ls (ch\<lparr>old_lines := old_lines ch @ [r]\<rparr>) (n + 1)
          else if n = 0 then Err (InvalidHunkError
                (lit ''Unexpected line found in update hunk: '' @ quoted l @
                 lit ''. Every line should start with '' @ quoted [32] @ lit '' (context line), '' @
                 quoted [43] @ lit '' (added line), or '' @ quoted [45] @ lit '' (removed line)'')
                (line_number + 1))
          else Ok (ch, n))"

definition parse_update_file_chunk ::
  "rstr list \<Rightarrow> nat \<Rightarrow> bool \<Rightarrow> ParseError + (UpdateFileChunk \<times> nat)" where
  "parse_update_file_chunk lns line_number allow_missing_context =
     (case lns of
        [] \<Rightarrow> Err (no_lines_error line_number)
      | l # ls \<Rightarrow>
          bind_result
            (if l = EMPTY_CHANGE_CONTEXT_MARKER then Ok (None, 1)
             else case strip_prefix CHANGE_CONTEXT_MARKER l of
                    Some ctx \<Rightarrow> Ok (Some ctx, 1)
                  | None \<Rightarrow>
                      if \<not> allow_missing_context then Err (InvalidHunkError
                        (lit ''Expected update hunk to start with a @@ context marker, got: '' @ quoted l)
                        line_number)
                      else Ok (None, 0))
            (\<lambda>(ctx, start_index).
               if length lns \<le> start_index then Err (no_lines_error (line_number + 1))
               else bind_result
                 (chunk_loop line_number (drop start_index lns)
                    \<lparr>change_context = ctx, old_lines = [], new_lines = [], is_end_of_file = False\<rparr> 0)
                 (\<lambda>(ch, n). Ok (ch, n + start_index))))"

lemma chunk_loop_count:
  "chunk_loop ln ls ch n = Ok (ch', m) \<Longrightarrow> n \<le> m \<and> m \<le> n + length ls \<and> (n = 0 \<and> ls \<noteq> [] \<longrightarrow> 1 \<le> m)"
proof (induction ln ls ch n rule: chunk_loop.induct)
  case (2 line_number l ls ch n)
  then show ?case by (cases l) (auto split: if_splits)
qed simp

lemma parse_chunk_progress:
  assumes "parse_update_file_chunk lns ln allow = Ok (ch, n)"
  shows "1 \<le> n \<and> n \<le> length lns"
proof (cases lns)
  case (Cons l ls)
  then show ?thesis using assms
    by (auto simp: parse_update_file_chunk_def split: if_splits option.splits dest!: chunk_loop_count)
qed (use assms in \<open>simp add: parse_update_file_chunk_def\<close>)

section \<open>Hunks\<close>

fun add_lines_loop :: "rstr list \<Rightarrow> rstr \<Rightarrow> nat \<Rightarrow> rstr \<times> nat" where
  "add_lines_loop [] contents parsed_lines = (contents, parsed_lines)"
| "add_lines_loop (l # ls) contents parsed_lines =
     (case strip_prefix [43] l of
        Some line_to_add \<Rightarrow> add_lines_loop ls (contents @ line_to_add @ [10]) (parsed_lines + 1)
      | None \<Rightarrow> (contents, parsed_lines))"

function update_chunks ::
  "nat \<Rightarrow> rstr list \<Rightarrow> nat \<Rightarrow> UpdateFileChunk list \<Rightarrow> ParseError + (UpdateFileChunk list \<times> nat)" where
  "update_chunks line_number [] parsed_lines chunks = Ok (chunks, parsed_lines)"
| "update_chunks line_number (l # ls) parsed_lines chunks =
     (if trim l = [] then update_chunks line_number ls (parsed_lines + 1) chunks
      else if prefix (lit ''***'') l then Ok (chunks, parsed_lines)
      else case parse_update_file_chunk (l # ls) (line_number + parsed_lines) (chunks = []) of
             Inl e \<Rightarrow> Err e
           | Inr (chunk, chunk_lines) \<Rightarrow>
               update_chunks line_number (drop chunk_lines (l # ls)) (parsed_lines + chunk_lines) (chunks @ [chunk]))"
  by pat_completeness auto
termination
  by (relation "measure (\<lambda>(_, ls, _, _). length ls)") (auto dest!: parse_chunk_progress)

definition parse_one_hunk :: "rstr \<Rightarrow> rstr list \<Rightarrow> nat \<Rightarrow> ParseError + (Hunk \<times> nat)" where
  "parse_one_hunk first rest line_number =
     (let first_line = trim first
      in case strip_prefix ADD_FILE_MARKER first_line of
           Some path \<Rightarrow>
             (let (contents, parsed_lines) = add_lines_loop rest [] 1
              in Ok (AddFile path contents, parsed_lines))
         | None \<Rightarrow>
         (case strip_prefix DELETE_FILE_MARKER first_line of
           Some path \<Rightarrow> Ok (DeleteFile path, 1)
         | None \<Rightarrow>
         (case strip_prefix UPDATE_FILE_MARKER first_line of
           Some path \<Rightarrow>
             (let move_path = (case rest of [] \<Rightarrow> None | x # _ \<Rightarrow> strip_prefix MOVE_TO_MARKER x);
                  remaining_lines = (if move_path \<noteq> None then tl rest else rest);
                  parsed_lines = (if move_path \<noteq> None then 2 else 1)
              in bind_result (update_chunks line_number remaining_lines parsed_lines [])
                   (\<lambda>(chunks, parsed).
                      if chunks = [] then Err (InvalidHunkError
                        (lit ''Update file hunk for path '' @ quoted path @ lit '' is empty'') line_number)
                      else Ok (UpdateFile path move_path chunks, parsed)))
         | None \<Rightarrow> Err (InvalidHunkError
             (quoted first_line @ lit '' is not a valid hunk header. Valid hunk headers: '' @
              quoted (lit ''*** Add File: {path}'') @ lit '', '' @ quoted (lit ''*** Delete File: {path}'') @
              lit '', '' @ quoted (lit ''*** Update File: {path}'')) line_number))))"

lemma add_lines_loop_count:
  "add_lines_loop ls c n = (c', m) \<Longrightarrow> n \<le> m \<and> m \<le> n + length ls"
  by (induction ls c n rule: add_lines_loop.induct) (force split: option.splits)+

lemma update_chunks_count:
  "update_chunks ln ls n cs = Ok (cs', m) \<Longrightarrow> n \<le> m \<and> m \<le> n + length ls"
proof (induction ln ls n cs rule: update_chunks.induct)
  case (2 ln l ls n cs)
  then show ?case
    by (fastforce split: if_splits sum.splits prod.splits dest: parse_chunk_progress)
qed simp

lemma parse_hunk_progress:
  assumes "parse_one_hunk first rest ln = Ok (h, n)"
  shows "1 \<le> n \<and> n \<le> Suc (length rest)"
proof -
  have "1 \<le> n \<and> n \<le> Suc (length rest)" if "update_chunks ln (if mv \<noteq> None then tl rest else rest)
      (if mv \<noteq> None then 2 else 1) [] = Ok (cs, n)" "mv = (case rest of [] \<Rightarrow> None | x # _ \<Rightarrow> strip_prefix MOVE_TO_MARKER x)"
    for mv cs
    using update_chunks_count [OF that(1)] that(2) by (cases rest) (auto split: if_splits)
  then show ?thesis using assms
    by (auto simp: parse_one_hunk_def Let_def dest: add_lines_loop_count
        split: option.splits if_splits prod.splits list.splits)
qed

section \<open>Patches\<close>

definition check_start_and_end_lines_strict :: "rstr option \<Rightarrow> rstr option \<Rightarrow> ParseError + unit" where
  "check_start_and_end_lines_strict first_line last_line =
     (let f = map_option trim first_line; l = map_option trim last_line
      in if f = Some BEGIN_PATCH_MARKER \<and> l = Some END_PATCH_MARKER then Ok ()
         else if f \<noteq> None \<and> f \<noteq> Some BEGIN_PATCH_MARKER
         then Err (InvalidPatchError (lit ''The first line of the patch must be '' @ quoted BEGIN_PATCH_MARKER))
         else Err (InvalidPatchError (lit ''The last line of the patch must be '' @ quoted END_PATCH_MARKER)))"

definition check_patch_boundaries_strict :: "rstr list \<Rightarrow> ParseError + unit" where
  "check_patch_boundaries_strict lns =
     (case lns of
        [] \<Rightarrow> check_start_and_end_lines_strict None None
      | first # _ \<Rightarrow> check_start_and_end_lines_strict (Some first) (Some (last lns)))"

definition check_patch_boundaries_lenient :: "rstr list \<Rightarrow> ParseError \<Rightarrow> ParseError + rstr list" where
  "check_patch_boundaries_lenient original_lines original_parse_error =
     (case original_lines of
        first # second # _ \<Rightarrow>
          if (first = lit ''<<EOF'' \<or> first = lit ''<<'' @ quoted (lit ''EOF'') \<or>
              first = lit ''<<'' @ [34] @ lit ''EOF'' @ [34]) \<and>
             suffix (lit ''EOF'') (last original_lines) \<and> 4 \<le> length original_lines
          then (let inner_lines = butlast (tl original_lines)
                in bind_result (check_patch_boundaries_strict inner_lines) (\<lambda>_. Ok inner_lines))
          else Err original_parse_error
      | _ \<Rightarrow> Err original_parse_error)"

function parse_hunks :: "rstr list \<Rightarrow> nat \<Rightarrow> Hunk list \<Rightarrow> ParseError + Hunk list" where
  "parse_hunks [] line_number hunks = Ok hunks"
| "parse_hunks (l # ls) line_number hunks =
     (case parse_one_hunk l ls line_number of
        Inl e \<Rightarrow> Err e
      | Inr (hunk, hunk_lines) \<Rightarrow>
          parse_hunks (drop hunk_lines (l # ls)) (line_number + hunk_lines) (hunks @ [hunk]))"
  by pat_completeness auto
termination
  by (relation "measure (\<lambda>(ls, _, _). length ls)") (auto dest!: parse_hunk_progress)

definition parse_patch_text :: "rstr \<Rightarrow> ParseMode \<Rightarrow> ParseError + ParsedPatch" where
  "parse_patch_text patch mode =
     (let lns0 = str_lines (trim patch)
      in bind_result
           (case check_patch_boundaries_strict lns0 of
              Inr _ \<Rightarrow> Ok lns0
            | Inl e \<Rightarrow> (case mode of Strict \<Rightarrow> Err e | Lenient \<Rightarrow> check_patch_boundaries_lenient lns0 e))
           (\<lambda>lns. bind_result (parse_hunks (take (length lns - 1 - 1) (drop 1 lns)) 2 [])
              (\<lambda>hunks. Ok \<lparr>pp_hunks = hunks, pp_patch = join [10] lns\<rparr>)))"

definition parse_patch :: "rstr \<Rightarrow> ParseError + ParsedPatch" where
  "parse_patch patch = parse_patch_text patch (if PARSE_IN_STRICT_MODE then Strict else Lenient)"

section \<open>The printed form\<close>

text \<open>
  The text of a patch in the grammar of the source's header comment: every chunk with its context
  marker, its removed lines, then its added lines. Texts and paths that the format can carry hold
  no line feed and no carriage return at a line's end, and a path does not end in white space.
\<close>

definition chunk_text :: "UpdateFileChunk \<Rightarrow> rstr list" where
  "chunk_text ch =
     (case change_context ch of
        None \<Rightarrow> [EMPTY_CHANGE_CONTEXT_MARKER]
      | Some c \<Rightarrow> [CHANGE_CONTEXT_MARKER @ c]) @
     map (Cons 45) (old_lines ch) @ map (Cons 43) (new_lines ch) @
     (if is_end_of_file ch then [EOF_MARKER] else [])"

fun hunk_text :: "Hunk \<Rightarrow> rstr list" where
  "hunk_text (AddFile p c) = (ADD_FILE_MARKER @ p) # map (Cons 43) (butlast (split_char 10 c))"
| "hunk_text (DeleteFile p) = [DELETE_FILE_MARKER @ p]"
| "hunk_text (UpdateFile p mv cs) =
     (UPDATE_FILE_MARKER @ p) # (case mv of None \<Rightarrow> [] | Some m \<Rightarrow> [MOVE_TO_MARKER @ m]) @
     concat (map chunk_text cs)"

definition patch_lines :: "Hunk list \<Rightarrow> rstr list" where
  "patch_lines hs = BEGIN_PATCH_MARKER # concat (map hunk_text hs) @ [END_PATCH_MARKER]"

definition print_patch :: "Hunk list \<Rightarrow> rstr" where
  "print_patch hs = join [10] (patch_lines hs)"

definition clean :: "rstr \<Rightarrow> bool" where
  "clean l \<longleftrightarrow> 10 \<notin> set l \<and> (l = [] \<or> last l \<noteq> 13)"

definition wf_path :: "rstr \<Rightarrow> bool" where
  "wf_path p \<longleftrightarrow> p \<noteq> [] \<and> \<not> is_whitespace (last p) \<and> 10 \<notin> set p"

definition wf_chunk :: "UpdateFileChunk \<Rightarrow> bool" where
  "wf_chunk ch \<longleftrightarrow> (old_lines ch \<noteq> [] \<or> new_lines ch \<noteq> []) \<and>
     list_all clean (old_lines ch) \<and> list_all clean (new_lines ch) \<and>
     (case change_context ch of None \<Rightarrow> True | Some c \<Rightarrow> clean c)"

fun wf_hunk :: "Hunk \<Rightarrow> bool" where
  "wf_hunk (AddFile p c) \<longleftrightarrow> wf_path p \<and> (c = [] \<or> last c = 10) \<and>
     list_all clean (butlast (split_char 10 c))"
| "wf_hunk (DeleteFile p) \<longleftrightarrow> wf_path p"
| "wf_hunk (UpdateFile p mv cs) \<longleftrightarrow> wf_path p \<and> (case mv of None \<Rightarrow> True | Some m \<Rightarrow> clean m) \<and>
     cs \<noteq> [] \<and> list_all wf_chunk cs"

section \<open>Parsing what was printed\<close>

text \<open>What may follow a hunk: nothing, or the header of another one.\<close>

definition header_next :: "rstr list \<Rightarrow> bool" where
  "header_next t \<longleftrightarrow> t = [] \<or> (prefix (lit ''*** '') (hd t) \<and> hd t \<noteq> EOF_MARKER \<and> \<not> prefix MOVE_TO_MARKER (hd t))"

definition chunk_next :: "rstr list \<Rightarrow> bool" where
  "chunk_next t \<longleftrightarrow> header_next t \<or> (t \<noteq> [] \<and> prefix (lit ''@@'') (hd t))"

lemma chunk_loop_minus:
  "chunk_loop ln (map (Cons 45) os @ t) ch n = chunk_loop ln t (ch\<lparr>old_lines := old_lines ch @ os\<rparr>) (n + length os)"
  by (induction os arbitrary: ch n) (simp_all add: EOF_MARKER_def)

lemma chunk_loop_plus:
  "chunk_loop ln (map (Cons 43) ns @ t) ch n = chunk_loop ln t (ch\<lparr>new_lines := new_lines ch @ ns\<rparr>) (n + length ns)"
  by (induction ns arbitrary: ch n) (simp_all add: EOF_MARKER_def)

lemma chunk_loop_stop: "chunk_next t \<Longrightarrow> 0 < n \<Longrightarrow> chunk_loop ln t ch n = Ok (ch, n)"
  by (cases t) (auto simp: chunk_next_def header_next_def prefix_def EOF_MARKER_def)

lemma parse_chunk_text:
  assumes "wf_chunk ch" "chunk_next t"
  shows "parse_update_file_chunk (chunk_text ch @ t) ln allow = Ok (ch, length (chunk_text ch))"
proof -
  let ?ls = "map (Cons 45) (old_lines ch) @ map (Cons 43) (new_lines ch) @ (if is_end_of_file ch then [EOF_MARKER] else [])"
  have pos: "0 < length (old_lines ch) + length (new_lines ch)" using assms(1) by (auto simp: wf_chunk_def)
  have loop: "chunk_loop ln (?ls @ t) \<lparr>change_context = change_context ch, old_lines = [], new_lines = [],
      is_end_of_file = False\<rparr> 0 = Ok (ch, length ?ls)"
    using pos chunk_loop_stop [OF assms(2)]
    by (auto simp: chunk_loop_minus chunk_loop_plus)
  have ne: "new_lines ch = [] \<longrightarrow> old_lines ch \<noteq> []" using pos by auto
  show ?thesis
  proof (cases "change_context ch")
    case None
    then show ?thesis using loop ne
      by (simp add: parse_update_file_chunk_def chunk_text_def)
  next
    case (Some c)
    then show ?thesis using loop ne
      by (simp add: parse_update_file_chunk_def chunk_text_def CHANGE_CONTEXT_MARKER_def
          EMPTY_CHANGE_CONTEXT_MARKER_def strip_prefix_def)
  qed
qed

lemma trim_not_Nil: "l \<noteq> [] \<Longrightarrow> \<not> is_whitespace (hd l) \<Longrightarrow> trim l \<noteq> []"
proof
  assume l: "l \<noteq> []" "\<not> is_whitespace (hd l)" and "trim l = []"
  then have "trim_end l = []" by (cases l) (simp_all add: trim_def trim_start_def)
  then have "\<forall>c\<in>set l. is_whitespace c" by (simp add: trim_end_def dropWhile_eq_Nil_conv)
  with l show False by (cases l) auto
qed

lemma chunk_text_head: "\<exists>r ls. chunk_text ch = (64 # 64 # r) # ls"
  by (auto simp: chunk_text_def marker_defs split: option.split)

lemma update_chunks_text:
  assumes "list_all wf_chunk cs" "header_next t"
  shows "update_chunks ln (concat (map chunk_text cs) @ t) n acc =
    Ok (acc @ cs, n + length (concat (map chunk_text cs)))"
  using assms(1)
proof (induction cs arbitrary: n acc)
  case Nil
  show ?case
  proof (cases t)
    case (Cons l ls)
    then obtain r where "l = lit ''*** '' @ r" using assms(2) by (auto simp: header_next_def prefix_def)
    then have "trim l \<noteq> []" "prefix (lit ''***'') l"
      using trim_not_Nil [of l] by (simp_all add: is_whitespace_def)
    then show ?thesis by (simp add: Cons)
  qed simp
next
  case (Cons ch cs)
  let ?t = "concat (map chunk_text cs) @ t"
  obtain r ls where h: "chunk_text ch = (64 # 64 # r) # ls" using chunk_text_head by blast
  have "chunk_next ?t"
  proof (cases cs)
    case Nil
    then show ?thesis using assms(2) by (simp add: chunk_next_def)
  next
    case (Cons c' cs')
    then show ?thesis using chunk_text_head [of c'] by (auto simp: chunk_next_def)
  qed
  then have p: "parse_update_file_chunk (chunk_text ch @ ?t) (ln + n) (acc = []) = Ok (ch, length (chunk_text ch))"
    using Cons.prems by (intro parse_chunk_text) simp_all
  have "trim (64 # 64 # r) \<noteq> []" by (rule trim_not_Nil) (simp_all add: is_whitespace_def)
  then have "update_chunks ln (chunk_text ch @ ?t) n acc = update_chunks ln ?t (n + length (chunk_text ch)) (acc @ [ch])"
    using p by (simp add: h)
  then show ?case using Cons by simp
qed

lemma wf_path_trim:
  assumes "wf_path p"
  shows "trim (ADD_FILE_MARKER @ p) = ADD_FILE_MARKER @ p" "trim (DELETE_FILE_MARKER @ p) = DELETE_FILE_MARKER @ p"
    "trim (UPDATE_FILE_MARKER @ p) = UPDATE_FILE_MARKER @ p"
proof -
  have "trimmed (m @ p)" if "m \<noteq> []" "\<not> is_whitespace (hd m)" for m
    using assms that by (simp add: trimmed_def wf_path_def)
  then show "trim (ADD_FILE_MARKER @ p) = ADD_FILE_MARKER @ p" "trim (DELETE_FILE_MARKER @ p) = DELETE_FILE_MARKER @ p"
    "trim (UPDATE_FILE_MARKER @ p) = UPDATE_FILE_MARKER @ p"
    by (simp_all add: marker_defs [unfolded lit_simps] is_whitespace_def del: append_Cons append_Nil)
qed

lemma add_lines_text:
  "header_next t \<Longrightarrow> add_lines_loop (map (Cons 43) ls @ t) c n = (c @ concat (map (\<lambda>l. l @ [10]) ls), n + length ls)"
proof (induction ls arbitrary: c n)
  case Nil
  then show ?case by (cases t) (auto simp: header_next_def prefix_def strip_prefix_def)
qed (simp add: strip_prefix_def)

lemma join_terminated: "ps \<noteq> [] \<Longrightarrow> join [d] ps = concat (map (\<lambda>l. l @ [d]) (butlast ps)) @ last ps"
  by (induction "[d]" ps rule: join.induct) auto

lemma split_char_snoc: "split_char d (s @ [d]) = split_char d s @ [[]]"
proof (induction s)
  case (Cons c s)
  then show ?case by (cases "split_char d s") auto
qed simp

lemma last_split_char: "s = [] \<or> last s = d \<Longrightarrow> last (split_char d s) = []"
  by (cases s rule: rev_cases) (auto simp: split_char_snoc)

lemma terminated_lines:
  assumes "c = [] \<or> last c = d"
  shows "concat (map (\<lambda>l. l @ [d]) (butlast (split_char d c))) = c"
  using join_terminated [OF split_char_not_Nil [of d c], of d] join_split_char [of d c] last_split_char [OF assms]
  by simp

lemma parse_hunk_text:
  assumes "wf_hunk h" "header_next t"
  shows "parse_one_hunk (hd (hunk_text h)) (tl (hunk_text h) @ t) ln = Ok (h, length (hunk_text h))"
proof (cases h)
  case (AddFile p c)
  then show ?thesis using assms
    by (simp add: parse_one_hunk_def wf_path_trim add_lines_text terminated_lines)
next
  case (DeleteFile p)
  then show ?thesis using assms
    by (simp add: parse_one_hunk_def wf_path_trim) (simp add: strip_prefix_def marker_defs)
next
  case (UpdateFile p mv cs)
  have none: "strip_prefix ADD_FILE_MARKER (UPDATE_FILE_MARKER @ p) = None"
    "strip_prefix DELETE_FILE_MARKER (UPDATE_FILE_MARKER @ p) = None"
    by (simp_all add: strip_prefix_def marker_defs)
  obtain ch cs' where cs: "cs = ch # cs'" using assms(1) UpdateFile by (cases cs) auto
  then obtain r ls where ls: "concat (map chunk_text cs) = (64 # 64 # r) # ls"
    using chunk_text_head [of ch] by auto
  have no_move: "strip_prefix MOVE_TO_MARKER (64 # 64 # r) = None"
    by (simp add: strip_prefix_def marker_defs)
  have up: "update_chunks ln (((64 # 64 # r) # ls) @ t) n [] = Ok (cs, n + length (concat (map chunk_text cs)))" for n
    using assms UpdateFile update_chunks_text [of cs t ln n "[]"] by (simp add: ls)
  have head: "trim (UPDATE_FILE_MARKER @ p) = UPDATE_FILE_MARKER @ p"
    using assms(1) UpdateFile by (simp add: wf_path_trim)
  show ?thesis
  proof (cases mv)
    case None
    have "parse_one_hunk (UPDATE_FILE_MARKER @ p) ((64 # 64 # r) # ls @ t) ln = Ok (h, Suc (length (concat (map chunk_text cs))))"
      using up [of 1] by (simp add: parse_one_hunk_def head none no_move UpdateFile None cs del: update_chunks.simps)
    then show ?thesis by (simp add: UpdateFile None ls)
  next
    case (Some m)
    have "parse_one_hunk (UPDATE_FILE_MARKER @ p) ((MOVE_TO_MARKER @ m) # (64 # 64 # r) # ls @ t) ln =
        Ok (h, Suc (Suc (length (concat (map chunk_text cs)))))"
      using up [of 2] by (simp add: parse_one_hunk_def head none UpdateFile Some cs del: update_chunks.simps)
    then show ?thesis by (simp add: UpdateFile Some ls)
  qed
qed

lemma header_next_hunks: "header_next (concat (map hunk_text hs))"
proof (cases hs)
  case (Cons h hs')
  then show ?thesis by (cases h) (simp_all add: header_next_def marker_defs)
qed (simp add: header_next_def)

lemma parse_hunks_text:
  "list_all wf_hunk hs \<Longrightarrow> parse_hunks (concat (map hunk_text hs)) ln acc = Ok (acc @ hs)"
proof (induction hs arbitrary: ln acc)
  case (Cons h hs)
  let ?t = "concat (map hunk_text hs)"
  obtain l ls where l: "hunk_text h = l # ls" by (cases h) auto
  have "parse_one_hunk l (ls @ ?t) ln = Ok (h, length (hunk_text h))"
    using parse_hunk_text [OF _ header_next_hunks, of h hs ln] Cons.prems by (simp add: l)
  then show ?case using Cons by (simp add: l)
qed simp

lemma clean_strip: "clean l \<Longrightarrow> strip_cr l = l"
  by (auto simp: clean_def strip_cr_def)

lemma wf_path_clean: "wf_path p \<Longrightarrow> clean p"
  by (auto simp: wf_path_def clean_def is_whitespace_def)

lemma marker_clean [simp]:
  "clean EMPTY_CHANGE_CONTEXT_MARKER" "clean EOF_MARKER" "clean BEGIN_PATCH_MARKER" "clean END_PATCH_MARKER"
  by (simp_all add: clean_def marker_defs)

lemma marked_clean:
  assumes "clean l"
  shows "clean (CHANGE_CONTEXT_MARKER @ l)" "clean (ADD_FILE_MARKER @ l)" "clean (DELETE_FILE_MARKER @ l)"
    "clean (UPDATE_FILE_MARKER @ l)" "clean (MOVE_TO_MARKER @ l)" "clean (43 # l)" "clean (45 # l)"
  using assms by (cases l rule: rev_cases; simp add: clean_def marker_defs)+

lemma chunk_text_clean: "wf_chunk ch \<Longrightarrow> list_all clean (chunk_text ch)"
  by (cases "change_context ch") (auto simp: chunk_text_def wf_chunk_def list_all_iff marked_clean)

lemma hunk_text_clean: "wf_hunk h \<Longrightarrow> list_all clean (hunk_text h)"
proof (cases h)
  case (UpdateFile p mv cs)
  assume "wf_hunk h"
  then have "clean p" "list_all clean (concat (map chunk_text cs))" "\<forall>m. mv = Some m \<longrightarrow> clean m"
    using chunk_text_clean UpdateFile by (auto simp: list_all_iff wf_path_clean)
  then show ?thesis
    by (cases mv) (simp_all add: UpdateFile marked_clean)
qed (auto simp: list_all_iff marked_clean dest: wf_path_clean)

lemma str_lines_join:
  assumes "ls \<noteq> []" "list_all clean ls" "last ls \<noteq> []"
  shows "str_lines (join [10] ls) = ls"
proof -
  have "split_char 10 (join [10] ls) = ls"
    using assms by (intro split_char_join) (auto simp: list_all_iff clean_def)
  moreover have "map strip_cr (butlast ls) = butlast ls"
    using assms(2) by (intro map_idI clean_strip) (auto simp: list_all_iff dest: in_set_butlastD)
  ultimately show ?thesis using assms by (simp add: str_lines_def)
qed

lemma print_patch_ends: "\<exists>m. print_patch hs = BEGIN_PATCH_MARKER @ m @ END_PATCH_MARKER"
  unfolding print_patch_def patch_lines_def by (simp add: join_Cons join_snoc)

text \<open>Where an error may point.\<close>

lemma chunk_loop_error: "chunk_loop ln ls ch n = Err e \<Longrightarrow> \<exists>m. e = InvalidHunkError m (ln + 1)"
proof (induction ln ls ch n rule: chunk_loop.induct)
  case (2 ln l ls ch n)
  then show ?case by (cases l) (auto simp: no_lines_error_def split: if_splits)
qed simp

lemma bind_result_eq_Inl: "bind_result r f = Inl e \<longleftrightarrow> r = Inl e \<or> (\<exists>a. r = Inr a \<and> f a = Inl e)"
  by (cases r) auto

lemma parse_chunk_error:
  "parse_update_file_chunk lns ln allow = Err e \<Longrightarrow> \<exists>m k. e = InvalidHunkError m k \<and> ln \<le> k \<and> k \<le> ln + 1"
  by (auto simp: parse_update_file_chunk_def no_lines_error_def bind_result_eq_Inl
      dest!: chunk_loop_error split: list.splits option.splits if_splits)

lemma update_chunks_error:
  "update_chunks ln ls n acc = Err e \<Longrightarrow>
     \<exists>m k. e = InvalidHunkError m k \<and> ln + n \<le> k \<and> k \<le> ln + n + length ls"
proof (induction ln ls n acc rule: update_chunks.induct)
  case (2 ln l ls n acc)
  show ?case
  proof (cases "trim l = []")
    case True
    then show ?thesis using 2 by fastforce
  next
    case False
    show ?thesis
    proof (cases "parse_update_file_chunk (l # ls) (ln + n) (acc = [])")
      case (Inl e')
      then show ?thesis using 2(3) False parse_chunk_error [OF Inl] by (auto split: if_splits)
    next
      case (Inr r)
      obtain c k where r: "r = (c, k)" by fastforce
      have k: "1 \<le> k" "k \<le> Suc (length ls)" using parse_chunk_progress Inr r by fastforce+
      have "update_chunks ln (drop k (l # ls)) (n + k) (acc @ [c]) = Err e" "\<not> prefix (lit ''***'') l"
        using 2(3) False Inr r by (auto split: if_splits)
      from 2(2) [OF False this(2) Inr r [symmetric] this(1)] k show ?thesis by auto
    qed
  qed
qed simp

lemma parse_hunk_error:
  assumes "parse_one_hunk first rest ln = Err e"
  shows "\<exists>m k. e = InvalidHunkError m k \<and> ln \<le> k \<and> k \<le> ln + Suc (length rest)"
proof -
  have "\<exists>m k. e = InvalidHunkError m k \<and> ln \<le> k \<and> k \<le> ln + Suc (length rest)"
    if "update_chunks ln (if mv \<noteq> None then tl rest else rest) (if mv \<noteq> None then 2 else 1) [] = Err e"
      "mv = (case rest of [] \<Rightarrow> None | x # _ \<Rightarrow> strip_prefix MOVE_TO_MARKER x)" for mv
    using update_chunks_error [OF that(1)] that(2) by (cases rest) (auto split: if_splits)
  then show ?thesis using assms
    by (auto simp: parse_one_hunk_def Let_def bind_result_eq_Inl split: option.splits if_splits prod.splits list.splits)
qed

section \<open>Properties\<close>

lemma print_patch_parses:
  assumes "list_all wf_hunk hs"
  shows "parse_patch (print_patch hs) = Ok \<lparr>pp_hunks = hs, pp_patch = print_patch hs\<rparr>"
proof -
  have "trimmed (print_patch hs)"
    using print_patch_ends [of hs] by (auto simp: trimmed_def marker_defs is_whitespace_def)
  then have "trim (print_patch hs) = print_patch hs" by simp
  moreover have "str_lines (print_patch hs) = patch_lines hs"
    unfolding print_patch_def using assms hunk_text_clean
    by (intro str_lines_join) (auto simp: patch_lines_def list_all_iff clean_def marker_defs)
  moreover have "check_patch_boundaries_strict (patch_lines hs) = Ok ()"
    by (simp add: check_patch_boundaries_strict_def check_start_and_end_lines_strict_def patch_lines_def)
       (simp add: marker_defs trimmed_def is_whitespace_def)
  moreover have "take (length (patch_lines hs) - 1 - 1) (drop 1 (patch_lines hs)) = concat (map hunk_text hs)"
    by (simp add: patch_lines_def)
  ultimately show ?thesis using parse_hunks_text [OF assms, of 2 "[]"]
    by (simp add: parse_patch_def parse_patch_text_def print_patch_def Let_def)
qed

text \<open>
  C30: printing and parsing are inverse. Every list of hunks that the format can carry parses back
  from its printed text, hunk for hunk and chunk for chunk, and the recorded patch text is the
  printed one.
\<close>

theorem parse_patch_roundtrip:
  "list_all wf_hunk hs \<Longrightarrow> parse_patch (print_patch hs) = Ok \<lparr>pp_hunks = hs, pp_patch = print_patch hs\<rparr>"
  by (rule print_patch_parses)

theorem parse_patch_roundtrip_witness:
  "parse_patch (print_patch [UpdateFile (lit ''a.rs'') None
      [\<lparr>change_context = Some (lit ''fn f''), old_lines = [lit ''x''], new_lines = [lit ''y''], is_end_of_file = True\<rparr>]]) =
   Ok \<lparr>pp_hunks = [UpdateFile (lit ''a.rs'') None
      [\<lparr>change_context = Some (lit ''fn f''), old_lines = [lit ''x''], new_lines = [lit ''y''], is_end_of_file = True\<rparr>]],
     pp_patch = print_patch [UpdateFile (lit ''a.rs'') None
      [\<lparr>change_context = Some (lit ''fn f''), old_lines = [lit ''x''], new_lines = [lit ''y''], is_end_of_file = True\<rparr>]]\<rparr>"
  by (rule parse_patch_roundtrip) (simp add: wf_path_def wf_chunk_def clean_def is_whitespace_def)

text \<open>
  every line is accounted for. A hunk that parses consumes at least one line and no more than
  there are, so the outer loop ends and its slices stay in range; and an error names a line of the
  patch: it is never before the hunk's first line and never past the line after the patch.
\<close>

lemma parse_one_hunk_consumes:
  "case parse_one_hunk first rest line_number of
     Inl (InvalidHunkError m k) \<Rightarrow> line_number \<le> k \<and> k \<le> line_number + Suc (length rest)
   | Inl (InvalidPatchError m) \<Rightarrow> False
   | Inr (h, n) \<Rightarrow> 1 \<le> n \<and> n \<le> Suc (length rest)"
proof (cases "parse_one_hunk first rest line_number")
  case (Inl e)
  then show ?thesis using parse_hunk_error [OF Inl] by auto
next
  case (Inr r)
  then show ?thesis using parse_hunk_progress [of first rest line_number "fst r" "snd r"]
    by (cases r) simp
qed

end
