(* ===== verification/Patch_Seek.thy ===== *)
theory Patch_Seek
  imports Prelude
begin

text \<open>
  The fuzzy line matcher of the apply-patch engine,
  \<open>xai-grok-tools/src/implementations/codex/apply_patch/seek_sequence.rs\<close>: four passes of
  decreasing strictness over the candidate positions, each from the first position to the last.
\<close>

section \<open>Definitions\<close>

definition normalise_char :: "uchar \<Rightarrow> uchar" where
  "normalise_char c =
     (if (8208 \<le> c \<and> c \<le> 8213) \<or> c = 8722 then 45
      else if 8216 \<le> c \<and> c \<le> 8219 then 39
      else if 8220 \<le> c \<and> c \<le> 8223 then 34
      else if c = 160 \<or> (8194 \<le> c \<and> c \<le> 8202) \<or> c = 8239 \<or> c = 8287 \<or> c = 12288 then 32
      else c)"

definition normalise :: "rstr \<Rightarrow> rstr" where
  "normalise s = map normalise_char (trim s)"

definition block_matches :: "(rstr \<Rightarrow> rstr) \<Rightarrow> rstr list \<Rightarrow> rstr list \<Rightarrow> nat \<Rightarrow> bool" where
  "block_matches f lns pat i \<longleftrightarrow> list_all (\<lambda>k. f (lns ! (i + k)) = f (pat ! k)) [0..<length pat]"

definition seek_pass :: "(nat \<Rightarrow> bool) \<Rightarrow> nat \<Rightarrow> nat \<Rightarrow> nat option" where
  "seek_pass P search_start lst = find P [search_start..<Suc lst]"

definition or_else :: "'a option \<Rightarrow> 'a option \<Rightarrow> 'a option" where
  "or_else x y = (case x of None \<Rightarrow> y | Some a \<Rightarrow> Some a)"

definition seek_sequence :: "rstr list \<Rightarrow> rstr list \<Rightarrow> nat \<Rightarrow> bool \<Rightarrow> nat option" where
  "seek_sequence lns pat start eof =
     (if pat = [] then Some start
      else if length lns < length pat then None
      else (let search_start = (if eof \<and> length pat \<le> length lns then length lns - length pat else start);
                lst = length lns - length pat
            in or_else (seek_pass (\<lambda>i. take (length pat) (drop i lns) = pat) search_start lst)
              (or_else (seek_pass (block_matches trim_end lns pat) search_start lst)
              (or_else (seek_pass (block_matches trim lns pat) search_start lst)
                       (seek_pass (block_matches normalise lns pat) search_start lst)))))"

section \<open>The contract\<close>

text \<open>What a client may rely on: a hit lies inside the file, at or after the start unless the
  end of the file was asked for, and its lines agree with the pattern up to a similarity.\<close>

locale line_seeker =
  fixes seek :: "'l list \<Rightarrow> 'l list \<Rightarrow> nat \<Rightarrow> bool \<Rightarrow> nat option"
    and sim :: "'l \<Rightarrow> 'l \<Rightarrow> bool"
  assumes seek_Nil: "seek lns [] start eof = Some start"
    and seek_bound: "seek lns pat start eof = Some i \<Longrightarrow> pat \<noteq> [] \<Longrightarrow> i + length pat \<le> length lns"
    and seek_sim: "seek lns pat start eof = Some i \<Longrightarrow> k < length pat \<Longrightarrow> sim (lns ! (i + k)) (pat ! k)"
    and seek_after: "seek lns pat start False = Some i \<Longrightarrow> start \<le> i"
    and seek_eof: "seek lns pat start True = Some i \<Longrightarrow> pat \<noteq> [] \<Longrightarrow> i + length pat = length lns"
begin

lemma seek_in_file: "seek lns pat start eof = Some i \<Longrightarrow> start \<le> length lns \<Longrightarrow> i + length pat \<le> length lns"
  by (cases "pat = []") (auto simp: seek_Nil dest: seek_bound)

lemma seek_block:
  assumes "seek lns pat start eof = Some i" "start \<le> length lns"
  shows "list_all2 sim (take (length pat) (drop i lns)) pat"
  using seek_in_file [OF assms] seek_sim [OF assms(1)] by (auto simp: list_all2_conv_all_nth)

end

lemma seek_pass_Some:
  assumes "seek_pass P s l = Some i"
  shows "P i" "s \<le> i" "i \<le> l" "\<forall>j. s \<le> j \<and> j < i \<longrightarrow> \<not> P j"
proof -
  from assms obtain k where k: "k < length [s..<Suc l]" "P ([s..<Suc l] ! k)" "i = [s..<Suc l] ! k"
    "\<forall>j<k. \<not> P ([s..<Suc l] ! j)"
    unfolding seek_pass_def find_Some_iff by blast
  then have i: "i = s + k" "s + k \<le> l" by (simp_all del: upt_Suc)
  with k show "P i" "s \<le> i" "i \<le> l" by (simp_all del: upt_Suc)
  show "\<forall>j. s \<le> j \<and> j < i \<longrightarrow> \<not> P j"
  proof (intro allI impI)
    fix j assume j: "s \<le> j \<and> j < i"
    then have "j - s < k" using i by linarith
    with k(4) have "\<not> P ([s..<Suc l] ! (j - s))" by blast
    then show "\<not> P j" using j i by (simp del: upt_Suc)
  qed
qed

lemma seek_pass_None: "seek_pass P s l = None \<longleftrightarrow> (\<forall>j. s \<le> j \<and> j \<le> l \<longrightarrow> \<not> P j)"
  by (auto simp: seek_pass_def find_None_iff)

lemma block_exact:
  "i + length pat \<le> length lns \<Longrightarrow>
     take (length pat) (drop i lns) = pat \<longleftrightarrow> (\<forall>k<length pat. lns ! (i + k) = pat ! k)"
  by (auto simp: list_eq_iff_nth_eq)

lemma block_matches_iff: "block_matches f lns pat i \<longleftrightarrow> (\<forall>k<length pat. f (lns ! (i + k)) = f (pat ! k))"
  by (auto simp: block_matches_def list_all_iff)

lemma trim_end_trim: "trim_end s = trim_end t \<Longrightarrow> trim s = trim t"
proof -
  have "trim s = trim_start (trim_end s)" for s
  proof (induction s)
    case (Cons c s)
    show ?case
    proof (cases "is_whitespace c \<and> trim_end s = []")
      case True
      then have "trim_end (c # s) = []" by (simp add: trim_end_def)
      moreover from True have "trim s = []" using Cons by (simp add: trim_start_def)
      ultimately show ?thesis using True by (simp add: trim_def trim_start_def)
    next
      case False
      then have "trim_end (c # s) = c # trim_end s"
        by (auto simp: trim_end_def dropWhile_append)
      then show ?thesis using Cons by (simp add: trim_def trim_start_def)
    qed
  qed (simp add: trim_start_def trim_end_def)
  then show "trim_end s = trim_end t \<Longrightarrow> trim s = trim t" by metis
qed

text \<open>Each pass accepts no more than the next one, so every hit agrees up to normalisation.\<close>

lemma trim_end_normalise: "trim_end s = trim_end t \<Longrightarrow> normalise s = normalise t"
  unfolding normalise_def using trim_end_trim by metis

lemma pass_levels:
  assumes "j + length pat \<le> length lns"
    and "take (length pat) (drop j lns) = pat \<or> block_matches trim_end lns pat j \<or>
      block_matches trim lns pat j \<or> block_matches normalise lns pat j"
  shows "block_matches normalise lns pat j"
  unfolding block_matches_iff
proof (intro allI impI)
  fix k assume "k < length pat"
  then have "lns ! (j + k) = pat ! k \<or> trim_end (lns ! (j + k)) = trim_end (pat ! k) \<or>
      trim (lns ! (j + k)) = trim (pat ! k) \<or> normalise (lns ! (j + k)) = normalise (pat ! k)"
    using assms(2) unfolding block_exact [OF assms(1)] block_matches_iff by blast
  then show "normalise (lns ! (j + k)) = normalise (pat ! k)"
    using trim_end_normalise unfolding normalise_def by metis
qed

lemma seek_levels:
  assumes "seek_sequence lns pat start eof = Some i" "pat \<noteq> []"
  shows "i + length pat \<le> length lns" "\<forall>k<length pat. normalise (lns ! (i + k)) = normalise (pat ! k)"
    "\<not> eof \<longrightarrow> start \<le> i" "eof \<longrightarrow> i + length pat = length lns"
proof -
  let ?s = "if eof \<and> length pat \<le> length lns then length lns - length pat else start"
  let ?l = "length lns - length pat"
  have len: "length pat \<le> length lns"
    using assms by (auto simp: seek_sequence_def split: if_splits)
  obtain P where P: "seek_pass P ?s ?l = Some i"
    and lvl: "P \<in> {\<lambda>j. take (length pat) (drop j lns) = pat, block_matches trim_end lns pat,
      block_matches trim lns pat, block_matches normalise lns pat}"
    using assms len by (auto simp: seek_sequence_def or_else_def Let_def split: option.splits)
  note p = seek_pass_Some [OF P]
  show bound: "i + length pat \<le> length lns" using p(3) len by simp
  then have "block_matches normalise lns pat i" using lvl p(1) by (intro pass_levels) auto
  then show "\<forall>k<length pat. normalise (lns ! (i + k)) = normalise (pat ! k)"
    by (simp add: block_matches_iff)
  show "\<not> eof \<longrightarrow> start \<le> i" "eof \<longrightarrow> i + length pat = length lns" using p(2,3) len by auto
qed

interpretation seeker: line_seeker seek_sequence "\<lambda>l p. normalise l = normalise p"
proof
  fix lns pat :: "rstr list" and start i eof
  show "seek_sequence lns [] start eof = Some start" by (simp add: seek_sequence_def)
  show "start \<le> i" if "seek_sequence lns pat start False = Some i"
    using that by (cases "pat = []") (auto simp: seek_sequence_def [of _ "[]"] dest: seek_levels(3))
qed (auto dest: seek_levels)

lemma seek_pass_at: "P j \<Longrightarrow> s \<le> j \<Longrightarrow> j \<le> l \<Longrightarrow> \<forall>m. s \<le> m \<and> m < j \<longrightarrow> \<not> P m \<Longrightarrow> seek_pass P s l = Some j"
proof (cases "seek_pass P s l")
  case (Some i)
  assume "P j" "s \<le> j" "\<forall>m. s \<le> m \<and> m < j \<longrightarrow> \<not> P m"
  then have "i = j" using seek_pass_Some [OF Some] by (meson linorder_neqE_nat)
  with Some show ?thesis by simp
qed (auto simp: seek_pass_None)

lemma seek_exact_at:
  assumes "pat \<noteq> []" "start \<le> j" "j + length pat \<le> length lns" "take (length pat) (drop j lns) = pat"
    "\<forall>m. start \<le> m \<and> m < j \<longrightarrow> take (length pat) (drop m lns) \<noteq> pat"
  shows "seek_sequence lns pat start False = Some j"
  using seek_pass_at [of "\<lambda>i. take (length pat) (drop i lns) = pat" j start "length lns - length pat"] assms
  by (simp add: seek_sequence_def or_else_def Let_def)

section \<open>Properties\<close>

text \<open>
  strictness is respected. A search that does not ask for the end of the file returns the first
  exact occurrence at or after the start whenever there is one, however similar an earlier block is.
\<close>

lemma seek_sequence_exact_first:
  assumes "pat \<noteq> []" and "start \<le> j" and "take (length pat) (drop j lns) = pat"
  shows "\<exists>i. seek_sequence lns pat start False = Some i \<and> i \<le> j \<and>
    take (length pat) (drop i lns) = pat \<and>
    (\<forall>m. start \<le> m \<and> m < i \<longrightarrow> take (length pat) (drop m lns) \<noteq> pat)"
proof -
  let ?Q = "\<lambda>m. start \<le> m \<and> take (length pat) (drop m lns) = pat"
  define i where "i = (LEAST m. ?Q m)"
  have i: "?Q i" unfolding i_def by (rule LeastI [of ?Q j]) (simp add: assms(2,3))
  have least: "\<And>m. ?Q m \<Longrightarrow> i \<le> m" unfolding i_def by (rule Least_le)
  have "length (take (length pat) (drop i lns)) = length pat" using i by simp
  then have "i + length pat \<le> length lns" using assms(1) by (cases pat) auto
  then have "seek_sequence lns pat start False = Some i"
    using i least assms(1) by (intro seek_exact_at) (auto simp: not_le [symmetric])
  then show ?thesis using i least assms(2,3) by (auto simp: not_le [symmetric])
qed

theorem seek_sequence_exact_first_witness:
  "seek_sequence [lit ''b '', lit ''a'', lit ''b''] [lit ''b''] 0 False = Some 2"
proof -
  have "\<exists>i. seek_sequence [lit ''b '', lit ''a'', lit ''b''] [lit ''b''] 0 False = Some i \<and> i \<le> 2 \<and>
      take (length [lit ''b'']) (drop i [lit ''b '', lit ''a'', lit ''b'']) = [lit ''b'']"
    using seek_sequence_exact_first [of "[lit ''b'']" 0 2 "[lit ''b '', lit ''a'', lit ''b'']"] by auto
  then obtain i where i: "seek_sequence [lit ''b '', lit ''a'', lit ''b''] [lit ''b''] 0 False = Some i"
    "i \<le> 2" "take 1 (drop i [lit ''b '', lit ''a'', lit ''b'']) = [lit ''b'']" by auto
  then have "i = 2" by (cases i rule: nat.exhaust; cases "i - 1") (auto simp: numeral_2_eq_2)
  with i show ?thesis by simp
qed

text \<open>
  the end-of-file search looks at one position only. With \<open>eof\<close> set a non-empty pattern is found
  exactly when it agrees with the last lines of the file up to normalisation, and \<open>start\<close> plays no
  part: there is no search from \<open>start\<close> when the end does not match.
\<close>

lemma seek_sequence_eof:
  assumes "pat \<noteq> []" and "length pat \<le> length lns"
  shows "seek_sequence lns pat start True =
    (if map normalise (drop (length lns - length pat) lns) = map normalise pat
     then Some (length lns - length pat) else None)"
proof -
  let ?e = "length lns - length pat"
  have one: "seek_pass P ?e ?e = (if P ?e then Some ?e else None)" for P
    by (simp add: seek_pass_def)
  have "block_matches normalise lns pat ?e \<longleftrightarrow> map normalise (drop ?e lns) = map normalise pat"
    using assms(2) by (auto simp: block_matches_iff list_eq_iff_nth_eq)
  moreover have "block_matches normalise lns pat ?e"
    if "take (length pat) (drop ?e lns) = pat \<or> block_matches trim_end lns pat ?e \<or> block_matches trim lns pat ?e"
    using that assms(2) by (intro pass_levels) auto
  ultimately show ?thesis using assms
    by (auto simp: seek_sequence_def Let_def one or_else_def)
qed

theorem seek_sequence_eof_witness:
  "seek_sequence [lit ''a'', lit ''b''] [lit ''a''] 0 True = None"
  using seek_sequence_eof [of "[lit ''a'']" "[lit ''a'', lit ''b'']" 0]
  by (simp add: normalise_def trim_def trim_start_def trim_end_def is_whitespace_def normalise_char_def)

end
