(* ===== verification/Patch_Apply.thy ===== *)
theory Patch_Apply
  imports Patch_Parser Patch_Seek
begin

text \<open>
  The pure half of the apply-patch engine,
  \<open>xai-grok-tools/src/implementations/codex/apply_patch/apply.rs\<close>: from the text of a file and the
  chunks of an update hunk to the new text. \<open>Vec::insert\<close> panics past the end, so the operations
  that insert return an option whose \<open>None\<close> is the panic.
\<close>

section \<open>Definitions\<close>

datatype ApplyPatchError =
    Parse ParseError
  | ComputeReplacements rstr
  | Io rstr rstr "rstr option"

type_synonym replacement = "nat \<times> nat \<times> rstr list"

definition ends_blank :: "rstr list \<Rightarrow> bool" where
  "ends_blank xs \<longleftrightarrow> xs \<noteq> [] \<and> last xs = []"

definition locate_chunk :: "rstr list \<Rightarrow> UpdateFileChunk \<Rightarrow> nat \<Rightarrow> replacement option" where
  "locate_chunk original_lines chunk line_index =
     (let pattern = old_lines chunk;
          found = seek_sequence original_lines pattern line_index (is_end_of_file chunk);
          new_slice = new_lines chunk
      in if found = None \<and> ends_blank pattern
         then (let pattern = butlast pattern;
                   new_slice = (if ends_blank new_slice then butlast new_slice else new_slice)
               in map_option (\<lambda>i. (i, length pattern, new_slice))
                    (seek_sequence original_lines pattern line_index (is_end_of_file chunk)))
         else map_option (\<lambda>i. (i, length pattern, new_slice)) found)"

fun compute_loop ::
  "rstr list \<Rightarrow> rstr \<Rightarrow> UpdateFileChunk list \<Rightarrow> nat \<Rightarrow> replacement list \<Rightarrow> ApplyPatchError + replacement list" where
  "compute_loop original_lines path [] line_index acc = Ok acc"
| "compute_loop original_lines path (chunk # chunks) line_index acc =
     bind_result
       (case change_context chunk of
          None \<Rightarrow> Ok line_index
        | Some ctx_line \<Rightarrow>
            (case seek_sequence original_lines [ctx_line] line_index False of
               Some idx \<Rightarrow> Ok (idx + 1)
             | None \<Rightarrow> Err (ComputeReplacements
                 (lit ''Failed to find context '' @ quoted ctx_line @ lit '' in '' @ path))))
       (\<lambda>line_index.
          if old_lines chunk = [] then
            compute_loop original_lines path chunks line_index
              (acc @ [((if ends_blank original_lines then length original_lines - 1
                        else length original_lines), 0, new_lines chunk)])
          else case locate_chunk original_lines chunk line_index of
                 Some (start_idx, old_len, new_slice) \<Rightarrow>
                   compute_loop original_lines path chunks (start_idx + old_len)
                     (acc @ [(start_idx, old_len, new_slice)])
               | None \<Rightarrow> Err (ComputeReplacements
                   (lit ''Failed to find expected lines in '' @ path @ lit '':'' @ [10] @
                    join [10] (old_lines chunk))))"

definition compute_replacements ::
  "rstr list \<Rightarrow> rstr \<Rightarrow> UpdateFileChunk list \<Rightarrow> ApplyPatchError + replacement list" where
  "compute_replacements original_lines path chunks =
     bind_result (compute_loop original_lines path chunks 0 []) (\<lambda>rs. Ok (sort_key fst rs))"

fun remove_lines :: "nat \<Rightarrow> nat \<Rightarrow> rstr list \<Rightarrow> rstr list" where
  "remove_lines 0 start_idx lns = lns"
| "remove_lines (Suc n) start_idx lns =
     remove_lines n start_idx (if start_idx < length lns then remove_at start_idx lns else lns)"

fun insert_lines :: "rstr list \<Rightarrow> nat \<Rightarrow> rstr list \<Rightarrow> rstr list option" where
  "insert_lines [] i lns = Some lns"
| "insert_lines (x # xs) i lns =
     (if i \<le> length lns then insert_lines xs (i + 1) (insert_at i x lns) else None)"

fun apply_loop :: "replacement list \<Rightarrow> rstr list \<Rightarrow> rstr list option" where
  "apply_loop [] lns = Some lns"
| "apply_loop ((start_idx, old_len, new_segment) # rs) lns =
     Option.bind (insert_lines new_segment start_idx (remove_lines old_len start_idx lns)) (apply_loop rs)"

definition apply_replacements :: "rstr list \<Rightarrow> replacement list \<Rightarrow> rstr list option" where
  "apply_replacements lns replacements = apply_loop (rev replacements) lns"

definition derive_new_contents ::
  "rstr \<Rightarrow> rstr \<Rightarrow> UpdateFileChunk list \<Rightarrow> (ApplyPatchError + rstr) option" where
  "derive_new_contents original_content path chunks =
     (let ls = split_char 10 original_content;
          original_lines = (if ends_blank ls then butlast ls else ls)
      in case compute_replacements original_lines path chunks of
           Inl e \<Rightarrow> Some (Err e)
         | Inr replacements \<Rightarrow>
             map_option (\<lambda>new_lines.
               Ok (join [10] (if ends_blank new_lines then new_lines else new_lines @ [[]])))
               (apply_replacements original_lines replacements))"

section \<open>Applying\<close>

text \<open>The intended result: walk the file once, copying what no replacement covers.\<close>

fun splice :: "nat \<Rightarrow> replacement list \<Rightarrow> rstr list \<Rightarrow> rstr list" where
  "splice p [] lns = drop p lns"
| "splice p ((s, k, seg) # rs) lns = take (s - p) (drop p lns) @ seg @ splice (s + k) rs lns"

fun disjoint_from :: "nat \<Rightarrow> nat \<Rightarrow> replacement list \<Rightarrow> bool" where
  "disjoint_from len p [] \<longleftrightarrow> p \<le> len"
| "disjoint_from len p ((s, k, seg) # rs) \<longleftrightarrow> p \<le> s \<and> disjoint_from len (s + k) rs"

lemma remove_lines_eq: "remove_lines k s lns = take s lns @ drop (s + k) lns"
proof (induction k arbitrary: lns)
  case (Suc k)
  then show ?case by (cases "s < length lns") (simp_all add: remove_at_def min_def add.commute)
qed simp

lemma insert_lines_eq: "s \<le> length lns \<Longrightarrow> insert_lines seg s lns = Some (take s lns @ seg @ drop s lns)"
proof (induction seg arbitrary: s lns)
  case (Cons x seg)
  then have "insert_lines (x # seg) s lns =
      Some (take (Suc s) (insert_at s x lns) @ seg @ drop (Suc s) (insert_at s x lns))"
    by (simp add: insert_at_def)
  with Cons.prems show ?case by (simp add: insert_at_def min_def)
qed simp

lemma apply_one:
  "s \<le> length lns \<Longrightarrow>
     insert_lines seg s (remove_lines k s lns) = Some (take s lns @ seg @ drop (s + k) lns)"
  by (simp add: remove_lines_eq insert_lines_eq)

lemma apply_loop_append:
  "apply_loop (rs @ rs') lns = Option.bind (apply_loop rs lns) (apply_loop rs')"
  by (induction rs arbitrary: lns) (auto split: Option.bind_split)

lemma apply_loop_total:
  "sorted_wrt (\<lambda>r r'. fst r' \<le> fst r) rs \<Longrightarrow> \<forall>r\<in>set rs. fst r \<le> length lns \<Longrightarrow> \<exists>out. apply_loop rs lns = Some out"
proof (induction rs arbitrary: lns)
  case (Cons r rs)
  obtain s k seg where r: "r = (s, k, seg)" by (cases r)
  have "\<exists>out. apply_loop rs (take s lns @ seg @ drop (s + k) lns) = Some out"
    using Cons.prems by (intro Cons.IH) (auto simp: r)
  then show ?case using Cons.prems by (simp add: r apply_one)
qed simp

lemma disjoint_from_le: "disjoint_from len p rs \<Longrightarrow> p \<le> len"
  by (induction len p rs rule: disjoint_from.induct) auto

lemma apply_loop_splice:
  "disjoint_from (length lns) p rs \<Longrightarrow> apply_loop (rev rs) lns = Some (take p lns @ splice p rs lns)"
proof (induction "length lns" p rs rule: disjoint_from.induct)
  case (2 p s k seg rs)
  then have d: "p \<le> s" "disjoint_from (length lns) (s + k) rs" by auto
  have "s + k \<le> length lns" using disjoint_from_le [OF d(2)] .
  moreover have "take s lns = take p lns @ take (s - p) (drop p lns)"
    using d(1) by (metis le_add_diff_inverse take_add)
  ultimately show ?case using 2(1) [OF d(2)]
    by (simp add: apply_loop_append apply_one min_def)
qed simp

section \<open>Computing\<close>

lemma locate_bounds:
  assumes "locate_chunk lns ch li = Some (s, k, seg)" "li \<le> length lns"
  shows "s + k \<le> length lns"
  using assms seeker.seek_in_file
  by (auto simp: locate_chunk_def Let_def split: if_splits dest: seeker.seek_in_file)

lemma context_bounds:
  assumes "seek_sequence lns [c] li False = Some i"
  shows "i + 1 \<le> length lns" "li \<le> i"
  using seeker.seek_bound [OF assms] seeker.seek_after [OF assms] by simp_all

lemma compute_loop_bounds:
  assumes "compute_loop lns path chunks li acc = Ok rs" "li \<le> length lns"
    "\<forall>r\<in>set acc. fst r + fst (snd r) \<le> length lns"
  shows "\<forall>r\<in>set rs. fst r + fst (snd r) \<le> length lns"
  using assms
proof (induction lns path chunks li acc rule: compute_loop.induct)
  case (2 lns path ch chunks li acc)
  obtain li' where li': "(case change_context ch of None \<Rightarrow> Ok li | Some c \<Rightarrow>
      (case seek_sequence lns [c] li False of Some idx \<Rightarrow> Ok (idx + 1) | None \<Rightarrow> Err (ComputeReplacements
        (lit ''Failed to find context '' @ quoted c @ lit '' in '' @ path)))) = Ok li'"
    using 2(3) by auto
  then have le: "li' \<le> length lns"
    using 2(4) by (auto dest: context_bounds split: option.splits)
  show ?case
  proof (cases "old_lines ch = []")
    case True
    then show ?thesis using 2(3,5) le by (intro 2(1) [of li']) (auto simp: li')
  next
    case False
    then obtain s k seg where l: "locate_chunk lns ch li' = Some (s, k, seg)"
      using 2(3) by (auto simp: li' split: option.splits)
    have b: "s + k \<le> length lns" using l le by (rule locate_bounds)
    show ?thesis
      using 2(3,5) False b by (intro 2(2) [of li' "(s, k, seg)" s "(k, seg)" k seg]) (auto simp: li' l)
  qed
qed simp

text \<open>What it means that a replacement carries out a chunk: the replaced lines agree with the
  chunk's old lines up to normalisation, or with all but their final blank line.\<close>

definition chunk_applied :: "rstr list \<Rightarrow> UpdateFileChunk \<Rightarrow> replacement \<Rightarrow> bool" where
  "chunk_applied lns ch r =
     (case r of (s, k, seg) \<Rightarrow>
        (map normalise (take k (drop s lns)) = map normalise (old_lines ch) \<and> seg = new_lines ch) \<or>
        (ends_blank (old_lines ch) \<and>
         map normalise (take k (drop s lns)) = map normalise (butlast (old_lines ch)) \<and>
         seg = (if ends_blank (new_lines ch) then butlast (new_lines ch) else new_lines ch)))"

lemma locate_applied:
  assumes "locate_chunk lns ch li = Some r" "li \<le> length lns"
  shows "chunk_applied lns ch r"
proof -
  have blk: "map normalise (take (length pat) (drop i lns)) = map normalise pat"
    if "seek_sequence lns pat li eof = Some i" for pat i eof
  proof -
    have "list_all2 (\<lambda>l p. normalise l = normalise p) (take (length pat) (drop i lns)) pat"
      using that assms(2) by (rule seeker.seek_block)
    then show ?thesis by (induction rule: list_all2_induct) simp_all
  qed
  show ?thesis
  proof (cases "seek_sequence lns (old_lines ch) li (is_end_of_file ch)")
    case None
    then show ?thesis using assms(1) blk [of "butlast (old_lines ch)"]
      by (auto simp: locate_chunk_def chunk_applied_def Let_def split: if_splits)
  next
    case (Some i)
    then show ?thesis using assms(1) blk [OF Some]
      by (auto simp: locate_chunk_def chunk_applied_def Let_def)
  qed
qed

lemma locate_after: "locate_chunk lns ch li = Some (s, k, seg) \<Longrightarrow> \<not> is_end_of_file ch \<Longrightarrow> li \<le> s"
  by (auto simp: locate_chunk_def Let_def split: if_splits dest: seeker.seek_after)

definition in_order_chunk :: "UpdateFileChunk \<Rightarrow> bool" where
  "in_order_chunk ch \<longleftrightarrow> old_lines ch \<noteq> [] \<and> \<not> is_end_of_file ch"

lemma compute_loop_sound:
  assumes "compute_loop lns path chunks li acc = Ok rs" "li \<le> length lns" "list_all in_order_chunk chunks"
  shows "\<exists>rs'. rs = acc @ rs' \<and> list_all2 (chunk_applied lns) chunks rs' \<and> disjoint_from (length lns) li rs'"
  using assms
proof (induction lns path chunks li acc rule: compute_loop.induct)
  case (2 lns path ch chunks li acc)
  obtain li' where li': "(case change_context ch of None \<Rightarrow> Ok li | Some c \<Rightarrow>
      (case seek_sequence lns [c] li False of Some idx \<Rightarrow> Ok (idx + 1) | None \<Rightarrow> Err (ComputeReplacements
        (lit ''Failed to find context '' @ quoted c @ lit '' in '' @ path)))) = Ok li'"
    using 2(3) by auto
  then have le: "li' \<le> length lns" "li \<le> li'"
    using 2(4) by (auto dest: context_bounds split: option.splits)
  have ne: "old_lines ch \<noteq> []" "\<not> is_end_of_file ch" using 2(5) by (auto simp: in_order_chunk_def)
  then obtain s k seg where l: "locate_chunk lns ch li' = Some (s, k, seg)"
    using 2(3) by (auto simp: li' split: option.splits)
  have b: "s + k \<le> length lns" using l le(1) by (rule locate_bounds)
  have "\<exists>rs'. rs = (acc @ [(s, k, seg)]) @ rs' \<and> list_all2 (chunk_applied lns) chunks rs' \<and>
      disjoint_from (length lns) (s + k) rs'"
    using 2(3,5) ne b by (intro 2(2) [of li' "(s, k, seg)" s "(k, seg)" k seg]) (auto simp: li' l)
  then obtain rs' where rs': "rs = acc @ (s, k, seg) # rs'" "list_all2 (chunk_applied lns) chunks rs'"
    "disjoint_from (length lns) (s + k) rs'" by auto
  have "li \<le> s" using locate_after [OF l ne(2)] le(2) by simp
  then show ?case using rs' locate_applied [OF l le(1)] by auto
qed simp

lemma disjoint_from_sorted: "disjoint_from len p rs \<Longrightarrow> sorted (map fst rs) \<and> (\<forall>r\<in>set rs. p \<le> fst r)"
proof (induction len p rs rule: disjoint_from.induct)
  case (2 len p s k seg rs)
  then show ?case by fastforce
qed simp

lemma compute_replacements_bounds:
  assumes "compute_replacements lns path chunks = Ok rs"
  shows "sorted (map fst rs)" "\<forall>r\<in>set rs. fst r + fst (snd r) \<le> length lns"
  using assms by (auto simp: compute_replacements_def dest!: compute_loop_bounds)

text \<open>
  Chunks outside \<open>in_order_chunk\<close> may overlap. A pure addition is placed before a final blank line
  of the file; when a later chunk replaces a block that includes that blank line, the added line is
  removed in its stead: below, adding \<open>x\<close> and replacing \<open>a\<close>, \<open>b\<close>, blank by \<open>z\<close> yields \<open>z\<close> alone.
\<close>

definition add_x :: UpdateFileChunk where
  "add_x = \<lparr>change_context = None, old_lines = [], new_lines = [[120]], is_end_of_file = False\<rparr>"

definition replace_all :: UpdateFileChunk where
  "replace_all = \<lparr>change_context = None, old_lines = [[97], [98], []], new_lines = [[122]], is_end_of_file = False\<rparr>"

lemma overlap_drops_addition:
  "derive_new_contents [97, 10, 98, 10, 10] [] [add_x, replace_all] = Some (Ok [122, 10])"
proof -
  have "seek_sequence [[97], [98], []] [[97], [98], []] 0 False = Some 0"
    by (rule seek_exact_at) simp_all
  then have "compute_replacements [[97], [98], []] [] [add_x, replace_all] = Ok [(0, 3, [[122]]), (2, 0, [[120]])]"
    by (simp add: compute_replacements_def add_x_def replace_all_def locate_chunk_def ends_blank_def Let_def)
  moreover have "apply_replacements [[97], [98], []] [(0, 3, [[122]]), (2, 0, [[120]])] = Some [[122], []]"
    by (simp add: apply_replacements_def insert_at_def numeral_3_eq_3 numeral_2_eq_2)
  ultimately show ?thesis by (simp add: derive_new_contents_def ends_blank_def Let_def)
qed

section \<open>Properties\<close>

text \<open>
  applying an update never panics. Whatever the file, the path and the chunks, the engine
  returns the new text or an error; in particular overlapping and out-of-order chunks cannot make
  an insertion fall past the end of the lines.
\<close>

lemma derive_new_contents_total: "\<exists>r. derive_new_contents content path chunks = Some r"
proof -
  have "\<exists>out. apply_replacements lns rs = Some out" if "compute_replacements lns path chunks = Ok rs" for lns rs
    unfolding apply_replacements_def
  proof (rule apply_loop_total)
    show "sorted_wrt (\<lambda>r r'. fst r' \<le> fst r) (rev rs)"
      using compute_replacements_bounds(1) [OF that] by (simp add: sorted_wrt_rev sorted_map)
    show "\<forall>r\<in>set (rev rs). fst r \<le> length lns"
      using compute_replacements_bounds(2) [OF that] by auto
  qed
  then show ?thesis by (auto simp: derive_new_contents_def Let_def split: sum.split)
qed

text \<open>
  replacements computed for chunks with old lines and no end-of-file mark are sound: one per
  chunk, in the chunks' order, each covering lines that agree with the chunk's old lines up to
  normalisation, inside the file and not overlapping.
\<close>

lemma compute_replacements_sound:
  assumes "compute_replacements lns path chunks = Ok rs" and "list_all in_order_chunk chunks"
  shows "list_all2 (chunk_applied lns) chunks rs \<and> disjoint_from (length lns) 0 rs"
proof -
  obtain rs' where rs': "compute_loop lns path chunks 0 [] = Ok rs'" "rs = sort_key fst rs'"
    using assms(1) by (auto simp: compute_replacements_def)
  from compute_loop_sound [OF rs'(1) _ assms(2)]
  have s: "list_all2 (chunk_applied lns) chunks rs'" "disjoint_from (length lns) 0 rs'" by auto
  then have "sort_key fst rs' = rs'" using disjoint_from_sorted by (auto intro: sort_key_id_if_sorted)
  with s rs'(2) show ?thesis by simp
qed

definition sample_chunk :: UpdateFileChunk where
  "sample_chunk = \<lparr>change_context = None, old_lines = [[98]], new_lines = [[99]], is_end_of_file = False\<rparr>"

lemma sample_compute: "compute_replacements [[97], [98]] [] [sample_chunk] = Ok [(1, 1, [[99]])]"
proof -
  have "seek_sequence [[97], [98]] [[98]] 0 False = Some 1"
    by (simp add: seek_sequence_def seek_pass_def or_else_def)
  then show ?thesis
    by (simp add: compute_replacements_def sample_chunk_def locate_chunk_def Let_def)
qed

theorem compute_replacements_sound_witness:
  "chunk_applied [[97], [98]] sample_chunk (1, 1, [[99]]) \<and> disjoint_from 2 0 [(1, 1, [[99]])]"
  using compute_replacements_sound [OF sample_compute]
  by (simp add: in_order_chunk_def sample_chunk_def)

text \<open>
  C34: applying replacements from the last to the first is the single left-to-right splice of the
  file: what no replacement covers is kept, in order, and each covered range becomes its new lines.
\<close>

theorem apply_replacements_splice:
  assumes "disjoint_from (length lns) 0 rs"
  shows "apply_replacements lns rs = Some (splice 0 rs lns)"
  using apply_loop_splice [OF assms] by (simp add: apply_replacements_def)

theorem apply_replacements_splice_witness:
  "apply_replacements [[97], [98], [99]] [(0, 1, [[120], [121]]), (2, 0, [[122]])] =
     Some [[120], [121], [98], [122], [99]]"
  using apply_replacements_splice [of "[[97], [98], [99]]" "[(0, 1, [[120], [121]]), (2, 0, [[122]])]"]
  by simp

text \<open>
  a chunk whose old lines occur in the file is applied. With no context line and no end-of-file
  mark, the first exact occurrence of the old lines is replaced and everything around it is kept;
  the result always ends in a line feed.
\<close>

lemma derive_single_chunk:
  assumes "old_lines ch \<noteq> []" and "change_context ch = None" and "\<not> is_end_of_file ch"
    and "split_char 10 content = pre @ old_lines ch @ post @ [[]]"
    and "\<forall>m<length pre. take (length (old_lines ch)) (drop m (pre @ old_lines ch @ post)) \<noteq> old_lines ch"
  shows "derive_new_contents content path [ch] =
    Some (Ok (join [10] (let ls = pre @ new_lines ch @ post in if ends_blank ls then ls else ls @ [[]])))"
proof -
  let ?o = "old_lines ch" and ?ls = "pre @ old_lines ch @ post"
  have "seek_sequence ?ls ?o 0 False = Some (length pre)"
    using assms(1,5) by (intro seek_exact_at) simp_all
  then have "compute_replacements ?ls path [ch] = Ok [(length pre, length ?o, new_lines ch)]"
    using assms(1,2,3) by (simp add: compute_replacements_def locate_chunk_def Let_def)
  moreover have "apply_replacements ?ls [(length pre, length ?o, new_lines ch)] = Some (pre @ new_lines ch @ post)"
    by (simp add: apply_replacements_def apply_one)
  ultimately show ?thesis
    by (simp add: derive_new_contents_def assms(4) ends_blank_def Let_def butlast_append)
qed

theorem derive_single_chunk_witness:
  "derive_new_contents [97, 10, 98, 10] [] [sample_chunk] = Some (Ok [97, 10, 99, 10])"
  using derive_single_chunk [of sample_chunk "[97, 10, 98, 10]" "[[97]]" "[]" "[]"]
  by (simp add: sample_chunk_def ends_blank_def)

end
