(* ===== verification/Utf8.thy ===== *)
theory Utf8
  imports Prelude
begin

text \<open>
  Decoding of bytes to text as \<open>String::from_utf8_lossy\<close> does it: every maximal invalid part becomes one
  replacement character. Bytes that encode text are decoded to that text.
\<close>

section \<open>Decoding\<close>

definition is_scalar :: "uchar \<Rightarrow> bool" where
  "is_scalar c \<longleftrightarrow> c < 55296 \<or> 57344 \<le> c \<and> c < 1114112"

definition REPLACEMENT :: uchar where "REPLACEMENT = 65533"

definition in_range :: "nat \<Rightarrow> nat \<Rightarrow> nat \<Rightarrow> bool" where
  "in_range lo hi b \<longleftrightarrow> lo \<le> b \<and> b \<le> hi"

text \<open>The bytes that may follow a lead byte: overlong forms, surrogates and values past the last code
  point are excluded by the second byte.\<close>

definition second_ok :: "nat \<Rightarrow> nat \<Rightarrow> bool" where
  "second_ok b x =
     (if b = 224 then in_range 160 191 x
      else if b = 237 then in_range 128 159 x
      else if b = 240 then in_range 144 191 x
      else if b = 244 then in_range 128 143 x
      else in_range 128 191 x)"

definition cont_at :: "nat list \<Rightarrow> nat \<Rightarrow> bool" where
  "cont_at bs i \<longleftrightarrow> i < length bs \<and> in_range 128 191 (bs ! i)"

text \<open>The first character of a non-empty byte string and the number of bytes it takes.\<close>

definition utf8_step :: "nat \<Rightarrow> nat list \<Rightarrow> uchar \<times> nat" where
  "utf8_step b rest =
     (if b < 128 then (b, 1)
      else if in_range 194 223 b then
        (if cont_at rest 0 then ((b - 192) * 64 + (rest ! 0 - 128), 2) else (REPLACEMENT, 1))
      else if in_range 224 239 b then
        (if rest = [] \<or> \<not> second_ok b (rest ! 0) then (REPLACEMENT, 1)
         else if \<not> cont_at rest 1 then (REPLACEMENT, 2)
         else ((b - 224) * 4096 + (rest ! 0 - 128) * 64 + (rest ! 1 - 128), 3))
      else if in_range 240 244 b then
        (if rest = [] \<or> \<not> second_ok b (rest ! 0) then (REPLACEMENT, 1)
         else if \<not> cont_at rest 1 then (REPLACEMENT, 2)
         else if \<not> cont_at rest 2 then (REPLACEMENT, 3)
         else ((b - 240) * 262144 + (rest ! 0 - 128) * 4096 + (rest ! 1 - 128) * 64 + (rest ! 2 - 128), 4))
      else (REPLACEMENT, 1))"

function from_utf8_lossy :: "nat list \<Rightarrow> rstr" where
  "from_utf8_lossy [] = []"
| "from_utf8_lossy (b # rest) =
     (case utf8_step b rest of (c, n) \<Rightarrow> c # from_utf8_lossy (drop (n - 1) rest))"
  by pat_completeness auto
termination
  by (relation "measure length") auto

section \<open>Text survives\<close>

lemma div64_split: "c div 64 = c div 4096 * 64 + c div 64 mod 64" for c :: nat
proof -
  have "c div 4096 = c div 64 div 64" by (simp add: div_mult2_eq[symmetric])
  then show ?thesis by simp
qed

lemma div4096_split: "c div 4096 = c div 262144 * 64 + c div 4096 mod 64" for c :: nat
proof -
  have "c div 262144 = c div 4096 div 64" by (simp add: div_mult2_eq[symmetric])
  then show ?thesis by simp
qed

lemma three_bytes: "c div 4096 * 4096 + c div 64 mod 64 * 64 + c mod 64 = c" for c :: nat
proof -
  have "(c div 4096 * 64 + c div 64 mod 64) * 64 + c mod 64 = c" by (simp flip: div64_split)
  then show ?thesis by (simp add: algebra_simps)
qed

lemma four_bytes: "c div 262144 * 262144 + c div 4096 mod 64 * 4096 + c div 64 mod 64 * 64 + c mod 64 = c" for c :: nat
proof -
  have "(c div 262144 * 64 + c div 4096 mod 64) * 4096 + c div 64 mod 64 * 64 + c mod 64 = c"
    using three_bytes[of c] by (simp flip: div4096_split)
  then show ?thesis by (simp add: algebra_simps)
qed

lemma mod64_range: "in_range 128 191 (128 + m mod 64)" for m :: nat
proof -
  have "m mod 64 < 64" by simp
  then show ?thesis by (simp add: in_range_def)
qed

lemma second_ok_three:
  assumes "2048 \<le> c" "c < 65536" "is_scalar c"
  shows "second_ok (224 + c div 4096) (128 + c div 64 mod 64)"
proof -
  note sub = div64_split[of c]
  have lead: "c div 4096 < 16" using assms by (simp add: div_less_iff_less_mult)
  have low: "32 \<le> c div 64" using assms by simp
  have "c div 64 mod 64 < 32" if "c div 4096 = 13"
  proof -
    from that have "c < 14 * 4096" using div_less_iff_less_mult[of 4096 c 14] by simp
    then have "c < 57344" by simp
    with assms(3) have "c div 64 < 864" by (auto simp: is_scalar_def)
    with sub that show ?thesis by linarith
  qed
  moreover have "32 \<le> c div 64 mod 64" if "c div 4096 = 0" using sub that low by linarith
  moreover have "c div 64 mod 64 < 64" by simp
  ultimately show ?thesis using lead by (auto simp: second_ok_def in_range_def)
qed

lemma second_ok_four:
  assumes "65536 \<le> c" "c < 1114112"
  shows "second_ok (240 + c div 262144) (128 + c div 4096 mod 64)"
proof -
  note sub = div4096_split[of c]
  have bounds: "16 \<le> c div 4096" "c div 4096 < 272" using assms by simp_all
  then have "c div 262144 \<le> 4" using sub by linarith
  moreover have "16 \<le> c div 4096 mod 64" if "c div 262144 = 0" using sub that bounds by linarith
  moreover have "c div 4096 mod 64 < 16" if "c div 262144 = 4" using sub that bounds by linarith
  moreover have "c div 4096 mod 64 < 64" by simp
  ultimately show ?thesis by (auto simp: second_ok_def in_range_def)
qed

lemma utf8_step_char:
  assumes "is_scalar c"
  obtains b rest where "utf8_char c = b # rest" "utf8_step b (rest @ bs) = (c, Suc (length rest))"
proof -
  consider "c < 128" | "128 \<le> c" "c < 2048" | "2048 \<le> c" "c < 65536" | "65536 \<le> c" by linarith
  then show ?thesis
  proof cases
    case 1
    then show ?thesis by (intro that[of c "[]"]) (simp_all add: utf8_char_def utf8_step_def)
  next
    case 2
    then have "2 \<le> c div 64" "c div 64 \<le> 31" by (simp_all add: div_le_mono[of 128 c 64, simplified] div_le_mono[of c 2047 64, simplified])
    with 2 show ?thesis
      by (intro that[of "192 + c div 64" "[128 + c mod 64]"])
        (simp_all add: utf8_char_def utf8_step_def in_range_def cont_at_def mod64_range[unfolded in_range_def, simplified])
  next
    case 3
    have "c div 4096 < 16" using 3 by (simp add: div_less_iff_less_mult)
    with 3 second_ok_three[OF 3 assms] mod64_range[of c] three_bytes[of c] show ?thesis
      by (intro that[of "224 + c div 4096" "[128 + c div 64 mod 64, 128 + c mod 64]"])
        (simp_all add: utf8_char_def utf8_step_def in_range_def cont_at_def)
  next
    case 4
    then have top: "c < 1114112" using assms by (auto simp: is_scalar_def)
    have "c div 262144 \<le> 4" using div_le_mono[of c 1114111 262144] top by simp
    with 4 top second_ok_four[OF 4 top] mod64_range[of c] mod64_range[of "c div 64"] four_bytes[of c] show ?thesis
      by (intro that[of "240 + c div 262144" "[128 + c div 4096 mod 64, 128 + c div 64 mod 64, 128 + c mod 64]"])
        (simp_all add: utf8_char_def utf8_step_def in_range_def cont_at_def)
  qed
qed

lemma from_utf8_lossy_text: "list_all is_scalar s \<Longrightarrow> from_utf8_lossy (str_bytes s) = s"
proof (induction s)
  case (Cons c s)
  then obtain b rest where "utf8_char c = b # rest" "utf8_step b (rest @ str_bytes s) = (c, Suc (length rest))"
    using utf8_step_char[of c "str_bytes s"] by auto
  with Cons show ?case by simp
qed simp

end
