(* ===== verification/Unix_Path.thy ===== *)
theory Unix_Path
  imports Prelude
begin

text \<open>
  Paths as \<open>std::path\<close> reads them on Unix, and \<open>normalize_lexically\<close> of \<open>xai-grok-paths\<close>. A path is
  its sequence of components: repeated separators and inner \<open>.\<close> disappear, a leading \<open>.\<close> stays.
\<close>

datatype Component = RootDir | CurDir | ParentDir | Normal rstr

definition component_of :: "rstr \<Rightarrow> Component" where
  "component_of w = (if w = [46] then CurDir else if w = [46, 46] then ParentDir else Normal w)"

definition is_absolute :: "rstr \<Rightarrow> bool" where
  "is_absolute s \<longleftrightarrow> prefix [47] s"

definition components :: "rstr \<Rightarrow> Component list" where
  "components s =
     (let ws = filter (\<lambda>w. w \<noteq> []) (split_char 47 s);
          inner = map component_of (filter (\<lambda>w. w \<noteq> [46]) ws)
      in if is_absolute s then RootDir # inner
         else if ws \<noteq> [] \<and> hd ws = [46] then CurDir # inner
         else inner)"

definition component_text :: "Component \<Rightarrow> rstr" where
  "component_text c = (case c of RootDir \<Rightarrow> [] | CurDir \<Rightarrow> [46] | ParentDir \<Rightarrow> [46, 46] | Normal w \<Rightarrow> w)"

text \<open>Collecting components into a \<open>PathBuf\<close>.\<close>

definition path_text :: "Component list \<Rightarrow> rstr" where
  "path_text cs =
     (case cs of
        RootDir # rest \<Rightarrow> 47 # join [47] (map component_text rest)
      | _ \<Rightarrow> join [47] (map component_text cs))"

definition path_join :: "rstr \<Rightarrow> rstr \<Rightarrow> rstr" where
  "path_join base p =
     (if is_absolute p then p
      else if base = [] \<or> last base = 47 then base @ p
      else base @ 47 # p)"

fun normalize_loop_path :: "Component list \<Rightarrow> Component list \<Rightarrow> Component list" where
  "normalize_loop_path acc [] = acc"
| "normalize_loop_path acc (c # cs) =
     (case c of
        CurDir \<Rightarrow> normalize_loop_path acc cs
      | ParentDir \<Rightarrow>
          (if acc = [] then normalize_loop_path [ParentDir] cs
           else case last acc of
                  Normal _ \<Rightarrow> normalize_loop_path (butlast acc) cs
                | RootDir \<Rightarrow> normalize_loop_path acc cs
                | _ \<Rightarrow> normalize_loop_path (acc @ [ParentDir]) cs)
      | _ \<Rightarrow> normalize_loop_path (acc @ [c]) cs)"

definition normalize_lexically :: "Component list \<Rightarrow> Component list" where
  "normalize_lexically cs =
     (let out = normalize_loop_path [] cs in if out = [] then [CurDir] else out)"

section \<open>Normal forms\<close>

text \<open>A normalised path: an absolute one has no \<open>..\<close> at all, a relative one only in front.\<close>

definition lexically_normal :: "Component list \<Rightarrow> bool" where
  "lexically_normal cs \<longleftrightarrow>
     (\<exists>n ws. cs = replicate n ParentDir @ map Normal ws) \<or> (\<exists>ws. cs = RootDir # map Normal ws)"

text \<open>What \<open>components\<close> yields: a root only in front.\<close>

definition wf_components :: "Component list \<Rightarrow> bool" where
  "wf_components cs \<longleftrightarrow> RootDir \<notin> set (tl cs)"

lemma component_of_not_root: "component_of w \<noteq> RootDir"
  by (simp add: component_of_def)

lemma components_wf: "wf_components (components s)"
proof -
  define inner where
    "inner = map component_of (filter (\<lambda>w. w \<noteq> [46]) (filter (\<lambda>w. w \<noteq> []) (split_char 47 s)))"
  have "RootDir \<notin> set inner" unfolding inner_def using component_of_not_root by (metis ex_map_conv)
  moreover from this have "RootDir \<notin> set (tl inner)" by (metis list.set_sel(2) list.sel(2))
  moreover have "components s \<in> {RootDir # inner, CurDir # inner, inner}"
    by (simp add: components_def inner_def Let_def)
  ultimately show ?thesis by (auto simp: wf_components_def)
qed

lemma lexically_normal_snoc:
  assumes "lexically_normal acc" and "c \<noteq> RootDir" and "c \<noteq> CurDir" and "c = ParentDir \<Longrightarrow> \<exists>n. acc = replicate n ParentDir"
  shows "lexically_normal (acc @ [c])"
proof (cases c)
  case ParentDir
  then obtain n where "acc = replicate n ParentDir" using assms(4) by blast
  then have "acc @ [c] = replicate (Suc n) ParentDir @ map Normal []" using ParentDir by (simp add: replicate_append_same)
  then show ?thesis unfolding lexically_normal_def by blast
next
  case (Normal w)
  from assms(1) consider n ws where "acc = replicate n ParentDir @ map Normal ws" | ws where "acc = RootDir # map Normal ws"
    by (auto simp: lexically_normal_def)
  then show ?thesis
  proof cases
    case 1
    then have "acc @ [c] = replicate n ParentDir @ map Normal (ws @ [w])" using Normal by simp
    then show ?thesis unfolding lexically_normal_def by blast
  next
    case 2
    then have "acc @ [c] = RootDir # map Normal (ws @ [w])" using Normal by simp
    then show ?thesis unfolding lexically_normal_def by blast
  qed
qed (use assms in auto)

lemma lexically_normal_last:
  assumes "lexically_normal acc" and "acc \<noteq> []"
  shows "(\<exists>w. last acc = Normal w \<and> lexically_normal (butlast acc)) \<or> acc = [RootDir] \<or>
    (\<exists>n. acc = replicate n ParentDir \<and> last acc = ParentDir)"
proof -
  from assms(1) consider n ws where "acc = replicate n ParentDir @ map Normal ws" | ws where "acc = RootDir # map Normal ws"
    by (auto simp: lexically_normal_def)
  then show ?thesis
  proof cases
    case 1
    show ?thesis
    proof (cases ws rule: rev_cases)
      case Nil
      with 1 assms(2) have "acc = replicate n ParentDir" "n \<noteq> 0" by auto
      then show ?thesis by auto
    next
      case (snoc vs v)
      with 1 have "butlast acc = replicate n ParentDir @ map Normal vs" "last acc = Normal v"
        by (simp_all add: butlast_append)
      then show ?thesis unfolding lexically_normal_def by blast
    qed
  next
    case 2
    show ?thesis
    proof (cases ws rule: rev_cases)
      case (snoc vs v)
      with 2 have "butlast acc = RootDir # map Normal vs" "last acc = Normal v" by (simp_all add: butlast_append)
      then show ?thesis unfolding lexically_normal_def by blast
    qed (use 2 in simp)
  qed
qed

lemma normalize_loop_normal:
  "lexically_normal acc \<Longrightarrow> RootDir \<notin> set cs \<Longrightarrow> lexically_normal (normalize_loop_path acc cs)"
proof (induction cs arbitrary: acc)
  case (Cons c cs)
  show ?case
  proof (cases c)
    case ParentDir
    show ?thesis
    proof (cases "acc = []")
      case True
      have "lexically_normal [ParentDir]"
        using lexically_normal_snoc [of "[]" ParentDir] by (auto simp: lexically_normal_def intro: exI [of _ 0])
      with True ParentDir Cons show ?thesis by simp
    next
      case False
      from lexically_normal_last [OF Cons.prems(1) False] show ?thesis
        using Cons ParentDir False lexically_normal_snoc [of acc ParentDir] by auto
    qed
  next
    case (Normal w)
    then show ?thesis using Cons lexically_normal_snoc [of acc c] by simp
  qed (use Cons in auto)
qed simp

lemma lexically_normal_start: "lexically_normal []" "lexically_normal [RootDir]"
  by (auto simp: lexically_normal_def intro: exI [of _ 0])

lemma normalize_lexically_normal:
  assumes "wf_components cs"
  shows "lexically_normal (normalize_loop_path [] cs)"
proof (cases cs)
  case (Cons c rest)
  with assms have rest: "RootDir \<notin> set rest" by (simp add: wf_components_def)
  show ?thesis
  proof (cases "c = RootDir")
    case True
    then show ?thesis using Cons normalize_loop_normal [OF lexically_normal_start(2) rest] by simp
  next
    case False
    then show ?thesis using Cons rest normalize_loop_normal [OF lexically_normal_start(1), of cs] by auto
  qed
qed (simp add: lexically_normal_start)

section \<open>Text and components\<close>

text \<open>A component that can stand in a path: a name without a separator that is not \<open>.\<close> or \<open>..\<close>.\<close>

definition plain_name :: "rstr \<Rightarrow> bool" where
  "plain_name w \<longleftrightarrow> w \<noteq> [] \<and> 47 \<notin> set w \<and> w \<noteq> [46] \<and> w \<noteq> [46, 46]"

definition plain_component :: "Component \<Rightarrow> bool" where
  "plain_component c = (case c of Normal w \<Rightarrow> plain_name w | _ \<Rightarrow> True)"

lemma components_plain: "c \<in> set (components s) \<Longrightarrow> plain_component c"
  by (auto simp: components_def Let_def component_of_def plain_component_def plain_name_def
      dest: split_char_pieces split: if_splits)

lemma normalize_loop_set: "set (normalize_loop_path acc cs) \<subseteq> set acc \<union> set cs \<union> {ParentDir}"
proof (induction cs arbitrary: acc)
  case (Cons c cs)
  have "set (butlast acc) \<subseteq> set acc" by (auto dest: in_set_butlastD)
  then show ?case
    using Cons [of acc] Cons [of "acc @ [c]"] Cons [of "[ParentDir]"] Cons [of "acc @ [ParentDir]"] Cons [of "butlast acc"]
    by (cases c; cases "acc = []"; cases "last acc") (simp_all; blast)+
qed auto

lemma normalize_absolute:
  assumes "is_absolute s"
  shows "\<exists>ws. normalize_lexically (components s) = RootDir # map Normal ws \<and> list_all plain_name ws"
proof -
  obtain cs where cs: "components s = RootDir # cs" using assms by (auto simp: components_def Let_def)
  then have root: "RootDir \<notin> set cs" using components_wf [of s] by (simp add: wf_components_def)
  define out where "out = normalize_loop_path [RootDir] cs"
  have keeps: "\<exists>rest. normalize_loop_path (RootDir # acc) ds = RootDir # rest" for acc ds
  proof (induction ds arbitrary: acc)
    case (Cons d ds)
    show ?case
      using Cons [of acc] Cons [of "acc @ [d]"] Cons [of "butlast acc"] Cons [of "acc @ [ParentDir]"]
      by (cases d; cases "acc = []"; cases "last acc") simp_all
  qed simp
  obtain rest where rest: "out = RootDir # rest" using keeps [of "[]" cs] by (auto simp: out_def)
  have "lexically_normal out" unfolding out_def by (rule normalize_loop_normal [OF lexically_normal_start(2) root])
  moreover have "out \<noteq> replicate n ParentDir @ map Normal ws" for n ws by (cases n; cases ws) (simp_all add: rest)
  ultimately obtain ws where ws: "out = RootDir # map Normal ws" by (auto simp: lexically_normal_def)
  have "plain_component c" if "c \<in> set out" for c
    using that normalize_loop_set [of "[RootDir]" cs] components_plain [of c s]
    by (auto simp: out_def cs plain_component_def)
  then have "list_all plain_name ws" by (force simp: ws list_all_iff plain_component_def)
  with ws show ?thesis by (auto simp: normalize_lexically_def cs out_def)
qed

lemma path_text_root: "path_text (RootDir # map Normal ws) = 47 # join [47] ws"
  by (simp add: path_text_def component_text_def comp_def)

lemma components_path_text:
  assumes "list_all plain_name ws"
  shows "components (path_text (RootDir # map Normal ws)) = RootDir # map Normal ws"
proof (cases "ws = []")
  case False
  then have "split_char 47 (join [47] ws) = ws"
    using assms by (intro split_char_join) (auto simp: list_all_iff plain_name_def)
  moreover have "filter (\<lambda>w. w \<noteq> []) ws = ws" "filter (\<lambda>w. w \<noteq> [46]) ws = ws"
    using assms by (auto simp: list_all_iff plain_name_def filter_id_conv)
  moreover have "map component_of ws = map Normal ws"
    using assms by (auto simp: list_all_iff plain_name_def component_of_def)
  ultimately show ?thesis unfolding path_text_root by (simp add: components_def is_absolute_def)
qed (simp add: path_text_def components_def is_absolute_def)

lemma path_join_absolute: "is_absolute c \<Longrightarrow> is_absolute (path_join c p)"
  by (auto simp: is_absolute_def path_join_def)

end
