(* ===== verification/File_System.thy ===== *)
theory File_System
  imports Utf8 Unix_Path
begin

text \<open>
  The file-system service the tools write through: the trait \<open>AsyncFileSystem\<close> of
  \<open>xai-grok-tools/src/computer/types.rs\<close> as a record of functions over a state, with its two implementations
  \<open>LocalFs\<close> (\<open>computer/local/file_system.rs\<close>, over the operating system) and \<open>MockFs\<close> (\<open>mock_fs.rs\<close>, in memory).
  What a caller may rely on is the interface \<open>async_file_system\<close>; the calls of the operating system have the
  interface \<open>os_disk\<close>. Files are named by the components of their path, so there are no links; logging of
  sandbox violations is left out.
\<close>

section \<open>The service\<close>

type_synonym bytes = "nat list"

type_synonym files = "Component list \<rightharpoonup> bytes"

datatype ErrorKind = NotFound | PermissionDenied | UnsupportedKind | OtherKind

record IoError =
  io_message :: rstr
  io_kind :: ErrorKind
  raw_os_error :: "int option"

datatype ComputerError = IOError rstr "ErrorKind option" | CommandNotQuoted

definition ComputerError_io :: "rstr \<Rightarrow> ComputerError" where
  "ComputerError_io msg = IOError msg None"

definition io_with_kind :: "rstr \<Rightarrow> ErrorKind \<Rightarrow> ComputerError" where
  "io_with_kind msg k = IOError msg (Some k)"

definition io_error_kind :: "ComputerError \<Rightarrow> ErrorKind option" where
  "io_error_kind e = (case e of IOError _ k \<Rightarrow> k | CommandNotQuoted \<Rightarrow> None)"

definition ComputerError_from :: "IoError \<Rightarrow> ComputerError" where
  "ComputerError_from e = IOError (io_message e) (Some (io_kind e))"

definition ComputerError_fmt :: "ComputerError \<Rightarrow> rstr" where
  "ComputerError_fmt e = (case e of IOError m _ \<Rightarrow> lit ''IO Error: '' @ m | CommandNotQuoted \<Rightarrow> lit ''UnQuoted command'')"

record 's AsyncFileSystem =
  read_file :: "'s \<Rightarrow> rstr \<Rightarrow> ComputerError + bytes"
  write_file :: "'s \<Rightarrow> rstr \<Rightarrow> bytes \<Rightarrow> (ComputerError + unit) \<times> 's"
  delete_file :: "'s \<Rightarrow> rstr \<Rightarrow> (ComputerError + unit) \<times> 's"
  file_exists :: "'s \<Rightarrow> rstr \<Rightarrow> ComputerError + bool"

definition file_exists_default :: "'s \<Rightarrow> rstr \<Rightarrow> ComputerError + bool" where
  "file_exists_default s p = Err (io_with_kind (lit ''file_exists is not supported by this backend'') UnsupportedKind)"

text \<open>\<open>Path::parent\<close>: none for the root and the empty path.\<close>

definition path_parent :: "rstr \<Rightarrow> rstr option" where
  "path_parent p =
     (case components p of [] \<Rightarrow> None | [RootDir] \<Rightarrow> None | cs \<Rightarrow> Some (path_text (butlast cs)))"

section \<open>In memory\<close>

definition MockFs :: "files AsyncFileSystem" where
  "MockFs =
     \<lparr> read_file = (\<lambda>fs p. case fs (components p) of
         Some b \<Rightarrow> Ok b
       | None \<Rightarrow> Err (IOError (lit ''File not found: '' @ p) (Some NotFound))),
       write_file = (\<lambda>fs p d. (Ok (), fs(components p \<mapsto> d))),
       delete_file = (\<lambda>fs p. (Ok (), fs(components p := None))),
       file_exists = (\<lambda>fs p. Ok (fs (components p) \<noteq> None)) \<rparr>"

section \<open>On the local machine\<close>

text \<open>The calls of the operating system that \<open>LocalFs\<close> makes through \<open>tokio::fs\<close>.\<close>

record 's os =
  os_read :: "'s \<Rightarrow> rstr \<Rightarrow> IoError + bytes"
  os_create_dir_all :: "'s \<Rightarrow> rstr \<Rightarrow> (IoError + unit) \<times> 's"
  os_write :: "'s \<Rightarrow> rstr \<Rightarrow> bytes \<Rightarrow> (IoError + unit) \<times> 's"
  os_remove_file :: "'s \<Rightarrow> rstr \<Rightarrow> (IoError + unit) \<times> 's"
  os_is_file :: "'s \<Rightarrow> rstr \<Rightarrow> IoError + bool"

definition WRITE_RETRY_DELAYS :: "nat list" where
  "WRITE_RETRY_DELAYS = [25, 50, 100, 200, 400]"

definition is_windows_transient_write_lock_raw_os_error :: "int option \<Rightarrow> bool" where
  "is_windows_transient_write_lock_raw_os_error e \<longleftrightarrow> e = Some 32 \<or> e = Some 33"

definition is_transient_write_lock_error :: "bool \<Rightarrow> IoError \<Rightarrow> bool" where
  "is_transient_write_lock_error windows e \<longleftrightarrow>
     windows \<and> is_windows_transient_write_lock_raw_os_error (raw_os_error e)"

text \<open>The retry loop; besides the result it gives the delays slept.\<close>

function write_file_with_retry_hooks ::
  "('s \<Rightarrow> (IoError + unit) \<times> 's) \<Rightarrow> (IoError \<Rightarrow> bool) \<Rightarrow> nat \<Rightarrow> 's \<Rightarrow> (IoError + unit) \<times> 's \<times> nat list" where
  "write_file_with_retry_hooks write is_retryable retry_count s =
     (case write s of
        (Inr u, s') \<Rightarrow> (Ok (), s', [])
      | (Inl e, s') \<Rightarrow>
          if is_retryable e \<and> retry_count < length WRITE_RETRY_DELAYS then
            (case write_file_with_retry_hooks write is_retryable (retry_count + 1) s' of
               (r, s'', slept) \<Rightarrow> (r, s'', WRITE_RETRY_DELAYS ! retry_count # slept))
          else (Err e, s', []))"
  by pat_completeness auto
termination
  by (relation "measure (\<lambda>(_, _, n, _). length WRITE_RETRY_DELAYS - n)") auto

declare write_file_with_retry_hooks.simps [simp del]

definition write_file_with_transient_lock_retries ::
  "bool \<Rightarrow> 's os \<Rightarrow> 's \<Rightarrow> rstr \<Rightarrow> bytes \<Rightarrow> (IoError + unit) \<times> 's" where
  "write_file_with_transient_lock_retries windows D s p d =
     (case write_file_with_retry_hooks (\<lambda>t. os_write D t p d) (is_transient_write_lock_error windows) 0 s of
        (r, s', _) \<Rightarrow> (r, s'))"

definition lift_io :: "(IoError + 'a) \<Rightarrow> ComputerError + 'a" where
  "lift_io r = (case r of Inl e \<Rightarrow> Err (ComputerError_from e) | Inr a \<Rightarrow> Ok a)"

definition LocalFs_write_file :: "bool \<Rightarrow> 's os \<Rightarrow> 's \<Rightarrow> rstr \<Rightarrow> bytes \<Rightarrow> (ComputerError + unit) \<times> 's" where
  "LocalFs_write_file windows D s p d =
     (case (case path_parent p of Some dir \<Rightarrow> os_create_dir_all D s dir | None \<Rightarrow> (Ok (), s)) of
        (Inl e, s1) \<Rightarrow> (Err (ComputerError_from e), s1)
      | (Inr u, s1) \<Rightarrow> apfst lift_io (write_file_with_transient_lock_retries windows D s1 p d))"

definition LocalFs :: "bool \<Rightarrow> 's os \<Rightarrow> 's AsyncFileSystem" where
  "LocalFs windows D =
     \<lparr> read_file = (\<lambda>s p. lift_io (os_read D s p)),
       write_file = LocalFs_write_file windows D,
       delete_file = (\<lambda>s p. apfst lift_io (os_remove_file D s p)),
       file_exists = (\<lambda>s p. case os_is_file D s p of
         Inr b \<Rightarrow> Ok b
       | Inl e \<Rightarrow> if io_kind e = NotFound then Ok False else Err (ComputerError_from e)) \<rparr>"

section \<open>Contracts\<close>

text \<open>A failed write may leave the file it was about in any state, and no other file.\<close>

locale async_file_system =
  fixes F :: "'s AsyncFileSystem"
    and stored :: "'s \<Rightarrow> files"
  assumes read_ok: "read_file F s p = Ok b \<Longrightarrow> stored s (components p) = Some b"
    and write_ok: "write_file F s p d = (Ok u, s') \<Longrightarrow> stored s' = (stored s)(components p \<mapsto> d)"
    and write_err: "write_file F s p d = (Err e, s') \<Longrightarrow> q \<noteq> components p \<Longrightarrow> stored s' q = stored s q"
    and delete_ok: "delete_file F s p = (Ok u, s') \<Longrightarrow> stored s' = (stored s)(components p := None)"
    and delete_err: "delete_file F s p = (Err e, s') \<Longrightarrow> stored s' = stored s"
begin

lemma write_elsewhere: "write_file F s p d = (r, s') \<Longrightarrow> q \<noteq> components p \<Longrightarrow> stored s' q = stored s q"
  using write_ok[of s p d] write_err[of s p d] by (cases r) (auto simp: fun_upd_def)

lemma delete_elsewhere: "delete_file F s p = (r, s') \<Longrightarrow> q \<noteq> components p \<Longrightarrow> stored s' q = stored s q"
  using delete_ok[of s p] delete_err[of s p] by (cases r) (auto simp: fun_upd_def)

end

locale os_disk =
  fixes D :: "'s os"
    and stored :: "'s \<Rightarrow> files"
  assumes os_read_ok: "os_read D s p = Ok b \<Longrightarrow> stored s (components p) = Some b"
    and os_mkdir: "os_create_dir_all D s p = (r, s') \<Longrightarrow> stored s' = stored s"
    and os_write_ok: "os_write D s p d = (Ok u, s') \<Longrightarrow> stored s' = (stored s)(components p \<mapsto> d)"
    and os_write_err: "os_write D s p d = (Err e, s') \<Longrightarrow> q \<noteq> components p \<Longrightarrow> stored s' q = stored s q"
    and os_remove_ok: "os_remove_file D s p = (Ok u, s') \<Longrightarrow> stored s' = (stored s)(components p := None)"
    and os_remove_err: "os_remove_file D s p = (Err e, s') \<Longrightarrow> stored s' = stored s"
begin

lemma retry_ok:
  assumes "write_file_with_retry_hooks (\<lambda>t. os_write D t p d) retryable n s = (Ok u, s', slept)"
  shows "stored s' = (stored s)(components p \<mapsto> d)"
  using assms
proof (induction "\<lambda>t. os_write D t p d" retryable n s arbitrary: slept rule: write_file_with_retry_hooks.induct)
  case (1 retryable n s)
  obtain r s1 where w: "os_write D s p d = (r, s1)" by fastforce
  show ?case
  proof (cases r)
    case (Inl e)
    with w 1(2) have c: "retryable e \<and> n < length WRITE_RETRY_DELAYS"
      by (subst (asm) write_file_with_retry_hooks.simps) (auto split: if_splits)
    obtain r2 s2 sl where rec:
      "write_file_with_retry_hooks (\<lambda>t. os_write D t p d) retryable (n + 1) s1 = (r2, s2, sl)"
      by (metis prod_cases3)
    with w 1(2) Inl c have "r2 = Ok u" "s2 = s'"
      by (subst (asm) write_file_with_retry_hooks.simps, simp)+
    with 1(1)[OF w[symmetric] Inl c] rec have "stored s' = (stored s1)(components p \<mapsto> d)" by simp
    with os_write_err[of s p d e s1] w Inl show ?thesis by (auto simp: fun_eq_iff)
  next
    case (Inr v)
    with w 1(2) have "s1 = s'" by (subst (asm) write_file_with_retry_hooks.simps) simp
    with os_write_ok[of s p d v s1] w Inr show ?thesis by simp
  qed
qed

lemma retry_elsewhere:
  assumes "write_file_with_retry_hooks (\<lambda>t. os_write D t p d) retryable n s = (r, s', slept)" "q \<noteq> components p"
  shows "stored s' q = stored s q"
  using assms(1)
proof (induction "\<lambda>t. os_write D t p d" retryable n s arbitrary: slept rule: write_file_with_retry_hooks.induct)
  case (1 retryable n s)
  obtain r1 s1 where w: "os_write D s p d = (r1, s1)" by fastforce
  have s1: "stored s1 q = stored s q"
    using w assms(2) os_write_ok[of s p d _ s1] os_write_err[of s p d _ s1 q] by (cases r1) auto
  show ?case
  proof (cases "\<exists>e. r1 = Inl e \<and> retryable e \<and> n < length WRITE_RETRY_DELAYS")
    case True
    then obtain e where e: "r1 = Inl e" "retryable e \<and> n < length WRITE_RETRY_DELAYS" by blast
    obtain r2 s2 sl where rec:
      "write_file_with_retry_hooks (\<lambda>t. os_write D t p d) retryable (n + 1) s1 = (r2, s2, sl)"
      by (metis prod_cases3)
    with w 1(2) e have "r2 = r" "s2 = s'" by (subst (asm) write_file_with_retry_hooks.simps, simp)+
    with 1(1)[OF w[symmetric] e] rec s1 show ?thesis by simp
  next
    case False
    with w 1(2) have "s1 = s'"
      by (subst (asm) write_file_with_retry_hooks.simps) (auto split: sum.splits if_splits)
    with s1 show ?thesis by simp
  qed
qed

lemma local_mkdir:
  "(case path_parent p of Some dir \<Rightarrow> os_create_dir_all D s dir | None \<Rightarrow> (Ok (), s)) = (r, s1) \<Longrightarrow> stored s1 = stored s"
  by (auto split: option.splits dest: os_mkdir)

end

sublocale os_disk \<subseteq> local_fs: async_file_system "LocalFs windows D" stored for windows
proof unfold_locales
  show "read_file (LocalFs windows D) s p = Ok b \<Longrightarrow> stored s (components p) = Some b" for s p b
    by (auto simp: LocalFs_def lift_io_def split: sum.splits dest: os_read_ok)
  show "write_file (LocalFs windows D) s p d = (Ok u, s') \<Longrightarrow> stored s' = (stored s)(components p \<mapsto> d)" for s p d u s'
    by (auto simp: LocalFs_def LocalFs_write_file_def lift_io_def apfst_def map_prod_def
        write_file_with_transient_lock_retries_def split: prod.splits sum.splits dest!: retry_ok local_mkdir)
  show "write_file (LocalFs windows D) s p d = (Err e, s') \<Longrightarrow> q \<noteq> components p \<Longrightarrow> stored s' q = stored s q" for s p d e s' q
    by (auto simp: LocalFs_def LocalFs_write_file_def lift_io_def apfst_def map_prod_def
        write_file_with_transient_lock_retries_def split: prod.splits sum.splits dest!: retry_elsewhere[where q = q] local_mkdir)
  show "delete_file (LocalFs windows D) s p = (Ok u, s') \<Longrightarrow> stored s' = (stored s)(components p := None)" for s p u s'
    by (auto simp: LocalFs_def lift_io_def apfst_def map_prod_def split: prod.splits sum.splits dest: os_remove_ok)
  show "delete_file (LocalFs windows D) s p = (Err e, s') \<Longrightarrow> stored s' = stored s" for s p e s'
    by (auto simp: LocalFs_def lift_io_def apfst_def map_prod_def split: prod.splits sum.splits dest: os_remove_err)
qed

interpretation mock_fs: async_file_system MockFs "\<lambda>fs. fs"
  by unfold_locales (auto simp: MockFs_def split: option.splits)

section \<open>A disk with faults\<close>

text \<open>Files by path, where any call may be refused and a refused write may leave other contents behind. The
  number of calls made so far lets a fault come and go.\<close>

record Disk =
  disk_files :: files
  disk_calls :: nat

record Faults =
  refused :: "nat \<Rightarrow> rstr \<Rightarrow> IoError option"
  left_behind :: "nat \<Rightarrow> bytes option"

definition not_found :: IoError where
  "not_found = \<lparr> io_message = lit ''No such file or directory (os error 2)'', io_kind = NotFound, raw_os_error = Some 2 \<rparr>"

definition tick :: "Disk \<Rightarrow> Disk" where
  "tick d = d\<lparr> disk_calls := disk_calls d + 1 \<rparr>"

definition faulty_disk :: "Faults \<Rightarrow> Disk os" where
  "faulty_disk F =
     \<lparr> os_read = (\<lambda>d p. case refused F (disk_calls d) p of
         Some e \<Rightarrow> Err e
       | None \<Rightarrow> (case disk_files d (components p) of Some b \<Rightarrow> Ok b | None \<Rightarrow> Err not_found)),
       os_create_dir_all = (\<lambda>d p. (case refused F (disk_calls d) p of Some e \<Rightarrow> Err e | None \<Rightarrow> Ok (), tick d)),
       os_write = (\<lambda>d p b. case refused F (disk_calls d) p of
         Some e \<Rightarrow> (Err e, tick (case left_behind F (disk_calls d) of
             None \<Rightarrow> d | Some rest \<Rightarrow> d\<lparr> disk_files := (disk_files d)(components p \<mapsto> rest) \<rparr>))
       | None \<Rightarrow> (Ok (), tick (d\<lparr> disk_files := (disk_files d)(components p \<mapsto> b) \<rparr>))),
       os_remove_file = (\<lambda>d p. case refused F (disk_calls d) p of
         Some e \<Rightarrow> (Err e, tick d)
       | None \<Rightarrow> (if disk_files d (components p) = None then (Err not_found, tick d)
                  else (Ok (), tick (d\<lparr> disk_files := (disk_files d)(components p := None) \<rparr>)))),
       os_is_file = (\<lambda>d p. case refused F (disk_calls d) p of
         Some e \<Rightarrow> Err e
       | None \<Rightarrow> (if disk_files d (components p) = None then Err not_found else Ok True)) \<rparr>"

interpretation disk: os_disk "faulty_disk F" disk_files for F
  by unfold_locales (auto simp: faulty_disk_def tick_def split: option.splits if_splits)

text \<open>However long the lock holds, a write is tried at most six times: the sleeps are an initial part of the
  delays, and none outside Windows.\<close>

lemma retries_bounded:
  assumes "write_file_with_retry_hooks wr retryable n s = (r, s', slept)"
  shows "\<exists>k. slept = take k (drop n WRITE_RETRY_DELAYS)"
  using assms
proof (induction wr retryable n s arbitrary: slept rule: write_file_with_retry_hooks.induct)
  case (1 wr retryable n s)
  obtain r1 s1 where w: "wr s = (r1, s1)" by fastforce
  show ?case
  proof (cases "\<exists>e. r1 = Inl e \<and> retryable e \<and> n < length WRITE_RETRY_DELAYS")
    case True
    then obtain e where e: "r1 = Inl e" "retryable e \<and> n < length WRITE_RETRY_DELAYS" by blast
    obtain r2 s2 sl where rec: "write_file_with_retry_hooks wr retryable (n + 1) s1 = (r2, s2, sl)"
      by (metis prod_cases3)
    with w 1(2) e have "r2 = r" "s2 = s'" and sl: "slept = WRITE_RETRY_DELAYS ! n # sl"
      by (subst (asm) write_file_with_retry_hooks.simps, simp)+
    with 1(1)[OF w[symmetric] e] rec obtain k where "sl = take k (drop (Suc n) WRITE_RETRY_DELAYS)" by auto
    with sl e(2) have "slept = take (Suc k) (drop n WRITE_RETRY_DELAYS)" by (simp add: Cons_nth_drop_Suc[symmetric])
    then show ?thesis by blast
  next
    case False
    with w 1(2) have "slept = []"
      by (subst (asm) write_file_with_retry_hooks.simps) (auto split: sum.splits if_splits)
    then show ?thesis by (metis take0)
  qed
qed

lemma no_retries_off_windows:
  "write_file_with_transient_lock_retries False D s p d =
     (case os_write D s p d of (r, s') \<Rightarrow> (case r of Inl e \<Rightarrow> Err e | Inr u \<Rightarrow> Ok (), s'))"
proof -
  note unfolded = write_file_with_retry_hooks.simps[of "\<lambda>t. os_write D t p d" "is_transient_write_lock_error False" 0 s]
  show ?thesis
    unfolding write_file_with_transient_lock_retries_def unfolded is_transient_write_lock_error_def
    by (simp split: prod.split sum.split)
qed

end
