(* ===== verification/Patch_Tool.thy ===== *)
theory Patch_Tool
  imports Patch_Apply File_System
begin

text \<open>
  The \<open>apply_patch\<close> tool, \<open>xai-grok-tools/src/implementations/codex/apply_patch/tool.rs\<close>: parse the patch,
  compute every change from the files as they are, check the memory policy, then write. The file system is
  the service of \<open>File_System\<close>; the memory policy (\<open>types/memory_v2.rs\<close>) is a trait its host implements, here the
  record \<open>MemoryV2Access\<close>. Looking up the resources of the session is left out: the working directory, the
  file system and the notification channel are arguments.
\<close>

section \<open>Data\<close>

datatype MemoryV2Write = Outside | Written "bytes option"

record 's MemoryV2Access =
  validate_read :: "'s \<Rightarrow> rstr \<Rightarrow> rstr + bool"
  preflight_write :: "'s \<Rightarrow> rstr \<Rightarrow> bytes \<Rightarrow> rstr + bool"
  memory_write_file :: "'s \<Rightarrow> rstr \<Rightarrow> bytes \<Rightarrow> (rstr + MemoryV2Write) \<times> 's"

record 's PatchHost =
  host_fs :: "'s AsyncFileSystem"
  host_create_dir_all :: "'s \<Rightarrow> rstr \<Rightarrow> (rstr + unit) \<times> 's"
  host_memory :: "'s MemoryV2Access option"

record FileWritten =
  fw_tool_call_id :: rstr
  absolute_path :: rstr
  fw_content :: rstr
  previous_content :: "rstr option"
  is_new_file :: bool

record ApplyPatchFileResult =
  result_path :: rstr
  result_action :: rstr
  result_old_text :: "rstr option"
  result_new_text :: rstr
  move_to :: "rstr option"

datatype ApplyPatchOutput =
    Success "ApplyPatchFileResult list" rstr
  | ParseErrorOutput rstr
  | ApplicationError rstr
  | EmptyPatch rstr

datatype ToolError = Execution rstr

datatype FileChange =
    Add rstr rstr
  | Delete rstr rstr
  | Update rstr rstr rstr
  | Move rstr rstr rstr rstr

section \<open>Computing the changes\<close>

definition read_file_as_string :: "'s PatchHost \<Rightarrow> 's \<Rightarrow> rstr \<Rightarrow> rstr + rstr" where
  "read_file_as_string H s path =
     (case read_file (host_fs H) s path of
        Inl e \<Rightarrow> Err (ComputerError_fmt e)
      | Inr b \<Rightarrow> Ok (from_utf8_lossy b))"

definition ParseError_fmt :: "ParseError \<Rightarrow> rstr" where
  "ParseError_fmt e =
     (case e of
        InvalidPatchError m \<Rightarrow> lit ''invalid patch: '' @ m
      | InvalidHunkError m n \<Rightarrow> lit ''invalid hunk at line '' @ show_dec n @ lit '', '' @ m)"

definition apply_error_message :: "ApplyPatchError \<Rightarrow> rstr" where
  "apply_error_message e =
     (case e of
        ComputeReplacements m \<Rightarrow> m
      | Parse pe \<Rightarrow> ParseError_fmt pe
      | Io context message _ \<Rightarrow> context @ lit '': '' @ message)"

text \<open>One hunk; the outer option is the panic of the engine.\<close>

definition compute_change :: "'s PatchHost \<Rightarrow> rstr \<Rightarrow> 's \<Rightarrow> Hunk \<Rightarrow> (rstr + FileChange) option" where
  "compute_change H cwd s h =
     (case h of
        AddFile path contents \<Rightarrow> Some (Ok (Add (path_join cwd path) contents))
      | DeleteFile path \<Rightarrow>
          let resolved = path_join cwd path
          in (case read_file_as_string H s resolved of
                Inl e \<Rightarrow> Some (Err (lit ''Failed to read file: '' @ resolved @ lit '', '' @ e))
              | Inr original \<Rightarrow> Some (Ok (Delete resolved original)))
      | UpdateFile path move_path chunks \<Rightarrow>
          let resolved = path_join cwd path
          in (case read_file_as_string H s resolved of
                Inl e \<Rightarrow> Some (Err (lit ''Failed to read file to update: '' @ resolved @ lit '', '' @ e))
              | Inr original \<Rightarrow>
                  (case derive_new_contents original resolved chunks of
                     None \<Rightarrow> None
                   | Some (Inl e) \<Rightarrow> Some (Err (apply_error_message e))
                   | Some (Inr new) \<Rightarrow>
                       Some (Ok (case move_path of
                                   Some dest \<Rightarrow> Move resolved (path_join cwd dest) original new
                                 | None \<Rightarrow> Update resolved original new)))))"

fun compute_all_changes :: "'s PatchHost \<Rightarrow> rstr \<Rightarrow> 's \<Rightarrow> Hunk list \<Rightarrow> (rstr + FileChange list) option" where
  "compute_all_changes H cwd s [] = Some (Ok [])"
| "compute_all_changes H cwd s (h # hs) =
     (case compute_change H cwd s h of
        None \<Rightarrow> None
      | Some (Inl e) \<Rightarrow> Some (Err e)
      | Some (Inr c) \<Rightarrow> map_option (\<lambda>r. bind_result r (\<lambda>cs. Ok (c # cs))) (compute_all_changes H cwd s hs))"

section \<open>The memory policy\<close>

definition validate_memory_v2_read :: "'s PatchHost \<Rightarrow> 's \<Rightarrow> rstr \<Rightarrow> rstr + bool" where
  "validate_memory_v2_read H s path =
     (case host_memory H of None \<Rightarrow> Ok False | Some M \<Rightarrow> validate_read M s path)"

definition preflight_memory_v2_write :: "'s PatchHost \<Rightarrow> 's \<Rightarrow> rstr \<Rightarrow> bytes \<Rightarrow> rstr + bool" where
  "preflight_memory_v2_write H s path b =
     (case host_memory H of None \<Rightarrow> Ok False | Some M \<Rightarrow> preflight_write M s path b)"

definition write_memory_v2_file :: "'s PatchHost \<Rightarrow> 's \<Rightarrow> rstr \<Rightarrow> bytes \<Rightarrow> (rstr + MemoryV2Write) \<times> 's" where
  "write_memory_v2_file H s path b =
     (case host_memory H of None \<Rightarrow> (Ok Outside, s) | Some M \<Rightarrow> memory_write_file M s path b)"

definition reject_memory_v2_destructive_path :: "'s PatchHost \<Rightarrow> 's \<Rightarrow> rstr \<Rightarrow> rstr + unit" where
  "reject_memory_v2_destructive_path H s path =
     bind_result (validate_memory_v2_read H s path) (\<lambda>inside.
       if inside then
         Err (path @ lit '' is inside a memory directory; apply_patch cannot delete or move memory files. Use the memory workflow instead: edit topic files in place or manage memories with the memory tools.'')
       else Ok ())"

definition preflight_change :: "'s PatchHost \<Rightarrow> 's \<Rightarrow> FileChange \<Rightarrow> rstr + unit" where
  "preflight_change H s c =
     (case c of
        Add path content \<Rightarrow> bind_result (preflight_memory_v2_write H s path (str_bytes content)) (\<lambda>_. Ok ())
      | Update path _ new \<Rightarrow> bind_result (preflight_memory_v2_write H s path (str_bytes new)) (\<lambda>_. Ok ())
      | Delete path _ \<Rightarrow> reject_memory_v2_destructive_path H s path
      | Move source dest _ _ \<Rightarrow>
          bind_result (reject_memory_v2_destructive_path H s source) (\<lambda>_. reject_memory_v2_destructive_path H s dest))"

fun preflight_memory_v2_changes :: "'s PatchHost \<Rightarrow> 's \<Rightarrow> FileChange list \<Rightarrow> rstr + unit" where
  "preflight_memory_v2_changes H s [] = Ok ()"
| "preflight_memory_v2_changes H s (c # cs) =
     bind_result (preflight_change H s c) (\<lambda>_. preflight_memory_v2_changes H s cs)"

definition write_via_memory_v2 :: "'s PatchHost \<Rightarrow> 's \<Rightarrow> rstr \<Rightarrow> bytes \<Rightarrow> (rstr + bool) \<times> 's" where
  "write_via_memory_v2 H s path b =
     (case write_memory_v2_file H s path b of
        (Inl e, s') \<Rightarrow> (Err e, s')
      | (Inr (Written _), s') \<Rightarrow> (Ok True, s')
      | (Inr Outside, s') \<Rightarrow> (Ok False, s'))"

section \<open>Writing\<close>

text \<open>A step of the third phase either goes on with a value or returns from the tool early.\<close>

type_synonym outcome = "ToolError + ApplyPatchOutput"

type_synonym ('s, 'a) phase = "(outcome + 'a) \<times> 's"

definition and_then :: "('s, 'a) phase \<Rightarrow> ('a \<Rightarrow> 's \<Rightarrow> ('s, 'b) phase) \<Rightarrow> ('s, 'b) phase" where
  "and_then m f = (case m of (Inl r, s) \<Rightarrow> (Inl r, s) | (Inr a, s) \<Rightarrow> f a s)"

definition ensure_parent_dirs :: "'s PatchHost \<Rightarrow> rstr \<Rightarrow> 's \<Rightarrow> ('s, unit) phase" where
  "ensure_parent_dirs H path s =
     (case path_parent path of
        Some parent \<Rightarrow>
          if parent \<noteq> [] then
            (case host_create_dir_all H s parent of
               (Inl e, s') \<Rightarrow> (Inl (Err (Execution e)), s')
             | (Inr u, s') \<Rightarrow> (Inr (), s'))
          else (Inr (), s)
      | None \<Rightarrow> (Inr (), s))"

definition fs_write :: "'s PatchHost \<Rightarrow> rstr \<Rightarrow> rstr \<Rightarrow> 's \<Rightarrow> ('s, unit) phase" where
  "fs_write H path content s =
     (case write_file (host_fs H) s path (str_bytes content) of
        (Inl e, s') \<Rightarrow> (Inl (Err (Execution (ComputerError_fmt e))), s')
      | (Inr u, s') \<Rightarrow> (Inr (), s'))"

definition fs_delete :: "'s PatchHost \<Rightarrow> rstr \<Rightarrow> 's \<Rightarrow> ('s, unit) phase" where
  "fs_delete H path s =
     (case delete_file (host_fs H) s path of
        (Inl e, s') \<Rightarrow> (Inl (Err (Execution (ComputerError_fmt e))), s')
      | (Inr u, s') \<Rightarrow> (Inr (), s'))"

definition memory_or :: "'s PatchHost \<Rightarrow> rstr \<Rightarrow> rstr \<Rightarrow> ('s \<Rightarrow> ('s, unit) phase) \<Rightarrow> 's \<Rightarrow> ('s, unit) phase" where
  "memory_or H path content ordinary s =
     (case write_via_memory_v2 H s path (str_bytes content) of
        (Inl msg, s') \<Rightarrow> (Inl (Ok (ApplicationError msg)), s')
      | (Inr is_memory_write, s') \<Rightarrow> if is_memory_write then (Inr (), s') else ordinary s')"

definition perform_change :: "'s PatchHost \<Rightarrow> FileChange \<Rightarrow> 's \<Rightarrow> ('s, unit) phase" where
  "perform_change H c s =
     (case c of
        Add path content \<Rightarrow>
          memory_or H path content (\<lambda>s. and_then (ensure_parent_dirs H path s) (\<lambda>_. fs_write H path content)) s
      | Delete path _ \<Rightarrow> fs_delete H path s
      | Update path _ new \<Rightarrow> memory_or H path new (fs_write H path new) s
      | Move source dest _ new \<Rightarrow>
          and_then (ensure_parent_dirs H dest s) (\<lambda>_ s.
            and_then (fs_write H dest new s) (\<lambda>_. fs_delete H source)))"

definition change_notes :: "rstr \<Rightarrow> FileChange \<Rightarrow> FileWritten list" where
  "change_notes call c =
     (case c of
        Add path content \<Rightarrow>
          [\<lparr> fw_tool_call_id = call, absolute_path = path, fw_content = content, previous_content = None, is_new_file = True \<rparr>]
      | Delete path original \<Rightarrow>
          [\<lparr> fw_tool_call_id = call, absolute_path = path, fw_content = [], previous_content = Some original, is_new_file = False \<rparr>]
      | Update path original new \<Rightarrow>
          [\<lparr> fw_tool_call_id = call, absolute_path = path, fw_content = new, previous_content = Some original, is_new_file = False \<rparr>]
      | Move source dest original new \<Rightarrow>
          [\<lparr> fw_tool_call_id = call, absolute_path = dest, fw_content = new, previous_content = None, is_new_file = True \<rparr>,
           \<lparr> fw_tool_call_id = call, absolute_path = source, fw_content = [], previous_content = Some original, is_new_file = False \<rparr>])"

definition change_result :: "FileChange \<Rightarrow> ApplyPatchFileResult" where
  "change_result c =
     (case c of
        Add path content \<Rightarrow>
          \<lparr> result_path = path, result_action = lit ''added'', result_old_text = None, result_new_text = content, move_to = None \<rparr>
      | Delete path original \<Rightarrow>
          \<lparr> result_path = path, result_action = lit ''deleted'', result_old_text = Some original, result_new_text = [], move_to = None \<rparr>
      | Update path original new \<Rightarrow>
          \<lparr> result_path = path, result_action = lit ''modified'', result_old_text = Some original, result_new_text = new, move_to = None \<rparr>
      | Move source dest original new \<Rightarrow>
          \<lparr> result_path = source, result_action = lit ''moved'', result_old_text = Some original, result_new_text = new, move_to = Some dest \<rparr>)"

definition summary_line :: "ApplyPatchFileResult \<Rightarrow> rstr" where
  "summary_line r =
     (let a = result_action r
      in (if a = lit ''added'' then lit ''A'' else if a = lit ''deleted'' then lit ''D'' else lit ''M'')
         @ [32] @ result_path r @ [10])"

definition build_summary :: "ApplyPatchFileResult list \<Rightarrow> rstr" where
  "build_summary results = lit ''Success. Updated the following files:'' @ [10] @ concat (map summary_line results)"

fun apply_changes ::
  "'s PatchHost \<Rightarrow> rstr \<Rightarrow> FileChange list \<Rightarrow> ApplyPatchFileResult list \<Rightarrow> FileWritten list \<Rightarrow> 's
     \<Rightarrow> outcome \<times> FileWritten list \<times> 's" where
  "apply_changes H call [] results notes s = (Ok (Success results (build_summary results)), notes, s)"
| "apply_changes H call (c # cs) results notes s =
     (case perform_change H c s of
        (Inl r, s') \<Rightarrow> (r, notes, s')
      | (Inr u, s') \<Rightarrow> apply_changes H call cs (results @ [change_result c]) (notes @ change_notes call c) s')"

definition parse_failure :: "ParseError \<Rightarrow> rstr" where
  "parse_failure e =
     (case e of
        InvalidPatchError m \<Rightarrow> lit ''Invalid patch: '' @ m
      | InvalidHunkError m n \<Rightarrow> lit ''Invalid patch hunk on line '' @ show_dec n @ lit '': '' @ m)"

definition apply_patch_run ::
  "'s PatchHost \<Rightarrow> rstr \<Rightarrow> rstr \<Rightarrow> rstr \<Rightarrow> 's \<Rightarrow> (outcome \<times> FileWritten list \<times> 's) option" where
  "apply_patch_run H cwd call patch s =
     (case parse_patch patch of
        Inl e \<Rightarrow> Some (Ok (ParseErrorOutput (parse_failure e)), [], s)
      | Inr parsed \<Rightarrow>
          if pp_hunks parsed = [] then Some (Ok (EmptyPatch (lit ''No files were modified.'')), [], s)
          else case compute_all_changes H cwd s (pp_hunks parsed) of
                 None \<Rightarrow> None
               | Some (Inl msg) \<Rightarrow> Some (Ok (ApplicationError msg), [], s)
               | Some (Inr changes) \<Rightarrow>
                   (case preflight_memory_v2_changes H s changes of
                      Inl msg \<Rightarrow> Some (Ok (ApplicationError msg), [], s)
                    | Inr u \<Rightarrow> Some (apply_changes H call changes [] [] s)))"

section \<open>What a patch means\<close>

text \<open>The meaning of a patch is its hunks in order, each applied to the files as the hunks before it left them.
  A hunk reads from \<open>orig\<close> and changes \<open>fs\<close>; in the meaning both are the current files.\<close>

definition hunk_step :: "rstr \<Rightarrow> files \<Rightarrow> Hunk \<Rightarrow> files \<Rightarrow> files option" where
  "hunk_step cwd orig h fs =
     (case h of
        AddFile path contents \<Rightarrow> Some (fs(components (path_join cwd path) \<mapsto> str_bytes contents))
      | DeleteFile path \<Rightarrow>
          (if orig (components (path_join cwd path)) = None then None
           else Some (fs(components (path_join cwd path) := None)))
      | UpdateFile path move_path chunks \<Rightarrow>
          (case orig (components (path_join cwd path)) of
             None \<Rightarrow> None
           | Some b \<Rightarrow>
               (case derive_new_contents (from_utf8_lossy b) (path_join cwd path) chunks of
                  Some (Inr new) \<Rightarrow>
                    Some (case move_path of
                            None \<Rightarrow> fs(components (path_join cwd path) \<mapsto> str_bytes new)
                          | Some dest \<Rightarrow> fs(components (path_join cwd dest) \<mapsto> str_bytes new,
                                           components (path_join cwd path) := None))
                | _ \<Rightarrow> None)))"

fun apply_in_order :: "rstr \<Rightarrow> Hunk list \<Rightarrow> files \<Rightarrow> files option" where
  "apply_in_order cwd [] fs = Some fs"
| "apply_in_order cwd (h # hs) fs = Option.bind (hunk_step cwd fs h fs) (apply_in_order cwd hs)"

text \<open>The files a hunk names.\<close>

definition touched :: "rstr \<Rightarrow> Hunk \<Rightarrow> Component list list" where
  "touched cwd h =
     (case h of
        AddFile path _ \<Rightarrow> [components (path_join cwd path)]
      | DeleteFile path \<Rightarrow> [components (path_join cwd path)]
      | UpdateFile path move_path _ \<Rightarrow>
          components (path_join cwd path) #
          (case move_path of None \<Rightarrow> [] | Some dest \<Rightarrow> [components (path_join cwd dest)]))"

definition touches :: "rstr \<Rightarrow> Hunk list \<Rightarrow> Component list list" where
  "touches cwd hs = concat (map (touched cwd) hs)"

lemma touches_simps [simp]: "touches cwd [] = []" "touches cwd (h # hs) = touched cwd h @ touches cwd hs"
  by (simp_all add: touches_def)

definition change_effect :: "FileChange \<Rightarrow> files \<Rightarrow> files" where
  "change_effect c fs =
     (case c of
        Add path content \<Rightarrow> fs(components path \<mapsto> str_bytes content)
      | Delete path _ \<Rightarrow> fs(components path := None)
      | Update path _ new \<Rightarrow> fs(components path \<mapsto> str_bytes new)
      | Move source dest _ new \<Rightarrow> fs(components dest \<mapsto> str_bytes new, components source := None))"

definition change_paths :: "FileChange \<Rightarrow> Component list list" where
  "change_paths c =
     (case c of Add path _ \<Rightarrow> [components path] | Delete path _ \<Rightarrow> [components path] | Update path _ _ \<Rightarrow> [components path]
      | Move source dest _ _ \<Rightarrow> [components source, components dest])"

lemma change_effect_elsewhere: "q \<notin> set (change_paths c) \<Longrightarrow> change_effect c fs q = fs q"
  by (cases c) (auto simp: change_effect_def change_paths_def)

lemma hunk_step_cong:
  "orig (hd (touched cwd h)) = orig' (hd (touched cwd h)) \<Longrightarrow> hunk_step cwd orig h fs = hunk_step cwd orig' h fs"
  by (cases h) (auto simp: hunk_step_def touched_def)

lemma hd_touched: "hd (touched cwd h) \<in> set (touched cwd h)"
  by (cases h) (simp_all add: touched_def)

text \<open>What the notifications are for: restoring every file to the content from before, last write first. It
  works for a hunk that adds only what is not there and edits only files that are valid UTF-8.\<close>

definition undo_write :: "FileWritten \<Rightarrow> files \<Rightarrow> files" where
  "undo_write n fs = fs(components (absolute_path n) := map_option str_bytes (previous_content n))"

definition rewind :: "FileWritten list \<Rightarrow> files \<Rightarrow> files" where
  "rewind ns fs = fold undo_write (rev ns) fs"

lemma rewind_append: "rewind (xs @ ys) fs = rewind xs (rewind ys fs)"
  by (simp add: rewind_def)

definition utf8_file :: "bytes option \<Rightarrow> bool" where
  "utf8_file c = (case c of None \<Rightarrow> True | Some b \<Rightarrow> str_bytes (from_utf8_lossy b) = b)"

definition revertible :: "rstr \<Rightarrow> files \<Rightarrow> Hunk \<Rightarrow> bool" where
  "revertible cwd fs h =
     (case h of
        AddFile path _ \<Rightarrow> fs (components (path_join cwd path)) = None
      | DeleteFile path \<Rightarrow> utf8_file (fs (components (path_join cwd path)))
      | UpdateFile path move_path _ \<Rightarrow> utf8_file (fs (components (path_join cwd path))) \<and>
          (case move_path of None \<Rightarrow> True | Some dest \<Rightarrow> fs (components (path_join cwd dest)) = None))"

section \<open>No panic\<close>

lemma derive_not_None [simp]: "derive_new_contents t p chunks \<noteq> None"
  using derive_new_contents_total[of t p chunks] by auto

lemma compute_change_total: "compute_change H cwd s h \<noteq> None"
  by (cases h) (auto simp: compute_change_def Let_def split: sum.split option.split)

lemma compute_all_total: "compute_all_changes H cwd s hs \<noteq> None"
proof (induction hs)
  case (Cons h hs)
  then show ?case using compute_change_total[of H cwd s h] by (auto split: option.split sum.split)
qed simp

lemma compute_change_paths:
  "compute_change H cwd s h = Some (Ok c) \<Longrightarrow> change_paths c = touched cwd h"
  by (cases h) (auto simp: compute_change_def touched_def change_paths_def Let_def split: sum.splits option.splits)

lemma compute_all_paths:
  "compute_all_changes H cwd s hs = Some (Ok cs) \<Longrightarrow> concat (map change_paths cs) = touches cwd hs"
  by (induction hs arbitrary: cs) (auto simp: compute_change_paths split: option.splits sum.splits)

section \<open>The contract of a host\<close>

text \<open>
  What \<open>types/memory_v2.rs\<close> says of the policy: a path outside its roots is left alone, a write it completed
  stores the content, and beside the named file it touches only the files it generates (the manifest), which
  are the parameter \<open>generated\<close>. A write it refuses may have come any part of that way.
\<close>

definition agree_off :: "Component list set \<Rightarrow> files \<Rightarrow> files \<Rightarrow> bool" where
  "agree_off generated fs fs' \<longleftrightarrow> (\<forall>q. q \<notin> generated \<longrightarrow> fs q = fs' q)"

text \<open>How a change can end the tool with an output: the policy refuses its write.\<close>

definition refused_write :: "'s PatchHost \<Rightarrow> FileChange \<Rightarrow> ApplyPatchOutput \<Rightarrow> 's \<Rightarrow> bool" where
  "refused_write H c out s' \<longleftrightarrow> (\<exists>M s1 p t old e. host_memory H = Some M \<and> (c = Add p t \<or> c = Update p old t) \<and>
     memory_write_file M s1 p (str_bytes t) = (Err e, s') \<and> out = ApplicationError e)"

locale memory_policy =
  fixes policy :: "'s MemoryV2Access option"
    and stored :: "'s \<Rightarrow> files"
    and generated :: "Component list set"
  assumes policy_elsewhere: "policy = Some M \<Longrightarrow> memory_write_file M s p b = (r, s') \<Longrightarrow>
      q \<noteq> components p \<Longrightarrow> q \<notin> generated \<Longrightarrow> stored s' q = stored s q"
    and policy_written: "policy = Some M \<Longrightarrow> memory_write_file M s p b = (Ok (Written c), s') \<Longrightarrow>
      components p \<notin> generated \<Longrightarrow> stored s' (components p) = Some b"
    and policy_outside: "policy = Some M \<Longrightarrow> memory_write_file M s p b = (Ok Outside, s') \<Longrightarrow> stored s' = stored s"

text \<open>A host: a file system, a memory policy or none, and creating directories changes no file.\<close>

locale patch_host = async_file_system "host_fs H" stored + memory_policy "host_memory H" stored generated
  for H :: "'s PatchHost" and stored :: "'s \<Rightarrow> files" and generated :: "Component list set" +
  assumes create_dirs: "host_create_dir_all H s p = (r, s') \<Longrightarrow> stored s' = stored s"
begin

lemma ensure_parent_dirs_keeps: "ensure_parent_dirs H p s = (r, s') \<Longrightarrow> stored s' = stored s"
  by (auto simp: ensure_parent_dirs_def split: option.splits if_splits prod.splits sum.splits dest: create_dirs)

lemma fs_write_ok: "fs_write H p t s = (Inr u, s') \<Longrightarrow> stored s' = (stored s)(components p \<mapsto> str_bytes t)"
  by (auto simp: fs_write_def split: prod.splits sum.splits dest: write_ok)

lemma fs_write_elsewhere: "fs_write H p t s = (r, s') \<Longrightarrow> q \<noteq> components p \<Longrightarrow> stored s' q = stored s q"
  by (auto simp: fs_write_def split: prod.splits sum.splits dest: write_elsewhere)

lemma fs_delete_ok: "fs_delete H p s = (Inr u, s') \<Longrightarrow> stored s' = (stored s)(components p := None)"
  by (auto simp: fs_delete_def split: prod.splits sum.splits dest: delete_ok)

lemma fs_delete_elsewhere: "fs_delete H p s = (r, s') \<Longrightarrow> q \<noteq> components p \<Longrightarrow> stored s' q = stored s q"
  by (auto simp: fs_delete_def split: prod.splits sum.splits dest: delete_elsewhere)

lemma memory_or_cases:
  assumes "memory_or H p t ordinary s = (r, s')"
  obtains (plain) s1 where "stored s1 = stored s" "ordinary s1 = (r, s')"
  | (written) M c where "host_memory H = Some M" "memory_write_file M s p (str_bytes t) = (Ok (Written c), s')" "r = Inr ()"
  | (refused) M e where "host_memory H = Some M" "memory_write_file M s p (str_bytes t) = (Err e, s')"
      "r = Inl (Ok (ApplicationError e))"
proof (cases "host_memory H")
  case None
  then show ?thesis using plain [of s] assms
    by (simp add: memory_or_def write_via_memory_v2_def write_memory_v2_file_def)
next
  case (Some M)
  obtain w s1 where w: "memory_write_file M s p (str_bytes t) = (w, s1)" by fastforce
  show ?thesis
  proof (cases w)
    case (Inl e)
    then show ?thesis using refused [of M e] assms w Some
      by (simp add: memory_or_def write_via_memory_v2_def write_memory_v2_file_def)
  next
    case (Inr k)
    then show ?thesis
      using plain [of s1] written [of M] assms w Some policy_outside [OF Some, of s p "str_bytes t" s1]
      by (cases k) (simp_all add: memory_or_def write_via_memory_v2_def write_memory_v2_file_def)
  qed
qed

lemma memory_or_ok:
  assumes "memory_or H p t ordinary s = (Inr u, s')"
    and "\<And>s1. stored s1 = stored s \<Longrightarrow> ordinary s1 = (Inr u, s') \<Longrightarrow> stored s' = (stored s)(components p \<mapsto> str_bytes t)"
  shows "agree_off generated (stored s') ((stored s)(components p \<mapsto> str_bytes t))"
  using assms(1)
proof (cases rule: memory_or_cases)
  case (plain s1)
  then show ?thesis using assms(2) by (simp add: agree_off_def)
next
  case (written M c)
  then show ?thesis using policy_elsewhere [OF written(1,2)] policy_written [OF written(1,2)] by (auto simp: agree_off_def)
qed simp

lemma perform_ok:
  assumes "perform_change H c s = (Inr u, s')"
  shows "agree_off generated (stored s') (change_effect c (stored s))"
  using assms
proof (cases c)
  case (Add p t)
  then show ?thesis using assms
    by (auto simp: perform_change_def change_effect_def and_then_def intro!: memory_or_ok split: prod.splits sum.splits
        dest!: ensure_parent_dirs_keeps fs_write_ok)
next
  case (Update p t t')
  then show ?thesis using assms
    by (auto simp: perform_change_def change_effect_def intro!: memory_or_ok dest!: fs_write_ok)
qed (auto simp: perform_change_def change_effect_def and_then_def agree_off_def split: prod.splits sum.splits
      dest!: ensure_parent_dirs_keeps fs_write_ok fs_delete_ok)

lemma perform_elsewhere:
  assumes "perform_change H c s = (r, s')" "q \<notin> set (change_paths c)" "q \<notin> generated"
  shows "stored s' q = stored s q"
proof -
  have "stored (snd (ensure_parent_dirs H p s)) q = stored s q" for p s
    using ensure_parent_dirs_keeps[of p s] by (cases "ensure_parent_dirs H p s") auto
  moreover have "stored (snd (fs_write H p t s)) q = stored s q" if "q \<noteq> components p" for p t s
    using that fs_write_elsewhere[of p t s] by (cases "fs_write H p t s") auto
  moreover have "stored (snd (fs_delete H p s)) q = stored s q" if "q \<noteq> components p" for p s
    using that fs_delete_elsewhere[of p s] by (cases "fs_delete H p s") auto
  moreover have "stored (snd (and_then m f)) q = stored (snd m) q"
    if "\<And>s. stored (snd (f () s)) q = stored s q" for m :: "('s, unit) phase" and f :: "unit \<Rightarrow> 's \<Rightarrow> ('s, unit) phase"
    using that by (cases m; cases "fst m") (auto simp: and_then_def)
  moreover have "stored (snd (memory_or H p t ordinary s)) q = stored s q"
    if "q \<noteq> components p" "\<And>s. stored (snd (ordinary s)) q = stored s q" for p t ordinary s
  proof -
    obtain x y where m: "memory_or H p t ordinary s = (x, y)" by fastforce
    then have "stored y q = stored s q"
    proof (cases rule: memory_or_cases)
      case (plain s1)
      then show ?thesis using that(2) [of s1] by simp
    qed (use that(1) assms(3) policy_elsewhere in auto)
    then show ?thesis using m by simp
  qed
  ultimately have "stored (snd (perform_change H c s)) q = stored s q"
    using assms(2) by (cases c) (simp_all add: perform_change_def change_paths_def)
  with assms(1) show ?thesis by simp
qed

lemma phase_errors:
  "ensure_parent_dirs H p s = (Inl r, s') \<Longrightarrow> isl r"
  "fs_write H p t s = (Inl r, s') \<Longrightarrow> isl r"
  "fs_delete H p s = (Inl r, s') \<Longrightarrow> isl r"
    apply (auto simp: ensure_parent_dirs_def split: option.splits if_splits prod.splits sum.splits)[]
   apply (auto simp: fs_write_def split: prod.splits sum.splits)[]
  apply (auto simp: fs_delete_def split: prod.splits sum.splits)[]
  done

lemma and_then_error:
  "and_then m f = (Inl r, s') \<Longrightarrow> m = (Inl r, s') \<or> (\<exists>a s1. m = (Inr a, s1) \<and> f a s1 = (Inl r, s'))"
  by (auto simp: and_then_def split: prod.splits sum.splits)

lemma perform_error:
  assumes "perform_change H c s = (Inl r, s')"
  shows "isl r \<or> (\<exists>out. r = Ok out \<and> refused_write H c out s')"
proof -
  have mem: "isl r \<or> (\<exists>M e. host_memory H = Some M \<and> memory_write_file M s p (str_bytes t) = (Err e, s') \<and> r = Ok (ApplicationError e))"
    if "memory_or H p t ordinary s = (Inl r, s')" "\<And>s1. ordinary s1 = (Inl r, s') \<Longrightarrow> isl r" for p t ordinary
    using that(1) by (cases rule: memory_or_cases) (use that(2) in auto)
  show ?thesis
  proof (cases c)
    case (Add p t)
    then show ?thesis using mem [of p t] assms
      by (fastforce simp: perform_change_def refused_write_def dest!: and_then_error dest: phase_errors)
  next
    case (Update p old t)
    then show ?thesis using mem [of p t] assms
      by (fastforce simp: perform_change_def refused_write_def dest: phase_errors)
  qed (use assms in \<open>auto simp: perform_change_def dest!: and_then_error dest: phase_errors\<close>)
qed

lemma apply_changes_elsewhere:
  "apply_changes H call cs results ns s = (r, ns', s') \<Longrightarrow> q \<notin> set (concat (map change_paths cs)) \<Longrightarrow> q \<notin> generated \<Longrightarrow>
     stored s' q = stored s q"
proof (induction cs arbitrary: results ns s)
  case (Cons c cs)
  then show ?case using perform_elsewhere[of c s _ _ q] by (fastforce split: prod.splits sum.splits)
qed simp

lemma agree_effect: "agree_off generated fs fs' \<Longrightarrow> agree_off generated (change_effect c fs) (change_effect c fs')"
  by (cases c) (auto simp: agree_off_def change_effect_def)

lemma agree_effects: "agree_off generated fs fs' \<Longrightarrow> agree_off generated (fold change_effect cs fs) (fold change_effect cs fs')"
  by (induction cs arbitrary: fs fs') (auto intro: agree_effect)

lemma agree_trans: "agree_off generated fs fs' \<Longrightarrow> agree_off generated fs' fs'' \<Longrightarrow> agree_off generated fs fs''"
  by (simp add: agree_off_def)

lemma agree_rewind: "agree_off generated fs fs' \<Longrightarrow> agree_off generated (rewind ns fs) (rewind ns fs')"
  by (induction ns arbitrary: fs fs' rule: rev_induct) (auto simp: rewind_def agree_off_def undo_write_def)

lemma apply_changes_out:
  assumes "apply_changes H call cs results ns s = (Ok out, ns', s')"
  shows "(agree_off generated (stored s') (fold change_effect cs (stored s)) \<and> ns' = ns @ concat (map (change_notes call) cs) \<and>
      (\<exists>m. out = Success (results @ map change_result cs) m)) \<or>
    (\<exists>c\<in>set cs. refused_write H c out s')"
  using assms
proof (induction cs arbitrary: results ns s)
  case (Cons c cs)
  obtain r s1 where p: "perform_change H c s = (r, s1)" by fastforce
  show ?case
  proof (cases r)
    case (Inl x)
    then show ?thesis using Cons.prems p perform_error[of c s x s1] by auto
  next
    case (Inr u)
    then have step: "apply_changes H call cs (results @ [change_result c]) (ns @ change_notes call c) s1 = (Ok out, ns', s')"
      using p Cons.prems by simp
    have "agree_off generated (fold change_effect cs (stored s1)) (fold change_effect (c # cs) (stored s))"
      using perform_ok[of c s u s1] p Inr agree_effects by simp
    with Cons.IH[OF step] show ?thesis by (auto intro: agree_trans)
  qed
qed (auto simp: agree_off_def)

lemma apply_changes_ok:
  assumes "apply_changes H call cs [] [] s = (Ok (Success rs m), ns', s')"
  shows "agree_off generated (stored s') (fold change_effect cs (stored s))" "ns' = concat (map (change_notes call) cs)"
  using apply_changes_out [OF assms] by (auto simp: refused_write_def)

lemma compute_change_step:
  assumes "compute_change H cwd s h = Some (Ok c)"
  shows "hunk_step cwd (stored s) h fs = Some (change_effect c fs)"
  using assms
  by (cases h) (auto simp: compute_change_def hunk_step_def change_effect_def read_file_as_string_def Let_def
      split: sum.splits option.splits dest!: read_ok)

lemma changes_in_order:
  assumes "compute_all_changes H cwd s hs = Some (Ok cs)" "distinct (touches cwd hs)"
    and "\<And>k. k \<in> set (touches cwd hs) \<Longrightarrow> fs k = stored s k"
  shows "apply_in_order cwd hs fs = Some (fold change_effect cs fs)"
  using assms
proof (induction hs arbitrary: cs fs)
  case (Cons h hs)
  then obtain c cs' where c: "compute_change H cwd s h = Some (Ok c)"
    "compute_all_changes H cwd s hs = Some (Ok cs')" "cs = c # cs'"
    by (auto split: option.splits sum.splits)
  have "hunk_step cwd fs h fs = Some (change_effect c fs)"
    using compute_change_step[OF c(1), of fs] hunk_step_cong[of fs cwd h "stored s" fs] Cons.prems(3) hd_touched[of cwd h]
    by simp
  moreover have "change_effect c fs k = stored s k" if "k \<in> set (touches cwd hs)" for k
    using change_effect_elsewhere[of k c fs] compute_change_paths[OF c(1)] Cons.prems(2,3) that by auto
  ultimately show ?case using Cons.IH[OF c(2)] Cons.prems(2) c(3) by simp
qed simp

lemma rewind_change:
  assumes "compute_change H cwd s h = Some (Ok c)" "revertible cwd (stored s) h" "distinct (touched cwd h)"
    and "\<And>k. k \<in> set (touched cwd h) \<Longrightarrow> fs k = stored s k"
  shows "rewind (change_notes call c) (change_effect c fs) = fs"
  using assms
  by (cases h) (auto simp: compute_change_def read_file_as_string_def Let_def revertible_def utf8_file_def touched_def
      change_notes_def change_effect_def rewind_def undo_write_def fun_eq_iff
      split: sum.splits option.splits dest!: read_ok)

lemma rewind_changes:
  assumes "compute_all_changes H cwd s hs = Some (Ok cs)" "distinct (touches cwd hs)"
    and "list_all (revertible cwd (stored s)) hs"
    and "\<And>k. k \<in> set (touches cwd hs) \<Longrightarrow> fs k = stored s k"
  shows "rewind (concat (map (change_notes call) cs)) (fold change_effect cs fs) = fs"
  using assms
proof (induction hs arbitrary: cs fs)
  case (Cons h hs)
  then obtain c cs' where c: "compute_change H cwd s h = Some (Ok c)"
    "compute_all_changes H cwd s hs = Some (Ok cs')" "cs = c # cs'"
    by (auto split: option.splits sum.splits)
  have "change_effect c fs k = stored s k" if "k \<in> set (touches cwd hs)" for k
    using change_effect_elsewhere[of k c fs] compute_change_paths[OF c(1)] Cons.prems(2,4) that by auto
  with Cons.IH[OF c(2)] Cons.prems(2,3)
  have "rewind (concat (map (change_notes call) cs')) (fold change_effect cs' (change_effect c fs)) = change_effect c fs"
    by simp
  moreover have "rewind (change_notes call c) (change_effect c fs) = fs"
    using rewind_change[OF c(1)] Cons.prems by simp
  ultimately show ?case by (simp add: c(3) rewind_append)
qed (simp add: rewind_def)

lemma run_cases:
  assumes "apply_patch_run H cwd call patch s = Some (r, ns, s')"
  obtains (early) out where "r = Ok out" "\<nexists>rs m. out = Success rs m" "ns = []" "s' = s"
  | (late) parsed cs where "parse_patch patch = Ok parsed" "compute_all_changes H cwd s (pp_hunks parsed) = Some (Ok cs)"
      "preflight_memory_v2_changes H s cs = Ok ()" "apply_changes H call cs [] [] s = (r, ns, s')"
  using assms by (auto simp: apply_patch_run_def split: sum.splits if_splits option.splits)

lemma run_order:
  assumes "apply_patch_run H cwd call patch s = Some (Ok (Success rs m), ns, s')"
    and "parse_patch patch = Ok parsed" "distinct (touches cwd (pp_hunks parsed))"
  shows "\<exists>fs. apply_in_order cwd (pp_hunks parsed) (stored s) = Some fs \<and> agree_off generated (stored s') fs"
  using assms(1)
proof (cases rule: run_cases)
  case (late parsed' cs)
  with assms(2) have "parsed' = parsed" by simp
  with changes_in_order[OF late(2)] assms(3) apply_changes_ok[OF late(4)] show ?thesis by simp
qed auto

lemma run_rewind:
  assumes "apply_patch_run H cwd call patch s = Some (Ok (Success rs m), ns, s')"
    and "parse_patch patch = Ok parsed" "distinct (touches cwd (pp_hunks parsed))"
    and "list_all (revertible cwd (stored s)) (pp_hunks parsed)"
  shows "agree_off generated (rewind ns (stored s')) (stored s)"
  using assms(1)
proof (cases rule: run_cases)
  case (late parsed' cs)
  with assms(2) have "parsed' = parsed" by simp
  with rewind_changes[OF late(2)] assms(3,4) apply_changes_ok[OF late(4)] show ?thesis
    using agree_rewind [of "stored s'" "fold change_effect cs (stored s)" ns] by simp
qed auto

lemma run_confined:
  assumes "apply_patch_run H cwd call patch s = Some (r, ns, s')"
    and "\<And>parsed. parse_patch patch = Ok parsed \<Longrightarrow> q \<notin> set (touches cwd (pp_hunks parsed))" "q \<notin> generated"
  shows "stored s' q = stored s q"
  using assms(1)
proof (cases rule: run_cases)
  case (late parsed cs)
  with apply_changes_elsewhere[OF late(4), of q] compute_all_paths[OF late(2)] assms(2)[OF late(1)] assms(3)
  show ?thesis by simp
qed simp

lemma preflight_passed:
  assumes "preflight_memory_v2_changes H s cs = Ok ()" "c \<in> set cs" "host_memory H = Some M"
    and "c = Add p t \<or> c = Update p old t"
  shows "\<exists>x. preflight_write M s p (str_bytes t) = Ok x"
proof -
  have "preflight_change H s c = Ok ()"
    using assms(1,2) by (induction cs) (auto simp: bind_result_def split: sum.splits)
  then show ?thesis using assms(3,4)
    by (auto simp: preflight_change_def preflight_memory_v2_write_def bind_result_def split: sum.splits)
qed

text \<open>An error output: nothing happened, or the policy refused a write that its preflight had admitted.\<close>

lemma run_rejected:
  assumes "apply_patch_run H cwd call patch s = Some (Ok out, ns, s')" "\<nexists>rs m. out = Success rs m"
  shows "s' = s \<and> ns = [] \<or>
    (\<exists>M p b x s1 e. host_memory H = Some M \<and> preflight_write M s p b = Ok x \<and>
       memory_write_file M s1 p b = (Err e, s') \<and> out = ApplicationError e)"
  using assms(1)
proof (cases rule: run_cases)
  case (late parsed cs)
  with apply_changes_out[OF late(4)] assms(2) obtain c where c: "c \<in> set cs" "refused_write H c out s'" by blast
  then obtain M s1 p t old e where "host_memory H = Some M" "c = Add p t \<or> c = Update p old t"
    "memory_write_file M s1 p (str_bytes t) = (Err e, s')" "out = ApplicationError e" by (auto simp: refused_write_def)
  then show ?thesis using preflight_passed [OF late(3) c(1)] by blast
qed auto

end

lemma run_total: "\<exists>r ns s'. apply_patch_run H cwd call patch s = Some (r, ns, s')"
proof (cases "parse_patch patch")
  case (Inr parsed)
  obtain r where "compute_all_changes H cwd s (pp_hunks parsed) = Some r" using compute_all_total[of H cwd s "pp_hunks parsed"] by auto
  with Inr show ?thesis by (auto simp: apply_patch_run_def intro: prod_cases3 split: sum.split)
qed (simp add: apply_patch_run_def)

text \<open>With a memory policy, a patch that deletes or moves a file of a memory directory is refused as a whole.\<close>

lemma preflight_fails:
  "c \<in> set cs \<Longrightarrow> isl (preflight_change H s c) \<Longrightarrow> isl (preflight_memory_v2_changes H s cs)"
proof (induction cs)
  case (Cons c' cs)
  then show ?case by (cases "preflight_change H s c'") auto
qed simp

lemma memory_files_kept:
  assumes "host_memory H = Some M" "validate_read M s p = Ok True"
    and "parse_patch patch = Ok parsed" "compute_all_changes H cwd s (pp_hunks parsed) = Some (Ok cs)"
    and "Delete p t \<in> set cs \<or> Move p q t t' \<in> set cs"
  shows "\<exists>msg. apply_patch_run H cwd call patch s = Some (Ok (ApplicationError msg), [], s)"
proof -
  have "isl (preflight_change H s (Delete p t))" "isl (preflight_change H s (Move p q t t'))"
    using assms(1,2) by (simp_all add: preflight_change_def reject_memory_v2_destructive_path_def validate_memory_v2_read_def)
  with preflight_fails assms(5) have "isl (preflight_memory_v2_changes H s cs)" by metis
  moreover have "pp_hunks parsed \<noteq> []" using assms(4,5) by auto
  ultimately show ?thesis using assms(3,4) by (auto simp: apply_patch_run_def split: sum.split)
qed

section \<open>Hosts\<close>

definition local_host :: "bool \<Rightarrow> Faults \<Rightarrow> Disk MemoryV2Access option \<Rightarrow> Disk PatchHost" where
  "local_host windows F policy =
     \<lparr> host_fs = LocalFs windows (faulty_disk F),
       host_create_dir_all = (\<lambda>d p. apfst (map_sum io_message id) (os_create_dir_all (faulty_disk F) d p)),
       host_memory = policy \<rparr>"

definition mock_host :: "files PatchHost" where
  "mock_host = \<lparr> host_fs = MockFs, host_create_dir_all = (\<lambda>fs p. (Ok (), fs)), host_memory = None \<rparr>"

interpretation no_policy: memory_policy None stored "{}" for stored
  by unfold_locales simp_all

lemma local_host_fs:
  "host_fs (local_host windows F policy) = LocalFs windows (faulty_disk F)" "host_memory (local_host windows F policy) = policy"
  by (simp_all add: local_host_def)

text \<open>The local host keeps the contract with every memory policy that keeps its own.\<close>

lemma local_host_contract:
  "memory_policy policy disk_files generated \<Longrightarrow> patch_host (local_host windows F policy) disk_files generated"
  by (intro patch_host.intro patch_host_axioms.intro, unfold local_host_fs, rule disk.local_fs.async_file_system_axioms)
    (auto simp: local_host_def apfst_def map_prod_def split: prod.splits dest: disk.os_mkdir)

interpretation local_patch: patch_host "local_host windows F None" disk_files "{}" for windows F
  by (intro local_host_contract no_policy.memory_policy_axioms)

interpretation mock_patch: patch_host mock_host "\<lambda>fs. fs" "{}"
  by (intro patch_host.intro patch_host_axioms.intro)
    (simp_all add: mock_host_def mock_fs.async_file_system_axioms no_policy.memory_policy_axioms)

section \<open>Concrete runs\<close>

definition swap_line :: "uchar \<Rightarrow> uchar \<Rightarrow> UpdateFileChunk" where
  "swap_line a b = \<lparr> change_context = None, old_lines = [[a]], new_lines = [[b]], is_end_of_file = False \<rparr>"

lemma swap_derived:
  assumes "split_char 10 t = ls @ [a] # rs @ [[]]" "[a] \<notin> set ls" "last ([b] # rs) \<noteq> []"
  shows "derive_new_contents t p [swap_line a b] = Some (Ok (join [10] (ls @ [b] # rs @ [[]])))"
proof -
  have "seek_sequence (ls @ [a] # rs) [[a]] 0 False = Some (length ls)"
    using assms(2) by (intro seek_exact_at) (auto simp: take_Suc hd_drop_conv_nth nth_append dest: nth_mem split: if_splits)
  then have "compute_replacements (ls @ [a] # rs) p [swap_line a b] = Ok [(length ls, 1, [[b]])]"
    by (simp add: compute_replacements_def swap_line_def locate_chunk_def ends_blank_def Let_def)
  moreover have "apply_replacements (ls @ [a] # rs) [(length ls, 1, [[b]])] = Some (ls @ [b] # rs)"
    by (simp add: apply_replacements_def remove_at_def insert_at_def)
  moreover have "ends_blank (split_char 10 t)" "butlast (split_char 10 t) = ls @ [a] # rs"
    using assms(1) by (simp_all add: ends_blank_def butlast_append)
  moreover have "\<not> ends_blank (ls @ [b] # rs)" using assms(3) by (simp add: ends_blank_def)
  ultimately show ?thesis by (simp add: derive_new_contents_def Let_def)
qed

lemma swap_one: "derive_new_contents [120, 10] p [swap_line 120 b] = Some (Ok [b, 10])"
  using swap_derived[of "[120, 10]" "[]" 120 "[]" b p] by simp

lemma swap_first: "y \<noteq> 10 \<Longrightarrow> derive_new_contents [120, 10, y, 10] p [swap_line 120 b] = Some (Ok [b, 10, y, 10])"
  using swap_derived[of "[120, 10, y, 10]" "[]" 120 "[[y]]" b p] by simp

lemma swap_second: "derive_new_contents [120, 10, 121, 10] p [swap_line 121 b] = Some (Ok [120, 10, b, 10])"
  using swap_derived[of "[120, 10, 121, 10]" "[[120]]" 121 "[]" b p] by simp

lemmas swaps = swap_one swap_first swap_second

definition wd :: rstr where "wd = [47, 119]"

definition path_a :: rstr where "path_a = [97]"

definition no_faults :: Faults where
  "no_faults = \<lparr> refused = (\<lambda>n p. None), left_behind = (\<lambda>n. None) \<rparr>"

definition demo_disk :: Disk where
  "demo_disk =
     \<lparr> disk_files = [components [47, 119, 47, 97] \<mapsto> [120, 10], components [47, 119, 47, 98] \<mapsto> [122]], disk_calls = 0 \<rparr>"

text \<open>A policy that keeps one topic, \<open>/w/t\<close>, and lists it in the manifest \<open>/w/m\<close>.\<close>

definition topic :: "Component list" where "topic = [RootDir, Normal [119], Normal [116]]"

definition manifest :: "Component list" where "manifest = [RootDir, Normal [119], Normal [109]]"

definition demo_policy :: "Disk MemoryV2Access" where
  "demo_policy =
     \<lparr> validate_read = (\<lambda>d p. Ok (components p \<in> {topic, manifest})),
       preflight_write = (\<lambda>d p b. if components p = manifest then Err [110] else Ok (components p = topic)),
       memory_write_file = (\<lambda>d p b.
         if components p = manifest then (Err [110], d)
         else if components p = topic
         then (Ok (Written (disk_files d topic)), d\<lparr>disk_files := (disk_files d)(topic \<mapsto> b, manifest \<mapsto> [116])\<rparr>)
         else (Ok Outside, d)) \<rparr>"

interpretation demo: memory_policy "Some demo_policy" disk_files "{manifest}"
  by unfold_locales (auto simp: demo_policy_def topic_def manifest_def split: if_splits)

definition demo_hunks :: "Hunk list" where
  "demo_hunks = [UpdateFile path_a (Some [99]) [swap_line 120 121], AddFile [116] [110, 10]]"

lemma demo_paths [simp]:
  "path_join wd path_a = [47, 119, 47, 97]" "path_join wd [99] = [47, 119, 47, 99]" "path_join wd [46, 47, 97] = [47, 119, 47, 46, 47, 97]"
  "path_join wd [116] = [47, 119, 47, 116]"
  "components [47, 119, 47, 97] = [RootDir, Normal [119], Normal [97]]"
  "components [47, 119, 47, 98] = [RootDir, Normal [119], Normal [98]]"
  "components [47, 119, 47, 99] = [RootDir, Normal [119], Normal [99]]"
  "components [47, 119, 47, 116] = [RootDir, Normal [119], Normal [116]]"
  "components [47, 119, 47, 46, 47, 97] = [RootDir, Normal [119], Normal [97]]"
  by (simp_all add: wd_def path_a_def components_def component_of_def is_absolute_def path_join_def Let_def)

lemma demo_wf:
  "wf_path path_a" "wf_path [116]" "wf_path [99]"
  "wf_chunk (swap_line 120 b) \<longleftrightarrow> b \<noteq> 10 \<and> b \<noteq> 13" "wf_chunk (swap_line 121 b) \<longleftrightarrow> b \<noteq> 10 \<and> b \<noteq> 13"
  by (auto simp: wf_path_def wf_chunk_def swap_line_def path_a_def clean_def is_whitespace_def)

lemma demo_parse: "parse_patch (print_patch demo_hunks) = Ok \<lparr> pp_hunks = demo_hunks, pp_patch = print_patch demo_hunks \<rparr>"
  by (rule print_patch_parses) (simp add: demo_hunks_def demo_wf clean_def)

lemma demo_checks:
  "distinct (touches wd demo_hunks)"
  "list_all (revertible wd (disk_files demo_disk)) demo_hunks"
  "components [47, 119, 47, 98] \<notin> set (touches wd demo_hunks)" "components [47, 119, 47, 98] \<notin> {manifest}"
  by (simp_all add: demo_hunks_def touched_def revertible_def utf8_file_def demo_disk_def utf8_step_def utf8_char_def manifest_def)

abbreviation demo_run :: "(outcome \<times> FileWritten list \<times> Disk) option" where
  "demo_run \<equiv> apply_patch_run (local_host False no_faults (Some demo_policy)) wd [105] (print_patch demo_hunks) demo_disk"

lemmas demo_evals = perform_change_def and_then_def ensure_parent_dirs_def path_parent_def
  fs_write_def fs_delete_def memory_or_def write_via_memory_v2_def write_memory_v2_file_def LocalFs_def LocalFs_write_file_def
  no_retries_off_windows lift_io_def faulty_disk_def no_faults_def tick_def path_text_def

lemma demo_succeeds: "\<exists>rs m ns d'. demo_run = Some (Ok (Success rs m), ns, d')"
proof -
  have "compute_all_changes (local_host False no_faults (Some demo_policy)) wd demo_disk demo_hunks =
      Some (Ok [Move [47, 119, 47, 97] [47, 119, 47, 99] [120, 10] [121, 10], Add [47, 119, 47, 116] [110, 10]])"
    by (simp add: demo_hunks_def compute_change_def read_file_as_string_def local_host_def LocalFs_def lift_io_def
        faulty_disk_def no_faults_def demo_disk_def utf8_step_def swaps Let_def)
  moreover have "demo_hunks \<noteq> []" by (simp add: demo_hunks_def)
  ultimately show ?thesis
    by (simp add: apply_patch_run_def demo_parse preflight_change_def reject_memory_v2_destructive_path_def
        validate_memory_v2_read_def preflight_memory_v2_write_def local_host_def demo_policy_def topic_def manifest_def
        demo_disk_def demo_evals)
qed

section \<open>Properties\<close>

text \<open>
  C31: When \<open>apply_patch\<close> reports success, whatever faults the disk had, and the patch names no file twice, the
  files are what its hunks make of them one after the other, each applied to the result of those before. With
  a memory policy active this holds of every file but those the policy generates itself; without one, of
  every file.
\<close>

theorem patch_in_order:
  assumes "memory_policy policy disk_files generated"
    and "apply_patch_run (local_host windows F policy) cwd call patch d = Some (Ok (Success rs m), ns, d')"
    and "parse_patch patch = Ok parsed" "distinct (touches cwd (pp_hunks parsed))"
  shows "(\<exists>fs. apply_in_order cwd (pp_hunks parsed) (disk_files d) = Some fs \<and> (\<forall>q. q \<notin> generated \<longrightarrow> disk_files d' q = fs q)) \<and>
    (policy = None \<longrightarrow> apply_in_order cwd (pp_hunks parsed) (disk_files d) = Some (disk_files d'))"
  using patch_host.run_order[OF local_host_contract[OF assms(1)] assms(2-4)]
    local_patch.run_order[of windows F cwd call patch d rs m ns d' parsed] assms(2-4)
  by (auto simp: agree_off_def fun_eq_iff)

theorem patch_in_order_witness:
  "\<exists>out ns d' fs. demo_run = Some (out, ns, d') \<and> apply_in_order wd demo_hunks (disk_files demo_disk) = Some fs \<and>
     (\<forall>q. q \<noteq> manifest \<longrightarrow> disk_files d' q = fs q)"
proof -
  obtain rs m ns d' where run: "demo_run = Some (Ok (Success rs m), ns, d')" using demo_succeeds by blast
  from patch_in_order[OF demo.memory_policy_axioms run demo_parse] run demo_checks(1) show ?thesis by auto
qed

text \<open>
  C32: Whatever the patch, the faults of the disk and the memory policy, \<open>apply_patch\<close> returns, and no file changes
  that the patch does not name and the policy does not generate. When it reports an error as its output, nothing
  was written and nobody notified, with one exception: a memory policy that refuses, in the third phase, a
  write its preflight had admitted; its message is the output then, and the changes before it stay written.
  Without a memory policy there is no exception.
\<close>

theorem patch_confined:
  assumes "memory_policy policy disk_files generated"
  shows "\<exists>r ns d'. apply_patch_run (local_host windows F policy) cwd call patch d = Some (r, ns, d') \<and>
     (\<forall>q. (\<forall>parsed. parse_patch patch = Ok parsed \<longrightarrow> q \<notin> set (touches cwd (pp_hunks parsed))) \<longrightarrow> q \<notin> generated \<longrightarrow>
        disk_files d' q = disk_files d q) \<and>
     (\<forall>out. r = Ok out \<longrightarrow> (\<nexists>rs m. out = Success rs m) \<longrightarrow> d' = d \<and> ns = [] \<or>
        (\<exists>M p b x d1 e. policy = Some M \<and> preflight_write M d p b = Ok x \<and>
           memory_write_file M d1 p b = (Err e, d') \<and> out = ApplicationError e))"
proof -
  note host = local_host_contract[OF assms, of windows F]
  obtain r ns d' where run: "apply_patch_run (local_host windows F policy) cwd call patch d = Some (r, ns, d')"
    using run_total[of "local_host windows F policy" cwd call patch d] by blast
  then show ?thesis
    using patch_host.run_confined[OF host run] patch_host.run_rejected[OF host, of cwd call patch d _ ns d']
    unfolding local_host_fs by blast
qed

theorem patch_confined_witness:
  "\<exists>r ns d'. demo_run = Some (r, ns, d') \<and> disk_files d' (components [47, 119, 47, 98]) = Some [122]"
proof -
  obtain r ns d' where run: "demo_run = Some (r, ns, d')"
    and others: "\<And>q. (\<And>parsed. parse_patch (print_patch demo_hunks) = Ok parsed \<Longrightarrow> q \<notin> set (touches wd (pp_hunks parsed))) \<Longrightarrow>
      q \<notin> {manifest} \<Longrightarrow> disk_files d' q = disk_files demo_disk q"
    using patch_confined[OF demo.memory_policy_axioms, of False no_faults wd "[105]" "print_patch demo_hunks" demo_disk] by blast
  have "disk_files d' (components [47, 119, 47, 98]) = disk_files demo_disk (components [47, 119, 47, 98])"
    using demo_parse demo_checks(3,4) by (intro others) simp_all
  with run show ?thesis by (simp add: demo_disk_def)
qed

text \<open>
  C33: The notifications of a successful patch undo it: restoring the previous contents they carry, last first,
  gives the files as they were, provided the patch names no file twice, adds and moves only to names
  that are free, and edits only files that are valid UTF-8. With a memory policy active the files the policy
  generates itself are excepted.
\<close>

theorem patch_rewinds:
  assumes "memory_policy policy disk_files generated"
    and "apply_patch_run (local_host windows F policy) cwd call patch d = Some (Ok (Success rs m), ns, d')"
    and "parse_patch patch = Ok parsed" "distinct (touches cwd (pp_hunks parsed))"
    and "list_all (revertible cwd (disk_files d)) (pp_hunks parsed)"
  shows "(\<forall>q. q \<notin> generated \<longrightarrow> rewind ns (disk_files d') q = disk_files d q) \<and>
    (policy = None \<longrightarrow> rewind ns (disk_files d') = disk_files d)"
  using patch_host.run_rewind[OF local_host_contract[OF assms(1)] assms(2-5)]
    local_patch.run_rewind[of windows F cwd call patch d rs m ns d' parsed] assms(2-5)
  by (auto simp: agree_off_def fun_eq_iff)

theorem patch_rewinds_witness:
  "\<exists>out ns d'. demo_run = Some (out, ns, d') \<and> (\<forall>q. q \<noteq> manifest \<longrightarrow> rewind ns (disk_files d') q = disk_files demo_disk q)"
proof -
  obtain rs m ns d' where run: "demo_run = Some (Ok (Success rs m), ns, d')" using demo_succeeds by blast
  from patch_rewinds[OF demo.memory_policy_axioms run demo_parse] run demo_checks(1,2) show ?thesis by auto
qed

section \<open>A refusal after writing\<close>

text \<open>
  A policy that admits a write and cannot complete it, as with a full disk: the first file of the patch is
  written and announced, and the output says that the patch could not be applied.
\<close>

definition full_policy :: "Disk MemoryV2Access" where
  "full_policy = demo_policy\<lparr>memory_write_file := (\<lambda>d p b. if components p = topic then (Err [102], d) else (Ok Outside, d))\<rparr>"

interpretation full: memory_policy "Some full_policy" disk_files "{manifest}"
  by unfold_locales (auto simp: full_policy_def split: if_splits)

lemma refused_after_writing:
  "\<exists>ns d'. apply_patch_run (local_host False no_faults (Some full_policy)) wd [105]
       (print_patch [AddFile [99] [120, 10], AddFile [116] [110, 10]]) demo_disk = Some (Ok (ApplicationError [102]), ns, d') \<and>
     map absolute_path ns = [[47, 119, 47, 99]] \<and> disk_files d' (components [47, 119, 47, 99]) = Some [120, 10]"
proof -
  let ?hs = "[AddFile [99] [120, 10], AddFile [116] [110, 10]]"
  have "parse_patch (print_patch ?hs) = Ok \<lparr> pp_hunks = ?hs, pp_patch = print_patch ?hs \<rparr>"
    by (rule print_patch_parses) (simp add: demo_wf clean_def)
  then show ?thesis
    by (simp add: apply_patch_run_def compute_change_def preflight_change_def preflight_memory_v2_write_def local_host_def
        full_policy_def demo_policy_def topic_def manifest_def demo_disk_def demo_evals change_notes_def utf8_char_def)
qed

section \<open>Where order and notifications fail\<close>

lemma mock_run:
  assumes "list_all wf_hunk hs" "hs \<noteq> []" "compute_all_changes mock_host wd fs hs = Some (Ok cs)"
  shows "\<exists>rs m. apply_patch_run mock_host wd [105] (print_patch hs) fs =
    Some (Ok (Success rs m), concat (map (change_notes [105]) cs), fold change_effect cs fs)"
proof -
  have performed: "perform_change mock_host c s = (Inr (), change_effect c s)" for c s
    by (cases c) (simp_all add: perform_change_def change_effect_def and_then_def ensure_parent_dirs_def fs_write_def
        fs_delete_def mock_host_def MockFs_def memory_or_def write_via_memory_v2_def write_memory_v2_file_def split: option.split)
  have applied: "\<exists>rs m. apply_changes mock_host [105] cs results ns s =
      (Ok (Success rs m), ns @ concat (map (change_notes [105]) cs), fold change_effect cs s)" for cs results ns s
  proof (induction cs arbitrary: results ns s)
    case (Cons c cs)
    then show ?case using Cons.IH[of "results @ [change_result c]" "ns @ change_notes [105] c" "change_effect c s"]
      by (simp add: performed)
  qed simp
  have "preflight_memory_v2_changes mock_host fs cs = Ok ()" for cs
    by (induction cs) (auto simp: preflight_change_def preflight_memory_v2_write_def reject_memory_v2_destructive_path_def
        validate_memory_v2_read_def mock_host_def split: FileChange.split)
  with applied[of cs "[]" "[]" fs] assms show ?thesis by (simp add: apply_patch_run_def print_patch_parses)
qed

lemmas mock_compute = Let_def compute_change_def read_file_as_string_def mock_host_def MockFs_def utf8_step_def swaps change_effect_def
  change_notes_def

text \<open>Every change is computed from the files as they were before the patch, so of two hunks that update one
  file only the last has an effect, although both are reported as done.\<close>

lemma second_update_wins:
  "\<exists>rs m ns fs'. apply_patch_run mock_host wd [105]
      (print_patch [UpdateFile path_a None [swap_line 120 88], UpdateFile path_a None [swap_line 121 89]])
      [components [47, 119, 47, 97] \<mapsto> [120, 10, 121, 10]] = Some (Ok (Success rs m), ns, fs') \<and>
    fs' (components [47, 119, 47, 97]) = Some [120, 10, 89, 10]"
  using mock_run[of "[UpdateFile path_a None [swap_line 120 88], UpdateFile path_a None [swap_line 121 89]]"
      "[components [47, 119, 47, 97] \<mapsto> [120, 10, 121, 10]]"]
  by (auto simp: demo_wf mock_compute utf8_char_def)

text \<open>A move to the file's own name writes the new text and then deletes it.\<close>

lemma move_to_self_deletes:
  "\<exists>rs m ns fs'. apply_patch_run mock_host wd [105]
      (print_patch [UpdateFile path_a (Some [46, 47, 97]) [swap_line 120 121]])
      [components [47, 119, 47, 97] \<mapsto> [120, 10]] = Some (Ok (Success rs m), ns, fs') \<and>
    fs' (components [47, 119, 47, 97]) = None"
  using mock_run[of "[UpdateFile path_a (Some [46, 47, 97]) [swap_line 120 121]]" "[components [47, 119, 47, 97] \<mapsto> [120, 10]]"]
  by (auto simp: demo_wf mock_compute clean_def)

text \<open>Adding a file that exists replaces it and announces a new file without its previous content.\<close>

lemma add_existing_loses_previous:
  "\<exists>rs m ns fs'. apply_patch_run mock_host wd [105] (print_patch [AddFile path_a [121, 10]])
      [components [47, 119, 47, 97] \<mapsto> [120, 10]] = Some (Ok (Success rs m), ns, fs') \<and>
    map previous_content ns = [None] \<and> map is_new_file ns = [True] \<and> rewind ns fs' (components [47, 119, 47, 97]) = None"
proof -
  have "compute_all_changes mock_host wd [components [47, 119, 47, 97] \<mapsto> [120, 10]] [AddFile path_a [121, 10]] =
      Some (Ok [Add [47, 119, 47, 97] [121, 10]])" by (simp add: compute_change_def)
  from mock_run[OF _ _ this] show ?thesis
    by (auto simp: demo_wf clean_def change_notes_def rewind_def undo_write_def)
qed

text \<open>Bytes that are not UTF-8 anywhere in an updated file are rewritten as the replacement character.\<close>

lemma update_rewrites_invalid_bytes:
  "\<exists>rs m ns fs'. apply_patch_run mock_host wd [105] (print_patch [UpdateFile path_a None [swap_line 120 121]])
      [components [47, 119, 47, 97] \<mapsto> [120, 10, 255, 10]] = Some (Ok (Success rs m), ns, fs') \<and>
    fs' (components [47, 119, 47, 97]) = Some [121, 10, 239, 191, 189, 10]"
  using mock_run[of "[UpdateFile path_a None [swap_line 120 121]]" "[components [47, 119, 47, 97] \<mapsto> [120, 10, 255, 10]]"]
  by (auto simp: demo_wf mock_compute in_range_def REPLACEMENT_def utf8_char_def)

end
