(* ===== verification/Rate_Limiter.thy ===== *)
theory Rate_Limiter
  imports Prelude
begin

text \<open>
  The monitor's rate limiter,
  \<open>xai-grok-tools/src/implementations/grok_build/monitor/rate_limiter.rs\<close>: a token bucket, the
  tracker of suppressed events with its auto-kill, and their combination. Instants and durations
  are nanoseconds; every reading of the clock is an argument. The bucket divides by its refill
  interval in milliseconds, and a zero interval panics (\<open>None\<close>).
\<close>

section \<open>Definitions\<close>

definition RATE_LIMIT_REFILL_MS :: nat where "RATE_LIMIT_REFILL_MS = 2000"
definition AUTO_KILL_THRESHOLD_MS :: nat where "AUTO_KILL_THRESHOLD_MS = 30000"

definition millis :: "nat \<Rightarrow> nat" where "millis n = n * 10 ^ 6"

record TokenBucket =
  capacity :: nat
  tokens :: nat
  refill_interval :: nat
  last_refill :: nat

definition TokenBucket_new :: "nat \<Rightarrow> nat \<Rightarrow> nat \<Rightarrow> TokenBucket" where
  "TokenBucket_new cap refill_interval_ms now =
     \<lparr>capacity = cap, tokens = cap, refill_interval = millis refill_interval_ms, last_refill = now\<rparr>"

definition try_consume :: "nat \<Rightarrow> TokenBucket \<Rightarrow> (TokenBucket \<times> bool) option" where
  "try_consume now b =
     (if refill_interval b div 10 ^ 6 = 0 then None
      else let elapsed = now - last_refill b;
               refills = ((elapsed div 10 ^ 6) div (refill_interval b div 10 ^ 6)) mod 2 ^ 32;
               b1 = (if 0 < refills
                     then b\<lparr>tokens := min (sat_add u32_max (tokens b) refills) (capacity b),
                            last_refill := last_refill b + refill_interval b * refills\<rparr>
                     else b)
           in Some (if 0 < tokens b1 then (b1\<lparr>tokens := tokens b1 - 1\<rparr>, True) else (b1, False)))"

record SuppressionTracker =
  suppressed_count :: nat
  last_suppression :: "nat option"
  suppression_start :: "nat option"
  killed :: bool
  kill_tool_name :: rstr

definition SuppressionTracker_new :: SuppressionTracker where
  "SuppressionTracker_new = \<lparr>suppressed_count = 0, last_suppression = None, suppression_start = None,
     killed = False, kill_tool_name = []\<rparr>"

datatype RateLimitOutcome =
    Allowed "rstr option"
  | Suppressed
  | AutoKill rstr

definition catch_up_text :: "SuppressionTracker \<Rightarrow> rstr" where
  "catch_up_text s =
     lit ''['' @ show_dec (suppressed_count s) @
     lit '' events suppressed -- output rate too high. Consider using '' @
     (if kill_tool_name s = [] then lit ''kill_command_or_subagent'' else kill_tool_name s) @
     lit '' to restart this monitor with a more selective filter.]''"

definition auto_kill_text :: "nat \<Rightarrow> nat \<Rightarrow> rstr" where
  "auto_kill_text n secs =
     lit ''[Monitor stopped -- your script produced too much output ('' @ show_dec n @
     lit '' events suppressed over '' @ show_dec secs @
     lit ''s). Write a new monitor command that filters more aggressively -- pipe through grep --line-buffered, awk, or a wrapper script that only emits the specific events you need.]''"

text \<open>The clock is read up to three times: for \<open>last_suppression\<close>, for \<open>suppression_start\<close> and for
  the elapsed time.\<close>

definition process_event_at :: "nat \<Rightarrow> nat \<Rightarrow> nat \<Rightarrow> bool \<Rightarrow> SuppressionTracker \<Rightarrow> SuppressionTracker \<times> RateLimitOutcome" where
  "process_event_at t1 t2 t3 token_available s =
     (if killed s then (s, Suppressed)
      else if token_available then
        (if 0 < suppressed_count s then
           (let s1 = s\<lparr>suppressed_count := 0\<rparr>;
                s2 = (case last_suppression s1 of
                        Some lst \<Rightarrow> if millis (RATE_LIMIT_REFILL_MS * 3) < t1 - lst
                                   then s1\<lparr>suppression_start := None\<rparr> else s1
                      | None \<Rightarrow> s1)
            in (s2, Allowed (Some (catch_up_text s))))
         else (s, Allowed None))
      else
        (let s1 = s\<lparr>suppressed_count := (suppressed_count s + 1) mod 2 ^ 64, last_suppression := Some t1\<rparr>;
             s2 = (if suppression_start s1 = None then s1\<lparr>suppression_start := Some t2\<rparr> else s1)
         in case suppression_start s2 of
              Some start \<Rightarrow>
                if millis AUTO_KILL_THRESHOLD_MS < t3 - start
                then (s2\<lparr>killed := True\<rparr>, AutoKill (auto_kill_text (suppressed_count s2) ((t3 - start) div 10 ^ 9)))
                else (s2, Suppressed)
            | None \<Rightarrow> (s2, Suppressed)))"

record MonitorRateLimiter =
  bucket :: TokenBucket
  suppression :: SuppressionTracker

definition MonitorRateLimiter_new :: "nat \<Rightarrow> nat \<Rightarrow> nat \<Rightarrow> MonitorRateLimiter" where
  "MonitorRateLimiter_new cap refill_interval_ms now =
     \<lparr>bucket = TokenBucket_new cap refill_interval_ms now, suppression = SuppressionTracker_new\<rparr>"

definition with_kill_tool_name :: "rstr \<Rightarrow> MonitorRateLimiter \<Rightarrow> MonitorRateLimiter" where
  "with_kill_tool_name name m = m\<lparr>suppression := (suppression m)\<lparr>kill_tool_name := name\<rparr>\<rparr>"

definition process_event :: "nat \<Rightarrow> nat \<Rightarrow> nat \<Rightarrow> nat \<Rightarrow> MonitorRateLimiter \<Rightarrow>
    (MonitorRateLimiter \<times> RateLimitOutcome) option" where
  "process_event t0 t1 t2 t3 m =
     map_option (\<lambda>(b, available).
       let (s, out) = process_event_at t1 t2 t3 available (suppression m)
       in (\<lparr>bucket = b, suppression = s\<rparr>, out)) (try_consume t0 (bucket m))"

definition is_killed :: "MonitorRateLimiter \<Rightarrow> bool" where
  "is_killed m \<longleftrightarrow> killed (suppression m)"

section \<open>The bucket\<close>

text \<open>Tokens handed out over a series of attempts.\<close>

fun consume_all :: "nat list \<Rightarrow> TokenBucket \<Rightarrow> (TokenBucket \<times> nat) option" where
  "consume_all [] b = Some (b, 0)"
| "consume_all (t # ts) b =
     Option.bind (try_consume t b) (\<lambda>(b1, ok).
       map_option (\<lambda>(b2, n). (b2, n + (if ok then 1 else 0))) (consume_all ts b1))"

text \<open>
  \<open>credit t0 b\<close>: the refills granted since \<open>t0\<close>. The bucket law is that tokens given out and tokens
  left never exceed the capacity plus the refills.
\<close>

definition bucket_law :: "nat \<Rightarrow> nat \<Rightarrow> nat \<Rightarrow> nat \<Rightarrow> TokenBucket \<Rightarrow> bool" where
  "bucket_law cap iv t0 given b \<longleftrightarrow>
     capacity b = cap \<and> refill_interval b = millis iv \<and> tokens b \<le> cap \<and>
     (\<exists>k. last_refill b = t0 + millis iv * k \<and> given + tokens b \<le> cap + k)"

lemma try_consume_law:
  assumes law: "bucket_law cap iv t0 given b" and iv: "0 < iv" and now: "last_refill b \<le> now"
  shows "\<exists>b' ok. try_consume now b = Some (b', ok) \<and>
    bucket_law cap iv t0 (given + (if ok then 1 else 0)) b' \<and> last_refill b' \<le> now"
proof -
  obtain k where k: "capacity b = cap" "refill_interval b = millis iv" "tokens b \<le> cap"
    "last_refill b = t0 + millis iv * k" "given + tokens b \<le> cap + k"
    using law by (auto simp: bucket_law_def)
  let ?e = "now - last_refill b"
  define r where "r = ((?e div 10 ^ 6) div iv) mod 2 ^ 32"
  have "iv * r \<le> iv * ((?e div 10 ^ 6) div iv)" by (simp add: r_def)
  also have "\<dots> \<le> ?e div 10 ^ 6" by (rule times_div_less_eq_dividend)
  finally have "iv * r * 10 ^ 6 \<le> ?e div 10 ^ 6 * 10 ^ 6" by (rule mult_le_mono1)
  also have "\<dots> \<le> ?e" by (rule div_times_less_eq_dividend)
  finally have le: "last_refill b + millis iv * r \<le> now"
    using now by (simp add: millis_def ac_simps)
  let ?b1 = "b\<lparr>tokens := min (sat_add u32_max (tokens b) r) cap, last_refill := last_refill b + millis iv * r\<rparr>"
  define b1 where "b1 = (if 0 < r then ?b1 else b)"
  have b1: "bucket_law cap iv t0 given b1" "last_refill b1 \<le> now"
  proof -
    have "last_refill ?b1 = t0 + millis iv * (k + r)" by (simp add: k(4) algebra_simps)
    moreover have "given + tokens ?b1 \<le> cap + (k + r)" using k(5) by (simp add: sat_add_def)
    ultimately have "bucket_law cap iv t0 given ?b1" using k by (auto simp: bucket_law_def)
    then show "bucket_law cap iv t0 given b1" using law by (simp add: b1_def)
    show "last_refill b1 \<le> now" using le now by (simp add: b1_def)
  qed
  have ivd: "millis iv div 10 ^ 6 = iv" unfolding millis_def by (rule div_mult_self_is_m) simp
  have tc: "try_consume now b = Some (if 0 < tokens b1 then (b1\<lparr>tokens := tokens b1 - 1\<rparr>, True) else (b1, False))"
    unfolding try_consume_def Let_def k(1,2) ivd r_def [symmetric] b1_def using iv by simp
  show ?thesis
  proof (cases "0 < tokens b1")
    case True
    obtain k' where k': "capacity b1 = cap" "refill_interval b1 = millis iv" "tokens b1 \<le> cap"
      "last_refill b1 = t0 + millis iv * k'" "given + tokens b1 \<le> cap + k'"
      using b1(1) unfolding bucket_law_def by blast
    have "bucket_law cap iv t0 (given + 1) (b1\<lparr>tokens := tokens b1 - 1\<rparr>)"
      unfolding bucket_law_def using k' True by (intro conjI exI [of _ k']) simp_all
    then show ?thesis using tc b1(2) True by auto
  next
    case False
    then show ?thesis using b1 tc by auto
  qed
qed

lemma consume_all_law:
  "bucket_law cap iv t0 given b \<Longrightarrow> 0 < iv \<Longrightarrow> sorted ts \<Longrightarrow> \<forall>t\<in>set ts. last_refill b \<le> t \<and> t \<le> T \<Longrightarrow> last_refill b \<le> T \<Longrightarrow>
     \<exists>b' n. consume_all ts b = Some (b', n) \<and> bucket_law cap iv t0 (given + n) b' \<and> last_refill b' \<le> T"
proof (induction ts arbitrary: given b)
  case (Cons t ts)
  obtain b1 ok where b1: "try_consume t b = Some (b1, ok)"
    "bucket_law cap iv t0 (given + (if ok then 1 else 0)) b1" "last_refill b1 \<le> t"
    using try_consume_law [of cap iv t0 given b t] Cons.prems by auto
  have "\<exists>b' n. consume_all ts b1 = Some (b', n) \<and>
      bucket_law cap iv t0 (given + (if ok then 1 else 0) + n) b' \<and> last_refill b' \<le> T"
    using Cons.prems b1 by (intro Cons.IH) force+
  then show ?case by (auto simp: b1(1) ac_simps split: if_splits)
qed auto

section \<open>The tracker\<close>

lemma killed_stays: "killed s \<Longrightarrow> process_event_at t1 t2 t3 ok s = (s, Suppressed)"
  by (simp add: process_event_at_def)

text \<open>
  The start of a suppression is forgotten only by the first event allowed after it, and only when
  more than three refill intervals have passed by then. A burst that subsides sooner leaves the
  start behind; the next suppressed event, however much later, is then measured from it. Below, two
  suppressed events an hour apart with a quiet hour between them stop the monitor.
\<close>

definition brief_burst :: SuppressionTracker where
  "brief_burst = fst (process_event_at (millis 1000) (millis 1000) (millis 1000) True
     (fst (process_event_at 0 0 0 False SuppressionTracker_new)))"

lemma brief_burst_kills_later:
  "suppressed_count brief_burst = 0 \<and>
   process_event_at (millis 3600000) (millis 3600000) (millis 3600000) True brief_burst = (brief_burst, Allowed None) \<and>
   snd (process_event_at (millis 3601000) (millis 3601000) (millis 3601000) False brief_burst) =
     AutoKill (auto_kill_text 1 3601)"
  by (simp add: brief_burst_def process_event_at_def SuppressionTracker_new_def millis_def
      RATE_LIMIT_REFILL_MS_def AUTO_KILL_THRESHOLD_MS_def Let_def)

section \<open>Properties\<close>

text \<open>A bucket whose refill interval is zero milliseconds divides by it.\<close>

lemma zero_interval_panics: "try_consume t (TokenBucket_new cap 0 t0) = None"
  by (simp add: try_consume_def TokenBucket_new_def millis_def)

text \<open>
  C40: the bucket bounds the rate. From a new bucket with a positive refill interval, over any attempts
  at non-decreasing clock readings between its creation and \<open>T\<close>, no attempt panics and at most the
  capacity plus one token per full refill interval since creation is handed out. A bucket made with a
  refill interval of zero panics at its first attempt.
\<close>

theorem bucket_bounds_rate:
  assumes "sorted ts" and "\<forall>t\<in>set ts. t0 \<le> t \<and> t \<le> T" and "t0 \<le> T"
  shows "if iv = 0 then consume_all ts (TokenBucket_new cap iv t0) =
        (if ts = [] then Some (TokenBucket_new cap iv t0, 0) else None)
    else \<exists>b n. consume_all ts (TokenBucket_new cap iv t0) = Some (b, n) \<and> n \<le> cap + (T - t0) div millis iv"
proof (cases "iv = 0")
  case True
  then show ?thesis by (cases ts) (simp_all add: zero_interval_panics)
next
  case False
  then have iv: "0 < iv" by simp
  have "bucket_law cap iv t0 0 (TokenBucket_new cap iv t0)"
    by (auto simp: bucket_law_def TokenBucket_new_def)
  from consume_all_law [OF this iv assms(1), of T] obtain b n where
    b: "consume_all ts (TokenBucket_new cap iv t0) = Some (b, n)" "bucket_law cap iv t0 n b" "last_refill b \<le> T"
    using assms(2,3) by (auto simp: TokenBucket_new_def)
  then obtain k where k: "last_refill b = t0 + millis iv * k" "n \<le> cap + k"
    unfolding bucket_law_def by (meson add_leD1)
  have "k * millis iv \<le> T - t0" using k(1) b(3) by (simp add: ac_simps)
  moreover have "0 < millis iv" using iv by (simp add: millis_def)
  ultimately have "k \<le> (T - t0) div millis iv" by (simp add: less_eq_div_iff_mult_less_eq)
  then show ?thesis using b(1) k(2) False by fastforce
qed

theorem bucket_bounds_rate_witness:
  "\<exists>b n. consume_all [0, 0, 1000000] (TokenBucket_new 1 1 0) = Some (b, n) \<and> n \<le> 2"
  using bucket_bounds_rate [of "[0, 0, 1000000]" 0 1000000 1 1]
  by (simp add: millis_def numeral_2_eq_2 del: consume_all.simps)

text \<open>
  stopping is final and needs an overload. A stopped monitor lets nothing through and is never
  restarted by an event; an event stops a running monitor only when its token was refused more than
  the threshold after the recorded start of the suppression.
\<close>

lemma auto_kill_spec:
  "case process_event_at t1 t2 t3 ok s of (s', out) \<Rightarrow>
     (killed s \<longrightarrow> s' = s \<and> out = Suppressed) \<and>
     ((\<exists>m. out = AutoKill m) \<longleftrightarrow> killed s' \<and> \<not> killed s) \<and>
     (killed s' \<and> \<not> killed s \<longleftrightarrow> \<not> killed s \<and> \<not> ok \<and>
        millis AUTO_KILL_THRESHOLD_MS < t3 - (case suppression_start s of Some st \<Rightarrow> st | None \<Rightarrow> t2))"
  by (auto simp: process_event_at_def Let_def split: option.split)

theorem auto_kill_spec_witness:
  "killed (fst (process_event_at 0 0 (millis 30001) False SuppressionTracker_new))"
  using auto_kill_spec [where ?t1.0 = 0 and ?t2.0 = 0 and ?t3.0 = "millis 30001" and ok = False and s = SuppressionTracker_new]
  by (auto simp: SuppressionTracker_new_def millis_def AUTO_KILL_THRESHOLD_MS_def split: prod.splits)

end
