(* ===== verification/Scheduling.thy ===== *)
theory Scheduling
  imports Prelude
begin

text \<open>
  Small policies of the tool crate: the interval syntax of the scheduler
  (\<open>grok_build/scheduler/interval.rs\<close>), the lineage graph of subagents
  (\<open>grok_build/task/coordinator/graph.rs\<close>) and their admission policy
  (\<open>grok_build/task/admission.rs\<close>, with \<open>parse_positive\<close> of \<open>util/env.rs\<close>).
\<close>

section \<open>Intervals\<close>

text \<open>The texts of \<open>SchedulerError::InvalidInterval\<close>, each with what it quotes; \<open>None\<close> in
  \<open>parse_interval\<close> is the panic of \<open>split_at\<close> inside a character.\<close>

datatype interval_error =
    EmptyInterval
  | InvalidFormat rstr
  | ZeroInterval
  | InvalidSuffix rstr
  | IntervalTooLarge rstr

definition MINIMUM_INTERVAL_SECS :: nat where "MINIMUM_INTERVAL_SECS = 60"

definition unit_secs :: "rstr \<Rightarrow> nat option" where
  "unit_secs suf =
     (if suf = [115] then Some 1 else if suf = [109] then Some 60
      else if suf = [104] then Some 3600 else if suf = [100] then Some 86400 else None)"

definition parse_interval :: "rstr \<Rightarrow> (interval_error + nat) option" where
  "parse_interval s0 =
     (let s = trim s0
      in if s = [] then Some (Err EmptyInterval)
         else if len_utf8 (last s) \<noteq> 1 then None
         else Some (case parse_uint 64 (butlast s) of
                None \<Rightarrow> Err (InvalidFormat s)
              | Some v \<Rightarrow>
                  if v = 0 then Err ZeroInterval
                  else case unit_secs [last s] of
                         None \<Rightarrow> Err (InvalidSuffix [last s])
                       | Some u \<Rightarrow>
                           (case checked_mul64 v u of
                              None \<Rightarrow> Err (IntervalTooLarge s)
                            | Some secs \<Rightarrow> Ok (max secs MINIMUM_INTERVAL_SECS))))"

definition every :: "nat \<Rightarrow> rstr \<Rightarrow> rstr" where
  "every n u = (if n = 1 then lit ''every 1 '' @ u else lit ''every '' @ show_dec n @ lit '' '' @ u @ lit ''s'')"

definition interval_to_human :: "nat \<Rightarrow> rstr" where
  "interval_to_human secs =
     (if secs mod 86400 = 0 then every (secs div 86400) (lit ''day'')
      else if secs mod 3600 = 0 then every (secs div 3600) (lit ''hour'')
      else if secs mod 60 = 0 then every (secs div 60) (lit ''minute'')
      else every secs (lit ''second''))"

lemma parse_interval_panics: "parse_interval [53, 233] = None"
  by (simp add: parse_interval_def trim_def trim_start_def trim_end_def is_whitespace_def len_utf8_def)

lemma show_dec_1: "show_dec 1 = [49]"
  by (simp add: show_dec_def radix_digits.simps digit_char_def)

text \<open>The printed interval determines its number and its unit.\<close>

lemma digits_space_split:
  "\<forall>c\<in>set a. c \<noteq> 32 \<Longrightarrow> \<forall>c\<in>set b. c \<noteq> 32 \<Longrightarrow> a @ 32 # u = b @ 32 # v \<Longrightarrow> a = b \<and> u = v"
proof (induction a arbitrary: b)
  case Nil
  then show ?case by (cases b) auto
next
  case (Cons c a)
  then show ?case by (cases b) auto
qed

lemma every_inj:
  assumes "every m u = every n v" "u \<in> {lit ''day'', lit ''hour'', lit ''minute'', lit ''second''}"
    "v \<in> {lit ''day'', lit ''hour'', lit ''minute'', lit ''second''}"
  shows "m = n \<and> u = v"
proof -
  have form: "every k w = lit ''every '' @ show_dec k @ 32 # (if k = 1 then w else w @ lit ''s'')" for k w
    by (simp add: every_def show_dec_1 [unfolded One_nat_def])
  have ns: "\<forall>c\<in>set (show_dec k). c \<noteq> 32" for k using show_dec_digits [of k] by auto
  from assms(1) have "show_dec m @ 32 # (if m = 1 then u else u @ lit ''s'') = show_dec n @ 32 # (if n = 1 then v else v @ lit ''s'')"
    unfolding form by simp
  from digits_space_split [OF ns ns this] have "m = n"
    "(if m = 1 then u else u @ lit ''s'') = (if n = 1 then v else v @ lit ''s'')"
    using show_dec_inj by auto
  then show ?thesis by (simp split: if_splits)
qed

section \<open>Lineage\<close>

record SpawnNode =
  sn_root :: rstr
  spawner_chain :: "rstr list"
  advertise_to_spawner :: bool
  surface_to_spawner :: bool

record SpawnGraph =
  nodes :: "rstr \<rightharpoonup> SpawnNode"

record NestedSpawner =
  ns_child_id :: rstr
  ns_session_id :: rstr
  ns_surface_completion :: bool

datatype MissingSpawnerNode = MissingSpawnerNode

definition SpawnGraph_insert :: "rstr \<Rightarrow> SpawnNode \<Rightarrow> SpawnGraph \<Rightarrow> SpawnGraph" where
  "SpawnGraph_insert c n g = g\<lparr>nodes := (nodes g)(c \<mapsto> n)\<rparr>"

definition insert_root_child :: "rstr \<Rightarrow> rstr \<Rightarrow> SpawnGraph \<Rightarrow> SpawnGraph" where
  "insert_root_child c root g = SpawnGraph_insert c
     \<lparr>sn_root = root, spawner_chain = [], advertise_to_spawner = False, surface_to_spawner = False\<rparr> g"

definition insert_nested :: "rstr \<Rightarrow> rstr \<Rightarrow> NestedSpawner \<Rightarrow> SpawnGraph \<Rightarrow> MissingSpawnerNode + SpawnGraph" where
  "insert_nested c root sp g =
     (case nodes g (ns_child_id sp) of
        None \<Rightarrow> Err MissingSpawnerNode
      | Some n \<Rightarrow> Ok (SpawnGraph_insert c
          \<lparr>sn_root = root, spawner_chain = spawner_chain n @ [ns_session_id sp],
           advertise_to_spawner = True, surface_to_spawner = ns_surface_completion sp\<rparr> g))"

definition direct_spawner :: "rstr \<Rightarrow> SpawnGraph \<Rightarrow> rstr option" where
  "direct_spawner c g =
     (case nodes g c of
        None \<Rightarrow> None
      | Some n \<Rightarrow> if spawner_chain n = [] then None else Some (last (spawner_chain n)))"

definition surface_target :: "rstr \<Rightarrow> SpawnGraph \<Rightarrow> rstr option" where
  "surface_target c g =
     (case nodes g c of None \<Rightarrow> None | Some n \<Rightarrow> if surface_to_spawner n then direct_spawner c g else None)"

definition advertise_target :: "rstr \<Rightarrow> SpawnGraph \<Rightarrow> rstr option" where
  "advertise_target c g =
     (case nodes g c of None \<Rightarrow> None | Some n \<Rightarrow> if advertise_to_spawner n then direct_spawner c g else None)"

definition drop_advertise :: "rstr \<Rightarrow> SpawnGraph \<Rightarrow> SpawnGraph" where
  "drop_advertise c g =
     (case nodes g c of None \<Rightarrow> g | Some n \<Rightarrow> g\<lparr>nodes := (nodes g)(c \<mapsto> n\<lparr>advertise_to_spawner := False\<rparr>)\<rparr>)"

definition SpawnGraph_remove :: "rstr \<Rightarrow> SpawnGraph \<Rightarrow> SpawnGraph" where
  "SpawnGraph_remove c g = g\<lparr>nodes := (nodes g)(c := None)\<rparr>"

definition is_reachable_from :: "rstr \<Rightarrow> rstr \<Rightarrow> SpawnGraph \<Rightarrow> bool" where
  "is_reachable_from c sess g =
     (case nodes g c of None \<Rightarrow> False | Some n \<Rightarrow> sn_root n = sess \<or> sess \<in> set (spawner_chain n))"

section \<open>Admission\<close>

definition DEFAULT_MAX_CONCURRENT :: nat where "DEFAULT_MAX_CONCURRENT = 32"

datatype LimitBehavior = Queue | Fail

record SubagentLimits =
  max_concurrent :: nat
  behavior :: LimitBehavior

definition SubagentLimits_default :: SubagentLimits where
  "SubagentLimits_default = \<lparr>max_concurrent = DEFAULT_MAX_CONCURRENT, behavior = Queue\<rparr>"

definition parse_positive :: "rstr \<Rightarrow> nat option" where
  "parse_positive v = (case parse_uint 64 v of Some n \<Rightarrow> if 0 < n then Some n else None | None \<Rightarrow> None)"

definition limits_from_lookup :: "(rstr \<Rightarrow> rstr option) \<Rightarrow> SubagentLimits" where
  "limits_from_lookup lookup =
     \<lparr>max_concurrent = (case Option.bind (lookup (lit ''GROK_MAX_CONCURRENT_SUBAGENTS'')) parse_positive of
          Some n \<Rightarrow> n | None \<Rightarrow> max_concurrent SubagentLimits_default),
      behavior = (case lookup (lit ''GROK_SUBAGENT_LIMIT_BEHAVIOR'') of
          None \<Rightarrow> Queue
        | Some v \<Rightarrow> if eq_ignore_ascii_case v (lit ''fail'') then Fail else Queue)\<rparr>"

datatype SubagentOwner = Task | Workflow rstr

definition is_workflow :: "SubagentOwner \<Rightarrow> bool" where
  "is_workflow ow = (case ow of Workflow _ \<Rightarrow> True | _ \<Rightarrow> False)"

datatype AdmissionError = ConcurrentLimitReached nat

datatype AdmissionDecision = Start | Enqueue | Reject AdmissionError

definition AdmissionError_message :: "AdmissionError \<Rightarrow> rstr" where
  "AdmissionError_message e = (case e of ConcurrentLimitReached n \<Rightarrow>
     lit ''Concurrent subagent limit reached: '' @ show_dec n @
     lit '' subagents are already running for this session. Do not retry; spawning succeeds again when a running subagent finishes.'')"

record Admission =
  limits :: SubagentLimits

definition Admission_new :: "SubagentLimits \<Rightarrow> Admission" where
  "Admission_new l = \<lparr>limits = l\<lparr>max_concurrent := max (max_concurrent l) 1\<rparr>\<rparr>"

definition has_capacity :: "Admission \<Rightarrow> nat \<Rightarrow> bool" where
  "has_capacity a running \<longleftrightarrow> running < max_concurrent (limits a)"

definition admit :: "Admission \<Rightarrow> SubagentOwner \<Rightarrow> nat \<Rightarrow> AdmissionDecision" where
  "admit a ow running =
     (if is_workflow ow then Start
      else if has_capacity a running then Start
      else case behavior (limits a) of
             Queue \<Rightarrow> Enqueue
           | Fail \<Rightarrow> Reject (ConcurrentLimitReached (max_concurrent (limits a))))"

text \<open>A limit can be adjusted but never disabled: an idle session can always start a child.\<close>

lemma admit_idle: "admit (Admission_new l) ow 0 = Start"
  by (simp add: admit_def has_capacity_def Admission_new_def)

section \<open>Properties\<close>

text \<open>
  reading an interval. When it returns a number of seconds the number is at least the minimum
  and fits \<open>u64\<close>; every whole number of minutes, hours or days that fits is read as that many
  seconds; and what is printed for an interval determines it.
\<close>

lemma parse_interval_correct:
  assumes "0 < n" and "(u, k) \<in> {([109], 60), ([104], 3600), ([100], 86400)}" and "n * k < 2 ^ 64"
  shows "parse_interval (show_dec n @ u) = Some (Ok (n * k)) \<and>
    (\<forall>s r. parse_interval s = Some (Ok r) \<longrightarrow> MINIMUM_INTERVAL_SECS \<le> r \<and> r < 2 ^ 64) \<and>
    (\<forall>m. interval_to_human m = interval_to_human (n * k) \<longrightarrow> m = n * k)"
proof (intro conjI allI impI)
  have n: "n < 2 ^ 64" using assms by (auto intro: le_less_trans [of n "n * k"])
  have "48 \<le> hd (show_dec n) \<and> hd (show_dec n) \<le> 57"
    using show_dec_digits [of n] hd_in_set [of "show_dec n"] by auto
  then have "\<not> is_whitespace (hd (show_dec n))" by (auto simp: is_whitespace_def)
  moreover have "\<not> is_whitespace (last u)" "u \<noteq> []" using assms(2) by (auto simp: is_whitespace_def)
  ultimately have "trimmed (show_dec n @ u)" by (simp add: trimmed_def)
  moreover obtain c where c: "u = [c]" "unit_secs [c] = Some k" "len_utf8 c = 1"
    using assms(2) by (auto simp: unit_secs_def len_utf8_def)
  moreover have "60 \<le> n * k" using assms(1,2) by auto
  moreover have "checked_mul64 n k = Some (n * k)" using assms(3) by (simp add: checked_mul64_def u64_max_def)
  ultimately show "parse_interval (show_dec n @ u) = Some (Ok (n * k))"
    using assms(1) parse_uint_show_dec [OF n]
    by (simp add: parse_interval_def Let_def butlast_append MINIMUM_INTERVAL_SECS_def)
next
  fix s r assume "parse_interval s = Some (Ok r)"
  then show "MINIMUM_INTERVAL_SECS \<le> r" "r < 2 ^ 64"
    by (auto simp: parse_interval_def Let_def checked_mul64_def u64_max_def MINIMUM_INTERVAL_SECS_def
        split: if_splits option.splits)
next
  fix m assume "interval_to_human m = interval_to_human (n * k)"
  then show "m = n * k"
    unfolding interval_to_human_def by (auto split: if_splits dest!: every_inj)
qed

theorem parse_interval_correct_witness: "parse_interval (show_dec 5 @ [109]) = Some (Ok 300)"
  using parse_interval_correct [of 5 "[109]" 60] by simp

text \<open>
  lineage. A nested child is reachable from its root, from the session that spawned it and from
  every session in its spawner's chain, and from no other; its completion and its advertisement go
  to the session that spawned it; and no other child's reachability changes.
\<close>

lemma insert_nested_lineage:
  assumes "nodes g (ns_child_id sp) = Some n"
  shows "\<exists>g'. insert_nested c root sp g = Ok g' \<and>
    (\<forall>s. is_reachable_from c s g' \<longleftrightarrow> s = root \<or> s = ns_session_id sp \<or> s \<in> set (spawner_chain n)) \<and>
    advertise_target c g' = Some (ns_session_id sp) \<and>
    surface_target c g' = (if ns_surface_completion sp then Some (ns_session_id sp) else None) \<and>
    (\<forall>c' s. c' = c \<or> is_reachable_from c' s g' = is_reachable_from c' s g)"
  using assms
  by (auto simp: insert_nested_def SpawnGraph_insert_def is_reachable_from_def advertise_target_def
      surface_target_def direct_spawner_def)

theorem insert_nested_lineage_witness:
  "\<exists>g'. insert_nested [50] [114] \<lparr>ns_child_id = [49], ns_session_id = [97], ns_surface_completion = True\<rparr>
      (insert_root_child [49] [114] \<lparr>nodes = Map.empty\<rparr>) = Ok g' \<and> is_reachable_from [50] [97] g'"
  using insert_nested_lineage [of "insert_root_child [49] [114] \<lparr>nodes = Map.empty\<rparr>"
      "\<lparr>ns_child_id = [49], ns_session_id = [97], ns_surface_completion = True\<rparr>" _ "[50]" "[114]"]
  by (auto simp: insert_root_child_def SpawnGraph_insert_def)

end
