(* ===== verification/Todo_Bridge.thy ===== *)
theory Todo_Bridge
  imports Json
begin

text \<open>
  The projection of Pi's todo snapshots onto plan updates, \<open>pi-grok-adapter/src/todo_bridge.rs\<close>.
  A todo source is a pair of functions, as the trait \<open>TodoSource\<close> has two methods; the plan types of
  the agent-client protocol are records with the fields that the code fills in.
\<close>

section \<open>Definitions\<close>

datatype PlanEntryStatus = Pending | InProgress | Completed
datatype PlanEntryPriority = High | Medium | Low

record PlanEntry =
  pe_content :: rstr
  pe_priority :: PlanEntryPriority
  pe_status :: PlanEntryStatus
  pe_meta :: "(rstr \<times> json) list option"

record Plan =
  pl_entries :: "PlanEntry list"

record TodoSource =
  ts_matches :: "rstr \<Rightarrow> bool"
  ts_plan_from_result :: "json \<Rightarrow> bool \<Rightarrow> Plan option"

definition rpiv_details :: "json \<Rightarrow> json option" where
  "rpiv_details result =
     (case json_get (lit ''details'') result of
        Some d \<Rightarrow> Some d
      | None \<Rightarrow> if json_get (lit ''tasks'') result \<noteq> None then Some result else None)"

definition nonblank :: "json option \<Rightarrow> rstr option" where
  "nonblank v =
     (case Option.bind v as_str of
        None \<Rightarrow> None
      | Some s \<Rightarrow> if trim s = [] then None else Some (trim s))"

text \<open>\<open>Value::Number(id.into())\<close> for an \<open>i64\<close>: the sign decides the representation.\<close>

definition number_of_i64 :: "int \<Rightarrow> json" where
  "number_of_i64 i = (if 0 \<le> i then JPosInt (nat i) else JNegInt i)"

definition rpiv_meta :: "json \<Rightarrow> (rstr \<times> json) list" where
  "rpiv_meta task =
     (let i = json_get (lit ''id'') task;
          m0 = (case Option.bind i as_i64 of
                  Some n \<Rightarrow> [(lit ''rpivId'', number_of_i64 n)]
                | None \<Rightarrow> (case Option.bind i as_u64 of
                             Some n \<Rightarrow> [(lit ''rpivId'', JPosInt n)] | None \<Rightarrow> []));
          m1 = (case nonblank (json_get (lit ''activeForm'') task) of
                  Some a \<Rightarrow> AList.update (lit ''activeForm'') (JString a) m0 | None \<Rightarrow> m0);
          m2 = (case nonblank (json_get (lit ''owner'') task) of
                  Some ow \<Rightarrow> AList.update (lit ''owner'') (JString ow) m1 | None \<Rightarrow> m1)
      in case Option.bind (json_get (lit ''blockedBy'') task) as_array of
           Some b \<Rightarrow> AList.update (lit ''blockedBy'') (JArray b) m2 | None \<Rightarrow> m2)"

definition rpiv_task_to_plan_entry :: "json \<Rightarrow> PlanEntry option" where
  "rpiv_task_to_plan_entry task =
     (let status = (case Option.bind (json_get (lit ''status'') task) as_str of
                      Some s \<Rightarrow> s | None \<Rightarrow> lit ''pending'')
      in if status = lit ''deleted'' then None
         else case nonblank (json_get (lit ''subject'') task) of
                None \<Rightarrow> None
              | Some subject \<Rightarrow>
                  (let plan_status = (if status = lit ''in_progress'' then InProgress
                                      else if status = lit ''completed'' then Completed else Pending);
                       meta = rpiv_meta task
                   in Some \<lparr>pe_content = subject, pe_priority = Medium, pe_status = plan_status,
                            pe_meta = (if meta = [] then None else Some meta)\<rparr>))"

definition rpiv_plan_from_result :: "json \<Rightarrow> bool \<Rightarrow> Plan option" where
  "rpiv_plan_from_result result is_error =
     (if is_error then None
      else case rpiv_details result of
             None \<Rightarrow> None
           | Some details \<Rightarrow>
               if (case json_get (lit ''error'') details of Some e \<Rightarrow> \<not> is_null e | None \<Rightarrow> False) then None
               else case Option.bind (json_get (lit ''tasks'') details) as_array of
                      None \<Rightarrow> None
                    | Some tasks \<Rightarrow> Some \<lparr>pl_entries = List.map_filter rpiv_task_to_plan_entry tasks\<rparr>)"

definition RpivTodoSource :: TodoSource where
  "RpivTodoSource = \<lparr>ts_matches = (\<lambda>n. n = lit ''todo''), ts_plan_from_result = rpiv_plan_from_result\<rparr>"

record TodoSourceRegistry =
  sources :: "TodoSource list"

definition TodoSourceRegistry_register :: "TodoSource \<Rightarrow> TodoSourceRegistry \<Rightarrow> TodoSourceRegistry" where
  "TodoSourceRegistry_register s r = r\<lparr>sources := sources r @ [s]\<rparr>"

definition with_defaults :: TodoSourceRegistry where
  "with_defaults = TodoSourceRegistry_register RpivTodoSource \<lparr>sources = []\<rparr>"

definition plan_from_tool :: "rstr \<Rightarrow> json \<Rightarrow> bool \<Rightarrow> TodoSourceRegistry \<Rightarrow> Plan option" where
  "plan_from_tool tool_name result is_error r =
     (case find (\<lambda>s. ts_matches s tool_name) (sources r) of
        None \<Rightarrow> None
      | Some s \<Rightarrow> ts_plan_from_result s result is_error)"

definition plan_update_for_tool :: "rstr \<Rightarrow> json \<Rightarrow> bool \<Rightarrow> Plan option" where
  "plan_update_for_tool tool_name result is_error = plan_from_tool tool_name result is_error with_defaults"

section \<open>Properties\<close>

lemma task_entry_content:
  "rpiv_task_to_plan_entry t = Some e \<Longrightarrow> pe_content e \<noteq> [] \<and> trimmed (pe_content e)"
  by (auto simp: rpiv_task_to_plan_entry_def nonblank_def Let_def split: if_splits option.splits)

lemma plan_update_for_tool_unfold:
  "plan_update_for_tool n result err = (if n = lit ''todo'' then rpiv_plan_from_result result err else None)"
  by (auto simp: plan_update_for_tool_def plan_from_tool_def with_defaults_def
      TodoSourceRegistry_register_def RpivTodoSource_def)

text \<open>
  a successful todo result replaces the whole plan, in the order of the tasks, and both shapes
  of the result give the same plan: the live envelope with \<open>details\<close> inside, and the bare details of
  the history. Every entry has a non-empty trimmed text; a failed call, another tool, or a result that
  carries an error changes nothing.
\<close>

lemma plan_update_shapes:
  assumes "json_get (lit ''details'') live = Some d" and "json_get (lit ''details'') d = None"
    and "json_get (lit ''tasks'') d = Some (JArray tasks)"
    and "json_get (lit ''error'') d = None"
  shows "plan_update_for_tool (lit ''todo'') live False =
      Some \<lparr>pl_entries = List.map_filter rpiv_task_to_plan_entry tasks\<rparr> \<and>
    plan_update_for_tool (lit ''todo'') d False = plan_update_for_tool (lit ''todo'') live False \<and>
    (\<forall>e\<in>set (List.map_filter rpiv_task_to_plan_entry tasks). pe_content e \<noteq> [] \<and> trimmed (pe_content e)) \<and>
    (\<forall>n err. n \<noteq> lit ''todo'' \<or> err \<longrightarrow> plan_update_for_tool n live err = None)"
proof -
  have "\<forall>e\<in>set (List.map_filter rpiv_task_to_plan_entry tasks). pe_content e \<noteq> [] \<and> trimmed (pe_content e)"
    using task_entry_content by (auto simp: map_filter_def)
  moreover have "rpiv_details live = Some d" "rpiv_details d = Some d"
    using assms by (simp_all add: rpiv_details_def)
  ultimately show ?thesis using assms(3,4)
    by (auto simp: plan_update_for_tool_unfold rpiv_plan_from_result_def)
qed

theorem plan_update_shapes_witness:
  "plan_update_for_tool (lit ''todo'') (JObject [(lit ''details'', JObject [(lit ''tasks'', JArray [])])]) False =
     Some \<lparr>pl_entries = []\<rparr>"
  using plan_update_shapes [of "JObject [(lit ''details'', JObject [(lit ''tasks'', JArray [])])]"
      "JObject [(lit ''tasks'', JArray [])]" "[]"]
  by (simp add: json_get_def map_filter_def)

end
