(* ===== verification/Shell_Split.thy ===== *)
theory Shell_Split
  imports Prelude
begin

text \<open>
  \<open>permission/bash_command_splitting.rs\<close> of \<open>xai-grok-workspace\<close>: how a shell script becomes the
  commands the permission rules are matched against. The grammar (tree-sitter-bash) is third-party
  code: the parser is the parameter \<open>parse\<close>, which gives for a source a tree of nodes with their kind,
  whether they are named, their byte range and their children, and the flag of a failed parse. All
  that the source does with the tree is modelled: the allow list of node kinds, the words and the span
  of a command, the peeling of wrapper commands (\<open>timeout\<close>, \<open>env\<close>, ...) and of transparent prefixes
  (\<open>exec\<close>, \<open>command\<close>, \<open>builtin\<close>), and the soft breaks of the displayed script.
\<close>

section \<open>Byte offsets\<close>

text \<open>\<open>str::get(n..)\<close> and \<open>str::get(..n)\<close>: \<open>None\<close> when \<open>n\<close> is not a character boundary.\<close>

fun drop_bytes :: "nat \<Rightarrow> rstr \<Rightarrow> rstr option" where
  "drop_bytes n [] = (if n = 0 then Some [] else None)"
| "drop_bytes n (c # s) =
     (if n = 0 then Some (c # s) else if len_utf8 c \<le> n then drop_bytes (n - len_utf8 c) s else None)"

fun take_bytes :: "nat \<Rightarrow> rstr \<Rightarrow> rstr option" where
  "take_bytes n [] = (if n = 0 then Some [] else None)"
| "take_bytes n (c # s) =
     (if n = 0 then Some []
      else if len_utf8 c \<le> n then map_option ((#) c) (take_bytes (n - len_utf8 c) s) else None)"

definition byte_range :: "nat \<Rightarrow> nat \<Rightarrow> rstr \<Rightarrow> rstr option" where
  "byte_range a b s = (if a \<le> b then Option.bind (drop_bytes a s) (take_bytes (b - a)) else None)"

definition is_char_boundary :: "rstr \<Rightarrow> nat \<Rightarrow> bool" where
  "is_char_boundary s n \<longleftrightarrow> take_bytes n s \<noteq> None"

section \<open>The tree and its commands\<close>

datatype Node =
  Node (node_kind: string) (is_named: bool) (start_byte: nat) (end_byte: nat) (node_children: "Node list")

record Tree =
  root_node :: Node
  has_error :: bool

type_synonym shell_parser = "rstr \<Rightarrow> Tree option"

definition utf8_text :: "rstr \<Rightarrow> Node \<Rightarrow> rstr option" where
  "utf8_text src n = byte_range (start_byte n) (end_byte n) src"

record PlainCommand =
  pc_words :: "rstr list"
  span_start :: nat
  span_end :: nat

definition spans_whole_script :: "rstr \<Rightarrow> PlainCommand \<Rightarrow> bool" where
  "spans_whole_script script c =
     (case (take_bytes (span_start c) script, drop_bytes (span_end c) script) of
        (Some before, Some after) \<Rightarrow> trim before = [] \<and> trim after = []
      | (_, _) \<Rightarrow> False)"

definition ALLOWED_KINDS :: "string list" where
  "ALLOWED_KINDS =
     [''program'', ''list'', ''pipeline'', ''command'', ''command_name'', ''word'', ''string'', ''string_content'',
      ''raw_string'', ''number'', ''concatenation'', ''variable_assignment'', ''variable_name'',
      ''redirected_statement'', ''file_redirect'', ''file_descriptor'', ''comment'', ''heredoc_redirect'',
      ''heredoc_start'', ''heredoc_body'', ''heredoc_content'', ''heredoc_end'']"

definition ALLOWED_PUNCT_TOKENS :: "string list" where
  "ALLOWED_PUNCT_TOKENS =
     [''&&'', ''||'', '';'', ''|'', [CHR 34], [CHR 39], ''='', ''>'', ''>>'', ''<'', ''<<'', ''>&'', ''&>'', ''&>>'']"

definition node_allowed :: "Node \<Rightarrow> bool" where
  "node_allowed n \<longleftrightarrow>
     (if is_named n then node_kind n \<in> set ALLOWED_KINDS
      else \<not> ((\<exists>c\<in>set (node_kind n). c \<in> set ''&;|'') \<and> node_kind n \<notin> set ALLOWED_PUNCT_TOKENS) \<and>
           (node_kind n \<in> set ALLOWED_PUNCT_TOKENS \<or> trim (lit (node_kind n)) = []))"

lemma node_list_size: "size_list size (rev (node_children n) @ st) < size_list size (n # st)"
proof -
  have "size_list size (rev xs) = size_list size xs" for xs :: "Node list"
    by (induction xs) (auto simp: size_list_conv_sum_list)
  moreover have "size_list size (node_children n) < size n" by (cases n) simp
  ultimately show ?thesis by (simp add: size_list_conv_sum_list)
qed

text \<open>The worklist: the node on top, its children pushed left to right, so the last one is next.\<close>

function walk_nodes :: "Node list \<Rightarrow> Node list \<Rightarrow> Node list option" where
  "walk_nodes [] found = Some found"
| "walk_nodes (n # st) found =
     (if \<not> node_allowed n then None
      else walk_nodes (rev (node_children n) @ st)
             (if is_named n \<and> node_kind n = ''command'' then found @ [n] else found))"
  by pat_completeness auto
termination
  by (relation "measure (\<lambda>(st, _). size_list size st)") (simp_all only: in_measure case_prod_conv node_list_size wf_measure)

declare walk_nodes.simps(2) [simp del]

definition literal_text :: "rstr \<Rightarrow> Node \<Rightarrow> rstr option" where
  "literal_text src n =
     (if node_kind n = ''word'' \<or> node_kind n = ''number'' \<or> node_kind n = ''concatenation'' then utf8_text src n
      else if node_kind n = ''string'' then
        (case node_children n of
           [q, content, q'] \<Rightarrow>
             if node_kind q = [CHR 34] \<and> node_kind content = ''string_content'' \<and> node_kind q' = [CHR 34]
             then utf8_text src content else None
         | _ \<Rightarrow> None)
      else if node_kind n = ''raw_string'' then
        Option.bind (utf8_text src n) (\<lambda>t. Option.bind (strip_prefix [39] t) (strip_suffix [39]))
      else None)"

text \<open>What one named child adds: nothing (an assignment), a word with its node, or a refusal.\<close>

definition child_word :: "rstr \<Rightarrow> Node \<Rightarrow> (rstr \<times> Node) option option" where
  "child_word src n =
     (if node_kind n = ''variable_assignment'' then Some None
      else if node_kind n = ''command_name'' then
        (case filter is_named (node_children n) of
           [] \<Rightarrow> None
         | w # _ \<Rightarrow> if node_kind w \<noteq> ''word'' then None else map_option (\<lambda>t. Some (t, w)) (utf8_text src w))
      else map_option (\<lambda>t. Some (t, n)) (literal_text src n))"

fun plain_command_loop ::
  "rstr \<Rightarrow> Node list \<Rightarrow> rstr list \<Rightarrow> nat option \<Rightarrow> nat option \<Rightarrow> (rstr list \<times> nat option \<times> nat option) option" where
  "plain_command_loop src [] ws a b = Some (ws, a, b)"
| "plain_command_loop src (n # ns) ws a b =
     (case child_word src n of
        None \<Rightarrow> None
      | Some None \<Rightarrow> plain_command_loop src ns ws a b
      | Some (Some (t, w)) \<Rightarrow>
          plain_command_loop src ns (ws @ [t]) (if a = None then Some (start_byte w) else a) (Some (end_byte w)))"

definition parse_plain_command_from_node :: "rstr \<Rightarrow> Node \<Rightarrow> PlainCommand option" where
  "parse_plain_command_from_node src cmd =
     (if node_kind cmd \<noteq> ''command'' then None
      else map_option (\<lambda>(ws, a, b).
             \<lparr>pc_words = ws,
              span_start = (case a of Some x \<Rightarrow> x | None \<Rightarrow> start_byte cmd),
              span_end = (case b of Some x \<Rightarrow> x | None \<Rightarrow> end_byte cmd)\<rparr>)
             (plain_command_loop src (filter is_named (node_children cmd)) [] None None))"

definition collect_commands :: "rstr \<Rightarrow> Node list \<Rightarrow> PlainCommand list option" where
  "collect_commands src nodes = those (map (parse_plain_command_from_node src) nodes)"

definition try_parse_word_only_commands_sequence :: "Tree \<Rightarrow> rstr \<Rightarrow> PlainCommand list option" where
  "try_parse_word_only_commands_sequence tree src =
     (if has_error tree then None
      else Option.bind (walk_nodes [root_node tree] [])
             (\<lambda>nodes. collect_commands src (sort_key start_byte nodes)))"

definition all_commands_from_script :: "shell_parser \<Rightarrow> rstr \<Rightarrow> PlainCommand list option" where
  "all_commands_from_script parse script =
     Option.bind (parse script) (\<lambda>tree. try_parse_word_only_commands_sequence tree script)"

section \<open>Wrapper commands\<close>

text \<open>\<open>rsplit(['/', '\\']).next()\<close>: what follows the last slash or backslash.\<close>

definition base_name :: "rstr \<Rightarrow> rstr" where
  "base_name w = rev (takeWhile (\<lambda>c. c \<noteq> 47 \<and> c \<noteq> 92) (rev w))"

definition is_setup_command :: "rstr list \<Rightarrow> bool" where
  "is_setup_command cmd =
     (case cmd of
        [] \<Rightarrow> True
      | w # _ \<Rightarrow> w \<in> {lit ''cd'', lit ''pushd'', lit ''popd'', lit ''export'', lit ''unset'', lit ''set'',
                      lit ''sleep'', lit ''timeout''})"

definition is_ascii_alphabetic :: "uchar \<Rightarrow> bool" where
  "is_ascii_alphabetic c \<longleftrightarrow> (65 \<le> c \<and> c \<le> 90) \<or> (97 \<le> c \<and> c \<le> 122)"

definition is_ascii_digit :: "uchar \<Rightarrow> bool" where
  "is_ascii_digit c \<longleftrightarrow> 48 \<le> c \<and> c \<le> 57"

definition is_env_assignment :: "rstr \<Rightarrow> bool" where
  "is_env_assignment tok \<longleftrightarrow>
     61 \<in> set tok \<and>
     (let name = takeWhile (\<lambda>c. c \<noteq> 61) tok
      in name \<noteq> [] \<and> (is_ascii_alphabetic (hd name) \<or> hd name = 95) \<and>
         list_all (\<lambda>c. is_ascii_alphabetic c \<or> is_ascii_digit c \<or> c = 95) name)"

record EnvScan =
  es_chdir :: "rstr option"
  es_has_split_string :: bool
  es_options_uncertain :: bool
  es_split_string_script :: "rstr option"
  es_command_start :: nat

text \<open>Quote removal on a word that still has its quotes.\<close>

fun decode_loop :: "rstr \<Rightarrow> uchar option \<Rightarrow> rstr \<Rightarrow> rstr option" where
  "decode_loop [] quote out = (if quote = None then Some out else None)"
| "decode_loop (c # cs) quote out =
     (if quote = None \<and> (c = 39 \<or> c = 34) then decode_loop cs (Some c) out
      else if quote = Some c then decode_loop cs None out
      else if quote = None \<and> c = 92 then
        (case cs of [] \<Rightarrow> None | n # r \<Rightarrow> decode_loop r quote (out @ [n]))
      else if quote = Some 34 \<and> c = 92 then
        (case cs of
           [] \<Rightarrow> None
         | n # r \<Rightarrow> decode_loop r quote (if n \<in> {36, 96, 34, 92, 10} then out @ [n] else out @ [92, n]))
      else decode_loop cs quote (out @ [c]))"

definition decode_shell_literal_spelling :: "rstr \<Rightarrow> rstr option" where
  "decode_shell_literal_spelling raw = decode_loop raw None []"

definition decode_env_option_token :: "rstr \<Rightarrow> rstr" where
  "decode_env_option_token raw =
     (if 39 \<notin> set raw \<and> 34 \<notin> set raw then raw
      else case decode_shell_literal_spelling raw of Some d \<Rightarrow> d | None \<Rightarrow> raw)"

definition is_high_confidence_env_s_payload :: "rstr \<Rightarrow> bool" where
  "is_high_confidence_env_s_payload s \<longleftrightarrow>
     s \<noteq> [] \<and> 0 \<notin> set s \<and> \<not> (\<exists>c\<in>set s. c \<in> {39, 34, 92, 35, 96, 36, 10, 13})"

definition take_high_confidence_payload :: "rstr \<Rightarrow> rstr option" where
  "take_high_confidence_payload raw = (if is_high_confidence_env_s_payload raw then Some raw else None)"

datatype EnvShort =
    SplitStringNext
  | SplitStringGlued rstr
  | SplitStringDetect
  | NoArg
  | ArgNeedNext uchar
  | ArgGlued uchar
  | Uncertain

fun env_short_cluster :: "rstr \<Rightarrow> EnvShort" where
  "env_short_cluster [] = NoArg"
| "env_short_cluster (c # cs) =
     (if c \<in> {105, 118, 48} then env_short_cluster cs
      else if c = 83 then SplitStringDetect
      else if c \<in> {117, 67, 80, 97} then (if cs \<noteq> [] then ArgGlued c else ArgNeedNext c)
      else Uncertain)"

definition classify_env_short :: "rstr \<Rightarrow> EnvShort" where
  "classify_env_short tok =
     (if \<not> prefix (lit ''-'') tok \<or> prefix (lit ''--'') tok \<or> tok = lit ''-'' then Uncertain
      else let body = tl tok
           in case strip_prefix (lit ''S'') body of
                Some rest \<Rightarrow> if rest = [] then SplitStringNext else SplitStringGlued rest
              | None \<Rightarrow> env_short_cluster body)"

definition take_option_operand :: "rstr list \<Rightarrow> nat \<Rightarrow> (rstr \<times> nat) option" where
  "take_option_operand cmd i = (if i + 1 < length cmd then Some (cmd ! (i + 1), i + 2) else None)"

text \<open>One option of \<open>env\<close>: the new state, and whether the scan goes on.\<close>

definition env_split_next :: "rstr list \<Rightarrow> EnvScan \<Rightarrow> EnvScan" where
  "env_split_next cmd s =
     (let i = es_command_start s; s1 = s\<lparr>es_has_split_string := True\<rparr>
      in if i + 1 < length cmd
         then s1\<lparr>es_split_string_script := take_high_confidence_payload (cmd ! (i + 1))\<rparr> else s1)"

definition env_long_option :: "rstr list \<Rightarrow> rstr \<Rightarrow> EnvScan \<Rightarrow> EnvScan \<times> bool" where
  "env_long_option cmd tok_raw s =
     (let i = es_command_start s; uncertain = (s\<lparr>es_options_uncertain := True\<rparr>, False)
      in if tok_raw = lit ''--chdir'' then
           (case take_option_operand cmd i of
              Some (dir, j) \<Rightarrow> (s\<lparr>es_chdir := Some dir, es_command_start := j\<rparr>, True)
            | None \<Rightarrow> uncertain)
         else if prefix (lit ''--chdir='') tok_raw then
           (s\<lparr>es_chdir := strip_prefix (lit ''--chdir='') tok_raw, es_command_start := i + 1\<rparr>, True)
         else if tok_raw = lit ''--unset'' \<or> tok_raw = lit ''--path'' \<or> tok_raw = lit ''--argv0'' then
           (case take_option_operand cmd i of
              Some (_, j) \<Rightarrow> (s\<lparr>es_command_start := j\<rparr>, True)
            | None \<Rightarrow> uncertain)
         else if prefix (lit ''--unset='') tok_raw \<or> prefix (lit ''--path='') tok_raw \<or>
                 prefix (lit ''--argv0='') tok_raw then (s\<lparr>es_command_start := i + 1\<rparr>, True)
         else if tok_raw \<in> {lit ''--ignore-environment'', lit ''--null'', lit ''--debug'', lit ''--version'',
                            lit ''--help''} then (s\<lparr>es_command_start := i + 1\<rparr>, True)
         else if tok_raw = lit ''--split-string'' then (env_split_next cmd s, False)
         else case strip_prefix (lit ''--split-string='') tok_raw of
                Some payload \<Rightarrow>
                  (s\<lparr>es_has_split_string := True,
                     es_split_string_script := take_high_confidence_payload
                       (case strip_prefix (lit ''--split-string='') (decode_env_option_token tok_raw) of
                          Some p \<Rightarrow> p | None \<Rightarrow> payload)\<rparr>, False)
              | None \<Rightarrow> uncertain)"

definition env_short_option :: "rstr list \<Rightarrow> rstr \<Rightarrow> EnvScan \<Rightarrow> EnvScan \<times> bool" where
  "env_short_option cmd tok_raw s =
     (let i = es_command_start s
      in case classify_env_short (decode_env_option_token tok_raw) of
           SplitStringNext \<Rightarrow> (env_split_next cmd s, False)
         | SplitStringGlued payload \<Rightarrow>
             (s\<lparr>es_has_split_string := True, es_split_string_script := take_high_confidence_payload payload\<rparr>, False)
         | SplitStringDetect \<Rightarrow> (s\<lparr>es_has_split_string := True\<rparr>, False)
         | NoArg \<Rightarrow> (s\<lparr>es_command_start := i + 1\<rparr>, True)
         | ArgNeedNext k \<Rightarrow>
             (case take_option_operand cmd i of
                Some (operand, j) \<Rightarrow>
                  ((if k = 67 then s\<lparr>es_chdir := Some operand\<rparr> else s)\<lparr>es_command_start := j\<rparr>, True)
              | None \<Rightarrow> (s\<lparr>es_options_uncertain := True\<rparr>, False))
         | ArgGlued k \<Rightarrow>
             ((if k = 67
               then s\<lparr>es_chdir := Some (case strip_prefix (lit ''-C'') tok_raw of Some d \<Rightarrow> d | None \<Rightarrow> [])\<rparr>
               else s)\<lparr>es_command_start := i + 1\<rparr>, True)
         | Uncertain \<Rightarrow> (s\<lparr>es_options_uncertain := True\<rparr>, False))"

definition env_step :: "rstr list \<Rightarrow> EnvScan \<Rightarrow> EnvScan \<times> bool" where
  "env_step cmd s =
     (let i = es_command_start s; tok_raw = cmd ! i
      in if tok_raw = lit ''--'' then (s\<lparr>es_command_start := i + 1\<rparr>, False)
         else if tok_raw = lit ''-'' then (s\<lparr>es_command_start := i + 1\<rparr>, True)
         else if \<not> prefix (lit ''-'') tok_raw then
           (if is_env_assignment tok_raw then (s\<lparr>es_command_start := i + 1\<rparr>, True) else (s, False))
         else if prefix (lit ''--'') tok_raw then env_long_option cmd tok_raw s
         else env_short_option cmd tok_raw s)"

lemma env_step_progress:
  "env_step cmd s = (s', True) \<Longrightarrow> es_command_start s < es_command_start s'"
  by (auto simp: env_step_def env_long_option_def env_short_option_def take_option_operand_def Let_def
      split: if_splits option.splits EnvShort.splits)

function env_scan_loop :: "rstr list \<Rightarrow> EnvScan \<Rightarrow> EnvScan" where
  "env_scan_loop cmd s =
     (if es_command_start s < length cmd
      then case env_step cmd s of (s', go) \<Rightarrow> if go then env_scan_loop cmd s' else s'
      else s)"
  by pat_completeness auto
termination
proof (relation "measure (\<lambda>(cmd, s). length cmd - es_command_start s)")
  fix cmd s s' go
  assume "es_command_start s < length cmd" "(s', go) = env_step cmd s" "go"
  then show "((cmd, s'), cmd, s) \<in> measure (\<lambda>(cmd, s). length cmd - es_command_start s)"
    using env_step_progress [of cmd s s'] by simp
qed simp

declare env_scan_loop.simps [simp del]

definition env_scan :: "rstr list \<Rightarrow> EnvScan" where
  "env_scan cmd = env_scan_loop cmd
     \<lparr>es_chdir = None, es_has_split_string = False, es_options_uncertain = False,
      es_split_string_script = None, es_command_start = 1\<rparr>"

definition env_split_string_script :: "rstr list \<Rightarrow> rstr option" where
  "env_split_string_script ws =
     (case ws of
        [] \<Rightarrow> None
      | w # _ \<Rightarrow>
          if base_name w \<noteq> lit ''env'' then None
          else let scan = env_scan ws
               in if \<not> es_has_split_string scan then None else es_split_string_script scan)"

text \<open>The option loops of the wrappers: an option in \<open>two\<close> takes the next word with it.\<close>

function skip_options :: "rstr list \<Rightarrow> rstr list \<Rightarrow> nat \<Rightarrow> nat" where
  "skip_options two cmd i =
     (if i < length cmd \<and> prefix (lit ''-'') (cmd ! i)
      then skip_options two cmd (if cmd ! i \<in> set two then i + 2 else i + 1)
      else i)"
  by pat_completeness auto
termination by (relation "measure (\<lambda>(two, cmd, i). length cmd - i)") auto

declare skip_options.simps [simp del]

text \<open>Where the wrapped command starts; \<open>None\<close> when the head is no wrapper or a mandatory word is missing.\<close>

definition inner_start :: "rstr list \<Rightarrow> nat option" where
  "inner_start cmd =
     (case cmd of
        [] \<Rightarrow> None
      | w # _ \<Rightarrow>
         (let head = base_name w
          in if head = lit ''timeout'' then
               (let i = skip_options [lit ''-k'', lit ''-s'', lit ''--kill-after'', lit ''--signal''] cmd 1
                in if length cmd \<le> i then None else Some (i + 1))
             else if head = lit ''nice'' then Some (skip_options [lit ''-n'', lit ''--adjustment''] cmd 1)
             else if head = lit ''ionice'' then
               Some (skip_options [lit ''-c'', lit ''-n'', lit ''-p'', lit ''-P'', lit ''-u'', lit ''--class'',
                                   lit ''--classdata'', lit ''--pid'', lit ''--pgid'', lit ''--uid''] cmd 1)
             else if head = lit ''chrt'' then
               (let i = skip_options [] cmd 1 in if length cmd \<le> i then None else Some (i + 1))
             else if head = lit ''stdbuf'' then Some (skip_options [lit ''-i'', lit ''-o'', lit ''-e''] cmd 1)
             else if head = lit ''env'' then
               (let scan = env_scan cmd
                in if es_has_split_string scan \<or> es_options_uncertain scan then None
                   else Some (es_command_start scan))
             else None))"

definition strip_wrapper_command :: "rstr list \<Rightarrow> rstr list option" where
  "strip_wrapper_command cmd =
     (case inner_start cmd of
        None \<Rightarrow> None
      | Some i \<Rightarrow> if i < length cmd then Some (drop i cmd) else None)"

definition is_wrapper_command :: "rstr list \<Rightarrow> bool" where
  "is_wrapper_command ws =
     (case ws of
        [] \<Rightarrow> False
      | w # _ \<Rightarrow> base_name w \<in> {lit ''timeout'', lit ''nice'', lit ''ionice'', lit ''chrt'', lit ''stdbuf'', lit ''env''})"

definition MAX_WRAPPER_DEPTH :: nat where "MAX_WRAPPER_DEPTH = 8"
definition MAX_INLINE_SHELL_DEPTH :: nat where "MAX_INLINE_SHELL_DEPTH = 8"
definition MAX_TRANSPARENT_PREFIX_DEPTH :: nat where "MAX_TRANSPARENT_PREFIX_DEPTH = 8"
definition MAX_NORMALIZE_ROUNDS :: nat where
  "MAX_NORMALIZE_ROUNDS = MAX_WRAPPER_DEPTH + MAX_TRANSPARENT_PREFIX_DEPTH"

record CheckedWrapperPeel =
  cw_words :: "rstr list"
  cw_has_chdir :: bool
  cw_has_split_string :: bool
  cw_env_options_uncertain :: bool
  cw_exhausted :: bool

definition note_env_scan :: "CheckedWrapperPeel \<Rightarrow> CheckedWrapperPeel" where
  "note_env_scan p =
     (case cw_words p of
        w # _ \<Rightarrow>
          if base_name w = lit ''env''
          then let scan = env_scan (cw_words p)
               in p\<lparr>cw_has_chdir := cw_has_chdir p \<or> es_chdir scan \<noteq> None,
                    cw_has_split_string := cw_has_split_string p \<or> es_has_split_string scan,
                    cw_env_options_uncertain := cw_env_options_uncertain p \<or> es_options_uncertain scan\<rparr>
          else p
      | [] \<Rightarrow> p)"

fun unwrap_loop :: "nat \<Rightarrow> CheckedWrapperPeel \<Rightarrow> CheckedWrapperPeel" where
  "unwrap_loop 0 p =
     p\<lparr>cw_exhausted := is_wrapper_command (cw_words p) \<and> strip_wrapper_command (cw_words p) \<noteq> None\<rparr>"
| "unwrap_loop (Suc n) p =
     (let p1 = note_env_scan p
      in case strip_wrapper_command (cw_words p1) of
           Some inner \<Rightarrow> unwrap_loop n (p1\<lparr>cw_words := inner\<rparr>)
         | None \<Rightarrow> p1\<lparr>cw_exhausted := False\<rparr>)"

definition unwrap_wrappers_checked :: "rstr list \<Rightarrow> CheckedWrapperPeel" where
  "unwrap_wrappers_checked ws = unwrap_loop MAX_WRAPPER_DEPTH
     \<lparr>cw_words = ws, cw_has_chdir = False, cw_has_split_string = False, cw_env_options_uncertain = False,
      cw_exhausted = False\<rparr>"

definition unwrap_wrappers :: "rstr list \<Rightarrow> rstr list" where
  "unwrap_wrappers ws = cw_words (unwrap_wrappers_checked ws)"

definition unwrap_command_wrappers :: "rstr list \<Rightarrow> rstr list" where
  "unwrap_command_wrappers ws = unwrap_wrappers ws"

section \<open>Transparent prefixes\<close>

datatype TransparentStrip = NotPrefix | Peeled "rstr list" | Ambiguous

definition peel_from :: "rstr list \<Rightarrow> nat \<Rightarrow> TransparentStrip" where
  "peel_from cmd i = (if i < length cmd then Peeled (drop i cmd) else NotPrefix)"

function strip_exec_loop :: "rstr list \<Rightarrow> nat \<Rightarrow> TransparentStrip" where
  "strip_exec_loop cmd i =
     (if length cmd \<le> i then peel_from cmd i
      else let tok = cmd ! i
           in if tok = lit ''--'' then peel_from cmd (i + 1)
              else if tok = lit ''-'' \<or> \<not> prefix (lit ''-'') tok then peel_from cmd i
              else if tok \<in> {lit ''-c'', lit ''-l'', lit ''-cl'', lit ''-lc''} then strip_exec_loop cmd (i + 1)
              else if tok = lit ''-a'' then
                (if i + 1 < length cmd \<and> cmd ! (i + 1) \<noteq> [0] \<and> cmd ! (i + 1) \<noteq> []
                 then strip_exec_loop cmd (i + 2) else Ambiguous)
              else if prefix (lit ''-a'') tok then
                (if drop 2 tok = [0] then Ambiguous else strip_exec_loop cmd (i + 1))
              else if \<not> prefix (lit ''--'') tok \<and> list_all (\<lambda>c. c = 99 \<or> c = 108) (tl tok)
              then strip_exec_loop cmd (i + 1)
              else Ambiguous)"
  by pat_completeness auto
termination by (relation "measure (\<lambda>(cmd, i). length cmd - i)") auto

definition strip_exec_prefix :: "rstr list \<Rightarrow> TransparentStrip" where
  "strip_exec_prefix cmd = strip_exec_loop cmd 1"

function strip_command_loop :: "rstr list \<Rightarrow> nat \<Rightarrow> TransparentStrip" where
  "strip_command_loop cmd i =
     (if length cmd \<le> i then peel_from cmd i
      else let tok = cmd ! i
           in if tok = lit ''--'' then peel_from cmd (i + 1)
              else if tok = lit ''-'' \<or> \<not> prefix (lit ''-'') tok then peel_from cmd i
              else if tok \<in> {lit ''-v'', lit ''-V'', lit ''--help'', lit ''--version''} \<or>
                      (\<not> prefix (lit ''--'') tok \<and> (\<exists>c\<in>set (tl tok). c = 118 \<or> c = 86))
              then NotPrefix
              else if tok = lit ''-p'' \<or> (\<not> prefix (lit ''--'') tok \<and> list_all (\<lambda>c. c = 112) (tl tok))
              then strip_command_loop cmd (i + 1)
              else Ambiguous)"
  by pat_completeness auto
termination by (relation "measure (\<lambda>(cmd, i). length cmd - i)") auto

declare strip_exec_loop.simps [simp del] strip_command_loop.simps [simp del]

definition strip_command_prefix :: "rstr list \<Rightarrow> TransparentStrip" where
  "strip_command_prefix cmd = strip_command_loop cmd 1"

definition strip_builtin_prefix :: "rstr list \<Rightarrow> TransparentStrip" where
  "strip_builtin_prefix cmd =
     (if length cmd \<le> 1 then NotPrefix
      else if prefix (lit ''-'') (cmd ! 1) \<and> cmd ! 1 \<noteq> lit ''-'' then Ambiguous
      else Peeled (drop 1 cmd))"

definition strip_transparent_prefix :: "rstr list \<Rightarrow> TransparentStrip" where
  "strip_transparent_prefix cmd =
     (case cmd of
        [] \<Rightarrow> NotPrefix
      | h # _ \<Rightarrow>
          if h = [] \<or> h = [0] then NotPrefix
          else if base_name h = lit ''exec'' then strip_exec_prefix cmd
          else if base_name h = lit ''command'' then strip_command_prefix cmd
          else if base_name h = lit ''builtin'' then strip_builtin_prefix cmd
          else NotPrefix)"

text \<open>\<open>TransparentPrefixPeel\<close>: \<open>Ready\<close> words, or \<open>None\<close> for \<open>Ambiguous\<close>.\<close>

fun peel_transparent_loop :: "nat \<Rightarrow> rstr list \<Rightarrow> rstr list option" where
  "peel_transparent_loop 0 ws =
     (case strip_transparent_prefix ws of NotPrefix \<Rightarrow> Some ws | _ \<Rightarrow> None)"
| "peel_transparent_loop (Suc n) ws =
     (case strip_transparent_prefix ws of
        NotPrefix \<Rightarrow> Some ws
      | Peeled inner \<Rightarrow> peel_transparent_loop n inner
      | Ambiguous \<Rightarrow> None)"

definition peel_transparent_prefixes :: "rstr list \<Rightarrow> rstr list option" where
  "peel_transparent_prefixes ws = peel_transparent_loop MAX_TRANSPARENT_PREFIX_DEPTH ws"

section \<open>Normalisation\<close>

record NormalizedCommandPeel =
  nc_words :: "rstr list"
  nc_has_chdir :: bool
  nc_has_split_string :: bool
  nc_env_options_uncertain :: bool
  nc_exhausted :: bool
  nc_ambiguous :: bool

text \<open>
  One round; the flag says whether another follows. The words of a round are a suffix of those it
  started from, so the source's test for the same slice is a test of the length.
\<close>

definition normalize_round :: "NormalizedCommandPeel \<Rightarrow> NormalizedCommandPeel \<times> bool" where
  "normalize_round p =
     (let start_len = length (nc_words p);
          w = unwrap_wrappers_checked (nc_words p);
          p1 = p\<lparr>nc_has_chdir := nc_has_chdir p \<or> cw_has_chdir w,
                 nc_has_split_string := nc_has_split_string p \<or> cw_has_split_string w,
                 nc_env_options_uncertain := nc_env_options_uncertain p \<or> cw_env_options_uncertain w,
                 nc_exhausted := nc_exhausted p \<or> cw_exhausted w,
                 nc_words := cw_words w\<rparr>
      in if nc_has_split_string p1 \<or> nc_env_options_uncertain p1 then (p1, False)
         else case peel_transparent_prefixes (nc_words p1) of
                None \<Rightarrow> (p1\<lparr>nc_ambiguous := True\<rparr>, False)
              | Some inner \<Rightarrow> (p1\<lparr>nc_words := inner\<rparr>, length inner \<noteq> start_len))"

fun normalize_loop :: "nat \<Rightarrow> NormalizedCommandPeel \<Rightarrow> NormalizedCommandPeel" where
  "normalize_loop 0 p = p"
| "normalize_loop (Suc n) p =
     (case normalize_round p of (p1, go) \<Rightarrow> if go then normalize_loop n p1 else p1)"

definition still_peelable :: "rstr list \<Rightarrow> bool" where
  "still_peelable ws \<longleftrightarrow>
     (is_wrapper_command ws \<and> strip_wrapper_command ws \<noteq> None) \<or> strip_transparent_prefix ws \<noteq> NotPrefix"

definition normalize_command_words :: "rstr list \<Rightarrow> NormalizedCommandPeel" where
  "normalize_command_words ws =
     (let p = normalize_loop MAX_NORMALIZE_ROUNDS
                \<lparr>nc_words = ws, nc_has_chdir = False, nc_has_split_string = False,
                 nc_env_options_uncertain = False, nc_exhausted = False, nc_ambiguous = False\<rparr>
      in if \<not> nc_ambiguous p \<and> \<not> nc_has_split_string p \<and> \<not> nc_env_options_uncertain p \<and>
            still_peelable (nc_words p)
         then p\<lparr>nc_exhausted := True\<rparr> else p)"

section \<open>The highlighted command\<close>

fun sh_split_loop :: "rstr \<Rightarrow> rstr list \<Rightarrow> rstr \<Rightarrow> bool \<Rightarrow> bool \<Rightarrow> rstr list" where
  "sh_split_loop [] result current in_single in_double = (if current \<noteq> [] then result @ [current] else result)"
| "sh_split_loop (c # cs) result current in_single in_double =
     (if c = 39 \<and> \<not> in_double then sh_split_loop cs result current (\<not> in_single) in_double
      else if c = 34 \<and> \<not> in_single then sh_split_loop cs result current in_single (\<not> in_double)
      else if c = 92 then
        (case cs of
           [] \<Rightarrow> sh_split_loop [] result current in_single in_double
         | n # r \<Rightarrow> sh_split_loop r result (current @ [n]) in_single in_double)
      else if is_whitespace c \<and> \<not> in_single \<and> \<not> in_double then
        (if current \<noteq> [] then sh_split_loop cs (result @ [current]) [] in_single in_double
         else sh_split_loop cs result current in_single in_double)
      else sh_split_loop cs result (current @ [c]) in_single in_double)"

definition sh_split_simple :: "rstr \<Rightarrow> rstr list" where
  "sh_split_simple s = sh_split_loop s [] [] False False"

record BashCommandHighlights =
  bh_prefix :: "rstr list"
  highlighted_words :: "rstr list"
  bh_suffix :: "rstr list"

definition is_primary :: "PlainCommand \<Rightarrow> bool" where
  "is_primary c \<longleftrightarrow> (let peeled = unwrap_wrappers (pc_words c) in peeled \<noteq> [] \<and> \<not> is_setup_command peeled)"

text \<open>The outer option is the function's; the inner one is \<open>None\<close> when slicing the script panics.\<close>

definition primary_command_from_script :: "shell_parser \<Rightarrow> rstr \<Rightarrow> BashCommandHighlights option option" where
  "primary_command_from_script parse script =
     (case Option.bind (all_commands_from_script parse script) (find is_primary) of
        None \<Rightarrow> Some None
      | Some c \<Rightarrow>
          (let peeled = unwrap_wrappers (pc_words c);
               peeled_off = length (pc_words c) - length peeled
           in case (take_bytes (span_start c) script, drop_bytes (span_end c) script) of
                (Some prefix_str, Some suffix_str) \<Rightarrow>
                  Some (Some \<lparr>bh_prefix = sh_split_simple prefix_str @ take peeled_off (pc_words c),
                              highlighted_words = drop peeled_off (pc_words c),
                              bh_suffix = sh_split_simple suffix_str\<rparr>)
              | (_, _) \<Rightarrow> None))"

section \<open>Soft breaks of the displayed script\<close>

definition PAYLOAD_NODE_KINDS :: "string list" where
  "PAYLOAD_NODE_KINDS =
     [''heredoc_body'', ''simple_heredoc_body'', ''heredoc_content'', ''heredoc_end'', ''string'', ''raw_string'',
      ''string_content'', ''ansi_c_string'', ''translated_string'', ''comment'']"

definition is_soft_break_operator_kind :: "string \<Rightarrow> bool" where
  "is_soft_break_operator_kind k \<longleftrightarrow> k \<in> {''&&'', ''||'', ''|'', '';''}"

lemma node_list_size_ltr: "size_list size (node_children n @ st) < size_list size (n # st)"
  using node_list_size [of n st] by (simp add: size_list_conv_sum_list rev_map [symmetric])

function soft_break_walk :: "rstr \<Rightarrow> Node list \<Rightarrow> nat list \<Rightarrow> nat list" where
  "soft_break_walk script [] breaks = breaks"
| "soft_break_walk script (n # st) breaks =
     (if node_kind n \<in> set PAYLOAD_NODE_KINDS then soft_break_walk script st breaks
      else soft_break_walk script (node_children n @ st)
             (if is_soft_break_operator_kind (node_kind n) \<and> 0 < end_byte n \<and> end_byte n \<le> byte_len script \<and>
                 is_char_boundary script (end_byte n)
              then breaks @ [end_byte n] else breaks))"
  by pat_completeness auto
termination
  by (relation "measure (\<lambda>(_, st, _). size_list size st)")
     (auto simp only: in_measure case_prod_conv node_list_size_ltr wf_measure, simp)

declare soft_break_walk.simps(2) [simp del]

definition soft_break_offsets_after_operators :: "shell_parser \<Rightarrow> rstr \<Rightarrow> nat list" where
  "soft_break_offsets_after_operators parse script =
     (case parse script of
        None \<Rightarrow> []
      | Some tree \<Rightarrow>
          if has_error tree then [] else remdups_adj (sort (soft_break_walk script [root_node tree] [])))"

definition HEREDOC_PAYLOAD :: "string list" where
  "HEREDOC_PAYLOAD = [''heredoc_body'', ''simple_heredoc_body'', ''heredoc_content'']"

function heredoc_walk :: "rstr \<Rightarrow> Node list \<Rightarrow> (nat \<times> nat) list \<Rightarrow> (nat \<times> nat) list" where
  "heredoc_walk script [] ranges = ranges"
| "heredoc_walk script (n # st) ranges =
     (if node_kind n \<in> set HEREDOC_PAYLOAD
      then heredoc_walk script st
             (if start_byte n < end_byte n \<and> end_byte n \<le> byte_len script
              then ranges @ [(start_byte n, end_byte n)] else ranges)
      else heredoc_walk script (node_children n @ st) ranges)"
  by pat_completeness auto
termination
  by (relation "measure (\<lambda>(_, st, _). size_list size st)")
     (auto simp only: in_measure case_prod_conv node_list_size_ltr wf_measure, simp)

declare heredoc_walk.simps(2) [simp del]

text \<open>Pairs are sorted by start and then by end: two stable sorts.\<close>

definition heredoc_payload_byte_ranges :: "shell_parser \<Rightarrow> rstr \<Rightarrow> (nat \<times> nat) list" where
  "heredoc_payload_byte_ranges parse script =
     (case parse script of
        None \<Rightarrow> []
      | Some tree \<Rightarrow>
          if has_error tree then []
          else remdups_adj (sort_key fst (sort_key snd (heredoc_walk script [root_node tree] []))))"

definition range_fully_inside :: "nat \<Rightarrow> nat \<Rightarrow> (nat \<times> nat) list \<Rightarrow> bool" where
  "range_fully_inside a b ranges \<longleftrightarrow> a \<le> b \<and> (\<exists>(rs, re)\<in>set ranges. rs \<le> a \<and> b \<le> re)"

text \<open>Cutting a text at byte offsets; \<open>None\<close> when a slice falls on no character boundary.\<close>

fun cut_loop :: "rstr \<Rightarrow> nat list \<Rightarrow> nat \<Rightarrow> rstr list \<Rightarrow> rstr list option" where
  "cut_loop line [] start chunks =
     (if start < byte_len line then map_option (\<lambda>r. chunks @ [r]) (drop_bytes start line) else Some chunks)"
| "cut_loop line (b # bs) start chunks =
     (if start < b then Option.bind (byte_range start b line) (\<lambda>w. cut_loop line bs b (chunks @ [w]))
      else cut_loop line bs start chunks)"

definition split_physical_line_at_soft_breaks :: "rstr \<Rightarrow> nat \<Rightarrow> nat list \<Rightarrow> rstr list option" where
  "split_physical_line_at_soft_breaks line line_start breaks =
     (let line_end = line_start + byte_len line;
          rel = remdups_adj (filter (is_char_boundary line)
                  (map (\<lambda>b. b - line_start) (filter (\<lambda>b. line_start < b \<and> b < line_end) breaks)))
      in if rel = [] then Some [line]
         else map_option (\<lambda>chunks. if chunks = [] then [line] else chunks) (cut_loop line rel 0 []))"

definition soft_break_chunks :: "shell_parser \<Rightarrow> rstr \<Rightarrow> rstr list option" where
  "soft_break_chunks parse script =
     (let breaks = soft_break_offsets_after_operators parse script
      in if breaks = [] then Some [script]
         else cut_loop script (filter (\<lambda>b. b \<le> byte_len script) breaks) 0 [])"

section \<open>Cutting a script\<close>

lemma byte_len_pos: "s \<noteq> [] \<Longrightarrow> 0 < byte_len s"
  using length_le_byte_len [of s] by (cases s) auto

lemma take_bytes_append: "take_bytes (byte_len p) (p @ r) = Some p"
proof (induction p)
  case Nil
  then show ?case by (cases r) auto
next
  case (Cons c p)
  then show ?case using len_utf8_bounds(1) [of c] by simp
qed

lemma take_bytes_Some: "take_bytes n s = Some p \<Longrightarrow> prefix p s \<and> byte_len p = n"
proof (induction s arbitrary: n p)
  case (Cons c s)
  then show ?case using len_utf8_bounds(1) [of c] by (fastforce split: if_splits)
qed (auto split: if_splits)

lemma drop_bytes_append: "drop_bytes (byte_len p) (p @ r) = Some r"
proof (induction p)
  case Nil
  then show ?case by (cases r) auto
next
  case (Cons c p)
  then show ?case using len_utf8_bounds(1) [of c] by simp
qed

lemma drop_bytes_Some: "drop_bytes n s = Some r \<Longrightarrow> \<exists>p. s = p @ r \<and> byte_len p = n"
proof (induction s arbitrary: n)
  case (Cons c s)
  show ?case
  proof (cases "n = 0")
    case False
    with Cons obtain p where "s = p @ r" "byte_len p = n - len_utf8 c" and "len_utf8 c \<le> n"
      by (auto split: if_splits)
    then have "c # s = (c # p) @ r \<and> byte_len (c # p) = n" by simp
    then show ?thesis by blast
  qed (use Cons in simp)
qed (auto split: if_splits)

lemma is_char_boundary_iff: "is_char_boundary s n \<longleftrightarrow> (\<exists>p. prefix p s \<and> byte_len p = n)"
  unfolding is_char_boundary_def
  by (metis not_None_eq prefixE take_bytes_Some take_bytes_append)

lemma byte_range_between:
  assumes "s = p @ m @ r"
  shows "byte_range (byte_len p) (byte_len p + byte_len m) s = Some m"
  unfolding byte_range_def assms using drop_bytes_append [of p "m @ r"] take_bytes_append [of m r] by simp

text \<open>Cutting at boundaries never panics, and the pieces make up the text.\<close>

lemma prefixes_comparable: "prefix p s \<Longrightarrow> prefix q s \<Longrightarrow> byte_len p \<le> byte_len q \<Longrightarrow> prefix p q"
proof -
  assume a: "prefix p s" "prefix q s" "byte_len p \<le> byte_len q"
  then consider "prefix p q" | "prefix q p" using prefix_same_cases by blast
  then show "prefix p q"
  proof cases
    case 2
    then obtain z where z: "p = q @ z" by (auto simp: prefix_def)
    with a(3) have "z = []" using byte_len_pos [of z] by (cases z) auto
    with z show ?thesis by simp
  qed
qed

lemma cut_loop_concat:
  assumes "list_all (is_char_boundary line) bs" and "prefix done line" and "byte_len done = start"
    and "concat chunks = done"
  shows "\<exists>cs. cut_loop line bs start chunks = Some cs \<and> concat cs = line"
  using assms
proof (induction bs arbitrary: start chunks "done")
  case Nil
  then obtain r where r: "line = done @ r" by (auto simp: prefix_def)
  show ?case
  proof (cases "r = []")
    case False
    then have "start < byte_len line" using r Nil(3) byte_len_pos [of r] by simp
    moreover have "drop_bytes start line = Some r" using r Nil(3) drop_bytes_append by metis
    ultimately show ?thesis using Nil(4) r by simp
  qed (use Nil r in simp)
next
  case (Cons b bs)
  show ?case
  proof (cases "start < b")
    case True
    from Cons.prems(1) obtain q where q: "prefix q line" "byte_len q = b"
      by (auto simp: is_char_boundary_iff)
    then have "prefix done q" using prefixes_comparable [of "done" line q] Cons.prems(2,3) True by simp
    then obtain m where m: "q = done @ m" by (auto simp: prefix_def)
    with q obtain r where line: "line = done @ m @ r" by (auto simp: prefix_def)
    have "byte_range start b line = Some m"
      using byte_range_between [OF line] m q(2) Cons.prems(3) by simp
    then show ?thesis
      using Cons.IH [of q b "chunks @ [m]"] Cons.prems q m True by simp
  qed (use Cons in simp)
qed

lemma soft_break_walk_boundaries:
  "list_all (is_char_boundary script) bs \<Longrightarrow> list_all (is_char_boundary script) (soft_break_walk script st bs)"
  by (induction script st bs rule: soft_break_walk.induct) (auto simp: soft_break_walk.simps(2))

lemma soft_break_offsets_boundaries:
  "list_all (is_char_boundary script) (soft_break_offsets_after_operators parse script)"
proof (cases "parse script")
  case (Some tree)
  then show ?thesis
    using soft_break_walk_boundaries [of script "[]" "[root_node tree]"]
    by (simp add: soft_break_offsets_after_operators_def list_all_iff)
qed (simp add: soft_break_offsets_after_operators_def)

lemma soft_break_chunks_concat: "\<exists>cs. soft_break_chunks parse script = Some cs \<and> concat cs = script"
  using cut_loop_concat [of script "filter (\<lambda>b. b \<le> byte_len script) (soft_break_offsets_after_operators parse script)" "[]" 0 "[]"]
    soft_break_offsets_boundaries [of script parse]
  by (auto simp: soft_break_chunks_def Let_def list_all_iff)

lemma split_physical_line_concat:
  "\<exists>cs. split_physical_line_at_soft_breaks line line_start breaks = Some cs \<and> concat cs = line"
proof -
  define rel where "rel = remdups_adj (filter (is_char_boundary line)
    (map (\<lambda>b. b - line_start) (filter (\<lambda>b. line_start < b \<and> b < line_start + byte_len line) breaks)))"
  have "list_all (is_char_boundary line) rel" by (auto simp: rel_def list_all_iff)
  then obtain cs where "cut_loop line rel 0 [] = Some cs" "concat cs = line"
    using cut_loop_concat [of line rel "[]" 0 "[]"] by auto
  then show ?thesis by (simp add: split_physical_line_at_soft_breaks_def Let_def flip: rel_def)
qed

section \<open>Peeling\<close>

lemma drop_strict_suffix:
  assumes "1 \<le> i" and "i < length xs"
  shows "strict_suffix (drop i xs) xs \<and> drop i xs \<noteq> []"
proof -
  have "length (drop i xs) \<noteq> length xs" using assms by simp
  then have "drop i xs \<noteq> xs" by metis
  with assms show ?thesis by (simp add: strict_suffix_def suffix_drop)
qed

lemma skip_options_ge: "i \<le> skip_options two cmd i"
proof (induction two cmd i rule: skip_options.induct)
  case (1 two cmd i)
  then show ?case by (subst skip_options.simps) (auto split: if_splits)
qed

lemma env_step_start: "env_step cmd s = (s', go) \<Longrightarrow> es_command_start s \<le> es_command_start s'"
  by (auto simp: env_step_def env_long_option_def env_short_option_def take_option_operand_def
      env_split_next_def Let_def split: if_splits option.splits EnvShort.splits)

lemma env_scan_loop_start: "es_command_start s \<le> es_command_start (env_scan_loop cmd s)"
proof (induction cmd s rule: env_scan_loop.induct)
  case (1 cmd s)
  show ?case
  proof (cases "es_command_start s < length cmd")
    case True
    obtain s' go where step: "env_step cmd s = (s', go)" by force
    then have "es_command_start s \<le> es_command_start s'" by (rule env_step_start)
    moreover have "go \<Longrightarrow> es_command_start s' \<le> es_command_start (env_scan_loop cmd s')"
      using 1 [OF True step [symmetric]] by blast
    ultimately show ?thesis using True step
      by (subst env_scan_loop.simps) (auto intro: order_trans)
  qed (subst env_scan_loop.simps, simp)
qed

lemma env_scan_start: "1 \<le> es_command_start (env_scan cmd)"
  unfolding env_scan_def by (rule order_trans [OF _ env_scan_loop_start]) simp

lemma inner_start_pos: "inner_start cmd = Some i \<Longrightarrow> 1 \<le> i"
  using skip_options_ge [of 1] env_scan_start
  by (auto simp: inner_start_def Let_def split: list.splits if_splits)

lemma strip_wrapper_suffix:
  "strip_wrapper_command cmd = Some inner \<Longrightarrow> strict_suffix inner cmd \<and> inner \<noteq> []"
  using drop_strict_suffix [of _ cmd]
  by (auto simp: strip_wrapper_command_def dest!: inner_start_pos split: option.splits if_splits)

lemma peel_from_suffix: "peel_from cmd i = Peeled inner \<Longrightarrow> 1 \<le> i \<Longrightarrow> strict_suffix inner cmd \<and> inner \<noteq> []"
  using drop_strict_suffix [of i cmd] by (auto simp: peel_from_def split: if_splits)

lemma strip_exec_suffix:
  "strip_exec_loop cmd i = Peeled inner \<Longrightarrow> 1 \<le> i \<Longrightarrow> strict_suffix inner cmd \<and> inner \<noteq> []"
proof (induction cmd i rule: strip_exec_loop.induct)
  case (1 cmd i)
  from 1(5) show ?case
    apply (subst (asm) strip_exec_loop.simps)
    using 1(1-4,6) by (auto simp: Let_def dest: peel_from_suffix split: if_splits)
qed

lemma strip_command_suffix:
  "strip_command_loop cmd i = Peeled inner \<Longrightarrow> 1 \<le> i \<Longrightarrow> strict_suffix inner cmd \<and> inner \<noteq> []"
proof (induction cmd i rule: strip_command_loop.induct)
  case (1 cmd i)
  from 1(2) show ?case
    apply (subst (asm) strip_command_loop.simps)
    using 1(1,3) by (auto simp: Let_def dest: peel_from_suffix split: if_splits)
qed

lemma strip_transparent_suffix:
  assumes "strip_transparent_prefix cmd = Peeled inner"
  shows "strict_suffix inner cmd \<and> inner \<noteq> []"
proof -
  have "strip_builtin_prefix cmd = Peeled inner \<Longrightarrow> peel_from cmd 1 = Peeled inner"
    by (auto simp: strip_builtin_prefix_def peel_from_def split: if_splits)
  with assms show ?thesis
    by (auto simp: strip_transparent_prefix_def strip_exec_prefix_def strip_command_prefix_def
        dest: strip_exec_suffix strip_command_suffix peel_from_suffix split: list.splits if_splits)
qed

text \<open>
  The reference for normalisation: peel one layer, wrapper or prefix, until nothing peels. The heads
  of wrappers and of transparent prefixes are different, so at most one of the two applies.
\<close>

definition peel_one :: "rstr list \<Rightarrow> rstr list option" where
  "peel_one ws =
     (case strip_wrapper_command ws of
        Some inner \<Rightarrow> Some inner
      | None \<Rightarrow> (case strip_transparent_prefix ws of Peeled inner \<Rightarrow> Some inner | _ \<Rightarrow> None))"

lemma peel_one_suffix: "peel_one ws = Some inner \<Longrightarrow> strict_suffix inner ws \<and> inner \<noteq> []"
  by (auto simp: peel_one_def dest: strip_wrapper_suffix strip_transparent_suffix
      split: option.splits TransparentStrip.splits)

lemma peel_one_length: "peel_one ws = Some inner \<Longrightarrow> length inner < length ws"
  using peel_one_suffix suffix_length_less by blast

function peel_all :: "rstr list \<Rightarrow> rstr list" where
  "peel_all ws = (case peel_one ws of Some inner \<Rightarrow> peel_all inner | None \<Rightarrow> ws)"
  by pat_completeness auto
termination by (relation "measure length") (auto dest: peel_one_length)

function peel_depth :: "rstr list \<Rightarrow> nat" where
  "peel_depth ws = (case peel_one ws of Some inner \<Rightarrow> Suc (peel_depth inner) | None \<Rightarrow> 0)"
  by pat_completeness auto
termination by (relation "measure length") (auto dest: peel_one_length)

declare peel_all.simps [simp del] peel_depth.simps [simp del]

lemma peel_step:
  assumes "peel_one ws = Some inner"
  shows "peel_all ws = peel_all inner" "peel_depth ws = Suc (peel_depth inner)" "suffix inner ws"
  using assms peel_one_suffix by (auto simp: peel_all.simps [of ws] peel_depth.simps [of ws] strict_suffix_def)

lemma peel_stop:
  assumes "peel_one ws = None"
  shows "peel_all ws = ws" "peel_depth ws = 0"
  using assms by (simp_all add: peel_all.simps [of ws] peel_depth.simps [of ws])

lemma inner_start_wrapper: "inner_start ws \<noteq> None \<Longrightarrow> is_wrapper_command ws"
  by (auto simp: inner_start_def is_wrapper_command_def Let_def split: list.splits if_splits)

lemma strip_wrapper_is_wrapper: "strip_wrapper_command ws \<noteq> None \<Longrightarrow> is_wrapper_command ws"
  using inner_start_wrapper [of ws] by (auto simp: strip_wrapper_command_def split: option.splits)

lemma wrapper_not_transparent: "is_wrapper_command ws \<Longrightarrow> strip_transparent_prefix ws = NotPrefix"
  by (auto simp: is_wrapper_command_def strip_transparent_prefix_def split: list.splits)

lemma peel_one_wrapper: "strip_wrapper_command ws = Some inner \<Longrightarrow> peel_one ws = Some inner"
  by (simp add: peel_one_def)

lemma peel_one_transparent: "strip_transparent_prefix ws = Peeled inner \<Longrightarrow> peel_one ws = Some inner"
  using strip_wrapper_is_wrapper [of ws] wrapper_not_transparent [of ws]
  by (auto simp: peel_one_def split: option.splits)

lemma not_peelable_iff: "\<not> still_peelable ws \<longleftrightarrow>
    strip_wrapper_command ws = None \<and> strip_transparent_prefix ws = NotPrefix"
  by (cases "strip_wrapper_command ws") (auto simp: still_peelable_def strip_wrapper_is_wrapper)

lemma not_peelable_stop: "\<not> still_peelable ws \<Longrightarrow> peel_one ws = None"
  by (simp add: not_peelable_iff peel_one_def)

text \<open>An intermediate result of peeling: a suffix with the same normal form, no deeper.\<close>

definition peeled_to :: "rstr list \<Rightarrow> rstr list \<Rightarrow> bool" where
  "peeled_to ws ws' \<longleftrightarrow>
     suffix ws' ws \<and> peel_all ws' = peel_all ws \<and> (ws' = ws \<or> peel_depth ws' < peel_depth ws)"

lemma peeled_to_refl: "peeled_to ws ws"
  by (simp add: peeled_to_def)

lemma peeled_to_trans: "peeled_to a b \<Longrightarrow> peeled_to b c \<Longrightarrow> peeled_to a c"
  by (auto simp: peeled_to_def intro: suffix_order.trans)

lemma peeled_to_step: "peel_one ws = Some inner \<Longrightarrow> peeled_to ws inner"
  using peel_step [of ws inner] by (simp add: peeled_to_def)

lemma note_env_scan_words [simp]: "cw_words (note_env_scan p) = cw_words p"
  by (simp add: note_env_scan_def Let_def split: list.splits)

lemma unwrap_loop_peels: "peeled_to (cw_words p) (cw_words (unwrap_loop n p))"
proof (induction n arbitrary: p)
  case (Suc n)
  show ?case
  proof (cases "strip_wrapper_command (cw_words p)")
    case (Some inner)
    then show ?thesis
      using Suc [of "(note_env_scan p)\<lparr>cw_words := inner\<rparr>"] peel_one_wrapper [OF Some]
      by (auto simp: Let_def intro: peeled_to_trans [OF peeled_to_step])
  qed (simp add: Let_def peeled_to_refl)
qed (simp add: peeled_to_refl)

lemma unwrap_loop_complete:
  "peel_depth (cw_words p) \<le> n \<Longrightarrow>
   \<not> cw_exhausted (unwrap_loop n p) \<and> strip_wrapper_command (cw_words (unwrap_loop n p)) = None"
proof (induction n arbitrary: p)
  case 0
  then have "strip_wrapper_command (cw_words p) = None"
    using peel_step(2) peel_one_wrapper by (cases "strip_wrapper_command (cw_words p)") fastforce+
  then show ?case by simp
next
  case (Suc n)
  show ?case
  proof (cases "strip_wrapper_command (cw_words p)")
    case (Some inner)
    then have "peel_depth inner \<le> n" using Suc.prems peel_step(2) [OF peel_one_wrapper] by simp
    then show ?thesis using Some Suc.IH [of "(note_env_scan p)\<lparr>cw_words := inner\<rparr>"] by (simp add: Let_def)
  qed (simp add: Let_def)
qed

text \<open>A split string or uncertain options stop the peeling at the \<open>env\<close> that has them.\<close>

lemma opaque_env_stops:
  assumes "\<not> cw_has_split_string p" and "\<not> cw_env_options_uncertain p"
    and "cw_has_split_string (note_env_scan p) \<or> cw_env_options_uncertain (note_env_scan p)"
  shows "peel_one (cw_words p) = None"
proof -
  from assms obtain w r where w: "cw_words p = w # r" "base_name w = lit ''env''"
    and scan: "es_has_split_string (env_scan (w # r)) \<or> es_options_uncertain (env_scan (w # r))"
    by (auto simp: note_env_scan_def Let_def split: list.splits if_splits)
  then have "inner_start (w # r) = None" by (auto simp: inner_start_def)
  moreover have "strip_transparent_prefix (w # r) = NotPrefix"
    using w by (intro wrapper_not_transparent) (simp add: is_wrapper_command_def)
  ultimately show ?thesis using w by (simp add: peel_one_def strip_wrapper_command_def)
qed

lemma unwrap_loop_opaque:
  assumes "\<not> cw_has_split_string p" and "\<not> cw_env_options_uncertain p"
    and "cw_has_split_string (unwrap_loop n p) \<or> cw_env_options_uncertain (unwrap_loop n p)"
  shows "peel_one (cw_words (unwrap_loop n p)) = None"
  using assms
proof (induction n arbitrary: p)
  case (Suc n)
  show ?case
  proof (cases "strip_wrapper_command (cw_words p)")
    case None
    then show ?thesis using Suc.prems opaque_env_stops [of p] by (simp add: Let_def)
  next
    case (Some inner)
    then have "peel_one (cw_words p) \<noteq> None" by (simp add: peel_one_def)
    then have "\<not> cw_has_split_string (note_env_scan p)" "\<not> cw_env_options_uncertain (note_env_scan p)"
      using opaque_env_stops [of p] Suc.prems(1,2) by auto
    then have "peel_one (cw_words (unwrap_loop n ((note_env_scan p)\<lparr>cw_words := inner\<rparr>))) = None"
      using Suc.IH [of "(note_env_scan p)\<lparr>cw_words := inner\<rparr>"] Suc.prems(3) Some by (auto simp: Let_def)
    then show ?thesis using Some by (simp add: Let_def)
  qed
qed simp

lemma peel_transparent_loop_peels:
  "peel_transparent_loop n ws = Some ws' \<Longrightarrow> peeled_to ws ws' \<and> strip_transparent_prefix ws' = NotPrefix"
proof (induction n arbitrary: ws)
  case (Suc n)
  show ?case
  proof (cases "strip_transparent_prefix ws")
    case (Peeled inner)
    with Suc have "peeled_to inner ws' \<and> strip_transparent_prefix ws' = NotPrefix" by simp
    then show ?thesis
      using peeled_to_trans [OF peeled_to_step [OF peel_one_transparent [OF Peeled]]] by blast
  qed (use Suc.prems in \<open>auto simp: peeled_to_refl\<close>)
qed (auto simp: peeled_to_refl split: TransparentStrip.splits)

definition opaque_peel :: "NormalizedCommandPeel \<Rightarrow> bool" where
  "opaque_peel p \<longleftrightarrow> nc_has_split_string p \<or> nc_env_options_uncertain p"

text \<open>What a round guarantees of its result.\<close>

lemma normalize_round_peels:
  assumes round: "normalize_round p = (p', go)" and clear: "\<not> opaque_peel p"
  shows "peeled_to (nc_words p) (nc_words p')"
    and "opaque_peel p' \<Longrightarrow> peel_one (nc_words p') = None"
    and "go \<Longrightarrow> \<not> opaque_peel p' \<and> peel_depth (nc_words p') < peel_depth (nc_words p)"
    and "nc_ambiguous p' \<Longrightarrow> \<not> go \<or> nc_ambiguous p"
proof -
  define w where "w = unwrap_wrappers_checked (nc_words p)"
  have w: "peeled_to (nc_words p) (cw_words w)"
    using unwrap_loop_peels unfolding w_def unwrap_wrappers_checked_def
    by (metis CheckedWrapperPeel.select_convs(1))
  have opq: "cw_has_split_string w \<or> cw_env_options_uncertain w \<Longrightarrow> peel_one (cw_words w) = None"
    unfolding w_def unwrap_wrappers_checked_def by (rule unwrap_loop_opaque) simp_all
  have tr: "peeled_to (nc_words p) inner" if "peel_transparent_prefixes (cw_words w) = Some inner" for inner
    using that peel_transparent_loop_peels peeled_to_trans [OF w] unfolding peel_transparent_prefixes_def by blast
  show "peeled_to (nc_words p) (nc_words p')" "nc_ambiguous p' \<Longrightarrow> \<not> go \<or> nc_ambiguous p"
    using round w tr by (auto simp: normalize_round_def Let_def w_def [symmetric] split: if_splits option.splits)
  show "opaque_peel p' \<Longrightarrow> peel_one (nc_words p') = None"
    using round opq clear
    by (auto simp: normalize_round_def Let_def w_def [symmetric] opaque_peel_def split: if_splits option.splits)
  show "go \<Longrightarrow> \<not> opaque_peel p' \<and> peel_depth (nc_words p') < peel_depth (nc_words p)"
    using round tr
    by (auto simp: normalize_round_def Let_def w_def [symmetric] opaque_peel_def peeled_to_def
        split: if_splits option.splits)
qed

lemma normalize_loop_peels:
  "\<not> opaque_peel p \<Longrightarrow>
     peeled_to (nc_words p) (nc_words (normalize_loop n p)) \<and>
     (opaque_peel (normalize_loop n p) \<longrightarrow> peel_one (nc_words (normalize_loop n p)) = None)"
proof (induction n arbitrary: p)
  case (Suc n)
  obtain p' go where r: "normalize_round p = (p', go)" by force
  note facts = normalize_round_peels [OF r Suc.prems]
  show ?case
  proof (cases go)
    case True
    then show ?thesis using Suc.IH [of p'] facts peeled_to_trans by (simp add: r)
  qed (use facts in \<open>simp add: r\<close>)
qed (simp add: peeled_to_refl)

text \<open>With few enough layers no budget runs out, and the rounds end at a fixed point.\<close>

lemma normalize_round_complete:
  assumes round: "normalize_round p = (p', go)" and clear: "\<not> opaque_peel p"
    and depth: "peel_depth (nc_words p) \<le> 8" and ex: "\<not> nc_exhausted p" and stop: "\<not> go"
  shows "\<not> nc_exhausted p' \<and> (opaque_peel p' \<or> nc_ambiguous p' \<or> \<not> still_peelable (nc_words p'))"
proof -
  define w where "w = unwrap_wrappers_checked (nc_words p)"
  have w: "\<not> cw_exhausted w" "strip_wrapper_command (cw_words w) = None"
    using unwrap_loop_complete [of _ 8] depth unfolding w_def unwrap_wrappers_checked_def MAX_WRAPPER_DEPTH_def by auto
  have wp: "peeled_to (nc_words p) (cw_words w)"
    using unwrap_loop_peels unfolding w_def unwrap_wrappers_checked_def
    by (metis CheckedWrapperPeel.select_convs(1))
  have "\<not> still_peelable inner"
    if "peel_transparent_prefixes (cw_words w) = Some inner" and len: "length inner = length (nc_words p)" for inner
  proof -
    have t: "peeled_to (cw_words w) inner \<and> strip_transparent_prefix inner = NotPrefix"
      using that(1) unfolding peel_transparent_prefixes_def by (rule peel_transparent_loop_peels)
    then have "suffix inner (cw_words w)" and "suffix (cw_words w) (nc_words p)"
      using wp by (auto simp: peeled_to_def)
    then have "inner = cw_words w"
      using len by (metis suffix_length_le order_antisym suffix_def append_eq_append_conv append_Nil)
    then show ?thesis using t w by (simp add: not_peelable_iff)
  qed
  then show ?thesis
    using round w(1) ex stop
    by (auto simp: normalize_round_def Let_def w_def [symmetric] opaque_peel_def split: if_splits option.splits)
qed

lemma normalize_round_exhausted:
  assumes "normalize_round p = (p', go)" and "peel_depth (nc_words p) \<le> 8" and "\<not> nc_exhausted p"
  shows "\<not> nc_exhausted p'"
  using assms unwrap_loop_complete [of "\<lparr>cw_words = nc_words p, cw_has_chdir = False, cw_has_split_string = False,
      cw_env_options_uncertain = False, cw_exhausted = False\<rparr>" 8]
  by (auto simp: normalize_round_def Let_def unwrap_wrappers_checked_def MAX_WRAPPER_DEPTH_def
      split: if_splits option.splits)

lemma normalize_loop_complete:
  "\<not> opaque_peel p \<Longrightarrow> peel_depth (nc_words p) \<le> 8 \<Longrightarrow> peel_depth (nc_words p) < n \<Longrightarrow> \<not> nc_exhausted p \<Longrightarrow>
   let q = normalize_loop n p in
     \<not> nc_exhausted q \<and> (opaque_peel q \<or> nc_ambiguous q \<or> \<not> still_peelable (nc_words q))"
proof (induction n arbitrary: p)
  case (Suc n)
  obtain p' go where r: "normalize_round p = (p', go)" by force
  show ?case
  proof (cases go)
    case True
    then show ?thesis
      using Suc.IH [of p'] Suc.prems normalize_round_peels(3) [OF r Suc.prems(1)]
        normalize_round_exhausted [OF r] by (simp add: r Let_def)
  next
    case False
    then show ?thesis using normalize_round_complete [OF r] Suc.prems by (simp add: r Let_def)
  qed
qed simp

lemma normalize_suffix_normal_form:
  defines "start \<equiv> \<lambda>ws. \<lparr>nc_words = ws, nc_has_chdir = False, nc_has_split_string = False,
                 nc_env_options_uncertain = False, nc_exhausted = False, nc_ambiguous = False\<rparr>"
  shows "suffix (nc_words (normalize_command_words ws)) ws"
    and "\<not> nc_ambiguous (normalize_command_words ws) \<Longrightarrow> \<not> nc_exhausted (normalize_command_words ws) \<Longrightarrow>
           nc_words (normalize_command_words ws) = peel_all ws"
    and "peel_depth ws \<le> 8 \<Longrightarrow> \<not> nc_exhausted (normalize_command_words ws)"
proof -
  define q where "q = normalize_loop MAX_NORMALIZE_ROUNDS (start ws)"
  have loop: "peeled_to ws (nc_words q)" "opaque_peel q \<longrightarrow> peel_one (nc_words q) = None"
    using normalize_loop_peels [of "start ws" MAX_NORMALIZE_ROUNDS] by (auto simp: q_def start_def opaque_peel_def)
  have norm: "normalize_command_words ws =
      (if \<not> nc_ambiguous q \<and> \<not> opaque_peel q \<and> still_peelable (nc_words q) then q\<lparr>nc_exhausted := True\<rparr> else q)"
    by (simp add: normalize_command_words_def q_def start_def opaque_peel_def Let_def)
  show "suffix (nc_words (normalize_command_words ws)) ws"
    using loop(1) by (simp add: norm peeled_to_def)
  show "nc_words (normalize_command_words ws) = peel_all ws"
    if "\<not> nc_ambiguous (normalize_command_words ws)" "\<not> nc_exhausted (normalize_command_words ws)"
  proof -
    from that have "opaque_peel q \<or> \<not> still_peelable (nc_words q)" by (auto simp: norm split: if_splits)
    then have "peel_one (nc_words q) = None" using loop(2) not_peelable_stop by blast
    then show ?thesis using loop(1) peel_stop(1) by (simp add: norm peeled_to_def)
  qed
  show "\<not> nc_exhausted (normalize_command_words ws)" if "peel_depth ws \<le> 8"
    using normalize_loop_complete [of "start ws" MAX_NORMALIZE_ROUNDS] that
    by (auto simp: norm q_def start_def opaque_peel_def Let_def MAX_NORMALIZE_ROUNDS_def MAX_WRAPPER_DEPTH_def
        MAX_TRANSPARENT_PREFIX_DEPTH_def)
qed

section \<open>Decomposing the tree\<close>

text \<open>All nodes of a tree, and its command nodes.\<close>

primrec subnodes :: "Node \<Rightarrow> Node list" where
  "subnodes (Node k nm a b ch) = Node k nm a b ch # concat (map subnodes ch)"

definition command_node :: "Node \<Rightarrow> bool" where
  "command_node n \<longleftrightarrow> is_named n \<and> node_kind n = ''command''"

lemma subnodes_unfold: "subnodes n = n # concat (map subnodes (node_children n))"
  by (cases n) simp

lemma mset_concat_rev: "mset (concat (map f (rev xs))) = mset (concat (map f xs))"
  by (induction xs) auto

lemma walk_nodes_spec:
  "walk_nodes st found = Some r \<Longrightarrow>
     (\<forall>n\<in>set (concat (map subnodes st)). node_allowed n) \<and>
     mset r = mset found + mset (filter command_node (concat (map subnodes st)))"
proof (induction st found arbitrary: r rule: walk_nodes.induct)
  case (2 n st found)
  have allowed: "node_allowed n" using 2(2) by (auto simp: walk_nodes.simps(2) split: if_splits)
  let ?f = "if command_node n then found @ [n] else found"
  have rec: "walk_nodes (rev (node_children n) @ st) ?f = Some r"
    using 2(2) allowed by (simp add: walk_nodes.simps(2) command_node_def split: if_splits)
  have ih: "(\<forall>m\<in>set (concat (map subnodes (rev (node_children n) @ st))). node_allowed m) \<and>
     mset r = mset ?f + mset (filter command_node (concat (map subnodes (rev (node_children n) @ st))))"
    using 2(1) [of r] allowed rec by (simp add: command_node_def)
  have eq: "mset (filter command_node (concat (map subnodes (rev (node_children n))))) =
      mset (filter command_node (concat (map subnodes (node_children n))))"
    by (simp only: mset_filter mset_concat_rev)
  from ih have "mset r = mset ?f + mset (filter command_node (concat (map subnodes (node_children n)))) +
      mset (filter command_node (concat (map subnodes st)))"
    using eq by simp
  with ih allowed eq show ?case by (auto simp: subnodes_unfold [of n])
qed simp

lemma those_Some: "those xs = Some ys \<longleftrightarrow> xs = map Some ys"
  by (induction xs arbitrary: ys) (auto split: option.splits)

lemma all_commands_spec:
  assumes "all_commands_from_script parse script = Some cmds"
  shows "\<exists>tree nodes. parse script = Some tree \<and> \<not> has_error tree \<and>
    (\<forall>n\<in>set (subnodes (root_node tree)). node_allowed n) \<and>
    mset nodes = mset (filter command_node (subnodes (root_node tree))) \<and> sorted (map start_byte nodes) \<and>
    map (parse_plain_command_from_node script) nodes = map Some cmds"
proof -
  from assms obtain tree nodes where t: "parse script = Some tree" "\<not> has_error tree"
      "walk_nodes [root_node tree] [] = Some nodes" "collect_commands script (sort_key start_byte nodes) = Some cmds"
    by (auto simp: all_commands_from_script_def try_parse_word_only_commands_sequence_def bind_eq_Some_conv
        split: if_splits)
  have "map (parse_plain_command_from_node script) (sort_key start_byte nodes) = map Some cmds"
    using t(4) by (simp add: collect_commands_def those_Some)
  then show ?thesis using t walk_nodes_spec [OF t(3)]
    by (intro exI [of _ tree] exI [of _ "sort_key start_byte nodes"]) simp
qed

section \<open>Properties\<close>

text \<open>
  C14: normalisation computes the command that runs. Its words are a suffix of those given; unless it
  reports an ambiguity or an exhausted budget they are the normal form of peeling one layer at a time;
  and up to eight layers of wrappers and prefixes, in any mix, never exhaust a budget.
\<close>

theorem normalize_refines_peeling:
  "suffix (nc_words (normalize_command_words ws)) ws \<and>
   (\<not> nc_ambiguous (normalize_command_words ws) \<and> \<not> nc_exhausted (normalize_command_words ws) \<longrightarrow>
      nc_words (normalize_command_words ws) = peel_all ws) \<and>
   (peel_depth ws \<le> 8 \<longrightarrow> \<not> nc_exhausted (normalize_command_words ws))"
  using normalize_suffix_normal_form [of ws] by blast

theorem normalize_refines_peeling_witness:
  "peel_all [lit ''timeout'', lit ''5'', lit ''exec'', lit ''rm'', lit ''-rf''] = [lit ''rm'', lit ''-rf'']"
proof -
  let ?ws = "[lit ''timeout'', lit ''5'', lit ''exec'', lit ''rm'', lit ''-rf'']"
  have "\<not> nc_ambiguous (normalize_command_words ?ws)" and "\<not> nc_exhausted (normalize_command_words ?ws)"
    and "nc_words (normalize_command_words ?ws) = [lit ''rm'', lit ''-rf'']" by code_simp+
  then show ?thesis using normalize_refines_peeling [of ?ws] by simp
qed

text \<open>
  C15: no command is hidden. A script is decomposed only when it parsed without an error and every node
  of its tree is on the allow list; the commands returned are then the words of all the command nodes
  of the tree, each once, in the order of their positions.
\<close>

theorem all_commands_complete:
  assumes "all_commands_from_script parse script = Some cmds"
  shows "\<exists>tree nodes. parse script = Some tree \<and> \<not> has_error tree \<and>
    (\<forall>n\<in>set (subnodes (root_node tree)). node_allowed n) \<and>
    mset nodes = mset (filter command_node (subnodes (root_node tree))) \<and> sorted (map start_byte nodes) \<and>
    map (parse_plain_command_from_node script) nodes = map Some cmds"
  using assms by (rule all_commands_spec)

text \<open>A tree of \<open>ls; rm\<close>, as the grammar gives it.\<close>

definition sample_tree :: Tree where
  "sample_tree =
     (let cmd = (\<lambda>a b. Node ''command'' True a b [Node ''command_name'' True a b [Node ''word'' True a b []]])
      in \<lparr>root_node = Node ''program'' True 0 6 [cmd 0 2, Node '';'' False 2 3 [], cmd 4 6], has_error = False\<rparr>)"

definition sample_parse :: shell_parser where
  "sample_parse src = (if src = lit ''ls; rm'' then Some sample_tree else None)"

theorem all_commands_complete_witness:
  "\<exists>tree. sample_parse (lit ''ls; rm'') = Some tree \<and> (\<forall>n\<in>set (subnodes (root_node tree)). node_allowed n)"
proof -
  have "all_commands_from_script sample_parse (lit ''ls; rm'') =
     Some [\<lparr>pc_words = [lit ''ls''], span_start = 0, span_end = 2\<rparr>, \<lparr>pc_words = [lit ''rm''], span_start = 4, span_end = 6\<rparr>]"
    by code_simp
  from all_commands_complete [OF this] show ?thesis by blast
qed

text \<open>
  breaking a script for display loses nothing. Cutting a line at the offered offsets, and cutting a
  script after its operators, never falls inside a character, and the pieces joined are the text.
\<close>

lemma soft_breaks_partition:
  "(\<exists>cs. split_physical_line_at_soft_breaks line line_start breaks = Some cs \<and> concat cs = line) \<and>
   (\<exists>cs. soft_break_chunks parse script = Some cs \<and> concat cs = script)"
  using split_physical_line_concat soft_break_chunks_concat by blast

end
