(* ===== verification/Permission_Rules.thy ===== *)
theory Permission_Rules
  imports Json
begin

text \<open>
  The data of the permission system of \<open>xai-grok-workspace\<close> (\<open>permission/types.rs\<close>) and the reader of
  permission rules (\<open>permission/rules.rs\<close>): what an access is, what a rule is, and how the text
  \<open>Tool(content)\<close> becomes a rule. The source searches for parentheses in the bytes of the text; a
  parenthesis and a backslash are single bytes that occur in no longer character, so positions are
  counted in characters here.
\<close>

section \<open>Data\<close>

datatype AccessKind =
    ReadAccess "rstr option"
  | GrepAccess "rstr option" "rstr option"
  | EditAccess rstr
  | BashAccess rstr
  | MCPToolAccess rstr json
  | WebFetchAccess rstr
  | WebSearchAccess rstr
  | AgentMessageAccess rstr

datatype Decision =
    Allow
  | Ask
  | FollowupMessage rstr
  | Reject rstr
  | PolicyDeny rstr
  | DCancelled

datatype RuleAction = AllowRule | DenyRule | AskRule

datatype ToolFilter =
    AnyTool | BashTool | EditTool | ReadTool | GrepTool | McpTool | WebFetchTool | WebSearchTool | AgentMessageTool

datatype PatternMode = GlobMode | DomainMode

datatype PromptPolicy = PromptAsk | PromptDeny | PromptAuto | PromptAllow

record PermissionRule =
  pr_action :: RuleAction
  pr_tool :: ToolFilter
  pr_pattern :: "rstr option"
  pr_pattern_mode :: PatternMode

record PermissionConfig =
  pc_rules :: "PermissionRule list"
  pc_prompt_policy :: PromptPolicy
  pc_default_mode_configured :: bool

definition PermissionConfig_new :: "PermissionRule list \<Rightarrow> PermissionConfig" where
  "PermissionConfig_new rs =
     \<lparr>pc_rules = rs, pc_prompt_policy = PromptAsk, pc_default_mode_configured = False\<rparr>"

section \<open>Accesses of tools that are not known in advance\<close>

fun find_map :: "('a \<Rightarrow> 'b option) \<Rightarrow> 'a list \<Rightarrow> 'b option" where
  "find_map f [] = None"
| "find_map f (x # xs) = (case f x of Some y \<Rightarrow> Some y | None \<Rightarrow> find_map f xs)"

definition dynamic_string_field :: "json \<Rightarrow> rstr list \<Rightarrow> rstr option" where
  "dynamic_string_field value keys = find_map (\<lambda>k. Option.bind (json_get k value) as_str) keys"

definition dynamic_has_field :: "json \<Rightarrow> rstr list \<Rightarrow> bool" where
  "dynamic_has_field value keys \<longleftrightarrow> (\<exists>k\<in>set keys. json_get k value \<noteq> None)"

definition access_kind_from_dynamic :: "json \<Rightarrow> AccessKind" where
  "access_kind_from_dynamic value =
     (if dynamic_string_field value [lit ''name'', lit ''tool'', lit ''tool_name'', lit ''variant'']
           \<in> {Some (lit ''send_feedback''), Some (lit ''SendFeedback'')}
      then EditAccess (lit ''feedback_draft'')
      else case dynamic_string_field value [lit ''filePath'', lit ''file_path'', lit ''path''] of
             Some path \<Rightarrow>
               if dynamic_has_field value
                    [lit ''oldString'', lit ''old_string'', lit ''newString'', lit ''new_string'', lit ''content'',
                     lit ''edits'', lit ''replaceAll'', lit ''replace_all'']
               then EditAccess path else ReadAccess (Some path)
           | None \<Rightarrow>
               (case dynamic_string_field value [lit ''command''] of
                  Some command \<Rightarrow> BashAccess command
                | None \<Rightarrow> ReadAccess None))"

section \<open>Hook confirmations in a prompt\<close>

record HookAsk =
  hook_name :: rstr
  hook_reason :: "rstr option"

definition HOOK_ASK_SEPARATOR :: rstr where
  "HOOK_ASK_SEPARATOR = [32, 8212, 32]"

definition ask_line :: "HookAsk \<Rightarrow> rstr" where
  "ask_line h =
     (let reason = join [32] (split_whitespace (case hook_reason h of Some r \<Rightarrow> r | None \<Rightarrow> []))
      in if reason = [] then lit ''hook '' @ [39] @ hook_name h @ [39] @ lit '' asks for confirmation''
         else lit ''hook '' @ [39] @ hook_name h @ [39] @ lit '' asks: '' @ reason)"

definition prompt_header :: "HookAsk \<Rightarrow> rstr \<Rightarrow> rstr" where
  "prompt_header h action = action @ HOOK_ASK_SEPARATOR @ ask_line h"

definition strip_prompt_header :: "HookAsk \<Rightarrow> rstr \<Rightarrow> rstr" where
  "strip_prompt_header h title =
     (case Option.bind (strip_suffix (ask_line h) title) (strip_suffix HOOK_ASK_SEPARATOR) of
        Some action \<Rightarrow> action
      | None \<Rightarrow> title)"

section \<open>Default modes\<close>

datatype DefaultPermissionMode =
    DefaultMode | AcceptEditsMode | PlanPermissionMode | AutoMode | DontAskMode | BypassPermissionsMode

definition DefaultPermissionMode_from_str :: "rstr \<Rightarrow> rstr + DefaultPermissionMode" where
  "DefaultPermissionMode_from_str s =
     (if s = lit ''default'' then Ok DefaultMode
      else if s = lit ''acceptEdits'' then Ok AcceptEditsMode
      else if s = lit ''plan'' then Ok PlanPermissionMode
      else if s = lit ''auto'' then Ok AutoMode
      else if s = lit ''dontAsk'' then Ok DontAskMode
      else if s = lit ''bypassPermissions'' then Ok BypassPermissionsMode
      else Err s)"

record DefaultModeEffects =
  dm_prompt_policy :: PromptPolicy
  dm_accept_edits :: bool
  dm_bypass_permissions :: bool

definition DefaultModeEffects_default :: DefaultModeEffects where
  "DefaultModeEffects_default =
     \<lparr>dm_prompt_policy = PromptAsk, dm_accept_edits = False, dm_bypass_permissions = False\<rparr>"

definition effects :: "DefaultPermissionMode \<Rightarrow> DefaultModeEffects" where
  "effects m =
     (case m of
        AcceptEditsMode \<Rightarrow> DefaultModeEffects_default\<lparr>dm_accept_edits := True\<rparr>
      | BypassPermissionsMode \<Rightarrow> DefaultModeEffects_default\<lparr>dm_bypass_permissions := True\<rparr>
      | DefaultMode \<Rightarrow> DefaultModeEffects_default
      | PlanPermissionMode \<Rightarrow> DefaultModeEffects_default
      | DontAskMode \<Rightarrow> DefaultModeEffects_default\<lparr>dm_prompt_policy := PromptDeny\<rparr>
      | AutoMode \<Rightarrow> DefaultModeEffects_default\<lparr>dm_prompt_policy := PromptAuto\<rparr>)"

section \<open>Reading a rule\<close>

datatype RuleParseError =
    UnsupportedToolPrefix rstr
  | UnknownToolPrefix rstr
  | MalformedRule rstr

definition RuleParseError_display :: "RuleParseError \<Rightarrow> rstr" where
  "RuleParseError_display e =
     (case e of
        UnsupportedToolPrefix p \<Rightarrow> lit ''unsupported tool prefix: '' @ p
      | UnknownToolPrefix p \<Rightarrow> lit ''unknown tool prefix: '' @ p
      | MalformedRule d \<Rightarrow> lit ''malformed rule: '' @ d)"

definition tool_name_to_filter :: "rstr \<Rightarrow> ToolFilter option" where
  "tool_name_to_filter name =
     (if name = lit ''Bash'' then Some BashTool
      else if name = lit ''Read'' then Some ReadTool
      else if name = lit ''Edit'' \<or> name = lit ''Write'' then Some EditTool
      else if name = lit ''MCPTool'' then Some McpTool
      else if name = lit ''Grep'' \<or> name = lit ''Glob'' then Some GrepTool
      else if name = lit ''WebFetch'' then Some WebFetchTool
      else if name = lit ''WebSearch'' then Some WebSearchTool
      else if name = lit ''AgentMessage'' \<or> name = lit ''SendSubagentMessage'' \<or> name = lit ''SendAgentMessage''
      then Some AgentMessageTool
      else None)"

definition is_unescaped :: "rstr \<Rightarrow> nat \<Rightarrow> bool" where
  "is_unescaped s pos \<longleftrightarrow> even (length (takeWhile (\<lambda>c. c = 92) (rev (take pos s))))"

definition find_first_unescaped :: "rstr \<Rightarrow> uchar \<Rightarrow> nat option" where
  "find_first_unescaped s target = find (\<lambda>i. s ! i = target \<and> is_unescaped s i) [0..<length s]"

definition find_last_unescaped :: "rstr \<Rightarrow> uchar \<Rightarrow> nat option" where
  "find_last_unescaped s target = find (\<lambda>i. s ! i = target \<and> is_unescaped s i) (rev [0..<length s])"

text \<open>\<open>str::replace\<close> with a pattern of two characters and one character in its place.\<close>

fun replace_pair :: "uchar \<Rightarrow> uchar \<Rightarrow> uchar \<Rightarrow> rstr \<Rightarrow> rstr" where
  "replace_pair a b r (x # y # s) =
     (if x = a \<and> y = b then r # replace_pair a b r s else x # replace_pair a b r (y # s))"
| "replace_pair a b r s = s"

definition unescape_rule_content :: "rstr \<Rightarrow> rstr" where
  "unescape_rule_content s =
     (if 92 \<notin> set s then s
      else replace_pair 92 92 92 (replace_pair 92 41 41 (replace_pair 92 40 40 s)))"

definition strip_domain_prefix :: "rstr \<Rightarrow> rstr \<times> PatternMode" where
  "strip_domain_prefix p =
     (case strip_prefix (lit ''domain:'') p of Some d \<Rightarrow> (d, DomainMode) | None \<Rightarrow> (p, GlobMode))"

definition strip_bash_colon_wildcard :: "rstr \<Rightarrow> rstr" where
  "strip_bash_colon_wildcard p = (case strip_suffix (lit '':*'') p of Some q \<Rightarrow> q | None \<Rightarrow> p)"

definition unsupported_tool :: "rstr \<Rightarrow> bool" where
  "unsupported_tool name \<longleftrightarrow> name \<in> {lit ''EnterWorktree'', lit ''NotebookEdit'', lit ''NotebookRead''}"

definition parse_scoped_rule :: "rstr \<Rightarrow> nat \<Rightarrow> RuleAction \<Rightarrow> RuleParseError + PermissionRule" where
  "parse_scoped_rule rule open_paren action =
     (let prefix_trimmed = trim (take open_paren rule);
          content_and_close = drop (open_paren + 1) rule
      in case find_last_unescaped content_and_close 41 of
           None \<Rightarrow> Err (MalformedRule (lit ''missing closing parenthesis''))
         | Some close_paren \<Rightarrow>
             (let raw_content = trim (take close_paren content_and_close);
                  pattern = (if raw_content = [] \<or> raw_content = lit ''*'' then []
                             else unescape_rule_content raw_content)
              in case tool_name_to_filter prefix_trimmed of
                   None \<Rightarrow> if unsupported_tool prefix_trimmed then Err (UnsupportedToolPrefix prefix_trimmed)
                           else Err (UnknownToolPrefix prefix_trimmed)
                 | Some tool \<Rightarrow>
                     (case strip_domain_prefix (if tool = BashTool then strip_bash_colon_wildcard pattern else pattern) of
                        (p, mode) \<Rightarrow>
                          Ok \<lparr>pr_action = action, pr_tool = tool,
                              pr_pattern = (if p = [] then None else Some p), pr_pattern_mode = mode\<rparr>)))"

definition mcp_rule_pattern :: "rstr \<Rightarrow> rstr option" where
  "mcp_rule_pattern rest =
     (if rest = lit ''*'' then None
      else if sublist (lit ''__'') rest then Some rest
      else Some (rest @ lit ''__*''))"

definition parse_bare_rule :: "rstr \<Rightarrow> RuleAction \<Rightarrow> RuleParseError + PermissionRule" where
  "parse_bare_rule rule action =
     (if unsupported_tool rule then Err (UnsupportedToolPrefix rule)
      else case tool_name_to_filter rule of
             Some tool \<Rightarrow>
               Ok \<lparr>pr_action = action, pr_tool = tool, pr_pattern = None, pr_pattern_mode = GlobMode\<rparr>
           | None \<Rightarrow>
               (case strip_prefix (lit ''mcp__'') rule of
                  Some (c # rest) \<Rightarrow>
                    Ok \<lparr>pr_action = action, pr_tool = McpTool, pr_pattern = mcp_rule_pattern (c # rest),
                        pr_pattern_mode = GlobMode\<rparr>
                | _ \<Rightarrow>
                    Ok \<lparr>pr_action = action, pr_tool = AnyTool,
                        pr_pattern = (if rule = [] then None else Some rule), pr_pattern_mode = GlobMode\<rparr>))"

definition parse_permission_rule :: "rstr \<Rightarrow> RuleAction \<Rightarrow> RuleParseError + PermissionRule" where
  "parse_permission_rule text action =
     (let rule = trim text
      in case find_first_unescaped rule 40 of
           Some open_paren \<Rightarrow> parse_scoped_rule rule open_paren action
         | None \<Rightarrow> parse_bare_rule rule action)"

section \<open>Escaping\<close>

text \<open>The reference for unescaping: one pass from left to right. Escaping is its right inverse.\<close>

fun unescape_ref :: "rstr \<Rightarrow> rstr" where
  "unescape_ref (x # y # s) =
     (if x = 92 \<and> y \<in> {40, 41, 92} then y # unescape_ref s else x # unescape_ref (y # s))"
| "unescape_ref s = s"

definition escape_char :: "uchar \<Rightarrow> rstr" where
  "escape_char c = (if c \<in> {40, 41, 92} then [92, c] else [c])"

definition escape_rule_content :: "rstr \<Rightarrow> rstr" where
  "escape_rule_content s = concat (map escape_char s)"

lemma escape_simps [simp]:
  "escape_rule_content [] = []"
  "escape_rule_content (c # s) = escape_char c @ escape_rule_content s"
  "escape_rule_content (s @ t) = escape_rule_content s @ escape_rule_content t"
  by (simp_all add: escape_rule_content_def)

lemma unescape_ref_plain: "x \<noteq> 92 \<Longrightarrow> unescape_ref (x # s) = x # unescape_ref s"
  by (cases s) auto

lemma unescape_ref_escape: "unescape_ref (escape_rule_content s) = s"
  by (induction s) (auto simp: escape_char_def unescape_ref_plain)

lemma replace_pair_plain: "x \<noteq> a \<Longrightarrow> replace_pair a b r (x # s) = x # replace_pair a b r s"
  by (cases s) auto

lemma replace_paren_run:
  "b \<noteq> 92 \<Longrightarrow> replace_pair 92 b r (replicate n 92 @ x # s) =
     (if x = b \<and> 0 < n then replicate (n - 1) 92 @ r # replace_pair 92 b r s
      else replicate n 92 @ replace_pair 92 b r (x # s))" if "x \<noteq> 92"
proof (induction n)
  case (Suc n)
  then show ?case using that by (cases n) (auto simp: replace_pair_plain)
qed simp

lemma replace_paren_end: "b \<noteq> 92 \<Longrightarrow> replace_pair 92 b r (replicate n 92) = replicate n 92"
proof (induction n)
  case (Suc n)
  then show ?case by (cases n) auto
qed simp

lemma replace_backslash_run:
  "s = [] \<or> hd s \<noteq> 92 \<Longrightarrow>
   replace_pair 92 92 92 (replicate n 92 @ s) = replicate ((n + 1) div 2) 92 @ replace_pair 92 92 92 s"
proof (induction n rule: less_induct)
  case (less n)
  show ?case
  proof (cases "n < 2")
    case True
    then consider "n = 0" | "n = 1" by linarith
    then show ?thesis
    proof cases
      case 2
      then show ?thesis using less.prems by (cases s) auto
    qed simp
  next
    case False
    then obtain m where m: "n = Suc (Suc m)" by (metis add_2_eq_Suc le_Suc_ex not_less)
    then show ?thesis using less.IH [of m] less.prems by simp
  qed
qed

lemma unescape_ref_run:
  assumes "x \<noteq> 92"
  shows "unescape_ref (replicate n 92 @ x # s) =
     replicate (if x = 40 \<or> x = 41 then n div 2 else (n + 1) div 2) 92 @ x # unescape_ref s"
proof (induction n rule: less_induct)
  case (less n)
  show ?case
  proof (cases "n < 2")
    case True
    then consider "n = 0" | "n = 1" by linarith
    then show ?thesis using assms by cases (auto simp: unescape_ref_plain)
  next
    case False
    then obtain m where m: "n = Suc (Suc m)" by (metis add_2_eq_Suc le_Suc_ex not_less)
    then show ?thesis using less.IH [of m] by simp
  qed
qed

lemma unescape_ref_end: "unescape_ref (replicate n 92) = replicate ((n + 1) div 2) 92"
proof (induction n rule: less_induct)
  case (less n)
  show ?case
  proof (cases "n < 2")
    case True
    then consider "n = 0" | "n = 1" by linarith
    then show ?thesis by cases auto
  next
    case False
    then obtain m where m: "n = Suc (Suc m)" by (metis add_2_eq_Suc le_Suc_ex not_less)
    then show ?thesis using less.IH [of m] by simp
  qed
qed

lemma backslash_run: "\<exists>n t. s = replicate n 92 @ t \<and> (t = [] \<or> hd t \<noteq> (92::nat))"
proof (induction s)
  case (Cons c s)
  then obtain n t where s: "s = replicate n 92 @ t" "t = [] \<or> hd t \<noteq> 92" by auto
  show ?case
  proof (cases "c = 92")
    case True
    then have "c # s = replicate (Suc n) 92 @ t" using s by simp
    then show ?thesis using s by blast
  next
    case False
    then have "c # s = replicate 0 92 @ (c # s) \<and> (c # s = [] \<or> hd (c # s) \<noteq> 92)" by simp
    then show ?thesis by blast
  qed
qed simp

lemma three_passes: "replace_pair 92 92 92 (replace_pair 92 41 41 (replace_pair 92 40 40 s)) = unescape_ref s"
proof (induction "length s" arbitrary: s rule: less_induct)
  case less
  obtain n t where s: "s = replicate n 92 @ t" and t: "t = [] \<or> hd t \<noteq> 92" using backslash_run by blast
  show ?case
  proof (cases t)
    case Nil
    then show ?thesis using replace_backslash_run [of "[]" n] by (simp add: s replace_paren_end unescape_ref_end)
  next
    case (Cons x u)
    with t have x: "x \<noteq> 92" by simp
    have ih: "replace_pair 92 92 92 (replace_pair 92 41 41 (replace_pair 92 40 40 u)) = unescape_ref u"
      using less [of u] by (simp add: s Cons)
    have half: "replicate (Suc (n - Suc 0) div 2) (92::nat) = replicate (n div 2) 92" if "0 < n" using that by simp
    show ?thesis
      using x ih half replace_backslash_run [of "x # v" k for v k]
      by (cases "n = 0")
         (auto simp: s Cons replace_paren_run unescape_ref_run replace_pair_plain unescape_ref_plain)
  qed
qed

lemma unescape_is_one_pass: "unescape_rule_content s = unescape_ref s"
proof (cases "92 \<in> set s")
  case False
  then have "unescape_ref s = s" by (induction s) (auto simp: unescape_ref_plain)
  with False show ?thesis by (simp add: unescape_rule_content_def)
qed (simp add: unescape_rule_content_def three_passes)

section \<open>Rules with a scope\<close>

definition tool_names :: "rstr list" where
  "tool_names =
     [lit ''Bash'', lit ''Read'', lit ''Edit'', lit ''Write'', lit ''MCPTool'', lit ''Grep'', lit ''Glob'', lit ''WebFetch'',
      lit ''WebSearch'', lit ''AgentMessage'', lit ''SendSubagentMessage'', lit ''SendAgentMessage'']"

lemma tool_name_known: "tool_name_to_filter name = Some tool \<Longrightarrow> name \<in> set tool_names"
  unfolding tool_name_to_filter_def tool_names_def by (simp del: lit_simps split: if_splits) blast+

lemma tool_names_plain:
  "list_all (\<lambda>name. name \<noteq> [] \<and> trimmed name \<and> 40 \<notin> set name \<and> 92 \<notin> set name) tool_names"
  by (simp add: tool_names_def trimmed_def is_whitespace_def)

lemma tool_name_plain:
  assumes "tool_name_to_filter name = Some tool"
  shows "name \<noteq> []" "trimmed name" "40 \<notin> set name" "92 \<notin> set name"
  using tool_names_plain tool_name_known [OF assms] by (auto simp: list_all_iff)

lemma escape_trailing_backslashes: "even (length (takeWhile (\<lambda>c. c = 92) (rev (escape_rule_content s))))"
  by (induction s rule: rev_induct) (auto simp: escape_char_def)

lemma escape_trimmed: "trimmed s \<Longrightarrow> trimmed (escape_rule_content s)"
proof (cases s rule: rev_cases)
  case (snoc t x)
  assume "trimmed s"
  then have "\<not> is_whitespace (hd s)" "\<not> is_whitespace x" by (auto simp: trimmed_def snoc)
  moreover have "hd (escape_rule_content s) = hd s \<or> hd (escape_rule_content s) = 92" "escape_rule_content s \<noteq> []"
    unfolding snoc by (cases t; auto simp: escape_char_def)+
  moreover have "last (escape_rule_content s) = x" by (simp add: snoc escape_char_def)
  moreover have "\<not> is_whitespace 92" by (simp add: is_whitespace_def)
  ultimately show ?thesis unfolding trimmed_def by metis
qed (simp add: trimmed_def)

lemma find_upt_first:
  assumes "k < n" and "P k" and "\<forall>i<k. \<not> P i"
  shows "find P [0..<n] = Some k"
  using assms by (auto simp: find_Some_iff intro!: exI [of _ k])

lemma find_upt_last: "P n \<Longrightarrow> find P (rev [0..<Suc n]) = Some n"
  by simp

lemma scoped_open:
  assumes "40 \<notin> set name" and "92 \<notin> set name"
  shows "find_first_unescaped (name @ 40 # rest) 40 = Some (length name)"
  unfolding find_first_unescaped_def
proof (rule find_upt_first)
  have "\<forall>c\<in>set (rev name). c \<noteq> 92" using assms(2) by auto
  then have "takeWhile (\<lambda>c. c = 92) (rev name) = []" by (cases "rev name") simp_all
  then show "(name @ 40 # rest) ! length name = 40 \<and> is_unescaped (name @ 40 # rest) (length name)"
    by (simp add: is_unescaped_def)
  show "\<forall>i<length name. \<not> ((name @ 40 # rest) ! i = 40 \<and> is_unescaped (name @ 40 # rest) i)"
    using assms(1) by (auto simp: nth_append in_set_conv_nth)
qed simp

lemma scoped_close: "find_last_unescaped (escape_rule_content s @ [41]) 41 = Some (length (escape_rule_content s))"
  using find_upt_last [of "\<lambda>i. (escape_rule_content s @ [41]) ! i = 41 \<and> is_unescaped (escape_rule_content s @ [41]) i"
      "length (escape_rule_content s)"] escape_trailing_backslashes [of s]
  by (simp add: find_last_unescaped_def is_unescaped_def)

lemma escape_star: "escape_rule_content s = [42] \<longleftrightarrow> s = [42]"
proof
  assume "escape_rule_content s = [42]"
  then show "s = [42]" using unescape_ref_escape [of s] by simp
qed (simp add: escape_char_def)

lemma escape_Nil: "escape_rule_content s = [] \<longleftrightarrow> s = []"
  by (cases s) (auto simp: escape_char_def)

lemma escape_trim_start: "trim_start (escape_rule_content s) = escape_rule_content (trim_start s)"
  by (induction s) (auto simp: trim_start_def escape_char_def is_whitespace_def)

lemma escape_trim_end: "trim_end (escape_rule_content s) = escape_rule_content (trim_end s)"
  by (induction s rule: rev_induct) (auto simp: trim_end_def escape_char_def is_whitespace_def)

lemma escape_trim: "trim (escape_rule_content s) = escape_rule_content (trim s)"
  by (simp add: trim_def escape_trim_start escape_trim_end)

text \<open>
  What the content between the parentheses of a rule means, unescaped and without surrounding white
  space: nothing or a lone star is the whole tool; a Bash content that ends in \<open>:*\<close> stands for the
  commands that start with the rest; \<open>domain:\<close> makes a domain of what follows; anything else is a
  glob, as written.
\<close>

definition rule_on :: "RuleAction \<Rightarrow> ToolFilter \<Rightarrow> rstr \<Rightarrow> PatternMode \<Rightarrow> PermissionRule" where
  "rule_on action tool p mode =
     \<lparr>pr_action = action, pr_tool = tool, pr_pattern = (if p = [] then None else Some p), pr_pattern_mode = mode\<rparr>"

definition content_rule :: "RuleAction \<Rightarrow> ToolFilter \<Rightarrow> rstr \<Rightarrow> PermissionRule" where
  "content_rule action tool c =
     (if c = lit ''*'' then rule_on action tool [] GlobMode
      else let p = (if tool = BashTool \<and> suffix (lit '':*'') c then take (length c - 2) c else c)
           in if prefix (lit ''domain:'') p then rule_on action tool (drop 7 p) DomainMode
              else rule_on action tool p GlobMode)"

lemma scoped_rule_reads_back:
  assumes tool: "tool_name_to_filter name = Some tool"
  shows "parse_permission_rule (name @ 40 # escape_rule_content s @ [41]) action = Ok (content_rule action tool (trim s))"
proof -
  note name = tool_name_plain [OF tool]
  let ?text = "name @ 40 # escape_rule_content s @ [41]"
  have "trimmed ?text" using name(1,2) by (auto simp: trimmed_def is_whitespace_def)
  then have trim: "trim ?text = ?text" by simp
  have pat: "strip_bash_colon_wildcard p = (if suffix (lit '':*'') p then take (length p - 2) p else p)" for p
    by (simp add: strip_bash_colon_wildcard_def strip_suffix_def numeral_2_eq_2)
  have dom: "strip_domain_prefix p = (if prefix (lit ''domain:'') p then (drop 7 p, DomainMode) else (p, GlobMode))" for p
    by (simp add: strip_domain_prefix_def strip_prefix_def eval_nat_numeral)
  have star: "escape_char 42 = [42]" by (simp add: escape_char_def)
  show ?thesis
    using tool name
    by (cases "trim s = [42]") (simp_all add: star parse_permission_rule_def trim scoped_open parse_scoped_rule_def scoped_close Let_def
        escape_trim escape_star escape_Nil unescape_is_one_pass unescape_ref_escape pat dom
        content_rule_def rule_on_def)
qed

lemma strip_suffix_append: "strip_suffix p (s @ p) = Some s"
  by (simp add: strip_suffix_def suffix_def)

section \<open>Properties\<close>

text \<open>
  C16: rules read back. For every tool name and every content, the rule made of the name and the escaped
  content between parentheses is read as a rule on that tool with the pattern the content stands for, white
  space around it left out: nothing and a lone star are tool-wide, a Bash content ending in \<open>:*\<close> is a
  command prefix, \<open>domain:\<close> makes a domain. In particular a content that is free of surrounding white
  space, not empty, not a lone star, does not begin with \<open>domain:\<close> and for Bash does not end in \<open>:*\<close>, is
  read back exactly. The three replacements of the source are one left-to-right pass of unescaping, so no
  order of escapes is misread.
\<close>

theorem permission_rule_roundtrip:
  assumes "tool_name_to_filter name = Some tool"
  shows "parse_permission_rule (name @ 40 # escape_rule_content s @ [41]) action = Ok (content_rule action tool (trim s)) \<and>
    (trimmed s \<and> s \<noteq> [] \<and> s \<noteq> lit ''*'' \<and> \<not> prefix (lit ''domain:'') s \<and> \<not> (tool = BashTool \<and> suffix (lit '':*'') s) \<longrightarrow>
      parse_permission_rule (name @ 40 # escape_rule_content s @ [41]) action =
        Ok \<lparr>pr_action = action, pr_tool = tool, pr_pattern = Some s, pr_pattern_mode = GlobMode\<rparr>) \<and>
    unescape_rule_content t = unescape_ref t"
  using scoped_rule_reads_back [OF assms, of s action] unescape_is_one_pass [of t]
  by (auto simp: content_rule_def rule_on_def)

theorem permission_rule_roundtrip_witness:
  "parse_permission_rule (lit ''Bash(echo '' @ [92, 40, 92, 92, 41]) DenyRule =
     Ok \<lparr>pr_action = DenyRule, pr_tool = BashTool, pr_pattern = Some (lit ''echo ('' @ [92]), pr_pattern_mode = GlobMode\<rparr> \<and>
   parse_permission_rule (lit ''Bash(npm:*)'') AllowRule =
     Ok \<lparr>pr_action = AllowRule, pr_tool = BashTool, pr_pattern = Some (lit ''npm''), pr_pattern_mode = GlobMode\<rparr> \<and>
   parse_permission_rule (lit ''WebFetch(domain:x.ai)'') AllowRule =
     Ok \<lparr>pr_action = AllowRule, pr_tool = WebFetchTool, pr_pattern = Some (lit ''x.ai''), pr_pattern_mode = DomainMode\<rparr>"
proof -
  have name: "tool_name_to_filter (lit ''Bash'') = Some BashTool" "tool_name_to_filter (lit ''WebFetch'') = Some WebFetchTool"
    by (simp_all add: tool_name_to_filter_def)
  have t: "trimmed (lit ''echo ('' @ [92])" "trimmed (lit ''npm:*'')" "trimmed (lit ''domain:x.ai'')"
    by (simp_all add: trimmed_def is_whitespace_def)
  have rules: "lit ''Bash(echo '' @ [92, 40, 92, 92, 41] = lit ''Bash'' @ 40 # escape_rule_content (lit ''echo ('' @ [92]) @ [41]"
    "lit ''Bash(npm:*)'' = lit ''Bash'' @ 40 # escape_rule_content (lit ''npm:*'') @ [41]"
    "lit ''WebFetch(domain:x.ai)'' = lit ''WebFetch'' @ 40 # escape_rule_content (lit ''domain:x.ai'') @ [41]"
    by (simp_all add: escape_char_def)
  have shape: "content_rule DenyRule BashTool (lit ''echo ('' @ [92]) = rule_on DenyRule BashTool (lit ''echo ('' @ [92]) GlobMode"
    "content_rule AllowRule BashTool (lit ''npm:*'') = rule_on AllowRule BashTool (lit ''npm'') GlobMode"
    "content_rule AllowRule WebFetchTool (lit ''domain:x.ai'') = rule_on AllowRule WebFetchTool (lit ''x.ai'') DomainMode"
    by (simp_all add: content_rule_def suffix_to_prefix)
  note reads = permission_rule_roundtrip [THEN conjunct1]
  show ?thesis unfolding rules
    using reads [OF name(1), of "lit ''echo ('' @ [92]" DenyRule] reads [OF name(1), of "lit ''npm:*''" AllowRule]
      reads [OF name(2), of "lit ''domain:x.ai''" AllowRule]
    unfolding trimmed_trim [OF t(1)] trimmed_trim [OF t(2)] trimmed_trim [OF t(3)] shape by (simp add: rule_on_def)
qed

text \<open>A hook's line is taken off the title it was put on.\<close>

lemma prompt_header_strips: "strip_prompt_header h (prompt_header h action) = action"
  using strip_suffix_append [of "ask_line h" "action @ HOOK_ASK_SEPARATOR"]
    strip_suffix_append [of HOOK_ASK_SEPARATOR action]
  by (simp add: strip_prompt_header_def prompt_header_def)

end
