(* ===== verification/Web_Access.thy ===== *)
theory Web_Access
  imports Prelude "HOL-Library.Word"
begin

unbundle bit_operations_syntax

text \<open>
  What the \<open>web_fetch\<close> tool may reach: the address policy of \<open>web_fetch/ssrf.rs\<close> and the allow list of
  \<open>web_fetch/domain.rs\<close>. Addresses are words of 32 and 128 bits, with the predicates and the text
  format of \<open>std::net\<close> written out. Two things come from outside: the resolver, the parameter \<open>lookup\<close>
  (the addresses a name resolves to, or the resolver's error), and Unicode lower-casing, the parameter
  \<open>lower\<close>. A URL (third-party type \<open>url::Url\<close>) is given by its host and its path.
\<close>

section \<open>Addresses\<close>

type_synonym Ipv4Addr = "32 word"
type_synonym Ipv6Addr = "128 word"

datatype IpAddr = V4 Ipv4Addr | V6 Ipv6Addr

definition octets4 :: "nat \<Rightarrow> nat \<Rightarrow> nat \<Rightarrow> nat \<Rightarrow> Ipv4Addr" where
  "octets4 a b c d = word_of_nat (((a * 256 + b) * 256 + c) * 256 + d)"

definition octet :: "nat \<Rightarrow> Ipv4Addr \<Rightarrow> nat" where
  "octet k ip = unat ip div 256 ^ (3 - k) mod 256"

definition segment :: "nat \<Rightarrow> Ipv6Addr \<Rightarrow> nat" where
  "segment k ip = unat ip div 65536 ^ (7 - k) mod 65536"

text \<open>\<open>Ipv4Addr\<close> and \<open>Ipv6Addr\<close> of \<open>std::net\<close>.\<close>

definition v4_is_loopback :: "Ipv4Addr \<Rightarrow> bool" where
  "v4_is_loopback ip \<longleftrightarrow> octet 0 ip = 127"

definition v4_is_private :: "Ipv4Addr \<Rightarrow> bool" where
  "v4_is_private ip \<longleftrightarrow>
     octet 0 ip = 10 \<or> (octet 0 ip = 172 \<and> 16 \<le> octet 1 ip \<and> octet 1 ip \<le> 31) \<or>
     (octet 0 ip = 192 \<and> octet 1 ip = 168)"

definition v4_is_link_local :: "Ipv4Addr \<Rightarrow> bool" where
  "v4_is_link_local ip \<longleftrightarrow> octet 0 ip = 169 \<and> octet 1 ip = 254"

definition v4_is_multicast :: "Ipv4Addr \<Rightarrow> bool" where
  "v4_is_multicast ip \<longleftrightarrow> 224 \<le> octet 0 ip \<and> octet 0 ip \<le> 239"

definition to_ipv4_mapped :: "Ipv6Addr \<Rightarrow> Ipv4Addr option" where
  "to_ipv4_mapped ip = (if unat ip div 2 ^ 32 = 65535 then Some (word_of_nat (unat ip mod 2 ^ 32)) else None)"

definition ip_is_loopback :: "IpAddr \<Rightarrow> bool" where
  "ip_is_loopback ip = (case ip of V4 a \<Rightarrow> v4_is_loopback a | V6 a \<Rightarrow> a = 1)"

section \<open>The address policy\<close>

definition ipv4_in_cidr :: "Ipv4Addr \<Rightarrow> Ipv4Addr \<Rightarrow> nat \<Rightarrow> bool" where
  "ipv4_in_cidr ip base len =
     (let mask = (if len = 0 then 0 else push_bit (32 - len) (- 1))
      in ip AND mask = base AND mask)"

definition is_non_public_ipv4 :: "Ipv4Addr \<Rightarrow> bool" where
  "is_non_public_ipv4 ip \<longleftrightarrow>
     v4_is_loopback ip \<or> v4_is_private ip \<or> v4_is_link_local ip \<or> ip = 0 \<or> v4_is_multicast ip \<or> ip = - 1 \<or>
     ipv4_in_cidr ip (octets4 0 0 0 0) 8 \<or>
     ipv4_in_cidr ip (octets4 100 64 0 0) 10 \<or>
     ipv4_in_cidr ip (octets4 192 0 0 0) 24 \<or>
     ipv4_in_cidr ip (octets4 192 0 2 0) 24 \<or>
     ipv4_in_cidr ip (octets4 198 18 0 0) 15 \<or>
     ipv4_in_cidr ip (octets4 198 51 100 0) 24 \<or>
     ipv4_in_cidr ip (octets4 203 0 113 0) 24 \<or>
     ipv4_in_cidr ip (octets4 240 0 0 0) 4"

definition is_non_public_ipv6 :: "Ipv6Addr \<Rightarrow> bool" where
  "is_non_public_ipv6 ip =
     (case to_ipv4_mapped ip of
        Some v4 \<Rightarrow> is_non_public_ipv4 v4
      | None \<Rightarrow>
          ip = 1 \<or> ip = 0 \<or>
          segment 0 ip div 256 = 255 \<or>
          segment 0 ip AND 0xfe00 = 0xfc00 \<or>
          segment 0 ip AND 0xffc0 = 0xfe80)"

definition is_non_public_ip :: "IpAddr \<Rightarrow> bool" where
  "is_non_public_ip ip = (case ip of V4 v4 \<Rightarrow> is_non_public_ipv4 v4 | V6 v6 \<Rightarrow> is_non_public_ipv6 v6)"

definition is_loopback_addr :: "IpAddr \<Rightarrow> bool" where
  "is_loopback_addr ip \<longleftrightarrow>
     ip_is_loopback ip \<or>
     (case ip of
        V6 v6 \<Rightarrow> (case to_ipv4_mapped v6 of Some v4 \<Rightarrow> v4_is_loopback v4 | None \<Rightarrow> False)
      | V4 _ \<Rightarrow> False)"

section \<open>Addresses in text\<close>

text \<open>
  The parser of \<open>std::net\<close>: a reader takes the text and returns the value and the rest, or fails. Digits
  of a number are read greedily; too many digits, a value out of range or a forbidden leading zero fail.
\<close>

definition digit_value :: "nat \<Rightarrow> uchar \<Rightarrow> nat option" where
  "digit_value radix c =
     (let d = (if 48 \<le> c \<and> c \<le> 57 then c - 48
               else if 97 \<le> c \<and> c \<le> 122 then c - 87
               else if 65 \<le> c \<and> c \<le> 90 then c - 55 else 36)
      in if d < radix then Some d else None)"

definition read_number :: "nat \<Rightarrow> nat \<Rightarrow> bool \<Rightarrow> nat \<Rightarrow> rstr \<Rightarrow> (nat \<times> rstr) option" where
  "read_number radix max_digits allow_zero_prefix bound s =
     (let ds = takeWhile (\<lambda>c. digit_value radix c \<noteq> None) s;
          n = foldl (\<lambda>a c. a * radix + the (digit_value radix c)) 0 ds
      in if ds = [] \<or> max_digits < length ds \<or> bound \<le> n \<or>
            (\<not> allow_zero_prefix \<and> hd ds = 48 \<and> 1 < length ds) then None
         else Some (n, drop (length ds) s))"

definition read_separator :: "uchar \<Rightarrow> nat \<Rightarrow> (rstr \<Rightarrow> ('a \<times> rstr) option) \<Rightarrow> rstr \<Rightarrow> ('a \<times> rstr) option" where
  "read_separator sep i inner s =
     (if i = 0 then inner s
      else case s of c # r \<Rightarrow> if c = sep then inner r else None | [] \<Rightarrow> None)"

definition read_ipv4_addr :: "rstr \<Rightarrow> (Ipv4Addr \<times> rstr) option" where
  "read_ipv4_addr s =
     (let num = read_number 10 3 False 256
      in case num s of
           None \<Rightarrow> None
         | Some (a, s1) \<Rightarrow>
             (case read_separator 46 1 num s1 of
                None \<Rightarrow> None
              | Some (b, s2) \<Rightarrow>
                  (case read_separator 46 2 num s2 of
                     None \<Rightarrow> None
                   | Some (c, s3) \<Rightarrow>
                       (case read_separator 46 3 num s3 of
                          None \<Rightarrow> None
                        | Some (d, s4) \<Rightarrow> Some (octets4 a b c d, s4)))))"

text \<open>The groups read, whether an embedded IPv4 address ended them, and the rest.\<close>

function read_groups :: "nat \<Rightarrow> nat \<Rightarrow> nat list \<Rightarrow> rstr \<Rightarrow> nat list \<times> bool \<times> rstr" where
  "read_groups limit i gs s =
     (if limit \<le> i then (gs, False, s)
      else case (if i + 1 < limit then read_separator 58 i read_ipv4_addr s else None) of
             Some (v4, r) \<Rightarrow> (gs @ [unat v4 div 65536, unat v4 mod 65536], True, r)
           | None \<Rightarrow>
               (case read_separator 58 i (read_number 16 4 True 65536) s of
                  Some (g, r) \<Rightarrow> read_groups limit (i + 1) (gs @ [g]) r
                | None \<Rightarrow> (gs, False, s)))"
  by pat_completeness auto
termination by (relation "measure (\<lambda>(limit, i, _, _). limit - i)") auto

definition ipv6_of_groups :: "nat list \<Rightarrow> Ipv6Addr" where
  "ipv6_of_groups gs = word_of_nat (foldl (\<lambda>a g. a * 65536 + g) 0 gs)"

definition read_ipv6_addr :: "rstr \<Rightarrow> (Ipv6Addr \<times> rstr) option" where
  "read_ipv6_addr s =
     (case read_groups 8 0 [] s of
        (head, v4, r) \<Rightarrow>
          if length head = 8 then Some (ipv6_of_groups head, r)
          else if v4 then None
          else case r of
                 c # c' # r' \<Rightarrow>
                   if c = 58 \<and> c' = 58
                   then (case read_groups (8 - (length head + 1)) 0 [] r' of
                           (tail, _, r'') \<Rightarrow>
                             Some (ipv6_of_groups (head @ replicate (8 - length head - length tail) 0 @ tail), r''))
                   else None
               | _ \<Rightarrow> None)"

definition parse_ip :: "rstr \<Rightarrow> IpAddr option" where
  "parse_ip s =
     (case read_ipv4_addr s of
        Some (a, r) \<Rightarrow> if r = [] then Some (V4 a) else None
      | None \<Rightarrow>
          (case read_ipv6_addr s of
             Some (a, r) \<Rightarrow> if r = [] then Some (V6 a) else None
           | None \<Rightarrow> None))"

section \<open>Hosts\<close>

definition trim_end_char :: "uchar \<Rightarrow> rstr \<Rightarrow> rstr" where
  "trim_end_char c s = rev (dropWhile (\<lambda>x. x = c) (rev s))"

definition is_explicit_local_host :: "rstr \<Rightarrow> bool" where
  "is_explicit_local_host raw =
     (let h0 = to_ascii_lowercase (trim_end_char 46 (trim raw));
          h1 = (case Option.bind (strip_prefix [91] h0) (strip_suffix [93]) of Some h \<Rightarrow> h | None \<Rightarrow> h0);
          host = hd (split_char 37 h1)
      in if host = lit ''localhost'' then True
         else case parse_ip host of Some ip \<Rightarrow> ip_is_loopback ip | None \<Rightarrow> False)"

definition is_blocked_for_host :: "IpAddr \<Rightarrow> rstr \<Rightarrow> bool \<Rightarrow> bool" where
  "is_blocked_for_host ip host allow_local =
     (if \<not> is_non_public_ip ip then False
      else if allow_local \<and> is_loopback_addr ip \<and> is_explicit_local_host host then False
      else True)"

datatype 'io WebFetchError =
    SingleLabelHost rstr
  | SsrfBlocked rstr IpAddr
  | DnsResolution rstr 'io
  | DnsEmpty rstr

definition check_ssrf ::
  "(rstr \<Rightarrow> 'io + IpAddr list) \<Rightarrow> rstr option \<Rightarrow> nat option \<Rightarrow> bool \<Rightarrow> 'io WebFetchError + unit" where
  "check_ssrf lookup url_host url_port allow_local =
     (case url_host of
        None \<Rightarrow> Err (SingleLabelHost [])
      | Some host \<Rightarrow>
          (case parse_ip host of
             Some ip \<Rightarrow> if is_blocked_for_host ip host allow_local then Err (SsrfBlocked host ip) else Ok ()
           | None \<Rightarrow>
               (let port = (case url_port of Some p \<Rightarrow> p | None \<Rightarrow> 443)
                in case lookup (host @ [58] @ show_dec port) of
                     Inl e \<Rightarrow> Err (DnsResolution host e)
                   | Inr addrs \<Rightarrow>
                       if addrs = [] then Err (DnsEmpty host)
                       else case find (\<lambda>a. is_blocked_for_host a host allow_local) addrs of
                              None \<Rightarrow> Ok ()
                            | Some a \<Rightarrow> Err (SsrfBlocked host a))))"

section \<open>The allow list\<close>

definition normalize_domain :: "(rstr \<Rightarrow> rstr) \<Rightarrow> rstr \<Rightarrow> rstr" where
  "normalize_domain lower raw =
     (let s = trim_end_char 46 (trim_end_char 47 (trim raw));
          s' = (case strip_prefix (lit ''www.'') s of Some t \<Rightarrow> t | None \<Rightarrow> s)
      in lower s')"

datatype HostEntry = AnyPath | PathPrefixes "rstr list"

type_synonym DomainMatcher = "rstr \<rightharpoonup> HostEntry"

definition add_prefix :: "rstr \<Rightarrow> rstr \<Rightarrow> DomainMatcher \<Rightarrow> DomainMatcher" where
  "add_prefix host p m =
     m(host \<mapsto> (case m host of
                   Some (PathPrefixes v) \<Rightarrow> PathPrefixes (if p \<in> set v then v else v @ [p])
                 | Some AnyPath \<Rightarrow> AnyPath
                 | None \<Rightarrow> PathPrefixes [p]))"

definition add_entry :: "(rstr \<Rightarrow> rstr) \<Rightarrow> rstr \<Rightarrow> DomainMatcher \<Rightarrow> DomainMatcher" where
  "add_entry lower raw m =
     (let normalized = normalize_domain lower raw
      in if normalized = [] then m
         else let host = takeWhile (\<lambda>c. c \<noteq> 47) normalized
              in if 47 \<notin> set normalized then m(host \<mapsto> AnyPath)
                 else if m host = Some AnyPath then m
                 else let p = trim_end_char 47 (dropWhile (\<lambda>c. c \<noteq> 47) normalized)
                      in if p = [] \<or> p = [47] then m(host \<mapsto> AnyPath)
                         else add_prefix host (if prefix [47] p then p else 47 # p) m)"

definition DomainMatcher_new :: "(rstr \<Rightarrow> rstr) \<Rightarrow> rstr list \<Rightarrow> DomainMatcher" where
  "DomainMatcher_new lower raw_entries = fold (add_entry lower) raw_entries Map.empty"

text \<open>\<open>starts_with\<close> and the byte after the prefix: a slash is one byte, so the next character is one.\<close>

definition path_allowed :: "rstr \<Rightarrow> rstr \<Rightarrow> bool" where
  "path_allowed url_path p \<longleftrightarrow> url_path = p \<or> prefix (p @ [47]) url_path"

text \<open>\<open>None\<close> permits the fetch; \<open>Some d\<close> is \<open>DomainNotAllowed(d)\<close>.\<close>

definition DomainMatcher_check :: "(rstr \<Rightarrow> rstr) \<Rightarrow> DomainMatcher \<Rightarrow> rstr option \<Rightarrow> rstr \<Rightarrow> rstr option" where
  "DomainMatcher_check lower m url_host url_path =
     (case url_host of
        None \<Rightarrow> Some []
      | Some raw_host \<Rightarrow>
          (let host = normalize_domain lower raw_host
           in case m host of
                Some AnyPath \<Rightarrow> None
              | Some (PathPrefixes ps) \<Rightarrow>
                  if \<exists>p\<in>set ps. path_allowed (lower url_path) p then None else Some host
              | None \<Rightarrow> Some host))"

section \<open>Ranges\<close>

lemma mask_prefix_eq:
  fixes a b :: "32 word"
  shows "a AND push_bit k (- 1) = b AND push_bit k (- 1) \<longleftrightarrow> drop_bit k a = drop_bit k b"
proof
  assume eq: "a AND push_bit k (- 1) = b AND push_bit k (- 1)"
  show "drop_bit k a = drop_bit k b"
  proof (rule bit_word_eqI)
    fix n assume "n < LENGTH(32)"
    show "bit (drop_bit k a) n = bit (drop_bit k b) n"
    proof (cases "k + n < 32")
      case True
      then have "bit (a AND push_bit k (- 1)) (k + n) = bit a (k + n)"
        and "bit (b AND push_bit k (- 1)) (k + n) = bit b (k + n)"
        by (auto simp: bit_and_iff bit_not_iff bit_mask_iff)
      then show ?thesis using eq by (simp add: bit_drop_bit_eq)
    next
      case False
      then show ?thesis by (auto simp: bit_drop_bit_eq dest: bit_imp_le_length)
    qed
  qed
next
  assume eq: "drop_bit k a = drop_bit k b"
  show "a AND push_bit k (- 1) = b AND push_bit k (- 1)"
  proof (rule bit_word_eqI)
    fix n assume n: "n < LENGTH(32)"
    show "bit (a AND push_bit k (- 1)) n = bit (b AND push_bit k (- 1)) n"
    proof (cases "k \<le> n")
      case True
      then have "bit a n = bit (drop_bit k a) (n - k)" "bit b n = bit (drop_bit k b) (n - k)"
        by (simp_all add: bit_drop_bit_eq)
      with eq show ?thesis by (simp add: bit_and_iff)
    qed (simp add: bit_and_iff bit_not_iff bit_mask_iff n)
  qed
qed

lemma ipv4_in_cidr_iff:
  assumes "0 < len" and "len \<le> 32"
  shows "ipv4_in_cidr ip base len \<longleftrightarrow> unat ip div 2 ^ (32 - len) = unat base div 2 ^ (32 - len)"
proof -
  have "drop_bit k ip = drop_bit k base \<longleftrightarrow> unat ip div 2 ^ k = unat base div 2 ^ k" for k
    by (simp only: word_unat_eq_iff unat_drop_bit_eq) (simp add: drop_bit_eq_div)
  then show ?thesis using assms mask_prefix_eq [of ip "32 - len" base] by (simp add: ipv4_in_cidr_def Let_def)
qed

text \<open>The blocked IPv4 ranges as a table of numbers: first address, first address after.\<close>

definition ip_number :: "nat \<Rightarrow> nat \<Rightarrow> nat \<Rightarrow> nat \<Rightarrow> nat" where
  "ip_number a b c d = ((a * 256 + b) * 256 + c) * 256 + d"

definition special_ranges :: "(nat \<times> nat) list" where
  "special_ranges =
     [(ip_number 0 0 0 0, ip_number 1 0 0 0), (ip_number 10 0 0 0, ip_number 11 0 0 0),
      (ip_number 100 64 0 0, ip_number 100 128 0 0), (ip_number 127 0 0 0, ip_number 128 0 0 0),
      (ip_number 169 254 0 0, ip_number 169 255 0 0), (ip_number 172 16 0 0, ip_number 172 32 0 0),
      (ip_number 192 0 0 0, ip_number 192 0 1 0), (ip_number 192 0 2 0, ip_number 192 0 3 0),
      (ip_number 192 168 0 0, ip_number 192 169 0 0), (ip_number 198 18 0 0, ip_number 198 20 0 0),
      (ip_number 198 51 100 0, ip_number 198 51 101 0), (ip_number 203 0 113 0, ip_number 203 0 114 0),
      (ip_number 224 0 0 0, ip_number 256 0 0 0)]"

definition in_special_range :: "nat \<Rightarrow> bool" where
  "in_special_range n \<longleftrightarrow> (\<exists>(lo, hi)\<in>set special_ranges. lo \<le> n \<and> n < hi)"

lemma div_eq_range: "0 < (k::nat) \<Longrightarrow> n div k = m \<longleftrightarrow> m * k \<le> n \<and> n < (m + 1) * k"
  by (metis add.commute div_nat_eqI dividend_less_times_div div_times_less_eq_dividend mult.commute mult_Suc_right plus_1_eq_Suc)

lemma high_half:
  fixes ip :: Ipv4Addr
  shows "octet 0 ip = unat ip div 65536 div 256" "octet 1 ip = unat ip div 65536 mod 256" "unat ip < 4294967296"
proof -
  show bound: "unat ip < 4294967296" using unsigned_less [of ip] by simp
  then have "unat ip div 16777216 < 256" by (simp add: less_mult_imp_div_less)
  then show "octet 0 ip = unat ip div 65536 div 256" by (simp add: octet_def flip: div_mult2_eq)
  show "octet 1 ip = unat ip div 65536 mod 256" by (simp add: octet_def)
qed

lemma half_range: "a \<le> (n::nat) div 65536 \<and> n div 65536 \<le> b \<longleftrightarrow> a * 65536 \<le> n \<and> n < (b + 1) * 65536"
  using less_eq_div_iff_mult_less_eq [of 65536 a n] div_less_iff_less_mult [of 65536 n "b + 1"] by auto

lemma byte_pair:
  fixes x :: nat
  shows "x div 256 = q \<longleftrightarrow> q * 256 \<le> x \<and> x \<le> q * 256 + 255"
    and "lo \<le> hi \<Longrightarrow> hi < 256 \<Longrightarrow> x div 256 = q \<and> lo \<le> x mod 256 \<and> x mod 256 \<le> hi \<longleftrightarrow> q * 256 + lo \<le> x \<and> x \<le> q * 256 + hi"
    and "p \<le> x div 256 \<and> x div 256 \<le> q \<longleftrightarrow> p * 256 \<le> x \<and> x \<le> q * 256 + 255"
proof -
  have x: "x = x div 256 * 256 + x mod 256" and r: "x mod 256 < 256" by simp_all
  show "x div 256 = q \<longleftrightarrow> q * 256 \<le> x \<and> x \<le> q * 256 + 255" using x r by linarith
  show "p \<le> x div 256 \<and> x div 256 \<le> q \<longleftrightarrow> p * 256 \<le> x \<and> x \<le> q * 256 + 255" using x r by linarith
  show "x div 256 = q \<and> lo \<le> x mod 256 \<and> x mod 256 \<le> hi \<longleftrightarrow> q * 256 + lo \<le> x \<and> x \<le> q * 256 + hi"
    if "lo \<le> hi" "hi < 256"
  proof
    assume "q * 256 + lo \<le> x \<and> x \<le> q * 256 + hi"
    moreover from this that(2) x r have "x div 256 = q" by linarith
    ultimately show "x div 256 = q \<and> lo \<le> x mod 256 \<and> x mod 256 \<le> hi" using x by linarith
  qed (use x in linarith)
qed

lemma std_predicates:
  fixes ip :: Ipv4Addr
  defines "n \<equiv> unat ip"
  shows "v4_is_loopback ip \<longleftrightarrow> ip_number 127 0 0 0 \<le> n \<and> n < ip_number 128 0 0 0"
    and "v4_is_private ip \<longleftrightarrow> (ip_number 10 0 0 0 \<le> n \<and> n < ip_number 11 0 0 0) \<or>
      (ip_number 172 16 0 0 \<le> n \<and> n < ip_number 172 32 0 0) \<or> (ip_number 192 168 0 0 \<le> n \<and> n < ip_number 192 169 0 0)"
    and "v4_is_link_local ip \<longleftrightarrow> ip_number 169 254 0 0 \<le> n \<and> n < ip_number 169 255 0 0"
    and "v4_is_multicast ip \<longleftrightarrow> ip_number 224 0 0 0 \<le> n \<and> n < ip_number 240 0 0 0"
proof -
  define x where "x = n div 65536"
  have oct: "octet 0 ip = x div 256" "octet 1 ip = x mod 256" using high_half by (simp_all add: x_def n_def)
  have "v4_is_loopback ip \<longleftrightarrow> 32512 \<le> x \<and> x \<le> 32767" unfolding v4_is_loopback_def oct by (simp add: byte_pair(1))
  then show "v4_is_loopback ip \<longleftrightarrow> ip_number 127 0 0 0 \<le> n \<and> n < ip_number 128 0 0 0"
    by (simp add: x_def half_range ip_number_def)
  have "v4_is_link_local ip \<longleftrightarrow> 43518 \<le> x \<and> x \<le> 43518" 
    using byte_pair(2) [of 254 254 x 169] unfolding v4_is_link_local_def oct by auto
  then show "v4_is_link_local ip \<longleftrightarrow> ip_number 169 254 0 0 \<le> n \<and> n < ip_number 169 255 0 0"
    by (simp only: x_def half_range) (simp add: ip_number_def)
  have "v4_is_multicast ip \<longleftrightarrow> 57344 \<le> x \<and> x \<le> 61439" unfolding v4_is_multicast_def oct by (simp add: byte_pair(3))
  then show "v4_is_multicast ip \<longleftrightarrow> ip_number 224 0 0 0 \<le> n \<and> n < ip_number 240 0 0 0"
    by (simp add: x_def half_range ip_number_def)
  have "x div 256 = 10 \<longleftrightarrow> 2560 \<le> x \<and> x \<le> 2815" by (simp add: byte_pair(1))
  moreover have "x div 256 = 172 \<and> 16 \<le> x mod 256 \<and> x mod 256 \<le> 31 \<longleftrightarrow> 44048 \<le> x \<and> x \<le> 44063"
    using byte_pair(2) [of 16 31 x 172] by simp
  moreover have "x div 256 = 192 \<and> x mod 256 = 168 \<longleftrightarrow> 49320 \<le> x \<and> x \<le> 49320"
    using byte_pair(2) [of 168 168 x 192] by auto
  ultimately show "v4_is_private ip \<longleftrightarrow> (ip_number 10 0 0 0 \<le> n \<and> n < ip_number 11 0 0 0) \<or>
      (ip_number 172 16 0 0 \<le> n \<and> n < ip_number 172 32 0 0) \<or> (ip_number 192 168 0 0 \<le> n \<and> n < ip_number 192 169 0 0)"
    unfolding v4_is_private_def oct by (simp only: x_def half_range) (simp add: ip_number_def)
qed

lemma unat_octets4: "ip_number a b c d < 2 ^ 32 \<Longrightarrow> unat (octets4 a b c d) = ip_number a b c d"
  unfolding octets4_def ip_number_def [symmetric] by (simp only: unsigned_of_nat) (simp add: take_bit_nat_eq_self)

lemma cidr_range:
  assumes "0 < len" "len \<le> 32" "ip_number a b c d < 2 ^ 32" "ip_number a b c d = m * 2 ^ (32 - len)"
  shows "ipv4_in_cidr ip (octets4 a b c d) len \<longleftrightarrow>
    ip_number a b c d \<le> unat ip \<and> unat ip < ip_number a b c d + 2 ^ (32 - len)"
proof -
  have "ip_number a b c d div 2 ^ (32 - len) = m" by (simp add: assms(4))
  then show ?thesis using assms div_eq_range [of "2 ^ (32 - len)" "unat ip" m]
    by (simp add: ipv4_in_cidr_iff unat_octets4 algebra_simps)
qed

lemma blocked_ranges: "is_non_public_ipv4 ip \<longleftrightarrow> in_special_range (unat ip)"
proof -
  let ?n = "unat ip"
  have zero: "ip = 0 \<longleftrightarrow> ?n = 0" by (simp add: unat_eq_0)
  have ones: "ip = - 1 \<longleftrightarrow> ?n = 4294967295" using word_unat_eq_iff [of ip "- 1"] by (simp add: unsigned_minus_1_eq_mask mask_eq_exp_minus_1)
  have c1: "ipv4_in_cidr ip (octets4 0 0 0 0) 8 \<longleftrightarrow> ?n < 16777216"
    by (subst cidr_range [where m = 0]) (simp_all add: ip_number_def)
  have c2: "ipv4_in_cidr ip (octets4 100 64 0 0) 10 \<longleftrightarrow> 1681915904 \<le> ?n \<and> ?n < 1686110208"
    by (subst cidr_range [where m = 401]) (simp_all add: ip_number_def)
  have c3: "ipv4_in_cidr ip (octets4 192 0 0 0) 24 \<longleftrightarrow> 3221225472 \<le> ?n \<and> ?n < 3221225728"
    by (subst cidr_range [where m = 12582912]) (simp_all add: ip_number_def)
  have c4: "ipv4_in_cidr ip (octets4 192 0 2 0) 24 \<longleftrightarrow> 3221225984 \<le> ?n \<and> ?n < 3221226240"
    by (subst cidr_range [where m = 12582914]) (simp_all add: ip_number_def)
  have c5: "ipv4_in_cidr ip (octets4 198 18 0 0) 15 \<longleftrightarrow> 3323068416 \<le> ?n \<and> ?n < 3323199488"
    by (subst cidr_range [where m = 25353]) (simp_all add: ip_number_def)
  have c6: "ipv4_in_cidr ip (octets4 198 51 100 0) 24 \<longleftrightarrow> 3325256704 \<le> ?n \<and> ?n < 3325256960"
    by (subst cidr_range [where m = 12989284]) (simp_all add: ip_number_def)
  have c7: "ipv4_in_cidr ip (octets4 203 0 113 0) 24 \<longleftrightarrow> 3405803776 \<le> ?n \<and> ?n < 3405804032"
    by (subst cidr_range [where m = 13303921]) (simp_all add: ip_number_def)
  have c8: "ipv4_in_cidr ip (octets4 240 0 0 0) 4 \<longleftrightarrow> 4026531840 \<le> ?n \<and> ?n < 4294967296"
    by (subst cidr_range [where m = 15]) (simp_all add: ip_number_def)
  have top: "(3758096384 \<le> ?n \<and> ?n < 4026531840) \<or> ?n = 4294967295 \<or> (4026531840 \<le> ?n \<and> ?n < 4294967296) \<longleftrightarrow>
      3758096384 \<le> ?n \<and> ?n < 4294967296"
    using high_half(3) [of ip] by linarith
  have low: "?n = 0 \<longrightarrow> ?n < 16777216" by simp
  have ranges: "in_special_range ?n \<longleftrightarrow>
      ?n < 16777216 \<or> (167772160 \<le> ?n \<and> ?n < 184549376) \<or> (1681915904 \<le> ?n \<and> ?n < 1686110208) \<or>
      (2130706432 \<le> ?n \<and> ?n < 2147483648) \<or> (2851995648 \<le> ?n \<and> ?n < 2852061184) \<or>
      (2886729728 \<le> ?n \<and> ?n < 2887778304) \<or> (3221225472 \<le> ?n \<and> ?n < 3221225728) \<or>
      (3221225984 \<le> ?n \<and> ?n < 3221226240) \<or> (3232235520 \<le> ?n \<and> ?n < 3232301056) \<or>
      (3323068416 \<le> ?n \<and> ?n < 3323199488) \<or> (3325256704 \<le> ?n \<and> ?n < 3325256960) \<or>
      (3405803776 \<le> ?n \<and> ?n < 3405804032) \<or> (3758096384 \<le> ?n \<and> ?n < 4294967296)"
    by (simp add: in_special_range_def special_ranges_def ip_number_def)
  have std: "v4_is_loopback ip \<longleftrightarrow> 2130706432 \<le> ?n \<and> ?n < 2147483648"
    "v4_is_private ip \<longleftrightarrow> (167772160 \<le> ?n \<and> ?n < 184549376) \<or> (2886729728 \<le> ?n \<and> ?n < 2887778304) \<or>
       (3232235520 \<le> ?n \<and> ?n < 3232301056)"
    "v4_is_link_local ip \<longleftrightarrow> 2851995648 \<le> ?n \<and> ?n < 2852061184"
    "v4_is_multicast ip \<longleftrightarrow> 3758096384 \<le> ?n \<and> ?n < 4026531840"
    by (simp_all add: std_predicates ip_number_def)
  show ?thesis
    unfolding is_non_public_ipv4_def ranges std zero ones c1 c2 c3 c4 c5 c6 c7 c8
    using top low by argo
qed

text \<open>The masks of \<open>is_unique_local\<close> and \<open>is_unicast_link_local\<close> compare leading bits.\<close>

lemma high_bits_mask:
  fixes x :: nat
  assumes "x < 2 ^ (k + j)"
  shows "x AND push_bit k (mask j) = x div 2 ^ k * 2 ^ k"
proof -
  have "x AND push_bit k (mask j) = push_bit k (take_bit j (drop_bit k x))"
    by (rule bit_eqI) (auto simp: bit_and_iff bit_push_bit_iff bit_mask_iff bit_take_bit_iff bit_drop_bit_eq)
  moreover have "drop_bit k x < 2 ^ j"
    using assms by (simp add: drop_bit_eq_div less_mult_imp_div_less power_add mult.commute)
  ultimately show ?thesis by (simp add: take_bit_nat_eq_self drop_bit_eq_div push_bit_eq_mult)
qed

lemma segment_bound: "segment k ip < 65536"
  by (simp add: segment_def)

lemma ula_mask: "segment 0 ip AND 0xfe00 = 0xfc00 \<longleftrightarrow> segment 0 ip div 512 = 126"
  using high_bits_mask [of "segment 0 ip" 9 7] segment_bound [of 0 ip] by (simp add: mask_eq_exp_minus_1 push_bit_eq_mult)

lemma link_local_mask: "segment 0 ip AND 0xffc0 = 0xfe80 \<longleftrightarrow> segment 0 ip div 64 = 1018"
  using high_bits_mask [of "segment 0 ip" 6 10] segment_bound [of 0 ip] by (simp add: mask_eq_exp_minus_1 push_bit_eq_mult)

text \<open>Public addresses, stated over the table: an IPv6 address that embeds an IPv4 one is judged by it.\<close>

definition public_ip :: "IpAddr \<Rightarrow> bool" where
  "public_ip ip =
     (case ip of
        V4 a \<Rightarrow> \<not> in_special_range (unat a)
      | V6 a \<Rightarrow>
          if unat a div 2 ^ 32 = 65535 then \<not> in_special_range (unat a mod 2 ^ 32)
          else 1 < unat a \<and> segment 0 a div 256 \<noteq> 255 \<and> segment 0 a div 512 \<noteq> 126 \<and> segment 0 a div 64 \<noteq> 1018)"

lemma public_ip_iff: "is_non_public_ip ip \<longleftrightarrow> \<not> public_ip ip"
proof (cases ip)
  case (V4 a)
  then show ?thesis by (simp add: is_non_public_ip_def public_ip_def blocked_ranges)
next
  case (V6 a)
  have low: "a = 1 \<or> a = 0 \<longleftrightarrow> \<not> 1 < unat a"
    by (auto simp: word_unat_eq_iff)
  show ?thesis
  proof (cases "unat a div 2 ^ 32 = 65535")
    case True
    have "unat (word_of_nat (unat a mod 2 ^ 32) :: Ipv4Addr) = unat a mod 2 ^ 32"
      by (simp only: unsigned_of_nat) (simp add: take_bit_nat_eq_self)
    with True V6 show ?thesis
      by (simp add: is_non_public_ip_def public_ip_def is_non_public_ipv6_def to_ipv4_mapped_def blocked_ranges)
  next
    case False
    with V6 low show ?thesis
      by (simp add: is_non_public_ip_def public_ip_def is_non_public_ipv6_def to_ipv4_mapped_def ula_mask
          link_local_mask) blast
  qed
qed

definition permitted :: "bool \<Rightarrow> rstr \<Rightarrow> IpAddr \<Rightarrow> bool" where
  "permitted allow_local host ip \<longleftrightarrow>
     public_ip ip \<or> (allow_local \<and> is_loopback_addr ip \<and> is_explicit_local_host host)"

lemma blocked_iff: "is_blocked_for_host ip host allow_local \<longleftrightarrow> \<not> permitted allow_local host ip"
  by (simp add: is_blocked_for_host_def permitted_def public_ip_iff)

lemma check_ssrf_iff:
  "check_ssrf lookup (Some host) port allow_local = Ok () \<longleftrightarrow>
     (case parse_ip host of
        Some ip \<Rightarrow> permitted allow_local host ip
      | None \<Rightarrow> (\<exists>addrs. lookup (host @ [58] @ show_dec (case port of Some p \<Rightarrow> p | None \<Rightarrow> 443)) = Inr addrs \<and>
                  addrs \<noteq> [] \<and> (\<forall>a\<in>set addrs. permitted allow_local host a)))"
proof (cases "parse_ip host")
  case None
  define addr where "addr = host @ [58] @ show_dec (case port of Some p \<Rightarrow> p | None \<Rightarrow> 443)"
  have none: "find P xs = None \<longleftrightarrow> (\<forall>x\<in>set xs. \<not> P x)" for P and xs :: "IpAddr list"
    by (auto simp: find_None_iff)
  have blk: "(\<lambda>a. is_blocked_for_host a host allow_local) = (\<lambda>a. \<not> permitted allow_local host a)"
    by (rule ext) (rule blocked_iff)
  have unfold: "check_ssrf lookup (Some host) port allow_local =
      (case lookup addr of
         Inl e \<Rightarrow> Err (DnsResolution host e)
       | Inr addrs \<Rightarrow>
           if addrs = [] then Err (DnsEmpty host)
           else case find (\<lambda>a. \<not> permitted allow_local host a) addrs of
                  None \<Rightarrow> Ok () | Some a \<Rightarrow> Err (SsrfBlocked host a))"
    by (simp add: check_ssrf_def None addr_def Let_def, unfold blk, rule refl)
  have "(case find (\<lambda>a. \<not> permitted allow_local host a) addrs of None \<Rightarrow> Ok () | Some a \<Rightarrow> Err (SsrfBlocked host a)) =
      Ok () \<longleftrightarrow> (\<forall>a\<in>set addrs. permitted allow_local host a)" for addrs
    using none [of "\<lambda>a. \<not> permitted allow_local host a" addrs]
    by (cases "find (\<lambda>a. \<not> permitted allow_local host a) addrs") auto
  then have "check_ssrf lookup (Some host) port allow_local = Ok () \<longleftrightarrow>
      (\<exists>addrs. lookup addr = Inr addrs \<and> addrs \<noteq> [] \<and> (\<forall>a\<in>set addrs. permitted allow_local host a))"
    unfolding unfold by (cases "lookup addr") auto
  then show ?thesis by (simp add: None addr_def)
qed (simp add: check_ssrf_def blocked_iff)

section \<open>The allow list as a set of entries\<close>

definition entry_allows :: "(rstr \<Rightarrow> rstr) \<Rightarrow> rstr \<Rightarrow> rstr \<Rightarrow> rstr \<Rightarrow> bool" where
  "entry_allows lower raw host path \<longleftrightarrow>
     (let n = normalize_domain lower raw;
          p = trim_end_char 47 (dropWhile (\<lambda>c. c \<noteq> 47) n)
      in n \<noteq> [] \<and> host = takeWhile (\<lambda>c. c \<noteq> 47) n \<and> (p = [] \<or> path_allowed path p))"

definition matcher_allows :: "DomainMatcher \<Rightarrow> rstr \<Rightarrow> rstr \<Rightarrow> bool" where
  "matcher_allows m host path =
     (case m host of
        None \<Rightarrow> False
      | Some AnyPath \<Rightarrow> True
      | Some (PathPrefixes ps) \<Rightarrow> \<exists>p\<in>set ps. path_allowed path p)"

lemma trim_end_char_prefix: "prefix (trim_end_char c s) s"
  unfolding trim_end_char_def
  by (metis rev_rev_ident suffix_dropWhile suffix_to_prefix)

lemma trim_end_char_last: "trim_end_char c s \<noteq> [] \<Longrightarrow> last (trim_end_char c s) \<noteq> c"
  using hd_dropWhile [of "\<lambda>x. x = c" "rev s"] by (simp add: trim_end_char_def last_rev del: dropWhile_eq_Nil_conv)

lemma entry_path_slash:
  assumes "trim_end_char 47 (dropWhile (\<lambda>c. c \<noteq> 47) n) = p" and "p \<noteq> []"
  shows "prefix [47] p" "p \<noteq> [47]" "47 \<in> set n"
proof -
  have pre: "prefix p (dropWhile (\<lambda>c. c \<noteq> 47) n)" using trim_end_char_prefix assms(1) by blast
  have ne: "dropWhile (\<lambda>c. c \<noteq> 47) n \<noteq> []" using pre assms(2) by (metis prefix_bot.extremum_uniqueI)
  then have "hd (dropWhile (\<lambda>c. c \<noteq> 47) n) = 47" using hd_dropWhile by blast
  moreover obtain x r where p: "p = x # r" using assms(2) by (cases p) auto
  ultimately have "x = 47" using pre by (auto simp: prefix_def)
  with p show "prefix [47] p" by simp
  show "p \<noteq> [47]" using trim_end_char_last [of 47] assms by (metis last_ConsL)
  show "47 \<in> set n" using ne by (auto simp: dropWhile_eq_Nil_conv)
qed

lemma add_entry_allows:
  "matcher_allows (add_entry lower raw m) host path \<longleftrightarrow>
     matcher_allows m host path \<or> entry_allows lower raw host path"
proof -
  define n where "n = normalize_domain lower raw"
  define h where "h = takeWhile (\<lambda>c. c \<noteq> 47) n"
  define p where "p = trim_end_char 47 (dropWhile (\<lambda>c. c \<noteq> 47) n)"
  have entry: "entry_allows lower raw host path \<longleftrightarrow> n \<noteq> [] \<and> host = h \<and> (p = [] \<or> path_allowed path p)"
    by (simp add: entry_allows_def n_def h_def p_def Let_def)
  consider "n = []" | "n \<noteq> []" "p = []" | "n \<noteq> []" "p \<noteq> []" by blast
  then show ?thesis
  proof cases
    case 1
    then show ?thesis using entry by (simp add: add_entry_def flip: n_def)
  next
    case 2
    then have "add_entry lower raw m = m(h \<mapsto> AnyPath)"
      by (auto simp: add_entry_def Let_def p_def [symmetric] h_def [symmetric] simp flip: n_def)
    then show ?thesis using entry 2 by (auto simp: matcher_allows_def)
  next
    case 3
    note slash = entry_path_slash [OF p_def [symmetric] 3(2)]
    have add: "add_entry lower raw m = (if m h = Some AnyPath then m else add_prefix h p m)"
      using 3 slash by (simp add: add_entry_def Let_def p_def [symmetric] h_def [symmetric] flip: n_def)
    then show ?thesis
      using entry 3 by (auto simp: add_prefix_def matcher_allows_def split: option.splits HostEntry.splits)
  qed
qed

lemma matcher_new_allows:
  "matcher_allows (fold (add_entry lower) raws m) host path \<longleftrightarrow>
     matcher_allows m host path \<or> (\<exists>raw\<in>set raws. entry_allows lower raw host path)"
  by (induction raws arbitrary: m) (auto simp: add_entry_allows)

lemma check_allows: "DomainMatcher_check lower m (Some h) path = None \<longleftrightarrow>
    matcher_allows m (normalize_domain lower h) (lower path)"
  by (simp add: DomainMatcher_check_def matcher_allows_def Let_def split: option.splits HostEntry.splits)

text \<open>
  The prefix \<open>www.\<close> is taken off before the case is folded, so an entry written \<open>WWW.\<close> keeps it and
  matches no host: the host's own \<open>www.\<close> is taken off.
\<close>

lemmas domain_defs = DomainMatcher_check_def DomainMatcher_new_def add_entry_def add_prefix_def normalize_domain_def
  trim_def trim_start_def trim_end_def trim_end_char_def is_whitespace_def strip_prefix_def to_ascii_lowercase_def
  to_ascii_lower_def Let_def

lemma upper_case_www_never_matches:
  "DomainMatcher_check to_ascii_lowercase (DomainMatcher_new to_ascii_lowercase [lit ''WWW.a.io''])
     (Some (lit ''www.a.io'')) (lit ''/'') = Some (lit ''a.io'')"
  by (simp add: domain_defs)

section \<open>Properties\<close>

text \<open>
  C17: no request reaches an address it must not. The check passes exactly when the host is a permitted
  literal address, or a name that resolves, and only to permitted addresses. Permitted means public by
  the table of special ranges (an IPv4 address embedded in an IPv6 one included), or a loopback address
  under an explicitly local host when local access is enabled.
\<close>

theorem ssrf_policy:
  "check_ssrf lookup (Some host) port allow_local = Ok () \<longleftrightarrow>
     (case parse_ip host of
        Some ip \<Rightarrow> permitted allow_local host ip
      | None \<Rightarrow> (\<exists>addrs. lookup (host @ [58] @ show_dec (case port of Some p \<Rightarrow> p | None \<Rightarrow> 443)) = Inr addrs \<and>
                  addrs \<noteq> [] \<and> (\<forall>a\<in>set addrs. permitted allow_local host a)))"
  by (rule check_ssrf_iff)

theorem ssrf_policy_witness:
  "check_ssrf (\<lambda>_. Inl ()) (Some (lit ''10.1.2.3'')) None True \<noteq> Ok ()"
proof -
  have "parse_ip (lit ''10.1.2.3'') = Some (V4 (octets4 10 1 2 3))"
    by (simp add: parse_ip_def read_ipv4_addr_def read_separator_def read_number_def digit_value_def Let_def)
  moreover have "unat (octets4 10 1 2 3) = 167838211" by (simp add: unat_octets4 ip_number_def)
  then have "\<not> permitted True (lit ''10.1.2.3'') (V4 (octets4 10 1 2 3))"
    by (simp add: permitted_def public_ip_def in_special_range_def special_ranges_def ip_number_def
        is_loopback_addr_def ip_is_loopback_def v4_is_loopback_def octet_def)
  ultimately show ?thesis using ssrf_policy [of "\<lambda>_. Inl ()" "lit ''10.1.2.3''" None True] by simp
qed

text \<open>
  C18: the allow list is the set of its entries. A fetch is permitted exactly when some entry names the
  normalised host and is for the whole host or for a directory that contains the path; neither the order
  of the entries nor repetitions matter.
\<close>

theorem domain_allow_list:
  "DomainMatcher_check lower (DomainMatcher_new lower raws) (Some h) path = None \<longleftrightarrow>
     (\<exists>raw\<in>set raws. entry_allows lower raw (normalize_domain lower h) (lower path))"
  using matcher_new_allows [where lower = lower and raws = raws and m = Map.empty and
      host = "normalize_domain lower h" and path = "lower path"]
  by (simp add: check_allows DomainMatcher_new_def matcher_allows_def)

theorem domain_allow_list_witness:
  "DomainMatcher_check to_ascii_lowercase (DomainMatcher_new to_ascii_lowercase [lit ''a.io/docs'', lit ''b.io''])
     (Some (lit ''A.io.'')) (lit ''/docs/x'') = None"
proof -
  have "entry_allows to_ascii_lowercase (lit ''a.io/docs'') (normalize_domain to_ascii_lowercase (lit ''A.io.''))
      (to_ascii_lowercase (lit ''/docs/x''))"
    by (simp add: entry_allows_def path_allowed_def domain_defs)
  then show ?thesis using domain_allow_list [of to_ascii_lowercase "[lit ''a.io/docs'', lit ''b.io'']" "lit ''A.io.''" "lit ''/docs/x''"]
    by simp
qed

end
