(* ===== verification/Policy_Gate.thy ===== *)
theory Policy_Gate imports Permission_Policy begin

text \<open>
  What the permission policy guarantees: precedence and independence of the order of the rules, the gate
  over every command a script runs (an inductive relation \<open>runs\<close> through nested shells), the meaning of
  an allow (an inductive relation \<open>authorized\<close>), the symlink re-check, the recognition of \<open>-c\<close> scripts
  and the confinement of relative path rules. The properties are instantiated on a concrete environment.
\<close>

section \<open>Commands a script runs\<close>

text \<open>The words a command is normalised to.\<close>

abbreviation normalized :: "rstr list \<Rightarrow> rstr list" where
  "normalized ws \<equiv> nc_words (normalize_command_words ws)"

text \<open>
  A script runs the commands of its decomposition and, one level deeper, those of the script handed to
  a shell with \<open>-c\<close> or packed into an \<open>env -S\<close>.
\<close>

inductive runs :: "shell_parser \<Rightarrow> nat \<Rightarrow> rstr \<Rightarrow> rstr list \<Rightarrow> bool" for parse where
  direct: "all_commands_from_script parse cmd = Some segs \<Longrightarrow> c \<in> set segs \<Longrightarrow> runs parse n cmd (pc_words c)"
| inline: "all_commands_from_script parse cmd = Some segs \<Longrightarrow> c \<in> set segs \<Longrightarrow>
    shell_dash_c_script (map LiteralWord (normalized (pc_words c))) = LiteralScript i \<Longrightarrow>
    runs parse n (normalized (pc_words c) ! i) ws \<Longrightarrow> runs parse (Suc n) cmd ws"
| packed: "all_commands_from_script parse cmd = Some segs \<Longrightarrow> c \<in> set segs \<Longrightarrow>
    env_split_string_script (normalized (pc_words c)) = Some script \<Longrightarrow>
    runs parse n script ws \<Longrightarrow> runs parse (Suc n) cmd ws"

lemma normalized_same_length: "length (normalized ws) = length ws \<Longrightarrow> normalized ws = ws"
  using normalize_suffix_normal_form(1) [of ws] by (metis suffix_length_less suffix_order.le_less less_irrefl)

lemma fold_forms:
  "foldl (\<lambda>d ws. combine_gate_decisions d (f ws)) d (ws # (if length (normalized ws) \<noteq> length ws then [normalized ws] else [])) = None
     \<longleftrightarrow> d = None \<and> f ws = None \<and> f (normalized ws) = None"
  "is_gate_reject (foldl (\<lambda>d ws. combine_gate_decisions d (f ws)) d (ws # (if length (normalized ws) \<noteq> length ws then [normalized ws] else [])))
     \<longleftrightarrow> is_gate_reject d \<or> is_gate_reject (f ws) \<or> is_gate_reject (f (normalized ws))"
  using normalized_same_length [of ws] by (cases "length (normalized ws) = length ws"; force)+

definition own_decision :: "'pat policy_env \<Rightarrow> 'pat CompiledPolicy \<Rightarrow> rstr list \<Rightarrow> GateDecision option" where
  "own_decision E pol ws =
     foldl (\<lambda>d ws. combine_gate_decisions d (escalate E pol (join [32] ws)))
       (combine_gate_decisions (if peel_uncertain (normalize_command_words ws) then Some AskFailClosed else None)
          (if nc_has_split_string (normalize_command_words ws) then Some AskFailClosed else None))
       (ws # (if length (normalized ws) \<noteq> length ws then [normalized ws] else []))"

lemma own_decision_iff:
  "own_decision E pol ws = None \<longleftrightarrow>
     \<not> peel_uncertain (normalize_command_words ws) \<and> \<not> nc_has_split_string (normalize_command_words ws) \<and>
     escalate E pol (join [32] ws) = None \<and> escalate E pol (join [32] (normalized ws)) = None"
  "is_gate_reject (own_decision E pol ws) \<longleftrightarrow>
     is_gate_reject (escalate E pol (join [32] ws)) \<or> is_gate_reject (escalate E pol (join [32] (normalized ws)))"
  unfolding own_decision_def fold_forms by (auto simp: is_gate_reject_def gate.combine_Some)

lemma command_words_own:
  "evaluate_command_words E pol inner ws =
     (let d = (case shell_dash_c_script (map LiteralWord (normalized ws)) of
                 LiteralScript i \<Rightarrow> combine_gate_decisions (own_decision E pol ws) (inner (normalized ws ! i))
               | NotInline \<Rightarrow> own_decision E pol ws
               | _ \<Rightarrow> combine_gate_decisions (own_decision E pol ws) (Some AskFailClosed))
      in case env_split_string_script (normalized ws) of
           Some script \<Rightarrow> combine_gate_decisions d (inner script)
         | None \<Rightarrow> d)"
  unfolding evaluate_command_words_def own_decision_def Let_def ..

lemma command_words_None:
  "evaluate_command_words E pol inner ws = None \<longleftrightarrow>
     own_decision E pol ws = None \<and>
     (case shell_dash_c_script (map LiteralWord (normalized ws)) of
        LiteralScript i \<Rightarrow> inner (normalized ws ! i) = None | NotInline \<Rightarrow> True | _ \<Rightarrow> False) \<and>
     (case env_split_string_script (normalized ws) of Some script \<Rightarrow> inner script = None | None \<Rightarrow> True)"
  unfolding command_words_own
  by (cases "env_split_string_script (normalized ws)";
      cases "shell_dash_c_script (map LiteralWord (normalized ws))") simp_all

lemma command_words_reject:
  "is_gate_reject (evaluate_command_words E pol inner ws) \<longleftrightarrow>
     is_gate_reject (own_decision E pol ws) \<or>
     (\<exists>i. shell_dash_c_script (map LiteralWord (normalized ws)) = LiteralScript i \<and>
        is_gate_reject (inner (normalized ws ! i))) \<or>
     (\<exists>script. env_split_string_script (normalized ws) = Some script \<and> is_gate_reject (inner script))"
  unfolding command_words_own
  by (cases "env_split_string_script (normalized ws)";
      cases "shell_dash_c_script (map LiteralWord (normalized ws))")
    (simp_all add: is_gate_reject_def [of "Some AskFailClosed"])

lemma segments_None:
  "evaluate_segments E pol inner cmd = None \<longleftrightarrow>
     (\<exists>segs. all_commands_from_script (pe_parse E) cmd = Some segs \<and>
        (\<forall>c\<in>set segs. evaluate_command_words E pol inner (pc_words c) = None))"
  by (auto simp: evaluate_segments_def gate.fold_None split: option.splits)

lemma segments_reject:
  "is_gate_reject (evaluate_segments E pol inner cmd) \<longleftrightarrow>
     (\<exists>segs. all_commands_from_script (pe_parse E) cmd = Some segs \<and>
        (\<exists>c\<in>set segs. is_gate_reject (evaluate_command_words E pol inner (pc_words c))))"
  by (auto simp: evaluate_segments_def gate_fold_reject is_gate_reject_def [of None]
      is_gate_reject_def [of "Some AskFailClosed"] split: option.splits)


lemma segments_step:
  "evaluate_bash_command_segments E pol n cmd =
     evaluate_segments E pol (case n of 0 \<Rightarrow> \<lambda>_. Some AskFailClosed | Suc m \<Rightarrow> evaluate_bash_command_segments E pol m) cmd"
  by (cases n) simp_all

lemma gate_None_runs:
  assumes "runs (pe_parse E) n cmd ws" and "evaluate_bash_command_segments E pol m cmd = None"
  shows "own_decision E pol ws = None"
  using assms
proof (induction arbitrary: m rule: runs.induct)
  case (direct cmd segs c n)
  then show ?case by (auto simp: segments_step [of _ _ m] segments_None command_words_None)
next
  case (inline cmd segs c i n ws)
  then show ?case
    by (cases m) (fastforce simp: segments_step [of _ _ m] segments_None command_words_None)+
next
  case (packed cmd segs c script n ws)
  then show ?case
    by (cases m) (fastforce simp: segments_step [of _ _ m] segments_None command_words_None)+
qed

lemma gate_reject_runs:
  assumes "runs (pe_parse E) n cmd ws" and "is_gate_reject (own_decision E pol ws)" and "n \<le> m"
  shows "is_gate_reject (evaluate_bash_command_segments E pol m cmd)"
  using assms
proof (induction arbitrary: m rule: runs.induct)
  case (direct cmd segs c n)
  then show ?case by (auto simp: segments_step [of _ _ m] segments_reject command_words_reject)
next
  case (inline cmd segs c i n ws)
  then show ?case
    by (cases m) (fastforce simp: segments_reject command_words_reject)+
next
  case (packed cmd segs c script n ws)
  then show ?case
    by (cases m) (fastforce simp: segments_reject command_words_reject)+
qed

lemma own_decision_None_rules:
  assumes "own_decision E (CompiledPolicy_new E config) ws = None" and "r \<in> set (pc_rules config)" and "restricts r"
  shows "\<not> rule_applies E (BashAccess (join [32] ws)) None r (compile_matcher E r) \<and>
    \<not> rule_applies E (BashAccess (join [32] (peel_all ws))) None r (compile_matcher E r)"
proof -
  from assms(1) have "normalized ws = peel_all ws"
    using normalize_suffix_normal_form(2) by (simp add: own_decision_iff peel_uncertain_def)
  then show ?thesis using assms by (auto simp: own_decision_iff escalate_spec applicable_def)
qed

lemma applies_governs: "rule_applies E (BashAccess cmd) cwd r m \<Longrightarrow> governs_bash r"
  by (auto simp: rule_applies_def tool_filter_matches_def governs_bash_def split: ToolFilter.splits)

section \<open>What an allow means\<close>

text \<open>
  A script is authorised when it decomposes into commands and each of them, its wrappers peeled off, is
  matched by an allow rule and hands a shell nothing but scripts that are authorised themselves.
\<close>

inductive authorized :: "'pat policy_env \<Rightarrow> PermissionConfig \<Rightarrow> rstr \<Rightarrow> bool" for E config where
  script: "all_commands_from_script (pe_parse E) cmd = Some segs \<Longrightarrow> segs \<noteq> [] \<Longrightarrow>
    (\<forall>c\<in>set segs. \<exists>r\<in>set (pc_rules config). pr_action r = AllowRule \<and> governs_bash r \<and>
       bash_allow_pattern_matches E (join [32] (peel_all (pc_words c))) r (compile_matcher E r)) \<Longrightarrow>
    (\<forall>c\<in>set segs. shell_dash_c_script (map LiteralWord (peel_all (pc_words c))) = NotInline \<or>
       (\<exists>i. shell_dash_c_script (map LiteralWord (peel_all (pc_words c))) = LiteralScript i \<and>
          authorized E config (peel_all (pc_words c) ! i))) \<Longrightarrow>
    authorized E config cmd"

lemma segment_allowed_peeled:
  assumes "segment_allowed E (CompiledPolicy_new E config) scope inner ws"
  shows "(\<exists>r\<in>set (pc_rules config). pr_action r = AllowRule \<and> governs_bash r \<and>
       bash_allow_pattern_matches E (join [32] (peel_all ws)) r (compile_matcher E r)) \<and>
     (shell_dash_c_script (map LiteralWord (peel_all ws)) = NotInline \<or>
       (\<exists>i. shell_dash_c_script (map LiteralWord (peel_all ws)) = LiteralScript i \<and> inner (peel_all ws ! i)))"
proof -
  from assms have "normalized ws = peel_all ws"
    using normalize_suffix_normal_form(2) by (simp add: segment_allowed_def Let_def peel_uncertain_def)
  with assms show ?thesis
    by (auto simp: segment_allowed_def Let_def words_allowed_iff split: InlineShellScript.splits)
qed

lemma script_allowed_authorized:
  assumes "script_allowed E (CompiledPolicy_new E config) scope inner cmd"
    and "\<And>s. inner s \<Longrightarrow> authorized E config s"
  shows "authorized E config cmd"
proof -
  from assms(1) obtain segs where segs: "all_commands_from_script (pe_parse E) cmd = Some segs" "segs \<noteq> []"
    and each: "\<forall>c\<in>set segs. segment_allowed E (CompiledPolicy_new E config) scope inner (pc_words c)"
    by (auto simp: script_allowed_def list_all_iff split: option.splits)
  show ?thesis
    using segs each segment_allowed_peeled assms(2) by (intro authorized.script [OF segs]) blast+
qed

lemma chain_allowed_authorized:
  "bash_chain_fully_allowed E (CompiledPolicy_new E config) scope n cmd \<Longrightarrow> authorized E config cmd"
proof (induction n arbitrary: cmd)
  case 0
  then show ?case by (auto intro: script_allowed_authorized)
next
  case (Suc n)
  then show ?case by (auto intro: script_allowed_authorized)
qed

section \<open>The symlink re-check\<close>

lemma combine_keeps:
  "combine_decisions (Some (Reject r)) d = Some (Reject r)"
  "combine_decisions d (escalation e) = Some Allow \<longleftrightarrow> d = Some Allow \<and> escalation e = None"
  "combine_decisions d (Some Ask) \<noteq> Some Allow" "combine_decisions d (Some Ask) \<noteq> None"
  by (auto simp: combine_decisions_def decision_rank_def escalation_def split: option.splits Decision.splits)

lemma combine_ask:
  "combine_decisions (Some Ask) (escalation e) = Some Ask \<or> (\<exists>r. combine_decisions (Some Ask) (escalation e) = Some (Reject r))"
  "combine_decisions (Some Ask) (Some Ask) = Some Ask"
  by (auto simp: combine_decisions_def decision_rank_def escalation_def split: option.splits Decision.splits)

section \<open>Verdicts\<close>

lemma lexical_reject_iff:
  "(\<exists>reason. evaluate_lexical_with_cwd E (CompiledPolicy_new E c) access cwd = Some (Reject reason)) \<longleftrightarrow>
     (\<exists>r\<in>set (pc_rules c). pr_action r = DenyRule \<and> rule_applies E access cwd r (compile_matcher E r))"
proof -
  have "(\<exists>reason. evaluate_lexical_with_cwd E (CompiledPolicy_new E c) access cwd = Some (Reject reason)) \<longleftrightarrow>
     find (\<lambda>r. pr_action r = DenyRule) (applicable E c access cwd) \<noteq> None"
    by (auto simp: evaluate_lexical_spec split: option.splits if_splits AccessKind.splits)
  then show ?thesis unfolding find_some_iff_ex by (auto simp: applicable_def)
qed

lemma lexical_ask_iff:
  "evaluate_lexical_with_cwd E (CompiledPolicy_new E c) access cwd = Some Ask \<longleftrightarrow>
     (\<exists>r\<in>set (pc_rules c). pr_action r = AskRule \<and> rule_applies E access cwd r (compile_matcher E r)) \<and>
     \<not> (\<exists>r\<in>set (pc_rules c). pr_action r = DenyRule \<and> rule_applies E access cwd r (compile_matcher E r))"
proof -
  have "evaluate_lexical_with_cwd E (CompiledPolicy_new E c) access cwd = Some Ask \<longleftrightarrow>
     find (\<lambda>r. pr_action r = DenyRule) (applicable E c access cwd) = None \<and>
     (\<exists>r\<in>set (applicable E c access cwd). pr_action r = AskRule)"
    by (auto simp: evaluate_lexical_spec split: option.splits if_splits AccessKind.splits)
  then show ?thesis unfolding find_some_iff_ex by (auto simp: applicable_def)
qed

lemma verdict_combine:
  "verdict (combine_decisions a b) = combine_decisions (verdict a) (verdict b)"
  by (cases a; cases b)
    (auto simp: verdict_def decision.combine_None decision.combine_Some decision_rank_def split: Decision.splits)

lemma verdict_escalation: "verdict (escalation d) = escalation (verdict d)"
  by (cases d) (auto simp: verdict_def escalation_def split: Decision.splits)

lemma evaluate_with_cwd_set:
  assumes "set (pc_rules c1) = set (pc_rules c2)"
  shows "verdict (evaluate_with_cwd E (CompiledPolicy_new E c1) access cwd) =
    verdict (evaluate_with_cwd E (CompiledPolicy_new E c2) access cwd)"
proof -
  have "native_path_restrictions_apply (CompiledPolicy_new E c1) access =
    native_path_restrictions_apply (CompiledPolicy_new E c2) access"
    using assms by (simp add: native_path_restrictions_apply_def list_ex_iff)
  then show ?thesis
    by (simp add: evaluate_with_cwd_def evaluate_with_cwd_details_def Let_def verdict_combine verdict_escalation
        evaluate_lexical_set [OF assms] split: option.split SymlinkFollow.split)
qed

section \<open>Inline scripts\<close>

lemma literal_at_Some: "literal_at ws i = Some w \<longleftrightarrow> i < length ws \<and> ws ! i = LiteralWord w"
  by (auto simp: literal_at_def split: ShellWord.splits)

definition c_option :: "ShellWord \<Rightarrow> bool" where
  "c_option x \<longleftrightarrow> (case x of LiteralWord w \<Rightarrow> prefix (lit ''-'') w \<and> 99 \<in> set (tl w) | UntrustedWord \<Rightarrow> False)"

lemma if_neqI: "(P \<Longrightarrow> a \<noteq> c) \<Longrightarrow> (\<not> P \<Longrightarrow> b \<noteq> c) \<Longrightarrow> (if P then a else b) \<noteq> c"
  by simp

lemma dash_c_step:
  assumes "dash_c_loop dyn ws i saw_c unrec = LiteralScript k"
  shows "i < length ws \<and>
    (saw_c \<and> \<not> dyn \<and> (k = i \<and> ws ! i \<noteq> UntrustedWord \<or> k = Suc i \<and> literal_at ws k \<noteq> None) \<or>
     (\<exists>i' s' u'. i < i' \<and> dash_c_loop dyn ws i' s' u' = LiteralScript k \<and> (s' \<longrightarrow> saw_c \<or> c_option (ws ! i))))"
proof (cases "i < length ws")
  case False
  then show ?thesis using assms by (subst (asm) dash_c_loop.simps) (auto simp: no_inline_def split: if_splits)
next
  case True
  show ?thesis
  proof (cases "ws ! i")
    case UntrustedWord
    then show ?thesis using assms True
      by (subst (asm) dash_c_loop.simps) (auto simp: ambiguous_inline_def split: if_splits)
  next
    case (LiteralWord w)
    have "dash_c_loop dyn ws i saw_c unrec \<noteq> LiteralScript k"
      if none: "\<And>i' s' u'. i < i' \<Longrightarrow> s' \<longrightarrow> saw_c \<or> c_option (ws ! i) \<Longrightarrow> dash_c_loop dyn ws i' s' u' \<noteq> LiteralScript k"
        and "\<not> (saw_c \<and> \<not> dyn \<and> (k = i \<or> k = Suc i \<and> literal_at ws k \<noteq> None))"
    proof -
      note none [of "i + 1" saw_c unrec, simplified] none [of "i + 2" saw_c unrec, simplified] none [of "i + 1" saw_c True, simplified]
      moreover have "prefix (lit ''-'') w \<Longrightarrow> dash_c_loop dyn ws (i + 1) (saw_c \<or> 99 \<in> set (tl w)) unrec \<noteq> LiteralScript k"
        using none LiteralWord by (simp add: c_option_def)
      ultimately show ?thesis
        unfolding dash_c_loop.simps [of dyn ws i] LiteralWord ShellWord.case using True that(2)
        by (intro if_neqI)
          (auto simp: no_inline_def ambiguous_inline_def finish_literal_def simp del: lit_simps split: option.split)
    qed
    with assms True LiteralWord show ?thesis by (metis ShellWord.distinct(1))
  qed
qed

lemma dash_c_loop_literal:
  "dash_c_loop dyn ws i saw_c unrec = LiteralScript k \<Longrightarrow>
     \<not> dyn \<and> i \<le> k \<and> (\<exists>w. literal_at ws k = Some w) \<and> (saw_c \<or> (\<exists>j. i \<le> j \<and> j < k \<and> c_option (ws ! j)))"
proof (induction "length ws - i" arbitrary: i saw_c unrec rule: less_induct)
  case less
  from dash_c_step [OF less.prems] have i: "i < length ws" by simp
  from dash_c_step [OF less.prems] consider
      "saw_c" "\<not> dyn" "k = i" "ws ! i \<noteq> UntrustedWord" | "saw_c" "\<not> dyn" "k = Suc i" "literal_at ws k \<noteq> None"
    | i' s' u' where "i < i'" "dash_c_loop dyn ws i' s' u' = LiteralScript k" "s' \<longrightarrow> saw_c \<or> c_option (ws ! i)" by blast
  then show ?case
  proof cases
    case 1
    with i show ?thesis by (auto simp: literal_at_Some intro: ShellWord.exhaust [of "ws ! i"])
  next
    case 3
    with i less.hyps [of i' s' u'] show ?thesis by force
  qed auto
qed


section \<open>Forms of a path\<close>

lemma tilde_head:
  assumes "is_tilde_path p"
  shows "\<exists>s. p = 126 # s"
proof (cases p)
  case (Cons x s)
  obtain v vs where "split_char 47 s = v # vs" by (cases "split_char 47 s") auto
  with assms Cons show ?thesis
    by (auto simp: is_tilde_path_def components_def component_of_def is_absolute_def Let_def split: if_splits)
qed (use assms in \<open>simp add: is_tilde_path_def components_def is_absolute_def\<close>)

lemma join_plain: "list_all plain_name ws \<Longrightarrow> path_match_string (join [47] ws) \<noteq> [46]"
proof (cases ws rule: remdups_adj.cases)
  case (2 w)
  then show "list_all plain_name ws \<Longrightarrow> ?thesis" by (auto simp: path_match_string_def plain_name_def split: if_splits)
next
  case (3 w v vs)
  then show "list_all plain_name ws \<Longrightarrow> ?thesis" by (auto simp: path_match_string_def plain_name_def append_eq_Cons_conv)
qed (simp add: path_match_string_def)

section \<open>A concrete environment\<close>

text \<open>
  Patterns match by equality, the grammar is that of \<open>sample_parse\<close>, and the file system has one link,
  from \<open>/w/link\<close> to \<open>/etc/passwd\<close>.
\<close>

definition sample_env :: "rstr policy_env" where
  "sample_env =
     \<lparr>pe_parse = sample_parse, pe_glob_new = Some, pe_glob_match = (\<lambda>p _ t. p = t), pe_url_host = (\<lambda>_. None),
      pe_lower = id,
      pe_canonicalize = (\<lambda>p. if p = [RootDir, Normal (lit ''w''), Normal (lit ''link'')]
                             then Some [RootDir, Normal (lit ''etc''), Normal (lit ''passwd'')] else Some p),
      pe_symlink_metadata = (\<lambda>p. if p = [RootDir, Normal (lit ''w''), Normal (lit ''link'')] then IsSymlink else NotSymlink),
      pe_read_link = (\<lambda>_. None)\<rparr>"

definition bash_rule :: "RuleAction \<Rightarrow> rstr \<Rightarrow> PermissionRule" where
  "bash_rule a p = \<lparr>pr_action = a, pr_tool = BashTool, pr_pattern = Some p, pr_pattern_mode = GlobMode\<rparr>"

definition read_rule :: "RuleAction \<Rightarrow> rstr option \<Rightarrow> PermissionRule" where
  "read_rule a p = \<lparr>pr_action = a, pr_tool = ReadTool, pr_pattern = p, pr_pattern_mode = GlobMode\<rparr>"

definition sample_config :: PermissionConfig where
  "sample_config = PermissionConfig_new
     [bash_rule DenyRule (lit ''rm''), read_rule DenyRule (Some (lit ''/etc/passwd'')), read_rule AllowRule None]"

definition sample_open :: PermissionConfig where
  "sample_open = PermissionConfig_new
     [bash_rule DenyRule (lit ''dd''), bash_rule AllowRule (lit ''ls''), bash_rule AllowRule (lit ''rm'')]"

lemma sample_rules [simp]:
  "pc_rules sample_config =
     [bash_rule DenyRule (lit ''rm''), read_rule DenyRule (Some (lit ''/etc/passwd'')), read_rule AllowRule None]"
  "pc_rules sample_open = [bash_rule DenyRule (lit ''dd''), bash_rule AllowRule (lit ''ls''), bash_rule AllowRule (lit ''rm'')]"
  "pr_action (bash_rule a p) = a" "pr_action (read_rule a q) = a" "governs_bash (bash_rule a p)"
  "restricts (bash_rule a p) \<longleftrightarrow> a = DenyRule \<or> a = AskRule"
  by (simp_all add: sample_config_def sample_open_def PermissionConfig_new_def bash_rule_def read_rule_def governs_bash_def
      restricts_def)

lemma sample_commands:
  "all_commands_from_script (pe_parse sample_env) (lit ''ls; rm'') =
     Some [\<lparr>pc_words = [lit ''ls''], span_start = 0, span_end = 2\<rparr>, \<lparr>pc_words = [lit ''rm''], span_start = 4, span_end = 6\<rparr>]"
  by code_simp

lemma sample_runs: "runs (pe_parse sample_env) 0 (lit ''ls; rm'') [lit ''rm'']"
  using runs.direct [OF sample_commands, of "\<lparr>pc_words = [lit ''rm''], span_start = 4, span_end = 6\<rparr>" 0] by simp

lemma sample_normalized:
  "normalize_command_words [lit ''ls''] =
     \<lparr>nc_words = [lit ''ls''], nc_has_chdir = False, nc_has_split_string = False, nc_env_options_uncertain = False,
      nc_exhausted = False, nc_ambiguous = False\<rparr>"
  "normalize_command_words [lit ''rm''] =
     \<lparr>nc_words = [lit ''rm''], nc_has_chdir = False, nc_has_split_string = False, nc_env_options_uncertain = False,
      nc_exhausted = False, nc_ambiguous = False\<rparr>"
  "shell_dash_c_script [LiteralWord (lit ''ls'')] = NotInline" "shell_dash_c_script [LiteralWord (lit ''rm'')] = NotInline"
  "env_split_string_script [lit ''ls''] = None" "env_split_string_script [lit ''rm''] = None"
  by code_simp+

lemma sample_matches:
  "\<not> rule_applies sample_env (BashAccess (join [32] [lit ''ls''])) None (bash_rule DenyRule (lit ''dd''))
      (compile_matcher sample_env (bash_rule DenyRule (lit ''dd'')))"
  "\<not> rule_applies sample_env (BashAccess (join [32] [lit ''rm''])) None (bash_rule DenyRule (lit ''dd''))
      (compile_matcher sample_env (bash_rule DenyRule (lit ''dd'')))"
  "\<not> rule_applies sample_env (BashAccess (lit ''ls; rm'')) None (bash_rule DenyRule (lit ''dd''))
      (compile_matcher sample_env (bash_rule DenyRule (lit ''dd'')))"
  by (simp_all add: rule_applies_def tool_filter_matches_def pattern_matches_def bash_rule_def glob_matches_def
      compile_matcher_def sample_env_def trim_start_def is_whitespace_def)

lemma sample_allow_matches:
  "bash_allow_pattern_matches sample_env (join [32] [lit ''ls'']) (bash_rule AllowRule (lit ''ls''))
      (compile_matcher sample_env (bash_rule AllowRule (lit ''ls'')))"
  "bash_allow_pattern_matches sample_env (join [32] [lit ''rm'']) (bash_rule AllowRule (lit ''rm''))
      (compile_matcher sample_env (bash_rule AllowRule (lit ''rm'')))"
proof -
  have "trim_start (join [32] [lit ''ls'']) = lit ''ls''" "trim (lit ''ls'') = lit ''ls''"
    "trim_start (join [32] [lit ''rm'']) = lit ''rm''" "trim (lit ''rm'') = lit ''rm''"
    by (simp_all add: trim_def trim_start_def trim_end_def is_whitespace_def)
  then show "bash_allow_pattern_matches sample_env (join [32] [lit ''ls'']) (bash_rule AllowRule (lit ''ls''))
      (compile_matcher sample_env (bash_rule AllowRule (lit ''ls'')))"
    "bash_allow_pattern_matches sample_env (join [32] [lit ''rm'']) (bash_rule AllowRule (lit ''rm''))
      (compile_matcher sample_env (bash_rule AllowRule (lit ''rm'')))"
    by (simp_all add: bash_allow_pattern_matches_def bash_rule_def bash_command_matches_pattern_def matches_command_prefix_def
        lit_def)
qed

lemma sample_unrestricted:
  "x \<in> {join [32] [lit ''ls''], join [32] [lit ''rm''], lit ''ls; rm''} \<Longrightarrow>
     \<forall>r\<in>set (applicable sample_env sample_open (BashAccess x) None). \<not> restricts r"
  using sample_matches by (auto simp: applicable_def simp del: lit_simps)

lemma sample_gate: "evaluate_bash_command_gate sample_env (CompiledPolicy_new sample_env sample_open) (lit ''ls; rm'') = None"
proof -
  have "own_decision sample_env (CompiledPolicy_new sample_env sample_open) [lit ''ls''] = None"
    "own_decision sample_env (CompiledPolicy_new sample_env sample_open) [lit ''rm''] = None"
    using sample_unrestricted [of "join [32] [lit ''ls'']"] sample_unrestricted [of "join [32] [lit ''rm'']"]
    unfolding own_decision_iff escalate_spec sample_normalized peel_uncertain_def by (simp_all del: lit_simps)
  then have "evaluate_bash_command_segments sample_env (CompiledPolicy_new sample_env sample_open) MAX_INLINE_SHELL_DEPTH
     (lit ''ls; rm'') = None"
    by (simp add: segments_step segments_None sample_commands command_words_None sample_normalized del: lit_simps)
  then show ?thesis by (simp add: evaluate_bash_command_gate_def del: lit_simps)
qed

lemma sample_bash_allowed:
  "evaluate sample_env (CompiledPolicy_new sample_env sample_open) (BashAccess (lit ''ls; rm'')) = Some Allow"
proof -
  have "bash_words_allowed sample_env (CompiledPolicy_new sample_env sample_open) AnyScope [w]"
    if "w \<in> {lit ''ls'', lit ''rm''}" for w
    using that sample_allow_matches by (auto simp: words_allowed_iff simp del: lit_simps)
  then have "bash_chain_fully_allowed sample_env (CompiledPolicy_new sample_env sample_open) AnyScope n (lit ''ls; rm'')" for n
    by (cases n) (simp_all add: script_allowed_def sample_commands segment_allowed_def sample_normalized peel_uncertain_def
        Let_def del: lit_simps)
  moreover have "\<not> (\<exists>r\<in>set (applicable sample_env sample_open (BashAccess (lit ''ls; rm'')) None). pr_action r = AskRule)"
    and "find (\<lambda>r. pr_action r = DenyRule) (applicable sample_env sample_open (BashAccess (lit ''ls; rm'')) None) = None"
    unfolding find_some_iff_ex using sample_unrestricted [of "lit ''ls; rm''"] by (auto simp: restricts_def simp del: lit_simps)
  ultimately show ?thesis by (simp add: evaluate_bash evaluate_lexical_spec del: lit_simps)
qed

section \<open>Properties\<close>

text \<open>
  C6: what passes the gate is unrestricted. When the gate lets a script through under rules that
  restrict commands, no deny or ask rule applies to any command the script runs, at any nesting of
  \<open>-c\<close> scripts and packed \<open>env\<close> strings, neither as written nor with every wrapper peeled off.
\<close>

theorem gate_passes_unrestricted:
  assumes "evaluate_bash_command_gate E (CompiledPolicy_new E config) cmd = None"
    and "runs (pe_parse E) n cmd ws" and "r \<in> set (pc_rules config)" and "restricts r"
  shows "\<not> rule_applies E (BashAccess (join [32] ws)) None r (compile_matcher E r) \<and>
    \<not> rule_applies E (BashAccess (join [32] (peel_all ws))) None r (compile_matcher E r)"
proof (cases "governs_bash r")
  case True
  then have "evaluate_bash_command_segments E (CompiledPolicy_new E config) MAX_INLINE_SHELL_DEPTH cmd = None"
    using assms by (auto simp: evaluate_bash_command_gate_def split: if_splits)
  with assms show ?thesis using gate_None_runs own_decision_None_rules by blast
next
  case False
  then show ?thesis using applies_governs by blast
qed

theorem gate_passes_unrestricted_witness:
  "\<not> rule_applies sample_env (BashAccess (join [32] [lit ''rm''])) None (bash_rule DenyRule (lit ''dd''))
      (compile_matcher sample_env (bash_rule DenyRule (lit ''dd'')))"
  using gate_passes_unrestricted [OF sample_gate sample_runs, of "bash_rule DenyRule (lit ''dd'')"]
  by (simp del: lit_simps)

text \<open>
  C7: a denied command denies its script. If a deny rule applies to a command the script runs, as
  written or normalised, within the nesting the gate follows, the gate rejects the whole script.
\<close>

theorem gate_rejects_denied_command:
  assumes "runs (pe_parse E) n cmd ws" and "n \<le> MAX_INLINE_SHELL_DEPTH"
    and "r \<in> set (pc_rules config)" and "pr_action r = DenyRule"
    and "txt \<in> {join [32] ws, join [32] (nc_words (normalize_command_words ws))}"
    and "rule_applies E (BashAccess txt) None r (compile_matcher E r)"
  shows "\<exists>reason. evaluate_bash_command_gate E (CompiledPolicy_new E config) cmd = Some (GateReject reason)"
proof -
  from assms have "is_gate_reject (own_decision E (CompiledPolicy_new E config) ws)"
    by (auto simp: own_decision_iff escalate_spec applicable_def)
  with assms(1,2) have "is_gate_reject (evaluate_bash_command_segments E (CompiledPolicy_new E config) MAX_INLINE_SHELL_DEPTH cmd)"
    using gate_reject_runs by blast
  moreover have "has_bash_command_restrictions (CompiledPolicy_new E config)"
    using assms(3,4) applies_governs [OF assms(6)] by (auto simp: restricts_def)
  ultimately show ?thesis by (simp add: evaluate_bash_command_gate_def is_gate_reject_def)
qed

theorem gate_rejects_denied_command_witness:
  "\<exists>reason. evaluate_bash_command_gate sample_env (CompiledPolicy_new sample_env sample_config) (lit ''ls; rm'') =
     Some (GateReject reason)"
proof -
  let ?r = "bash_rule DenyRule (lit ''rm'')"
  have "rule_applies sample_env (BashAccess (join [32] [lit ''rm''])) None ?r (compile_matcher sample_env ?r)"
    by code_simp
  then show ?thesis
    using gate_rejects_denied_command [OF sample_runs, of ?r sample_config "join [32] [lit ''rm'']"]
    by (simp del: lit_simps)
qed

text \<open>
  C8: an allowed script is authorised throughout. When the rules allow a shell command, no deny or ask
  rule applies to it and every command it runs is matched by an allow rule after peeling, the scripts it
  hands to other shells included.
\<close>

theorem bash_allow_authorized:
  assumes "evaluate E (CompiledPolicy_new E config) (BashAccess cmd) = Some Allow"
  shows "authorized E config cmd \<and>
    (\<forall>r\<in>set (pc_rules config). restricts r \<longrightarrow> \<not> rule_applies E (BashAccess cmd) None r (compile_matcher E r))"
proof -
  let ?app = "applicable E config (BashAccess cmd) None"
  from assms have none: "find (\<lambda>r. pr_action r = DenyRule) ?app = None"
    and ask: "\<not> (\<exists>r\<in>set ?app. pr_action r = AskRule)"
    and chain: "bash_chain_fully_allowed E (CompiledPolicy_new E config) AnyScope MAX_INLINE_SHELL_DEPTH cmd"
    by (auto simp: evaluate_bash evaluate_lexical_spec split: option.splits if_splits)
  from none have "\<not> (\<exists>r\<in>set ?app. pr_action r = DenyRule)" by (simp add: find_some_iff_ex)
  with ask show ?thesis using chain_allowed_authorized [OF chain] by (auto simp: applicable_def restricts_def)
qed

theorem bash_allow_authorized_witness: "authorized sample_env sample_open (lit ''ls; rm'')"
  using bash_allow_authorized [OF sample_bash_allowed] by simp

text \<open>
  C10: following a symbolic link only tightens. A path rejected as written stays rejected for the same
  reason, one that asks never becomes allowed, and an allow survives only if the rules restrict neither
  the written path nor the file the link leads to.
\<close>

theorem symlink_recheck_tightens:
  "(evaluate_lexical_with_cwd E pol access cwd = Some (Reject r) \<longrightarrow>
      evaluate_with_cwd E pol access cwd = Some (Reject r)) \<and>
   (evaluate_lexical_with_cwd E pol access cwd = Some Ask \<longrightarrow>
      evaluate_with_cwd E pol access cwd = Some Ask \<or> (\<exists>s. evaluate_with_cwd E pol access cwd = Some (Reject s))) \<and>
   (evaluate_with_cwd E pol access cwd = Some Allow \<longrightarrow>
      evaluate_lexical_with_cwd E pol access cwd = Some Allow \<and>
      (\<forall>path raw resolved. native_file_path access = Some path \<longrightarrow> raw_absolute_tool_path path cwd = Some raw \<longrightarrow>
         follow_absolute_symlink E raw (path_match_string (absolute_normalized_path path cwd)) = FollowTarget resolved \<longrightarrow>
         escalation (evaluate_lexical_with_cwd E pol (access_with_path access resolved) cwd) = None))"
  using combine_ask(1)
  by (fastforce simp: evaluate_with_cwd_def evaluate_with_cwd_details_def Let_def combine_keeps combine_ask(2)
      split: option.splits SymlinkFollow.splits if_splits)

theorem symlink_recheck_tightens_witness:
  "evaluate_lexical_with_cwd sample_env (CompiledPolicy_new sample_env sample_config) (ReadAccess (Some (lit ''/w/link''))) None
     = Some Allow \<and>
   evaluate_with_cwd sample_env (CompiledPolicy_new sample_env sample_config) (ReadAccess (Some (lit ''/w/link''))) None
     \<noteq> Some Allow"
proof -
  let ?a = "ReadAccess (Some (lit ''/w/link''))" and ?p = "CompiledPolicy_new sample_env sample_config"
  have "\<not> rule_applies sample_env ?a None (bash_rule DenyRule (lit ''rm'')) (compile_matcher sample_env (bash_rule DenyRule (lit ''rm'')))"
    "\<not> rule_applies sample_env ?a None (read_rule DenyRule (Some (lit ''/etc/passwd'')))
        (compile_matcher sample_env (read_rule DenyRule (Some (lit ''/etc/passwd''))))"
    "rule_applies sample_env ?a None (read_rule AllowRule None) (compile_matcher sample_env (read_rule AllowRule None))"
    "rule_applies sample_env (access_with_path ?a (lit ''/etc/passwd'')) None (read_rule DenyRule (Some (lit ''/etc/passwd'')))
        (compile_matcher sample_env (read_rule DenyRule (Some (lit ''/etc/passwd''))))"
    by code_simp+
  then have "evaluate_lexical_with_cwd sample_env ?p ?a None = Some Allow"
    and "\<exists>r. evaluate_lexical_with_cwd sample_env ?p (access_with_path ?a (lit ''/etc/passwd'')) None = Some (Reject r)"
    unfolding lexical_reject_iff by (simp_all add: evaluate_lexical_spec applicable_def del: lit_simps)
  moreover from this(2)
  have "escalation (evaluate_lexical_with_cwd sample_env ?p (access_with_path ?a (lit ''/etc/passwd'')) None) \<noteq> None"
    by (auto simp: escalation_def)
  moreover have "follow_absolute_symlink sample_env (lit ''/w/link'')
      (path_match_string (absolute_normalized_path (lit ''/w/link'') None)) = FollowTarget (lit ''/etc/passwd'')"
    and "raw_absolute_tool_path (lit ''/w/link'') None = Some (lit ''/w/link'')"
    and "native_file_path ?a = Some (lit ''/w/link'')"
    by code_simp+
  ultimately show ?thesis using symlink_recheck_tightens [of sample_env ?p ?a None "[]"] by metis
qed

text \<open>
  C9: deny beats ask beats allow, and the order of the rules is immaterial. A lexical verdict is a
  rejection exactly when a deny rule applies, a question exactly when an ask rule applies and no deny
  rule does; the full evaluation of two configurations with the same rules gives the same verdict.
\<close>

theorem rule_precedence:
  assumes "set (pc_rules c1) = set (pc_rules c2)"
  shows "((\<exists>reason. evaluate_lexical_with_cwd E (CompiledPolicy_new E c1) access cwd = Some (Reject reason)) \<longleftrightarrow>
      (\<exists>r\<in>set (pc_rules c1). pr_action r = DenyRule \<and> rule_applies E access cwd r (compile_matcher E r))) \<and>
    (evaluate_lexical_with_cwd E (CompiledPolicy_new E c1) access cwd = Some Ask \<longleftrightarrow>
      (\<exists>r\<in>set (pc_rules c1). pr_action r = AskRule \<and> rule_applies E access cwd r (compile_matcher E r)) \<and>
      \<not> (\<exists>r\<in>set (pc_rules c1). pr_action r = DenyRule \<and> rule_applies E access cwd r (compile_matcher E r))) \<and>
    verdict (evaluate_with_cwd E (CompiledPolicy_new E c1) access cwd) =
      verdict (evaluate_with_cwd E (CompiledPolicy_new E c2) access cwd)"
  using lexical_reject_iff [of E c1 access cwd] lexical_ask_iff [of E c1 access cwd] evaluate_with_cwd_set [OF assms]
  by blast

theorem rule_precedence_witness:
  "verdict (evaluate_with_cwd sample_env (CompiledPolicy_new sample_env sample_config) (BashAccess (lit ''rm'')) None) =
   verdict (evaluate_with_cwd sample_env
     (CompiledPolicy_new sample_env (PermissionConfig_new (rev (pc_rules sample_config)))) (BashAccess (lit ''rm'')) None)"
proof -
  have "set (pc_rules sample_config) = set (pc_rules (PermissionConfig_new (rev (pc_rules sample_config))))"
    by (simp add: PermissionConfig_new_def insert_commute)
  from rule_precedence [OF this, of sample_env "BashAccess (lit ''rm'')" None] show ?thesis by (simp only:)
qed

text \<open>
  the script recognised behind a shell's \<open>-c\<close> is a literal word of the command. The program named
  by the first word is a shell, the index is inside the command and at least two, and an option with a
  \<open>c\<close> stands strictly between the program and the script.
\<close>

lemma dash_c_script_bounds:
  assumes "shell_dash_c_script ws = LiteralScript k"
  shows "2 \<le> k \<and> k < length ws \<and> (\<exists>w. ws ! k = LiteralWord w) \<and>
    (\<exists>program. ws ! 0 = LiteralWord program \<and> shell_program program) \<and>
    (\<exists>j opt. 1 \<le> j \<and> j < k \<and> ws ! j = LiteralWord opt \<and> prefix (lit ''-'') opt \<and> 99 \<in> set (tl opt))"
proof -
  from assms obtain program rest where ws: "ws = LiteralWord program # rest" "shell_program program"
    and "dash_c_loop False ws 1 False False = LiteralScript k"
    using dash_c_loop_literal by (fastforce simp: shell_dash_c_script_def split: list.splits ShellWord.splits if_splits)
  from dash_c_loop_literal [OF this(3)] obtain j w where j: "1 \<le> j" "j < k" "c_option (ws ! j)"
    and k: "literal_at ws k = Some w" by auto
  from j(3) obtain opt where "ws ! j = LiteralWord opt" "prefix (lit ''-'') opt" "99 \<in> set (tl opt)"
    by (auto simp: c_option_def split: ShellWord.splits)
  with j k ws show ?thesis by (auto simp: literal_at_Some simp del: lit_simps)
qed

theorem dash_c_script_bounds_witness:
  "shell_dash_c_script (map LiteralWord [lit ''/bin/bash'', lit ''-lc'', lit ''ls'']) = LiteralScript 2 \<and>
   2 < length [lit ''/bin/bash'', lit ''-lc'', lit ''ls'']"
proof -
  have "shell_dash_c_script (map LiteralWord [lit ''/bin/bash'', lit ''-lc'', lit ''ls'']) = LiteralScript 2" by code_simp
  with dash_c_script_bounds [OF this] show ?thesis by simp
qed

text \<open>
  a rule on a relative path only ever speaks about the working directory. If one of the forms a path
  is matched under starts with \<open>./\<close>, then the path, resolved against the working directory and with its
  dots folded, is that directory followed by names, and the form spells those names (a backslash
  inside a name reads as a separator).
\<close>

lemma path_forms_confined:
  assumes "is_absolute c" and "f \<in> set (path_match_forms p (Some c))" and "prefix (lit ''./'') f"
  shows "\<exists>ws. normalize_lexically (components (joined_path p (Some c))) = normalize_lexically (components c) @ map Normal ws \<and>
    f \<in> {lit ''./'' @ path_match_string (join [47] ws), path_match_string (join [47] ws)}"
proof -
  have dot: "lit ''./'' = [46, 47]" by simp
  obtain cs where cs: "normalize_lexically (components c) = RootDir # map Normal cs"
    using normalize_absolute [OF assms(1)] by blast
  show ?thesis
  proof (cases "is_tilde_path p")
    case True
    then have abs: "absolute_normalized_path p (Some c) = p" by (simp add: absolute_normalized_path_def)
    from True have "\<not> prefix (RootDir # map Normal cs) (components p)"
      by (auto simp: is_tilde_path_def prefix_Cons split: list.splits Component.splits)
    then have "path_match_forms p (Some c) = [path_match_string p]"
      by (simp add: path_match_forms_def abs strip_path_prefix_def cs Let_def)
    with assms(2,3) tilde_head [OF True] show ?thesis by (auto simp: path_match_string_def dot)
  next
    case False
    have "is_absolute (joined_path p (Some c))"
      using assms(1) path_join_absolute by (simp add: joined_path_def)
    from normalize_absolute [OF this] obtain ps
      where ps: "normalize_lexically (components (joined_path p (Some c))) = RootDir # map Normal ps" "list_all plain_name ps"
      by blast
    let ?abs = "path_text (RootDir # map Normal ps)"
    have abs: "absolute_normalized_path p (Some c) = ?abs" using False by (simp add: absolute_normalized_path_def ps)
    have first: "path_match_string ?abs = 47 # path_match_string (join [47] ps)"
      unfolding path_text_root by (simp add: path_match_string_def)
    show ?thesis
    proof (cases "prefix (map Normal cs) (map Normal ps)")
      case True
      moreover have "inj Normal" by (simp add: inj_def)
      ultimately obtain ws where ws: "ps = cs @ ws"
        by (auto simp: prefix_def map_eq_append_conv inj_map_eq_map)
      have "path_text (map Normal ws) = join [47] ws"
        by (cases ws) (simp_all add: path_text_def component_text_def comp_def)
      then have strip: "strip_path_prefix ?abs (RootDir # map Normal cs) = Some (join [47] ws)"
        unfolding strip_path_prefix_def components_path_text [OF ps(2)] by (simp add: ws)
      have "path_match_string (join [47] ws) \<noteq> [46]" using ps(2) by (intro join_plain) (simp add: ws)
      then have "f \<in> {[46, 47] @ path_match_string (join [47] ws), path_match_string (join [47] ws)}"
        using assms(2,3) unfolding path_match_forms_def abs option.case cs strip Let_def first by (auto split: if_splits)
      then show ?thesis unfolding cs ps(1) ws dot by (auto intro: exI [of _ ws])
    next
      case False
      then show ?thesis
        using assms(2,3) first
        by (auto simp: path_match_forms_def abs Let_def cs strip_path_prefix_def components_path_text [OF ps(2)])
    qed
  qed
qed

theorem path_forms_confined_witness:
  "\<exists>ws. normalize_lexically (components (joined_path (lit ''src/../a'') (Some (lit ''/w'')))) =
     normalize_lexically (components (lit ''/w'')) @ map Normal ws \<and> 
     lit ''./a'' \<in> {lit ''./'' @ path_match_string (join [47] ws), path_match_string (join [47] ws)}"
proof (rule path_forms_confined)
  show "is_absolute (lit ''/w'')" "prefix (lit ''./'') (lit ''./a'')" by (simp_all add: is_absolute_def)
  show "lit ''./a'' \<in> set (path_match_forms (lit ''src/../a'') (Some (lit ''/w'')))" by code_simp
qed

end
