(* ===== verification/Compact_Select.thy ===== *)
theory Compact_Select
  imports Prelude
begin

text \<open>
  \<open>item.rs\<close>, \<open>token.rs\<close> and \<open>select.rs\<close> of \<open>xai-grok-compaction\<close>: which turns of a conversation are kept
  when it is compacted. The traits \<open>CompactionItem\<close>, \<open>CompactionItemBuilder\<close> and \<open>ItemTokenCounter\<close> of the
  source are the record \<open>item_ops\<close>, the methods of the harness's item type. Token counts are \<open>u32\<close>: naturals
  with the saturating additions written out.
\<close>

section \<open>Items\<close>

datatype CompactionRole = SystemRole | DeveloperRole | UserRole | AssistantRole | ToolRole

record CompactionFileRef =
  file_id :: rstr
  file_name :: rstr

record 'a item_ops =
  item_role :: "'a \<Rightarrow> CompactionRole"
  item_text :: "'a \<Rightarrow> rstr option"
  has_tool_requests :: "'a \<Rightarrow> bool"
  is_compaction_summary :: "'a \<Rightarrow> bool"
  attachment_refs :: "'a \<Rightarrow> CompactionFileRef list"
  compaction_summary_item :: "rstr \<Rightarrow> 'a"
  strip_tool_content :: "'a \<Rightarrow> 'a option"
  truncate_payload_for_compaction :: "'a \<Rightarrow> nat \<Rightarrow> 'a"
  count_item_tokens :: "'a \<Rightarrow> nat"

definition is_tool_result :: "'a item_ops \<Rightarrow> 'a \<Rightarrow> bool" where
  "is_tool_result I x \<longleftrightarrow> item_role I x = ToolRole"

section \<open>Choosing a split\<close>

record SplitPlan =
  split_idx :: nat
  tokens_to_compact :: nat

abbreviation add32 :: "nat \<Rightarrow> nat \<Rightarrow> nat" where
  "add32 \<equiv> sat_add u32_max"

definition sum_counts :: "nat list \<Rightarrow> nat" where
  "sum_counts counts = foldl add32 0 counts"

text \<open>The backward walk; \<open>n\<close> items are still to be looked at.\<close>

fun select_loop :: "nat list \<Rightarrow> nat \<Rightarrow> nat \<Rightarrow> nat \<Rightarrow> nat" where
  "select_loop counts target 0 kept = 0"
| "select_loop counts target (Suc i) kept =
     (if target < add32 kept (counts ! i) then Suc i
      else select_loop counts target i (add32 kept (counts ! i)))"

function snap_loop :: "'a item_ops \<Rightarrow> 'a list \<Rightarrow> nat \<Rightarrow> nat" where
  "snap_loop I items i = (if i < length items \<and> is_tool_result I (items ! i) then snap_loop I items (i + 1) else i)"
  by pat_completeness auto
termination by (relation "measure (\<lambda>(_, items, i). length items - i)") auto

declare snap_loop.simps [simp del]

definition snap_to_safe_boundary :: "'a item_ops \<Rightarrow> 'a list \<Rightarrow> nat \<Rightarrow> nat" where
  "snap_to_safe_boundary I items candidate =
     (if length items \<le> candidate then length items
      else if \<not> is_tool_result I (items ! candidate) then candidate
      else snap_loop I items candidate)"

definition select_turns_to_compact ::
  "'a item_ops \<Rightarrow> nat list \<Rightarrow> 'a list \<Rightarrow> nat \<Rightarrow> nat \<Rightarrow> SplitPlan option" where
  "select_turns_to_compact I counts items target min_compactable =
     (if items = [] then None
      else let split = select_loop counts target (length items) 0
           in if split = 0 then None
              else let safe = snap_to_safe_boundary I items split
                   in if length items \<le> safe then None
                      else let tokens = sum_counts (take safe counts)
                           in if tokens < min_compactable then None
                              else Some \<lparr>split_idx = safe, tokens_to_compact = tokens\<rparr>)"

section \<open>Saturating sums\<close>

lemma add32_eq: "add32 a b = min u32_max (a + b)"
  by (simp add: sat_add_def)

lemma foldl_add32: "foldl add32 a xs = (if xs = [] then a else min u32_max (a + sum_list xs))"
  by (induction xs arbitrary: a) (auto simp: add32_eq)

lemma sum_counts_eq: "sum_counts xs = min u32_max (sum_list xs)"
  by (simp add: sum_counts_def foldl_add32)

lemma sum_counts_Nil [simp]: "sum_counts [] = 0"
  by (simp add: sum_counts_eq)

lemma sum_counts_append: "sum_counts (xs @ ys) = add32 (sum_counts xs) (sum_counts ys)"
  by (simp add: sum_counts_eq add32_eq)

lemma sum_counts_drop_antimono: "i \<le> j \<Longrightarrow> sum_counts (drop j xs) \<le> sum_counts (drop i xs)"
proof -
  assume "i \<le> j"
  then have "drop i xs = take (j - i) (drop i xs) @ drop j xs" by (metis append_take_drop_id drop_drop le_add_diff_inverse2)
  then have "sum_list (drop j xs) \<le> sum_list (drop i xs)" by (metis le_add2 sum_list_append)
  then show ?thesis by (simp add: sum_counts_eq min.coboundedI2 min_le_iff_disj)
qed

lemma sum_counts_drop_step: "i < length xs \<Longrightarrow> sum_counts (drop i xs) = add32 (sum_counts (drop (Suc i) xs)) (xs ! i)"
  by (simp add: sum_counts_eq add32_eq Cons_nth_drop_Suc [symmetric])

section \<open>Where the split falls\<close>

lemma select_loop_spec:
  assumes "i \<le> length counts" and "sum_counts (drop i counts) = kept" and "kept \<le> target"
  shows "select_loop counts target i kept \<le> i \<and> sum_counts (drop (select_loop counts target i kept) counts) \<le> target \<and>
    (\<forall>j < select_loop counts target i kept. target < sum_counts (drop j counts))"
  using assms
proof (induction i arbitrary: kept)
  case (Suc i)
  then have step: "sum_counts (drop i counts) = add32 kept (counts ! i)"
    using sum_counts_drop_step [of i counts] by simp
  show ?case
  proof (cases "target < add32 kept (counts ! i)")
    case True
    have "target < sum_counts (drop j counts)" if "j < Suc i" for j
      using sum_counts_drop_antimono [of j i counts] that True step by simp
    then show ?thesis using True Suc.prems by simp
  next
    case False
    then show ?thesis using Suc.IH [of "add32 kept (counts ! i)"] Suc.prems step by auto
  qed
qed auto

lemma snap_loop_spec:
  "i \<le> length items \<Longrightarrow> i \<le> snap_loop I items i \<and> snap_loop I items i \<le> length items \<and>
     (\<forall>j. i \<le> j \<longrightarrow> j < snap_loop I items i \<longrightarrow> is_tool_result I (items ! j)) \<and>
     (snap_loop I items i < length items \<longrightarrow> \<not> is_tool_result I (items ! snap_loop I items i))"
proof (induction I items i rule: snap_loop.induct)
  case (1 I items i)
  show ?case
  proof (cases "i < length items \<and> is_tool_result I (items ! i)")
    case True
    with 1 show ?thesis by (auto simp: snap_loop.simps [of I items i] dest: le_neq_implies_less)
  next
    case False
    then show ?thesis using 1(2) by (auto simp: snap_loop.simps [of I items i])
  qed
qed

lemma snap_spec:
  fixes I :: "'a item_ops"
  assumes "i \<le> length items"
  defines "s \<equiv> snap_to_safe_boundary I items i"
  shows "i \<le> s" and "s \<le> length items" and "\<And>j. i \<le> j \<Longrightarrow> j < s \<Longrightarrow> is_tool_result I (items ! j)"
    and "s < length items \<Longrightarrow> \<not> is_tool_result I (items ! s)"
  using assms(1) snap_loop_spec [of i items I] by (auto simp: s_def snap_to_safe_boundary_def split: if_splits)

lemma select_Some:
  assumes "select_turns_to_compact I counts items target m = Some plan" and "length counts = length items"
  shows "0 < split_idx plan" and "split_idx plan < length items"
    and "\<not> is_tool_result I (items ! split_idx plan)"
    and "sum_counts (drop (split_idx plan) counts) \<le> target"
    and "tokens_to_compact plan = sum_counts (take (split_idx plan) counts)" and "m \<le> tokens_to_compact plan"
    and "\<And>j. j < split_idx plan \<Longrightarrow> sum_counts (drop j counts) \<le> target \<Longrightarrow> is_tool_result I (items ! j)"
proof -
  let ?c = "select_loop counts target (length items) 0"
  let ?s = "snap_to_safe_boundary I items ?c"
  have loop: "?c \<le> length items" "sum_counts (drop ?c counts) \<le> target" "\<forall>j < ?c. target < sum_counts (drop j counts)"
    using select_loop_spec [of "length items" counts 0 target] assms(2) by auto
  note snap = snap_spec [OF loop(1), where I = I]
  from assms(1) have plan: "?c \<noteq> 0" "?s < length items" "split_idx plan = ?s"
    "tokens_to_compact plan = sum_counts (take ?s counts)" "m \<le> sum_counts (take ?s counts)"
    by (auto simp: select_turns_to_compact_def Let_def split: if_splits)
  show "0 < split_idx plan" "split_idx plan < length items" "\<not> is_tool_result I (items ! split_idx plan)"
    "tokens_to_compact plan = sum_counts (take (split_idx plan) counts)" "m \<le> tokens_to_compact plan"
    using plan snap by auto
  show "sum_counts (drop (split_idx plan) counts) \<le> target"
    using sum_counts_drop_antimono [OF snap(1), of counts] loop(2) plan(3) by simp
  show "is_tool_result I (items ! j)" if "j < split_idx plan" "sum_counts (drop j counts) \<le> target" for j
    using that loop(3) snap(3) [of j] plan(3) by (metis linorder_not_less)
qed

lemma select_None:
  assumes "select_turns_to_compact I counts items target m = None" and "length counts = length items" and "items \<noteq> []"
    and "target < sum_counts counts" and "i < length items" and "\<not> is_tool_result I (items ! i)"
    and "sum_counts (drop i counts) \<le> target"
  shows "\<exists>s \<le> i. sum_counts (take s counts) < m"
proof -
  let ?c = "select_loop counts target (length items) 0"
  let ?s = "snap_to_safe_boundary I items ?c"
  have loop: "?c \<le> length items" "sum_counts (drop ?c counts) \<le> target" "\<forall>j < ?c. target < sum_counts (drop j counts)"
    using select_loop_spec [of "length items" counts 0 target] assms(2) by auto
  note snap = snap_spec [OF loop(1), where I = I]
  have "?c \<noteq> 0" using loop(2) assms(4) by (metis drop0 leD)
  have "?c \<le> i" using loop(3) assms(7) by (metis linorder_not_less)
  then have si: "?s \<le> i" using snap(3) [of i] assms(6) by (metis linorder_not_less)
  with assms(1,3,5) \<open>?c \<noteq> 0\<close> have "sum_counts (take ?s counts) < m"
    by (auto simp: select_turns_to_compact_def Let_def split: if_splits)
  with si show ?thesis by blast
qed

section \<open>Tool results stay with their requests\<close>

text \<open>
  Every tool result follows a tool result or an item with tool requests; the flag says whether the item
  just before the list is one of those.
\<close>

fun paired :: "'a item_ops \<Rightarrow> bool \<Rightarrow> 'a list \<Rightarrow> bool" where
  "paired I ok [] = True"
| "paired I ok (x # xs) = ((is_tool_result I x \<longrightarrow> ok) \<and> paired I (is_tool_result I x \<or> has_tool_requests I x) xs)"

lemma paired_mono: "paired I False xs \<Longrightarrow> paired I ok xs"
  by (cases xs) auto

lemma paired_append: "paired I ok xs \<Longrightarrow> paired I False ys \<Longrightarrow> paired I ok (xs @ ys)"
  by (induction xs arbitrary: ok) (auto intro: paired_mono)

lemma paired_drop:
  "paired I ok xs \<Longrightarrow> i < length xs \<Longrightarrow> \<not> is_tool_result I (xs ! i) \<Longrightarrow> paired I False (drop i xs)"
proof (induction xs arbitrary: i ok)
  case (Cons x xs)
  then show ?case by (cases i) auto
qed simp

end
