(* ===== verification/Compact_Fit.thy ===== *)
theory Compact_Fit
  imports Compact_Select
begin

text \<open>
  \<open>intra_compaction/fit.rs\<close>: fitting history and steps into the token budget of the summarising model by a
  ladder of measures, each tried only when the ones before did not suffice, and clipping of one text.
\<close>

datatype FitRung = Verbatim | HistoryTurnSelected | ToolTruncated | StepTurnsSelected | Emergency

definition FitRung_as_str :: "FitRung \<Rightarrow> rstr" where
  "FitRung_as_str r = lit
     (case r of
        Verbatim \<Rightarrow> ''verbatim'' | HistoryTurnSelected \<Rightarrow> ''history_turn_selected'' | ToolTruncated \<Rightarrow> ''tool_truncated''
      | StepTurnsSelected \<Rightarrow> ''step_turns_selected'' | Emergency \<Rightarrow> ''emergency'')"

record 'a FitPlan =
  llm_turns :: "'a list"
  tokens_raw :: nat
  tokens_fit :: nat
  rung :: FitRung
  items_truncated :: nat
  history_turns_omitted :: nat
  step_turns_omitted :: nat

definition token_counts :: "'a item_ops \<Rightarrow> 'a list \<Rightarrow> nat list" where
  "token_counts I turns = map (count_item_tokens I) turns"

definition sum_tokens :: "'a item_ops \<Rightarrow> 'a list \<Rightarrow> nat" where
  "sum_tokens I turns = foldl add32 0 (map (count_item_tokens I) turns)"

definition shrink_item_to_token_budget :: "'a item_ops \<Rightarrow> 'a \<Rightarrow> nat \<Rightarrow> 'a" where
  "shrink_item_to_token_budget I x max_tokens = truncate_payload_for_compaction I x max_tokens"

definition oversized_tool :: "'a item_ops \<Rightarrow> nat \<Rightarrow> 'a \<Rightarrow> bool" where
  "oversized_tool I max_tokens t \<longleftrightarrow> is_tool_result I t \<and> max_tokens < count_item_tokens I t"

definition shrink_oversized_tool_results :: "'a item_ops \<Rightarrow> 'a list \<Rightarrow> nat \<Rightarrow> 'a list \<times> nat" where
  "shrink_oversized_tool_results I turns max_tokens =
     (map (\<lambda>t. if oversized_tool I max_tokens t then shrink_item_to_token_budget I t max_tokens else t) turns,
      length (filter (oversized_tool I max_tokens) turns))"

definition keep_recent_under_budget :: "'a item_ops \<Rightarrow> 'a list \<Rightarrow> nat list \<Rightarrow> nat \<Rightarrow> ('a list \<times> nat) option" where
  "keep_recent_under_budget I turns counts budget =
     (if turns = [] then Some ([], 0)
      else if budget = 0 then Some ([], length turns)
      else if sum_counts counts \<le> budget then Some (turns, 0)
      else map_option (\<lambda>plan. (drop (split_idx plan) turns, split_idx plan))
             (select_turns_to_compact I counts turns budget 0))"

definition plan_ok :: "'a item_ops \<Rightarrow> 'a list \<Rightarrow> 'a list \<Rightarrow> nat \<Rightarrow> FitRung \<Rightarrow> nat \<Rightarrow> nat \<Rightarrow> nat \<Rightarrow> 'a FitPlan" where
  "plan_ok I history steps raw r truncated hist_omitted step_omitted =
     \<lparr>llm_turns = history @ steps, tokens_raw = raw, tokens_fit = sum_tokens I (history @ steps), rung = r,
      items_truncated = truncated, history_turns_omitted = hist_omitted, step_turns_omitted = step_omitted\<rparr>"

text \<open>
  Dropping the oldest turns of one part so that it fits beside the other, which has \<open>other\<close> tokens: the
  turns kept and how many were left out. Stages one and three of the ladder.
\<close>

definition drop_oldest :: "'a item_ops \<Rightarrow> 'a list \<Rightarrow> nat \<Rightarrow> nat \<Rightarrow> 'a list \<times> nat" where
  "drop_oldest I turns other budget =
     (if other < budget
      then if budget - other < sum_counts (token_counts I turns)
           then case keep_recent_under_budget I turns (token_counts I turns) (budget - other) of
                  Some kept \<Rightarrow> kept
                | None \<Rightarrow> ([], length turns)
           else (turns, 0)
      else ([], length turns))"

definition emergency_plan ::
  "'a item_ops \<Rightarrow> 'a list \<Rightarrow> 'a list \<Rightarrow> 'a list \<Rightarrow> 'a list \<Rightarrow> nat \<Rightarrow> nat \<Rightarrow> nat \<Rightarrow> nat \<Rightarrow> nat \<Rightarrow> 'a FitPlan" where
  "emergency_plan I history steps hist step budget raw truncated hist_omitted step_omitted =
     (let combined = hist @ step;
          (source, ho, so) =
            (if combined = [] then
               (history @ steps,
                if steps = [] then (length history - 1, 0) else (length history, length steps - 1))
             else if step = [] then (combined, add32 hist_omitted (length hist - 1), step_omitted)
             else (combined, add32 hist_omitted (length hist), add32 step_omitted (length step - 1)))
      in if source = [] then
           \<lparr>llm_turns = [], tokens_raw = raw, tokens_fit = 0, rung = Emergency, items_truncated = truncated,
            history_turns_omitted = ho, step_turns_omitted = so\<rparr>
         else let newest = [shrink_item_to_token_budget I (last source) budget]
              in \<lparr>llm_turns = newest, tokens_raw = raw, tokens_fit = sum_tokens I newest, rung = Emergency,
                  items_truncated = add32 truncated 1, history_turns_omitted = ho, step_turns_omitted = so\<rparr>)"

definition fit_turns_for_summarizer :: "'a item_ops \<Rightarrow> 'a list \<Rightarrow> 'a list \<Rightarrow> nat \<Rightarrow> 'a FitPlan" where
  "fit_turns_for_summarizer I history steps budget =
     (let total = (\<lambda>h s. add32 (sum_counts (token_counts I h)) (sum_counts (token_counts I s)));
          raw = total history steps
      in if budget = 0 then
           \<lparr>llm_turns = [], tokens_raw = raw, tokens_fit = 0, rung = Emergency, items_truncated = 0,
            history_turns_omitted = length history, step_turns_omitted = length steps\<rparr>
         else if raw \<le> budget then plan_ok I history steps raw Verbatim 0 0 0
         else
           let (hist, hist_omitted) = drop_oldest I history (sum_counts (token_counts I steps)) budget
           in if total hist steps \<le> budget then plan_ok I hist steps raw HistoryTurnSelected 0 hist_omitted 0
              else
                let (hist2, n1) = shrink_oversized_tool_results I hist budget;
                    (step2, n2) = shrink_oversized_tool_results I steps budget;
                    truncated = add32 n1 n2
                in if total hist2 step2 \<le> budget then plan_ok I hist2 step2 raw ToolTruncated truncated hist_omitted 0
                   else
                     let (step3, step_omitted) = drop_oldest I step2 (sum_counts (token_counts I hist2)) budget
                     in if total hist2 step3 \<le> budget \<and> (hist2 \<noteq> [] \<or> step3 \<noteq> [])
                        then plan_ok I hist2 step3 raw StepTurnsSelected truncated hist_omitted step_omitted
                        else emergency_plan I history steps hist2 step3 budget raw truncated hist_omitted step_omitted)"

section \<open>Clipping a text\<close>

text \<open>\<open>str::is_char_boundary\<close> and the walk back to one, on the bytes a prefix takes.\<close>

fun boundary_prefix :: "nat \<Rightarrow> rstr \<Rightarrow> rstr" where
  "boundary_prefix n [] = []"
| "boundary_prefix n (c # s) = (if len_utf8 c \<le> n then c # boundary_prefix (n - len_utf8 c) s else [])"

definition MARKER_RESERVE :: nat where "MARKER_RESERVE = 64"

definition truncation_marker :: "nat \<Rightarrow> rstr" where
  "truncation_marker dropped =
     10 # lit ''[... truncated '' @ show_dec dropped @ lit '' bytes to fit the compaction window ...]''"

definition truncate_text_to_token_budget :: "rstr \<Rightarrow> nat \<Rightarrow> rstr" where
  "truncate_text_to_token_budget text max_tokens =
     (let max_bytes = sat_mul u64_max max_tokens 4
      in if byte_len text \<le> max_bytes then text
         else let kept = boundary_prefix (max_bytes - MARKER_RESERVE) text
              in kept @ truncation_marker (byte_len text - byte_len kept))"

section \<open>The ladder\<close>

lemma sum_tokens_eq: "sum_tokens I xs = sum_counts (token_counts I xs)"
  by (simp add: sum_tokens_def token_counts_def sum_counts_def)

lemma sum_tokens_append: "sum_tokens I (xs @ ys) = add32 (sum_tokens I xs) (sum_tokens I ys)"
  by (simp add: sum_tokens_eq token_counts_def sum_counts_append)

lemma token_counts_drop: "token_counts I (drop n xs) = drop n (token_counts I xs)"
  by (simp add: token_counts_def drop_map)

text \<open>What stages one and three rely on: a suffix that fits beside the rest and starts at a boundary.\<close>

locale budgeted_suffix =
  fixes weight :: "'a list \<Rightarrow> nat" and boundary :: "'a \<Rightarrow> bool"
    and keep :: "'a list \<Rightarrow> nat \<Rightarrow> nat \<Rightarrow> 'a list \<times> nat"
  assumes keep_suffix: "keep xs other b = (ys, n) \<Longrightarrow> n \<le> length xs \<and> ys = drop n xs"
    and keep_weight: "keep xs other b = (ys, n) \<Longrightarrow> other < b \<Longrightarrow> weight ys + other \<le> b"
    and keep_nothing: "keep xs other b = (ys, n) \<Longrightarrow> b \<le> other \<Longrightarrow> ys = []"
    and keep_boundary: "keep xs other b = (ys, n) \<Longrightarrow> 0 < n \<Longrightarrow> ys \<noteq> [] \<Longrightarrow> boundary (hd ys)"
begin

lemma keep_fits_beside: "keep xs (weight zs) b = (ys, n) \<Longrightarrow> weight zs < b \<Longrightarrow> min m (weight ys + weight zs) \<le> b"
  using keep_weight by (simp add: min.coboundedI2)

lemma keep_at_boundary:
  assumes "keep xs other b = (ys, n)"
  shows "ys = xs \<or> ys = [] \<or> (n < length xs \<and> boundary (xs ! n))"
  using keep_suffix [OF assms] keep_boundary [OF assms] by (cases "n = 0") (auto simp: hd_drop_conv_nth)

end

lemma keep_recent_spec:
  assumes "keep_recent_under_budget I xs (token_counts I xs) b = Some (ys, n)"
  shows "n \<le> length xs \<and> ys = drop n xs \<and> sum_tokens I ys \<le> b \<and>
    (0 < n \<longrightarrow> ys \<noteq> [] \<longrightarrow> \<not> is_tool_result I (hd ys))"
proof (cases "xs = [] \<or> b = 0 \<or> sum_counts (token_counts I xs) \<le> b")
  case True
  then show ?thesis using assms
    by (auto simp: keep_recent_under_budget_def sum_tokens_eq token_counts_def split: if_splits)
next
  case False
  with assms obtain plan where plan: "select_turns_to_compact I (token_counts I xs) xs b 0 = Some plan"
    and ys: "ys = drop (split_idx plan) xs" "n = split_idx plan"
    by (auto simp: keep_recent_under_budget_def)
  have "length (token_counts I xs) = length xs" by (simp add: token_counts_def)
  note sel = select_Some [OF plan this]
  show ?thesis using sel(1-4) by (auto simp: ys sum_tokens_eq token_counts_drop hd_drop_conv_nth)
qed

interpretation oldest: budgeted_suffix "sum_tokens I" "\<lambda>x. \<not> is_tool_result I x" "drop_oldest I" for I
proof (unfold_locales, goal_cases)
  case (1 xs other b ys n)
  then show ?case
    using keep_recent_spec [of I xs "b - other" ys n] by (auto simp: drop_oldest_def split: if_splits option.splits)
next
  case (2 xs other b ys n)
  then show ?case
    using keep_recent_spec [of I xs "b - other" ys n]
    by (auto simp: drop_oldest_def sum_tokens_eq token_counts_def [of _ "[]"] split: if_splits option.splits)
next
  case (3 xs other b ys n)
  then show ?case by (auto simp: drop_oldest_def)
next
  case (4 xs other b ys n)
  then show ?case
    using keep_recent_spec [of I xs "b - other" ys n] by (auto simp: drop_oldest_def split: if_splits option.splits)
qed

lemma shrink_length [simp]: "length (fst (shrink_oversized_tool_results I xs b)) = length xs"
  by (simp add: shrink_oversized_tool_results_def)

lemma sum_tokens_Nil [simp]: "sum_tokens I [] = 0" "add32 0 (sum_tokens I xs) = sum_tokens I xs"
  by (simp_all add: sum_tokens_eq token_counts_def sum_counts_eq sat_add_def)

text \<open>
  The rung that made the plan. As long as the steps leave room the first measure suffices; from the second
  on no history is left.
\<close>

lemma fit_cases [consumes 1, case_names verbatim history tools steps emergency]:
  assumes "0 < budget"
  obtains
    (verbatim) "sum_tokens I (history @ steps) \<le> budget"
      "fit_turns_for_summarizer I history steps budget = plan_ok I history steps (sum_tokens I (history @ steps)) Verbatim 0 0 0"
  | (history) hist n where "budget < sum_tokens I (history @ steps)" "sum_tokens I (hist @ steps) \<le> budget"
      "drop_oldest I history (sum_tokens I steps) budget = (hist, n)"
      "fit_turns_for_summarizer I history steps budget =
         plan_ok I hist steps (sum_tokens I (history @ steps)) HistoryTurnSelected 0 n 0"
  | (tools) step2 k where "budget < sum_tokens I (history @ steps)" "budget < sum_tokens I steps" "sum_tokens I step2 \<le> budget"
      "shrink_oversized_tool_results I steps budget = (step2, k)"
      "fit_turns_for_summarizer I history steps budget =
         plan_ok I [] step2 (sum_tokens I (history @ steps)) ToolTruncated (add32 0 k) (length history) 0"
  | (steps) step2 k step3 n where "budget < sum_tokens I (history @ steps)" "budget < sum_tokens I steps"
      "sum_tokens I step3 \<le> budget" "step3 \<noteq> []"
      "shrink_oversized_tool_results I steps budget = (step2, k)" "drop_oldest I step2 0 budget = (step3, n)"
      "fit_turns_for_summarizer I history steps budget =
         plan_ok I [] step3 (sum_tokens I (history @ steps)) StepTurnsSelected (add32 0 k) (length history) n"
  | (emergency) k n where "budget < sum_tokens I (history @ steps)" "budget < sum_tokens I steps"
      "fit_turns_for_summarizer I history steps budget =
         emergency_plan I history steps [] [] budget (sum_tokens I (history @ steps)) (add32 0 k) (length history) n"
proof -
  obtain hist m where hist: "drop_oldest I history (sum_tokens I steps) budget = (hist, m)"
    by (cases "drop_oldest I history (sum_tokens I steps) budget")
  obtain step2 k where shrink: "shrink_oversized_tool_results I steps budget = (step2, k)"
    by (cases "shrink_oversized_tool_results I steps budget")
  obtain step3 n where drop: "drop_oldest I step2 0 budget = (step3, n)" by (cases "drop_oldest I step2 0 budget")
  note unfold = fit_turns_for_summarizer_def sum_tokens_eq [symmetric] sum_tokens_append [symmetric] Let_def
  consider "sum_tokens I (history @ steps) \<le> budget"
    | "budget < sum_tokens I (history @ steps)" "sum_tokens I steps \<le> budget"
    | "budget < sum_tokens I (history @ steps)" "budget < sum_tokens I steps" by linarith
  then show ?thesis
  proof cases
    case 1
    then show ?thesis using verbatim assms by (simp add: unfold)
  next
    case 2
    have "sum_tokens I (hist @ steps) \<le> budget"
    proof (cases "sum_tokens I steps < budget")
      case True
      then show ?thesis
        using oldest.keep_fits_beside [OF hist True, of u32_max] by (simp add: sum_tokens_append sat_add_def)
    next
      case False
      then show ?thesis using oldest.keep_nothing [OF hist] 2 by simp
    qed
    then show ?thesis using history [OF 2(1) _ hist] assms 2(1) hist by (simp add: unfold)
  next
    case 3
    then have h: "hist = []" "m = length history" using hist by (auto simp: drop_oldest_def)
    have fits: "sum_tokens I step3 \<le> budget" using oldest.keep_weight [OF drop assms] by simp
    have empty: "shrink_oversized_tool_results I [] budget = ([], 0)" by (simp add: shrink_oversized_tool_results_def)
    have "fit_turns_for_summarizer I history steps budget =
      (if sum_tokens I step2 \<le> budget
       then plan_ok I [] step2 (sum_tokens I (history @ steps)) ToolTruncated (add32 0 k) (length history) 0
       else if step3 \<noteq> []
       then plan_ok I [] step3 (sum_tokens I (history @ steps)) StepTurnsSelected (add32 0 k) (length history) n
       else emergency_plan I history steps [] [] budget (sum_tokens I (history @ steps)) (add32 0 k) (length history) n)"
      using 3 assms fits hist by (simp add: unfold h shrink empty drop)
    then show ?thesis
      using tools [OF 3 _ shrink] steps [OF 3 fits _ shrink drop] emergency [OF 3] by (auto split: if_splits)
  qed
qed

lemma paired_shrink:
  assumes "\<And>x m. item_role I (truncate_payload_for_compaction I x m) = item_role I x"
    and "\<And>x m. has_tool_requests I (truncate_payload_for_compaction I x m) = has_tool_requests I x"
  shows "paired I ok (fst (shrink_oversized_tool_results I xs b)) = paired I ok xs"
  using assms by (induction xs arbitrary: ok)
    (auto simp: shrink_oversized_tool_results_def shrink_item_to_token_budget_def is_tool_result_def)

lemma paired_drop_oldest:
  assumes "drop_oldest I xs other b = (ys, n)" and "paired I False xs"
  shows "paired I False ys"
  using oldest.keep_at_boundary [OF assms(1)] oldest.keep_suffix [OF assms(1)] paired_drop [OF assms(2), of n] assms(2)
  by auto

lemma plan_ok_fields [simp]:
  "llm_turns (plan_ok I h s raw r t ho so) = h @ s" "rung (plan_ok I h s raw r t ho so) = r"
  "tokens_fit (plan_ok I h s raw r t ho so) = sum_tokens I (h @ s)" "items_truncated (plan_ok I h s raw r t ho so) = t"
  "history_turns_omitted (plan_ok I h s raw r t ho so) = ho" "step_turns_omitted (plan_ok I h s raw r t ho so) = so"
  by (simp_all add: plan_ok_def)

lemma emergency_fields:
  "rung (emergency_plan I history steps hist step b raw t ho so) = Emergency"
  "history @ steps \<noteq> [] \<Longrightarrow> llm_turns (emergency_plan I history steps [] [] b raw t ho so) =
     [truncate_payload_for_compaction I (last (history @ steps)) b]"
  by (auto simp: emergency_plan_def shrink_item_to_token_budget_def Let_def)

lemma emergency_tokens:
  "tokens_fit (emergency_plan I history steps hist step b raw t ho so) =
     sum_tokens I (llm_turns (emergency_plan I history steps hist step b raw t ho so))"
  by (simp add: emergency_plan_def Let_def)

lemma sum_tokens_single: "sum_tokens I [x] = min u32_max (count_item_tokens I x)"
  by (simp add: sum_tokens_def sat_add_def)

lemma boundary_prefix_spec: "prefix (boundary_prefix n s) s \<and> byte_len (boundary_prefix n s) \<le> n"
  by (induction n s rule: boundary_prefix.induct) auto

lemma boundary_prefix_longest:
  "prefix p s \<Longrightarrow> byte_len p \<le> n \<Longrightarrow> prefix p (boundary_prefix n s)"
proof (induction n s arbitrary: p rule: boundary_prefix.induct)
  case (2 n c s)
  then show ?case by (cases p) auto
qed simp

text \<open>The items of the examples: a role and a text, one token per character.\<close>

definition sample_ops :: "(CompactionRole \<times> rstr) item_ops" where
  "sample_ops =
     \<lparr>item_role = fst, item_text = (\<lambda>x. Some (snd x)), has_tool_requests = (\<lambda>x. fst x = AssistantRole),
      is_compaction_summary = (\<lambda>x. fst x = DeveloperRole), attachment_refs = (\<lambda>_. []),
      compaction_summary_item = (\<lambda>s. (DeveloperRole, s)), strip_tool_content = Some,
      truncate_payload_for_compaction = (\<lambda>x m. (fst x, take m (snd x))), count_item_tokens = (\<lambda>x. length (snd x))\<rparr>"

lemmas fit_evals = fit_turns_for_summarizer_def drop_oldest_def keep_recent_under_budget_def select_turns_to_compact_def
  snap_to_safe_boundary_def snap_loop.simps is_tool_result_def token_counts_def sum_counts_def sum_tokens_def plan_ok_def
  sat_add_def u32_max_def sample_ops_def Let_def

text \<open>A history whose newest turn alone is over budget, without steps, is fitted to nothing at all.\<close>

lemma fit_history_only_empty:
  "fit_turns_for_summarizer sample_ops [(UserRole, lit ''a long question'')] [] 4 =
     \<lparr>llm_turns = [], tokens_raw = 15, tokens_fit = 0, rung = HistoryTurnSelected, items_truncated = 0,
      history_turns_omitted = 1, step_turns_omitted = 0\<rparr>"
  by (simp add: fit_evals)

section \<open>Properties\<close>

text \<open>
  C25: what the plan holds and that it fits, on every rung and for every budget. The tokens it reports
  are those of its turns. On every rung but the last resort they are at most the budget, whatever
  clipping does. The last resort is taken for a budget of 0, when nothing is fed, and otherwise only
  when the steps alone are over budget; it then feeds exactly the newest step, clipped to the budget,
  so that its tokens are at most the budget too when clipping honours the budget it is given. The
  turns are verbatim exactly when they fit a positive budget, and tool results are clipped or steps
  left out only when the steps alone are over budget.
\<close>

theorem fit_within_budget:
  assumes "fit_turns_for_summarizer I history steps budget = plan"
  shows "tokens_fit plan = sum_tokens I (llm_turns plan) \<and>
    (rung plan \<noteq> Emergency \<longrightarrow> tokens_fit plan \<le> budget) \<and>
    (rung plan = Emergency \<longrightarrow> (if budget = 0 then llm_turns plan = []
       else budget < sum_tokens I steps \<and> llm_turns plan = [truncate_payload_for_compaction I (last steps) budget])) \<and>
    ((\<forall>x. count_item_tokens I (truncate_payload_for_compaction I x budget) \<le> budget) \<longrightarrow> tokens_fit plan \<le> budget) \<and>
    (rung plan = Verbatim \<longleftrightarrow> 0 < budget \<and> sum_tokens I (history @ steps) \<le> budget) \<and>
    (rung plan \<in> {ToolTruncated, StepTurnsSelected} \<longrightarrow> 0 < budget \<and> budget < sum_tokens I steps)"
proof (cases "0 < budget")
  case False
  then show ?thesis using assms by (auto simp: fit_turns_for_summarizer_def)
next
  case True
  then show ?thesis
  proof (cases rule: fit_cases [of budget I history steps])
    case (emergency k n)
    then have "steps \<noteq> []" by auto
    then show ?thesis using emergency assms True
      by (auto simp: emergency_fields emergency_tokens sum_tokens_single min.coboundedI2)
  qed (use assms True in auto)
qed

theorem fit_within_budget_witness:
  "tokens_fit (fit_turns_for_summarizer sample_ops [(UserRole, lit ''old'')] [(AssistantRole, lit ''call''), (ToolRole, lit ''result'')] 11) \<le> 11 \<and>
   tokens_fit (fit_turns_for_summarizer sample_ops [] [(UserRole, lit ''a long question'')] 4) \<le> 4 \<and>
   rung (fit_turns_for_summarizer sample_ops [] [(UserRole, lit ''a long question'')] 4) = Emergency"
proof -
  have "\<forall>x. count_item_tokens sample_ops (truncate_payload_for_compaction sample_ops x b) \<le> b" for b
    by (simp add: sample_ops_def)
  with fit_within_budget [OF refl, of sample_ops "[(UserRole, lit ''old'')]" "[(AssistantRole, lit ''call''), (ToolRole, lit ''result'')]" 11]
    fit_within_budget [OF refl, of sample_ops "[]" "[(UserRole, lit ''a long question'')]" 4]
  show ?thesis by (simp add: fit_evals shrink_oversized_tool_results_def emergency_plan_def oversized_tool_def)
qed

text \<open>
  recent work is kept. While the steps of the running task leave room in the budget, every step is
  fed to the summariser unchanged, after the newest turns of the history; and as long as there are steps
  the plan is never empty.
\<close>

lemma fit_keeps_steps:
  assumes "0 < budget" and "steps \<noteq> []"
  shows "llm_turns (fit_turns_for_summarizer I history steps budget) \<noteq> [] \<and>
    (sum_tokens I steps < budget \<longrightarrow>
       (\<exists>n \<le> length history. llm_turns (fit_turns_for_summarizer I history steps budget) = drop n history @ steps \<and>
          items_truncated (fit_turns_for_summarizer I history steps budget) = 0 \<and>
          history_turns_omitted (fit_turns_for_summarizer I history steps budget) = n))"
  using assms(1)
proof (cases rule: fit_cases [of budget I history steps])
  case (history hist n)
  then show ?thesis using assms(2) oldest.keep_suffix [OF history(3)] by (auto intro!: exI [of _ n])
next
  case (tools step2 k)
  then show ?thesis using assms(2) shrink_length [of I steps budget] by auto
qed (use assms(2) in \<open>auto simp: emergency_fields\<close>)

theorem fit_keeps_steps_witness:
  "llm_turns (fit_turns_for_summarizer sample_ops [(UserRole, lit ''old'')] [(AssistantRole, lit ''call'')] 2) \<noteq> []"
  using fit_keeps_steps [of 2 "[(AssistantRole, lit ''call'')]" sample_ops "[(UserRole, lit ''old'')]"] by simp

text \<open>
  fitting never orphans a tool result. If in the history and in the steps every tool result follows
  its request, and clipping keeps the role and the requests of an item, then so it is in what is fed to
  the summariser, on every rung but the last resort.
\<close>

lemma fit_keeps_pairs:
  assumes "paired I False history" and "paired I False steps" and "0 < budget"
    and "\<And>x m. item_role I (truncate_payload_for_compaction I x m) = item_role I x"
    and "\<And>x m. has_tool_requests I (truncate_payload_for_compaction I x m) = has_tool_requests I x"
    and "rung (fit_turns_for_summarizer I history steps budget) \<noteq> Emergency"
  shows "paired I False (llm_turns (fit_turns_for_summarizer I history steps budget))"
  using assms(3)
proof (cases rule: fit_cases [of budget I history steps])
  case verbatim
  then show ?thesis using assms(1,2) by (simp add: paired_append)
next
  case (history hist n)
  then show ?thesis using paired_drop_oldest [OF history(3) assms(1)] assms(2) by (simp add: paired_append)
next
  case (tools step2 k)
  then show ?thesis using paired_shrink [of I False steps budget] assms(2,4,5) by simp
next
  case (steps step2 k step3 n)
  have "paired I False step2" using paired_shrink [of I False steps budget] assms(2,4,5) steps(5) by simp
  then show ?thesis using paired_drop_oldest [OF steps(6)] steps(7) by simp
qed (use assms(6) in \<open>simp add: emergency_fields\<close>)

theorem fit_keeps_pairs_witness:
  "paired sample_ops False
     (llm_turns (fit_turns_for_summarizer sample_ops [(AssistantRole, lit ''call''), (ToolRole, lit ''old result''), (UserRole, lit ''q'')]
        [(AssistantRole, lit ''call''), (ToolRole, lit ''result'')] 12))"
proof (rule fit_keeps_pairs)
  show "rung (fit_turns_for_summarizer sample_ops [(AssistantRole, lit ''call''), (ToolRole, lit ''old result''), (UserRole, lit ''q'')]
        [(AssistantRole, lit ''call''), (ToolRole, lit ''result'')] 12) \<noteq> Emergency" by (simp add: fit_evals)
qed (simp_all add: sample_ops_def is_tool_result_def)

end
