(* ===== verification/Str_Search.thy ===== *)
theory Str_Search
  imports Prelude
begin

text \<open>
  Searching in strings as \<open>str\<close> does: \<open>find\<close>, \<open>rfind\<close>, \<open>contains\<close>, \<open>replace\<close>, \<open>matches\<close> and \<open>split\<close> by a
  string. Positions count characters; the sources slice only at positions these functions return, which
  are character boundaries. Patterns are not empty. The lemmas on \<open>replace_str\<close> say what a replacement
  can and cannot bring about.
\<close>

fun find_str :: "rstr \<Rightarrow> rstr \<Rightarrow> nat option" where
  "find_str p [] = (if p = [] then Some 0 else None)"
| "find_str p (c # s) = (if prefix p (c # s) then Some 0 else map_option Suc (find_str p s))"

fun rfind_str :: "rstr \<Rightarrow> rstr \<Rightarrow> nat option" where
  "rfind_str p [] = (if p = [] then Some 0 else None)"
| "rfind_str p (c # s) =
     (case rfind_str p s of
        Some i \<Rightarrow> Some (Suc i)
      | None \<Rightarrow> if prefix p (c # s) then Some 0 else None)"

definition contains_str :: "rstr \<Rightarrow> rstr \<Rightarrow> bool" where
  "contains_str s p \<longleftrightarrow> find_str p s \<noteq> None"

function replace_str :: "rstr \<Rightarrow> rstr \<Rightarrow> rstr \<Rightarrow> rstr" where
  "replace_str p r [] = []"
| "replace_str p r (c # s) =
     (if p \<noteq> [] \<and> prefix p (c # s) then r @ replace_str p r (drop (length p) (c # s)) else c # replace_str p r s)"
  by pat_completeness auto
termination by (relation "measure (\<lambda>(_, _, s). length s)") (auto simp: neq_Nil_conv)

declare replace_str.simps(2) [simp del]

function count_matches :: "rstr \<Rightarrow> rstr \<Rightarrow> nat" where
  "count_matches p [] = 0"
| "count_matches p (c # s) =
     (if p \<noteq> [] \<and> prefix p (c # s) then Suc (count_matches p (drop (length p) (c # s))) else count_matches p s)"
  by pat_completeness auto
termination by (relation "measure (\<lambda>(_, s). length s)") (auto simp: neq_Nil_conv)

declare count_matches.simps(2) [simp del]

function split_str :: "rstr \<Rightarrow> rstr \<Rightarrow> rstr list" where
  "split_str p s =
     (case find_str p s of
        None \<Rightarrow> [s]
      | Some i \<Rightarrow> if p = [] then [s] else take i s # split_str p (drop (i + length p) s))"
  by pat_completeness auto

lemma find_str_Some:
  "find_str p s = Some i \<Longrightarrow> i \<le> length s \<and> prefix p (drop i s) \<and> (\<forall>j < i. \<not> prefix p (drop j s))"
proof (induction s arbitrary: i)
  case (Cons c s)
  show ?case
  proof (cases "prefix p (c # s)")
    case False
    with Cons.prems obtain k where k: "find_str p s = Some k" "i = Suc k" by auto
    show ?thesis using Cons.IH [OF k(1)] k(2) False by (auto simp: less_Suc_eq_0_disj)
  qed (use Cons in auto)
qed (auto split: if_splits)

lemma find_str_length: "find_str p s = Some i \<Longrightarrow> i + length p \<le> length s"
  using find_str_Some [of p s i] by (auto dest: prefix_length_le)

termination split_str
proof (relation "measure (\<lambda>(_, s). length s)")
  fix p s :: rstr and i
  assume "find_str p s = Some i" and "p \<noteq> []"
  then have "i + length p \<le> length s" "0 < length p" by (auto dest: find_str_length)
  then have "length s - (i + length p) < length s" by linarith
  then show "((p, drop (i + length p) s), (p, s)) \<in> measure (\<lambda>(_, s). length s)" by simp
qed simp

declare split_str.simps [simp del]

section \<open>Occurrences\<close>

lemma contains_iff: "contains_str s p \<longleftrightarrow> sublist p s"
proof (induction s)
  case Nil
  then show ?case by (simp add: contains_str_def)
next
  case (Cons c s)
  then show ?case by (auto simp: contains_str_def sublist_Cons_right)
qed

lemma find_None: "find_str p s = None \<longleftrightarrow> \<not> sublist p s"
  using contains_iff [of s p] by (auto simp: contains_str_def)

lemma rfind_Some:
  "rfind_str p s = Some i \<Longrightarrow> i \<le> length s \<and> prefix p (drop i s)"
  by (induction s arbitrary: i) (auto split: if_splits option.splits)

lemma rfind_length: "rfind_str p s = Some i \<Longrightarrow> i + length p \<le> length s"
  using rfind_Some [of p s i] by (auto dest: prefix_length_le)

lemma find_str_split: "find_str p s = Some i \<Longrightarrow> s = take i s @ p @ drop (i + length p) s"
  using find_str_Some [of p s i] by (metis append_take_drop_id add.commute drop_drop prefix_def append_eq_conv_conj)

lemma find_str_first:
  assumes "\<forall>j < length a. \<not> prefix p (drop j (a @ p @ b))"
  shows "find_str p (a @ p @ b) = Some (length a)"
  using assms
proof (induction a)
  case Nil
  have "prefix p (p @ b)" by simp
  then show ?case by (cases "p @ b") auto
next
  case (Cons x a)
  have "\<not> prefix p (x # a @ p @ b)" using Cons.prems by force
  moreover have "\<forall>j < length a. \<not> prefix p (drop j (a @ p @ b))" using Cons.prems by (metis Suc_less_eq drop_Suc_Cons append_Cons length_Cons)
  ultimately show ?case using Cons.IH by simp
qed

lemma sublist_skip: "hd u \<notin> set w \<Longrightarrow> u \<noteq> [] \<Longrightarrow> sublist u (w @ x) \<longleftrightarrow> sublist u x"
proof (induction w)
  case (Cons a w)
  then have "\<not> prefix u (a # w @ x)" by (cases u) auto
  then show ?case using Cons by (simp add: sublist_Cons_right)
qed simp

section \<open>Replacing\<close>

lemma replace_absent: "\<not> sublist p s \<Longrightarrow> replace_str p r s = s"
  by (induction p r s rule: replace_str.induct) (auto simp: replace_str.simps(2) sublist_Cons_right)

lemma replace_shorter:
  assumes "length r < length p" and "sublist p s"
  shows "length (replace_str p r s) < length s"
proof -
  have le: "length (replace_str p r t) \<le> length t" for t
    using assms(1)
  proof (induction p r t rule: replace_str.induct)
    case (2 p r c t)
    have "length p \<le> Suc (length t)" if "prefix p (c # t)" using prefix_length_le [OF that] by simp
    with 2 show ?case by (auto simp: replace_str.simps(2))
  qed simp
  from assms(2) show ?thesis
  proof (induction s)
    case (Cons c s)
    show ?case
    proof (cases "prefix p (c # s)")
      case True
      then have "length p \<le> length (c # s)" by (rule prefix_length_le)
      then show ?thesis using True assms(1) le [of "drop (length p) (c # s)"] by (auto simp: replace_str.simps(2))
    next
      case False
      then show ?thesis using Cons by (auto simp: replace_str.simps(2) sublist_Cons_right)
    qed
  qed (use assms(1) in auto)
qed

text \<open>
  A tag starts with its only opening bracket. Replacing a tag by itself with a mark after the bracket
  leaves no copy of that tag and brings about no other tag.
\<close>

definition is_tag :: "uchar \<Rightarrow> uchar \<Rightarrow> rstr \<Rightarrow> bool" where
  "is_tag b z t \<longleftrightarrow> (\<exists>t'. t = b # t' \<and> t' \<noteq> [] \<and> b \<notin> set t' \<and> z \<notin> set t) \<and> b \<noteq> z"

lemma prefix_replace_rest:
  "b \<notin> set v \<Longrightarrow> hd r = b \<Longrightarrow> r \<noteq> [] \<Longrightarrow> prefix v (replace_str t r s) \<Longrightarrow> prefix v s"
proof (induction t r s arbitrary: v rule: replace_str.induct)
  case (2 t r c s)
  show ?case
  proof (cases "t \<noteq> [] \<and> prefix t (c # s)")
    case True
    with "2.prems" have "v = []" by (cases v; cases r) (auto simp: replace_str.simps(2))
    then show ?thesis by simp
  next
    case False
    with "2.prems" "2.IH"(2) show ?thesis by (cases v) (auto simp: replace_str.simps(2))
  qed
qed simp

lemma mark_tag:
  assumes "is_tag b z t" and "is_tag b z u" and "sublist u (replace_str t (b # z # tl t) s)"
  shows "u \<noteq> t \<and> sublist u s"
  using assms(3)
proof (induction s rule: length_induct)
  case (1 s)
  from assms(2) obtain u' where u: "u = b # u'" "u' \<noteq> []" "b \<notin> set u'" "z \<notin> set u" by (auto simp: is_tag_def)
  from assms(1) obtain t' where t: "t = b # t'" "b \<notin> set t'" "b \<noteq> z" by (auto simp: is_tag_def)
  let ?R = "replace_str t (b # z # tl t)"
  show ?case
  proof (cases s)
    case Nil
    then show ?thesis using 1(2) u by simp
  next
    case (Cons c w)
    show ?thesis
    proof (cases "prefix t s")
      case True
      let ?rest = "drop (length t) s"
      have "?R s = b # (z # t') @ ?R ?rest" using True Cons t by (simp add: replace_str.simps(2))
      moreover have "\<not> prefix u (b # (z # t') @ x)" for x using u by (cases u') auto
      moreover have "sublist u ((z # t') @ x) \<longleftrightarrow> sublist u x" for x by (rule sublist_skip) (use u t in auto)
      ultimately have "sublist u (?R ?rest)" using 1(2) by (simp add: sublist_Cons_right)
      moreover have "length ?rest < length s" using Cons t by simp
      ultimately have "u \<noteq> t \<and> sublist u ?rest" using 1(1) by blast
      then show ?thesis using sublist_drop sublist_order.order.trans by blast
    next
      case False
      then have step: "?R s = c # ?R w" using Cons by (simp add: replace_str.simps(2))
      show ?thesis
      proof (cases "prefix u (c # ?R w)")
        case True
        then have "c = b" "prefix u' (?R w)" using u by auto
        then have "prefix u s" using prefix_replace_rest [of b u' "b # z # tl t" t w] u Cons by simp
        then show ?thesis using False by (auto intro: prefix_imp_sublist)
      next
        case False
        then have "sublist u (?R w)" using 1(2) step by (simp add: sublist_Cons_right)
        moreover have "length w < length s" using Cons by simp
        ultimately have "u \<noteq> t \<and> sublist u w" using 1(1) by blast
        then show ?thesis using Cons by (simp add: sublist_Cons_right)
      qed
    qed
  qed
qed

text \<open>What holds a character that the replacement does not write was there before.\<close>

lemma sublist_replace_without:
  assumes "set r \<inter> set u = {}" and "r \<noteq> []" and "sublist u (replace_str p r s)"
  shows "sublist u s"
proof (cases "u = []")
  case False
  have start: "prefix v (replace_str p r x) \<Longrightarrow> set r \<inter> set v = {} \<Longrightarrow> prefix v x" for v x
    using assms(2)
  proof (induction p r x arbitrary: v rule: replace_str.induct)
    case (2 p r c x)
    show ?case
    proof (cases "p \<noteq> [] \<and> prefix p (c # x)")
      case True
      with "2.prems" have "v = []" by (cases v; cases r) (auto simp: replace_str.simps(2))
      then show ?thesis by simp
    next
      case False
      with "2.prems" "2.IH"(2) show ?thesis by (cases v) (auto simp: replace_str.simps(2))
    qed
  qed simp
  show ?thesis
    using assms(3)
  proof (induction s rule: length_induct)
    case (1 s)
    show ?case
    proof (cases s)
      case Nil
      then show ?thesis using 1(2) by simp
    next
      case (Cons c w)
      show ?thesis
      proof (cases "p \<noteq> [] \<and> prefix p s")
        case True
        let ?rest = "drop (length p) s"
        have "hd u \<notin> set r" using assms(1) False by (meson disjoint_iff hd_in_set)
        then have "sublist u (replace_str p r ?rest)"
          using 1(2) True Cons False by (simp add: replace_str.simps(2) sublist_skip)
        moreover have "length ?rest < length s" using Cons True by simp
        ultimately have "sublist u ?rest" using 1(1) by blast
        then show ?thesis using sublist_drop sublist_order.order.trans by blast
      next
        case no: False
        then have "replace_str p r s = c # replace_str p r w" using Cons by (auto simp: replace_str.simps(2))
        then show ?thesis
          using 1 Cons start [of u s] assms(1) by (auto simp: sublist_Cons_right)
      qed
    qed
  qed
qed simp

section \<open>Tags in a text\<close>

lemma find_skip:
  "hd p \<notin> set w \<Longrightarrow> p \<noteq> [] \<Longrightarrow> find_str p (w @ x) = map_option ((+) (length w)) (find_str p x)"
proof (induction w)
  case Nil
  then show ?case by (cases "find_str p x") auto
next
  case (Cons a w)
  then have "\<not> prefix p (a # w @ x)" by (cases p) auto
  then show ?case using Cons by (cases "find_str p x") auto
qed

lemma rfind_last: "p \<noteq> [] \<Longrightarrow> rfind_str p (s @ p) = Some (length s)"
proof (induction s)
  case Nil
  then obtain c p' where p: "p = c # p'" by (cases p) auto
  have "rfind_str p p' = None"
    using rfind_length [of p p'] p by (cases "rfind_str p p'") auto
  then show ?case using p by simp
qed simp

lemma tag_append:
  assumes "is_tag b z t" and "sublist t (x @ y)" and "y = [] \<or> hd y \<notin> set (tl t)"
  shows "sublist t x \<or> sublist t y"
proof (cases y)
  case (Cons h y')
  from assms(2) consider "sublist t x" | "sublist t y"
    | t1 t2 where "t = t1 @ t2" "suffix t1 x" "prefix t2 y" "t1 \<noteq> []" "t2 \<noteq> []"
    by (auto simp: sublist_append) (metis append_Nil append_Nil2 prefix_imp_sublist suffix_imp_sublist)
  then show ?thesis
  proof cases
    case 3
    then have "hd t2 \<in> set (tl t)" by (cases t1) auto
    moreover have "hd t2 = hd y" using 3 by (auto simp: prefix_def)
    ultimately show ?thesis using assms(3) Cons by simp
  qed auto
qed (use assms in simp)

lemma find_tag:
  assumes "is_tag b z t" and "\<not> sublist t a"
  shows "find_str t (a @ t @ x) = Some (length a)"
proof (rule find_str_first, intro allI impI notI)
  fix j
  assume j: "j < length a" and "prefix t (drop j (a @ t @ x))"
  then obtain v where v: "drop j a @ t @ x = t @ v" by (auto simp: prefix_def)
  show False
  proof (cases "length t \<le> length (drop j a)")
    case True
    with v have "prefix t (drop j a)" by (metis append_eq_append_conv_if prefixI append_take_drop_id)
    then show False using assms(2) by (meson prefix_imp_sublist sublist_drop sublist_order.order.trans)
  next
    case False
    have "t ! length (drop j a) = (t @ v) ! length (drop j a)" using False by (simp add: nth_append)
    also have "\<dots> = (t @ x) ! 0" using v [symmetric] by (simp add: nth_append)
    finally have "t ! length (drop j a) = hd t" using False by (cases t) auto
    moreover obtain k where k: "length (drop j a) = Suc k" using j by (cases "length a - j") auto
    then have "t ! Suc k \<in> set (tl t)" using False by (cases t) auto
    ultimately show False using assms(1) k by (auto simp: is_tag_def)
  qed
qed

end
