(* ===== verification/Compact_Text.thy ===== *)
theory Compact_Text
  imports Compact_Select Str_Search
begin

text \<open>
  The texts of \<open>xai-grok-compaction\<close>: \<open>code_compaction/failure.rs\<close> (which error messages mean that a request
  is too large), \<open>code_compaction/summary.rs\<close> (cleaning the summary a model wrote), \<open>history/filter.rs\<close> (which
  turns are summarised, and the block of user queries that is carried verbatim from one compaction to the
  next) and \<open>history/validate.rs\<close>.
\<close>

section \<open>Size errors\<close>

definition is_anchored :: "rstr \<Rightarrow> rstr \<Rightarrow> bool" where
  "is_anchored m needle \<longleftrightarrow> list_ex (\<lambda>segment. prefix needle segment) (split_str (lit '': '') m)"

definition has_size_slug :: "rstr \<Rightarrow> bool" where
  "has_size_slug m \<longleftrightarrow>
     list_ex (is_anchored m) [lit ''context_length_exceeded'', lit ''exceed_context_size_error'', lit ''payload_too_large'']"

definition has_rendered_413_phrase :: "rstr \<Rightarrow> bool" where
  "has_rendered_413_phrase m \<longleftrightarrow>
     contains_str m (lit ''413 payload too large'') \<or> contains_str m (lit ''413 content too large'') \<or>
     contains_str m (lit ''413 request entity too large'')"

definition has_input_length_pair :: "rstr \<Rightarrow> bool" where
  "has_input_length_pair m \<longleftrightarrow>
     contains_str m (lit ''input length'') \<and> contains_str m (lit ''exceeds the maximum allowed length'')"

definition is_context_length_error :: "rstr \<Rightarrow> bool" where
  "is_context_length_error message =
     (let m = to_ascii_lowercase message
      in contains_str m (lit ''too long for this model'') \<or> contains_str m (lit ''prompt is too long'') \<or>
         contains_str m (lit ''maximum prompt length'') \<or> contains_str m (lit ''maximum context length'') \<or>
         contains_str m (lit ''maximum allowed number of bytes'') \<or>
         (contains_str m (lit ''current message'') \<and> contains_str m (lit ''exceeds budget'')) \<or>
         is_anchored m (lit ''request too large'') \<or> has_size_slug m \<or> has_rendered_413_phrase m \<or>
         has_input_length_pair m)"

section \<open>Cleaning a summary\<close>

definition analysis_open :: rstr where "analysis_open = lit ''<analysis>''"
definition analysis_close :: rstr where "analysis_close = lit ''</analysis>''"
definition summary_open :: rstr where "summary_open = lit ''<summary>''"
definition summary_close :: rstr where "summary_close = lit ''</summary>''"

definition leading_analysis :: "rstr \<Rightarrow> nat \<Rightarrow> bool" where
  "leading_analysis result start =
     (case find_str summary_open result of
        Some sp \<Rightarrow> start < sp \<or>
          trim (take (start - (sp + length summary_open)) (drop (sp + length summary_open) result)) = []
      | None \<Rightarrow> trim (take start result) = [])"

text \<open>Step 1: the loop that peels leading drafting blocks.\<close>

function strip_analysis :: "rstr \<Rightarrow> rstr" where
  "strip_analysis result =
     (case find_str analysis_open result of
        None \<Rightarrow> result
      | Some start \<Rightarrow>
          if \<not> leading_analysis result start then result
          else case find_str analysis_close (drop start result) of
                 Some rel \<Rightarrow> strip_analysis (take start result @ drop (start + rel + length analysis_close) result)
               | None \<Rightarrow>
                   take start result @
                   drop (case find_str summary_open (drop start result) of None \<Rightarrow> length result | Some rel \<Rightarrow> start + rel) result)"
  by pat_completeness auto
termination
proof (relation "measure length")
  fix result start rel
  assume "find_str analysis_open result = Some start"
  then have "start + length analysis_open \<le> length result" by (rule find_str_length)
  then show "(take start result @ drop (start + rel + length analysis_close) result, result) \<in> measure length"
    by (simp add: analysis_open_def analysis_close_def)
qed simp

declare strip_analysis.simps [simp del]

definition strip_leading_scratchpad :: "rstr \<Rightarrow> rstr" where
  "strip_leading_scratchpad inner =
     (let s = trim inner;
          lead = dropWhile (\<lambda>c. c \<in> set (lit ''#*-> '') \<or> c = 9) s;
          s1 = (if lead \<noteq> [] \<and> 48 \<le> hd lead \<and> hd lead \<le> 57 then s
                else case rfind_str analysis_close s of
                       Some pos \<Rightarrow> trim_start (drop (pos + length analysis_close) s)
                     | None \<Rightarrow> s)
      in case strip_prefix summary_open s1 of Some rest \<Rightarrow> trim_start rest | None \<Rightarrow> s1)"

definition unwrap_summary :: "rstr \<Rightarrow> rstr" where
  "unwrap_summary result =
     (case find_str summary_open result of
        None \<Rightarrow> result
      | Some start \<Rightarrow>
          (case rfind_str summary_close result of
             None \<Rightarrow> result
           | Some end_ \<Rightarrow>
               if start < end_
               then take start result @ lit ''Summary:'' @ [10] @
                    strip_leading_scratchpad
                      (trim (take (end_ - (start + length summary_open)) (drop (start + length summary_open) result))) @
                    drop (end_ + length summary_close) result
               else result))"

definition neutralize_compaction_control_tokens :: "rstr \<Rightarrow> rstr" where
  "neutralize_compaction_control_tokens text =
     replace_str (lit ''<summary_request>'') (60 # 8203 # lit ''summary_request>'')
      (replace_str (lit ''</summary_request>'') (60 # 8203 # lit ''/summary_request>'')
        (replace_str (lit ''<analysis>'') (60 # 8203 # lit ''analysis>'')
          (replace_str (lit ''</analysis>'') (60 # 8203 # lit ''/analysis>'')
            (replace_str (lit ''<summary>'') (60 # 8203 # lit ''summary>'')
              (replace_str (lit ''</summary>'') (60 # 8203 # lit ''/summary>'') text)))))"

function collapse_blank_lines :: "rstr \<Rightarrow> rstr" where
  "collapse_blank_lines result =
     (if contains_str result [10, 10, 10] then collapse_blank_lines (replace_str [10, 10, 10] [10, 10] result) else result)"
  by pat_completeness auto
termination
  by (relation "measure length") (auto simp: contains_iff intro: replace_shorter)

declare collapse_blank_lines.simps [simp del]

definition format_compact_summary :: "rstr \<Rightarrow> rstr" where
  "format_compact_summary summary =
     trim (collapse_blank_lines (neutralize_compaction_control_tokens (unwrap_summary (strip_analysis summary))))"

definition MIN_SUMMARY_SEED_CHARS :: nat where
  "MIN_SUMMARY_SEED_CHARS = 500"

definition is_degenerate_summary :: "rstr \<Rightarrow> bool" where
  "is_degenerate_summary raw_summary \<longleftrightarrow> length (format_compact_summary raw_summary) < MIN_SUMMARY_SEED_CHARS"

definition format_compact_summary_content :: "rstr \<Rightarrow> rstr" where
  "format_compact_summary_content raw_summary =
     lit ''This session is being continued from a previous conversation that ran out of context. '' @
     lit ''The summary below covers the earlier portion of the conversation.'' @ [10, 10] @
     format_compact_summary raw_summary"

definition wrap_user_query :: "rstr \<Rightarrow> rstr" where
  "wrap_user_query text = lit ''<user_query>'' @ [10] @ text @ [10] @ lit ''</user_query>''"

section \<open>Turns that are summarised\<close>

definition keep_turn_for_basic_compaction :: "'a item_ops \<Rightarrow> 'a \<Rightarrow> bool" where
  "keep_turn_for_basic_compaction I turn =
     (case item_role I turn of
        SystemRole \<Rightarrow> False
      | DeveloperRole \<Rightarrow> is_compaction_summary I turn
      | _ \<Rightarrow> True)"

definition filter_turns_for_basic :: "'a item_ops \<Rightarrow> 'a list \<Rightarrow> 'a list" where
  "filter_turns_for_basic I turns = filter (keep_turn_for_basic_compaction I) turns"

definition inter_turn :: "'a item_ops \<Rightarrow> 'a \<Rightarrow> 'a option" where
  "inter_turn I turn =
     (case item_role I turn of
        ToolRole \<Rightarrow> None
      | SystemRole \<Rightarrow> None
      | DeveloperRole \<Rightarrow> if is_compaction_summary I turn then Some turn else None
      | UserRole \<Rightarrow> Some turn
      | AssistantRole \<Rightarrow> strip_tool_content I turn)"

definition filter_turns_for_inter_compaction :: "'a item_ops \<Rightarrow> 'a list \<Rightarrow> 'a list" where
  "filter_turns_for_inter_compaction I turns = List.map_filter (inter_turn I) turns"

section \<open>The block of user queries\<close>

definition queries_open :: rstr where "queries_open = lit ''<grok_user_queries>''"
definition queries_close :: rstr where "queries_close = lit ''</grok_user_queries>''"

definition push_rest :: "rstr \<Rightarrow> rstr \<Rightarrow> rstr" where
  "push_rest rest part =
     (if part = [] then rest else (if rest = [] then rest else rest @ [10]) @ part)"

text \<open>The loop of \<open>split_prior_compaction_text\<close>; its first argument is \<open>text[cursor..]\<close>.\<close>

function split_prior_loop :: "rstr \<Rightarrow> rstr list \<Rightarrow> rstr \<Rightarrow> rstr list \<times> rstr" where
  "split_prior_loop text user_sections rest =
     (case find_str queries_open text of
        None \<Rightarrow> (user_sections, push_rest rest (trim text))
      | Some start \<Rightarrow>
          (case find_str queries_close (drop start text) of
             None \<Rightarrow> (user_sections, push_rest rest (trim text))
           | Some end_ \<Rightarrow>
               split_prior_loop (drop (start + end_ + length queries_close) text)
                 (user_sections @ [take (end_ + length queries_close) (drop start text)])
                 (push_rest rest (trim (take start text)))))"
  by pat_completeness auto
termination
proof (relation "measure (\<lambda>(t, _, _). length t)")
  fix t rest :: rstr and user_sections start e
  assume "find_str queries_open t = Some start"
  then have "start + length queries_open \<le> length t" by (rule find_str_length)
  then show "((drop (start + e + length queries_close) t,
      user_sections @ [take (e + length queries_close) (drop start t)], push_rest rest (trim (take start t))),
      (t, user_sections, rest)) \<in> measure (\<lambda>(t, _, _). length t)"
    by (simp add: queries_open_def queries_close_def)
qed simp

declare split_prior_loop.simps [simp del]

definition split_prior_compaction_text :: "rstr \<Rightarrow> rstr option \<times> rstr" where
  "split_prior_compaction_text text =
     (case split_prior_loop text [] [] of
        (user_sections, rest) \<Rightarrow> if user_sections = [] then (None, text) else (Some (join [10] user_sections), rest))"

definition truncate_middle :: "rstr \<Rightarrow> nat \<Rightarrow> rstr option" where
  "truncate_middle msg max_chars =
     (if length msg \<le> max_chars then None
      else let front_len = max_chars div 2; back_len = max_chars - front_len
           in Some (take front_len msg @ lit ''...[truncated]...'' @ drop (length msg - back_len) msg))"

definition grok_file_line :: "CompactionFileRef \<Rightarrow> rstr" where
  "grok_file_line att =
     lit ''<grok_file id='' @ [34] @ file_id att @ [34] @ lit '' name='' @ [34] @ file_name att @ [34] @ lit '' />'' @ [10]"

definition grok_query :: "'a item_ops \<Rightarrow> nat \<Rightarrow> 'a \<Rightarrow> rstr" where
  "grok_query I threshold turn =
     (let text = (case item_text I turn of None \<Rightarrow> [] | Some t \<Rightarrow> t);
          attachments = attachment_refs I turn
      in lit ''<grok_query>'' @
         (case truncate_middle text threshold of Some truncated \<Rightarrow> truncated | None \<Rightarrow> text) @
         (if attachments = [] then [] else [10] @ concat (map grok_file_line attachments)) @
         lit ''</grok_query>'' @ [10])"

definition empty_query :: "'a item_ops \<Rightarrow> 'a \<Rightarrow> bool" where
  "empty_query I turn \<longleftrightarrow>
     (case item_text I turn of None \<Rightarrow> [] | Some t \<Rightarrow> t) = [] \<and> attachment_refs I turn = []"

fun extract_loop :: "'a item_ops \<Rightarrow> nat \<Rightarrow> 'a list \<Rightarrow> rstr \<Rightarrow> bool \<Rightarrow> rstr \<times> bool" where
  "extract_loop I threshold [] result emitted_any = (result, emitted_any)"
| "extract_loop I threshold (turn # turns) result emitted_any =
     (if item_role I turn \<noteq> UserRole then extract_loop I threshold turns result emitted_any
      else if empty_query I turn then extract_loop I threshold turns result emitted_any
      else extract_loop I threshold turns (result @ grok_query I threshold turn) True)"

definition extract_user_queries_from_turns :: "'a item_ops \<Rightarrow> 'a list \<Rightarrow> nat \<Rightarrow> rstr option" where
  "extract_user_queries_from_turns I turns user_truncate_chars =
     (case extract_loop I user_truncate_chars turns (queries_open @ [10]) False of
        (result, emitted_any) \<Rightarrow> if emitted_any then Some (result @ queries_close) else None)"

record 'a SeparatedHistoryTurns =
  turns_for_llm :: "'a list"
  prior_user_queries :: "rstr option"
  has_prior_compaction :: bool

definition separate_step :: "'a item_ops \<Rightarrow> 'a SeparatedHistoryTurns \<Rightarrow> 'a \<Rightarrow> 'a SeparatedHistoryTurns" where
  "separate_step I acc turn =
     (if is_compaction_summary I turn then
        case split_prior_compaction_text (case item_text I turn of None \<Rightarrow> [] | Some t \<Rightarrow> t) of
          (user_section, rest) \<Rightarrow>
            \<lparr>turns_for_llm = (if rest = [] then turns_for_llm acc else turns_for_llm acc @ [compaction_summary_item I rest]),
             prior_user_queries =
               (case user_section of
                  None \<Rightarrow> prior_user_queries acc
                | Some user_sec \<Rightarrow>
                    (case prior_user_queries acc of
                       Some existing \<Rightarrow> Some (existing @ [10] @ user_sec)
                     | None \<Rightarrow> Some user_sec)),
             has_prior_compaction = True\<rparr>
      else acc\<lparr>turns_for_llm := turns_for_llm acc @ [turn]\<rparr>)"

definition separate_prior_user_queries :: "'a item_ops \<Rightarrow> 'a list \<Rightarrow> 'a SeparatedHistoryTurns" where
  "separate_prior_user_queries I turns =
     foldl (separate_step I) \<lparr>turns_for_llm = [], prior_user_queries = None, has_prior_compaction = False\<rparr> turns"

definition extract_prior_user_queries :: "'a item_ops \<Rightarrow> 'a list \<Rightarrow> rstr option" where
  "extract_prior_user_queries I turns = prior_user_queries (separate_prior_user_queries I turns)"

definition assemble_user_queries_preamble :: "rstr option \<Rightarrow> rstr option \<Rightarrow> rstr" where
  "assemble_user_queries_preamble prior current =
     (case prior of None \<Rightarrow> [] | Some p \<Rightarrow> p @ [10, 10]) @ (case current of None \<Rightarrow> [] | Some c \<Rightarrow> c @ [10, 10])"

definition build_user_queries_preamble :: "'a item_ops \<Rightarrow> 'a list \<Rightarrow> rstr option \<Rightarrow> rstr" where
  "build_user_queries_preamble I turns current_user_queries =
     assemble_user_queries_preamble (extract_prior_user_queries I turns) current_user_queries"

definition wrap_chunk_analysis :: "nat \<Rightarrow> rstr \<Rightarrow> rstr" where
  "wrap_chunk_analysis index thinking =
     (if trim thinking = [] then []
      else lit ''<chunk_analysis index='' @ [34] @ show_dec index @ [34] @ lit ''>'' @ [10] @ trim thinking @ [10] @
           lit ''</chunk_analysis>'' @ [10, 10])"

section \<open>Validation\<close>

datatype CompactionStrategy = BasicStrategy | DivideAndConquer | FullReplaceStrategy

definition CompactionStrategy_label :: "CompactionStrategy \<Rightarrow> rstr" where
  "CompactionStrategy_label s =
     (case s of BasicStrategy \<Rightarrow> lit ''basic'' | DivideAndConquer \<Rightarrow> lit ''divide_and_conquer'' | FullReplaceStrategy \<Rightarrow> lit ''full_replace'')"

datatype CompactionValidationError = EmptyContent | UnbalancedChunkTags nat nat

definition validate_compaction_text :: "rstr \<Rightarrow> CompactionStrategy \<Rightarrow> CompactionValidationError option" where
  "validate_compaction_text text_content strategy =
     (if trim text_content = [] then Some EmptyContent
      else if strategy = DivideAndConquer then
        let open_count = count_matches (lit ''<chunk_summary'') text_content;
            close_count = count_matches (lit ''</chunk_summary>'') text_content
        in if open_count \<noteq> close_count then Some (UnbalancedChunkTags open_count close_count) else None
      else None)"

definition CompactionValidationError_fmt :: "CompactionValidationError \<Rightarrow> rstr" where
  "CompactionValidationError_fmt e =
     (case e of
        EmptyContent \<Rightarrow> lit ''compaction message has empty text content''
      | UnbalancedChunkTags o_ c \<Rightarrow>
          lit ''unbalanced chunk_summary tags: '' @ show_dec o_ @ lit '' open, '' @ show_dec c @ lit '' close'')"

section \<open>Cleaned summaries\<close>

text \<open>The tags the next turn could take for live ones.\<close>

definition control_tokens :: "rstr list" where
  "control_tokens =
     [lit ''</summary>'', lit ''<summary>'', lit ''</analysis>'', lit ''<analysis>'',
      lit ''</summary_request>'', lit ''<summary_request>'']"

lemma control_tags: "t \<in> set control_tokens \<Longrightarrow> is_tag 60 8203 t"
  by (auto simp: control_tokens_def is_tag_def)

lemma control_newline: "t \<in> set control_tokens \<Longrightarrow> 10 \<notin> set t"
  by (auto simp: control_tokens_def)

definition marked :: "rstr \<Rightarrow> rstr \<Rightarrow> rstr" where
  "marked t s = replace_str t (60 # 8203 # tl t) s"

lemma neutralize_fold: "neutralize_compaction_control_tokens s = fold marked control_tokens s"
  by (simp add: neutralize_compaction_control_tokens_def control_tokens_def marked_def)

lemma fold_marked:
  assumes "\<forall>t \<in> set ts. is_tag 60 8203 t" and "is_tag 60 8203 u" and "sublist u (fold marked ts s)"
  shows "u \<notin> set ts \<and> sublist u s"
  using assms
proof (induction ts arbitrary: s)
  case (Cons t ts)
  then have "u \<notin> set ts \<and> sublist u (marked t s)" by simp
  with mark_tag [of 60 8203 t u s] Cons.prems show ?case by (auto simp: marked_def)
qed simp

lemma neutralize_dead: "t \<in> set control_tokens \<Longrightarrow> \<not> sublist t (neutralize_compaction_control_tokens s)"
  unfolding neutralize_fold using fold_marked [of control_tokens t s] control_tags by blast

lemma neutralize_id:
  "\<forall>t \<in> set control_tokens. \<not> sublist t s \<Longrightarrow> neutralize_compaction_control_tokens s = s"
proof -
  have "\<forall>t \<in> set ts. \<not> sublist t s \<Longrightarrow> fold marked ts s = s" for ts
    by (induction ts) (auto simp: marked_def replace_absent)
  then show "\<forall>t \<in> set control_tokens. \<not> sublist t s \<Longrightarrow> ?thesis" by (simp add: neutralize_fold)
qed

lemma collapse_sublist: "10 \<notin> set u \<Longrightarrow> sublist u (collapse_blank_lines s) \<Longrightarrow> sublist u s"
proof (induction s rule: collapse_blank_lines.induct)
  case (1 s)
  show ?case
  proof (cases "contains_str s [10, 10, 10]")
    case True
    with 1 have "sublist u (replace_str [10, 10, 10] [10, 10] s)" by (simp add: collapse_blank_lines.simps [of s])
    then show ?thesis by (rule sublist_replace_without [rotated 2]) (use 1(2) in auto)
  next
    case False
    with 1 show ?thesis by (simp add: collapse_blank_lines.simps [of s])
  qed
qed

lemma collapse_done: "\<not> sublist [10, 10, 10] (collapse_blank_lines s)"
proof (induction s rule: collapse_blank_lines.induct)
  case (1 s)
  then show ?case by (cases "contains_str s [10, 10, 10]") (auto simp: collapse_blank_lines.simps [of s] contains_iff)
qed

lemma collapse_id: "\<not> sublist [10, 10, 10] s \<Longrightarrow> collapse_blank_lines s = s"
  by (subst collapse_blank_lines.simps) (simp add: contains_iff)

lemma sublist_trim: "sublist (trim s) s"
proof -
  have "suffix (trim_start s) s" by (simp add: trim_start_def suffix_dropWhile)
  moreover have "prefix (trim_end w) w" for w
    using suffix_dropWhile [of is_whitespace "rev w"] by (simp add: trim_end_def suffix_to_prefix)
  ultimately show ?thesis unfolding trim_def
    by (meson prefix_imp_sublist suffix_imp_sublist sublist_order.order.trans)
qed

lemma format_clean:
  "t \<in> set control_tokens \<Longrightarrow> \<not> sublist t (format_compact_summary s)" "\<not> sublist [10, 10, 10] (format_compact_summary s)"
  "trimmed (format_compact_summary s)"
proof -
  show "\<not> sublist t (format_compact_summary s)" if "t \<in> set control_tokens" for t
    using neutralize_dead [OF that] collapse_sublist [OF control_newline [OF that]] sublist_trim sublist_order.order.trans
    unfolding format_compact_summary_def by blast
  show "\<not> sublist [10, 10, 10] (format_compact_summary s)"
    using collapse_done sublist_trim sublist_order.order.trans unfolding format_compact_summary_def by blast
  show "trimmed (format_compact_summary s)" by (simp add: format_compact_summary_def)
qed

lemma format_fixed:
  assumes "\<forall>t \<in> set control_tokens. \<not> sublist t s" and "\<not> sublist [10, 10, 10] s" and "trimmed s"
  shows "format_compact_summary s = s"
proof -
  have "\<not> sublist analysis_open s" "\<not> sublist summary_open s"
    using assms(1) by (simp_all add: analysis_open_def summary_open_def control_tokens_def)
  then have "find_str analysis_open s = None" "find_str summary_open s = None" by (simp_all add: find_None)
  then have "unwrap_summary (strip_analysis s) = s" by (simp add: strip_analysis.simps unwrap_summary_def)
  then show ?thesis using assms by (simp add: format_compact_summary_def neutralize_id collapse_id)
qed

text \<open>
  White space before a text that starts with another character vanishes with the trim, whatever the
  collapsing of blank lines makes of it.
\<close>

lemma marked_blank: "list_all is_whitespace ws \<Longrightarrow> t \<in> set control_tokens \<Longrightarrow> marked t (ws @ s) = ws @ marked t s"
proof (induction ws)
  case (Cons c ws)
  then have "\<not> prefix t (c # ws @ s)" by (auto simp: control_tokens_def is_whitespace_def)
  then show ?case using Cons by (simp add: marked_def replace_str.simps(2))
qed simp

lemma replace_blank:
  assumes "list_all is_whitespace ws" and "c \<noteq> 10"
  shows "\<exists>ws'. list_all is_whitespace ws' \<and>
    replace_str [10, 10, 10] [10, 10] (ws @ c # x) = ws' @ c # replace_str [10, 10, 10] [10, 10] x"
  using assms(1)
proof (induction ws rule: length_induct)
  case (1 ws)
  show ?case
  proof (cases ws)
    case Nil
    then show ?thesis using assms(2) by (intro exI [of _ "[]"]) (simp add: replace_str.simps(2))
  next
    case (Cons a v)
    show ?thesis
    proof (cases "prefix [10, 10, 10] (ws @ c # x)")
      case True
      then obtain v' where v': "ws = 10 # 10 # 10 # v'"
        using assms(2) Cons by (cases v; cases "tl v") auto
      then have "length v' < length ws" "list_all is_whitespace v'" using 1(2) by auto
      with 1(1) obtain w' where "list_all is_whitespace w'"
        "replace_str [10, 10, 10] [10, 10] (v' @ c # x) = w' @ c # replace_str [10, 10, 10] [10, 10] x" by blast
      moreover have "is_whitespace 10" by (simp add: is_whitespace_def)
      ultimately show ?thesis using v' by (intro exI [of _ "10 # 10 # w'"]) (auto simp: replace_str.simps(2))
    next
      case False
      have "length v < length ws" "list_all is_whitespace v" using 1(2) Cons by auto
      with 1(1) obtain w' where "list_all is_whitespace w'"
        "replace_str [10, 10, 10] [10, 10] (v @ c # x) = w' @ c # replace_str [10, 10, 10] [10, 10] x" by blast
      then show ?thesis using False Cons 1(2) by (intro exI [of _ "a # w'"]) (auto simp: replace_str.simps(2))
    qed
  qed
qed

lemma trim_blank: "list_all is_whitespace ws \<Longrightarrow> trim (ws @ s) = trim s"
  by (induction ws) (simp_all add: trim_def trim_start_def)

lemma collapse_blank:
  assumes "list_all is_whitespace ws" and "c \<noteq> 10"
  shows "trim (collapse_blank_lines (ws @ c # x)) = trim (collapse_blank_lines (c # x))"
  using assms(1)
proof (induction "length (ws @ c # x)" arbitrary: ws x rule: less_induct)
  case less
  let ?R = "replace_str [10, 10, 10] [10, 10]"
  show ?case
  proof (cases "sublist [10, 10, 10] (ws @ c # x)")
    case True
    obtain ws' where ws': "list_all is_whitespace ws'" "?R (ws @ c # x) = ws' @ c # ?R x"
      using replace_blank [OF less.prems assms(2)] by blast
    have "length (ws' @ c # ?R x) < length (ws @ c # x)"
      using replace_shorter [OF _ True, of "[10, 10]"] ws'(2) by simp
    from less.hyps [OF this ws'(1)]
    have "trim (collapse_blank_lines (ws @ c # x)) = trim (collapse_blank_lines (c # ?R x))"
      using True ws'(2) by (simp add: collapse_blank_lines.simps [of "ws @ c # x"] contains_iff)
    also have "collapse_blank_lines (c # ?R x) = collapse_blank_lines (c # x)"
    proof (cases "sublist [10, 10, 10] (c # x)")
      case True
      then show ?thesis using assms(2) by (simp add: collapse_blank_lines.simps [of "c # x"] contains_iff replace_str.simps(2))
    next
      case False
      then have "?R x = x" by (simp add: sublist_Cons_right replace_absent)
      then show ?thesis by simp
    qed
    finally show ?thesis .
  next
    case False
    then have "\<not> sublist [10, 10, 10] (c # x)"
      using suffix_imp_sublist [of "c # x" "ws @ c # x"] sublist_order.order.trans by (auto simp: suffix_def)
    with False show ?thesis using less.prems by (simp add: collapse_id trim_blank)
  qed
qed

section \<open>What is kept of a summary\<close>

text \<open>
  C19: the output of \<open>format_compact_summary\<close> holds none of the control tags, for every reply of the model: no
  removal, no replacement and no trim puts one together again. It has no run of three newlines and no
  white space at its ends, and cleaning it once more changes nothing.
\<close>

theorem summary_has_no_live_tags:
  "list_all (\<lambda>t. \<not> contains_str (format_compact_summary raw) t) control_tokens \<and>
   \<not> contains_str (format_compact_summary raw) [10, 10, 10] \<and>
   trimmed (format_compact_summary raw) \<and>
   format_compact_summary (format_compact_summary raw) = format_compact_summary raw"
  using format_clean format_fixed [of "format_compact_summary raw"] by (simp add: list_all_iff contains_iff)

lemma body_not_leading:
  assumes "list_all is_whitespace ws" and "48 \<le> d" and "d \<le> 57"
  shows "strip_analysis (ws @ summary_open @ d # y) = ws @ summary_open @ d # y"
proof -
  let ?r = "ws @ summary_open @ d # y"
  have blank: "60 \<notin> set ws" using assms(1) by (auto simp: list_all_iff is_whitespace_def)
  have sp: "find_str summary_open ?r = Some (length ws)"
    using find_skip [of summary_open ws "summary_open @ d # y"] blank by (simp add: summary_open_def)
  have an: "find_str analysis_open ?r = map_option (\<lambda>k. length ws + (10 + k)) (find_str analysis_open y)"
    using find_skip [of analysis_open ws "summary_open @ d # y"] blank assms(2,3)
    by (cases "find_str analysis_open y") (auto simp: summary_open_def analysis_open_def)
  have "\<not> is_whitespace d" using assms(2,3) by (auto simp: is_whitespace_def)
  then have "trim (d # z) \<noteq> []" for z
    by (simp add: trim_def trim_start_def trim_end_def)
  then have "\<not> leading_analysis ?r (length ws + (10 + k))" for k
    using sp by (simp add: leading_analysis_def summary_open_def)
  with an show ?thesis by (cases "find_str analysis_open y") (simp_all add: strip_analysis.simps [of ?r])
qed

lemma unwrap_reply:
  assumes "list_all is_whitespace ws" and "trimmed (d # y)" and "48 \<le> d" and "d \<le> 57"
  shows "unwrap_summary (ws @ summary_open @ d # y @ summary_close) = ws @ lit ''Summary:'' @ [10] @ d # y"
proof -
  let ?r = "ws @ summary_open @ d # y @ summary_close"
  have blank: "60 \<notin> set ws" using assms(1) by (auto simp: list_all_iff is_whitespace_def)
  have sp: "find_str summary_open ?r = Some (length ws)"
    using find_skip [of summary_open ws "summary_open @ d # y @ summary_close"] blank by (simp add: summary_open_def)
  have rp: "rfind_str summary_close ?r = Some (length ws + (9 + Suc (length y)))"
    using rfind_last [of summary_close "ws @ summary_open @ d # y"] by (simp add: summary_close_def summary_open_def)
  have pad: "strip_leading_scratchpad (d # y) = d # y"
    using assms(2-4) by (auto simp: strip_leading_scratchpad_def strip_prefix_def Let_def summary_open_def)
  have inner: "take (Suc (length y)) (d # y @ summary_close) = d # y" by simp
  show ?thesis
    using assms(2) sp rp pad inner by (simp add: unwrap_summary_def summary_open_def summary_close_def del: take_Suc_Cons)
qed

lemma peel_reply:
  assumes "\<not> sublist analysis_close draft"
  shows "strip_analysis (analysis_open @ draft @ analysis_close @ z) = strip_analysis z"
proof -
  let ?r = "analysis_open @ draft @ analysis_close @ z"
  have an: "find_str analysis_open ?r = Some 0" by (simp add: analysis_open_def)
  have "is_tag 60 8203 analysis_close" by (rule control_tags) (simp add: control_tokens_def analysis_close_def)
  from find_tag [OF this assms] have "find_str analysis_close ?r = Some (10 + length draft)"
    by (simp add: analysis_open_def analysis_close_def)
  moreover have "leading_analysis ?r 0"
    by (auto simp: leading_analysis_def summary_open_def analysis_open_def split: option.splits)
  moreover have "length analysis_open = 10" by (simp add: analysis_open_def)
  then have "drop (10 + length draft + length analysis_close) ?r = z" by simp
  ultimately show ?thesis using an by (simp add: strip_analysis.simps [of ?r])
qed

lemma neutralize_plain:
  assumes "60 \<notin> set w"
  shows "neutralize_compaction_control_tokens (w @ s) = w @ neutralize_compaction_control_tokens s"
proof -
  have "marked t (w @ x) = w @ marked t x" if "t \<in> set control_tokens" for t x
    using assms
  proof (induction w)
    case (Cons c w)
    then have "\<not> prefix t (c # w @ x)" using control_tags [OF that] by (auto simp: is_tag_def)
    then show ?case using Cons by (simp add: marked_def replace_str.simps(2))
  qed simp
  then have "set ts \<subseteq> set control_tokens \<Longrightarrow> fold marked ts (w @ x) = w @ fold marked ts x" for ts x
    by (induction ts arbitrary: x) auto
  then show ?thesis by (simp add: neutralize_fold)
qed

text \<open>
  a reply of the form the prompt asks for, a drafting block and then a summary that starts with a numbered
  section, is cleaned to \<open>Summary:\<close> and the whole body: nothing of the draft is left, and of the body only the
  quoted control tags are marked and the runs of blank lines shortened, wherever the body quotes a tag.
\<close>

lemma summary_body_kept:
  assumes "\<not> contains_str draft analysis_close" and "list_all is_whitespace ws"
    and "trimmed (d # body)" and "48 \<le> d" and "d \<le> 57"
  shows "format_compact_summary (analysis_open @ draft @ analysis_close @ ws @ summary_open @ (d # body) @ summary_close) =
    trim (collapse_blank_lines (lit ''Summary:'' @ [10] @ neutralize_compaction_control_tokens (d # body)))"
proof -
  have "\<not> sublist analysis_close draft" using assms(1) by (simp add: contains_iff)
  then have "unwrap_summary (strip_analysis (analysis_open @ draft @ analysis_close @ ws @ summary_open @ (d # body) @ summary_close)) =
      (ws @ lit ''Summary:'' @ [10]) @ d # body"
    using peel_reply body_not_leading [of ws d "body @ summary_close"] unwrap_reply [of ws d body] assms by simp
  moreover have "60 \<notin> set (ws @ lit ''Summary:'' @ [10])" using assms(2) by (auto simp: list_all_iff is_whitespace_def)
  note neutralize_plain [OF this, of "d # body"]
  ultimately have "format_compact_summary (analysis_open @ draft @ analysis_close @ ws @ summary_open @ (d # body) @ summary_close) =
      trim (collapse_blank_lines (ws @ lit ''Summary:'' @ [10] @ neutralize_compaction_control_tokens (d # body)))"
    unfolding format_compact_summary_def by (simp only: append_assoc)
  also have "\<dots> = trim (collapse_blank_lines (lit ''Summary:'' @ [10] @ neutralize_compaction_control_tokens (d # body)))"
    using collapse_blank [OF assms(2), of 83] by simp
  finally show ?thesis .
qed

lemma summary_body_kept_witness:
  "format_compact_summary (analysis_open @ lit ''draft'' @ analysis_close @ [10] @ summary_open @ (49 # lit ''. </analysis> x'') @ summary_close) =
    trim (collapse_blank_lines (lit ''Summary:'' @ [10] @ neutralize_compaction_control_tokens (49 # lit ''. </analysis> x''))) \<and>
   neutralize_compaction_control_tokens (49 # lit ''. </analysis> x'') = 49 # lit ''. <'' @ [8203] @ lit ''/analysis> x''"
proof
  have "\<not> contains_str (lit ''draft'') analysis_close" by (simp add: contains_str_def analysis_close_def)
  then show "format_compact_summary (analysis_open @ lit ''draft'' @ analysis_close @ [10] @ summary_open @ (49 # lit ''. </analysis> x'') @ summary_close) =
    trim (collapse_blank_lines (lit ''Summary:'' @ [10] @ neutralize_compaction_control_tokens (49 # lit ''. </analysis> x'')))"
    by (rule summary_body_kept) (simp_all add: is_whitespace_def trimmed_def)
  show "neutralize_compaction_control_tokens (49 # lit ''. </analysis> x'') = 49 # lit ''. <'' @ [8203] @ lit ''/analysis> x''"
    by (simp add: neutralize_compaction_control_tokens_def replace_str.simps(2))
qed

section \<open>User queries survive\<close>

definition query_block :: "rstr \<Rightarrow> bool" where
  "query_block q \<longleftrightarrow> (\<exists>body. q = queries_open @ body @ queries_close \<and> \<not> sublist queries_close body)"

lemma queries_tags: "is_tag 60 8203 queries_open" "is_tag 60 8203 queries_close"
  by (simp_all add: is_tag_def queries_open_def queries_close_def)

lemma split_block:
  assumes "query_block q" and "list_all is_whitespace ws"
  shows "split_prior_loop (ws @ q @ x) secs rest = split_prior_loop x (secs @ [q]) rest"
proof -
  obtain body where q: "q = queries_open @ body @ queries_close" and b: "\<not> sublist queries_close body"
    using assms(1) by (auto simp: query_block_def)
  define e where "e = length (queries_open @ body)"
  have len: "e + length queries_close = length q" by (simp add: q e_def)
  have "60 \<notin> set ws" using assms(2) by (auto simp: list_all_iff is_whitespace_def)
  then have start: "find_str queries_open (ws @ q @ x) = Some (length ws)"
    using find_skip [of queries_open ws "q @ x"] q by (simp add: queries_open_def)
  have "\<not> sublist queries_close (queries_open @ body)"
    using b by (simp add: queries_open_def queries_close_def sublist_Cons_right)
  from find_tag [OF queries_tags(2) this, of x] have fin: "find_str queries_close (q @ x) = Some e" by (simp add: q e_def)
  have "trim ws = []" using trim_blank [OF assms(2), of "[]"] by simp
  with start fin len show ?thesis
    by (simp add: split_prior_loop.simps [of "ws @ q @ x"] push_rest_def add.assoc)
qed

lemma split_blocks:
  assumes "list_all query_block qs" and "qs \<noteq> []" and "list_all is_whitespace ws"
  shows "split_prior_loop (ws @ join [10] qs @ x) secs rest = split_prior_loop x (secs @ qs) rest"
  using assms
proof (induction qs arbitrary: ws secs)
  case (Cons q qs)
  show ?case
  proof (cases qs)
    case Nil
    then show ?thesis using Cons.prems by (simp add: split_block)
  next
    case c: (Cons v vs)
    have "list_all is_whitespace [10]" by (simp add: is_whitespace_def)
    with Cons.prems c show ?thesis
      using split_block [of q ws "[10] @ join [10] qs @ x" secs rest] Cons.IH [of "[10]" "secs @ [q]"] by simp
  qed
qed simp

lemma split_tail:
  assumes "\<not> sublist queries_open x"
  shows "split_prior_loop x secs [] = (secs, trim x)"
  using assms by (simp add: split_prior_loop.simps [of x] find_None [symmetric] push_rest_def)

text \<open>A turn that quotes the closing tag of the block.\<close>

definition quotes_close :: "'a item_ops \<Rightarrow> 'a \<Rightarrow> bool" where
  "quotes_close I turn \<longleftrightarrow>
     contains_str (case item_text I turn of None \<Rightarrow> [] | Some t \<Rightarrow> t) queries_close \<or>
     list_ex (\<lambda>f. contains_str (file_id f) queries_close \<or> contains_str (file_name f) queries_close) (attachment_refs I turn)"

lemma close_append:
  "\<not> sublist queries_close x \<Longrightarrow> \<not> sublist queries_close y \<Longrightarrow> y = [] \<or> hd y \<in> {10, 34, 46, 60} \<Longrightarrow> \<not> sublist queries_close (x @ y)"
  using tag_append [OF queries_tags(2), of x y] by (auto simp: queries_close_def)

lemma file_line_free:
  assumes "\<not> sublist queries_close (file_id f)" and "\<not> sublist queries_close (file_name f)" and "\<not> sublist queries_close y"
  shows "\<not> sublist queries_close (grok_file_line f @ y)"
proof -
  have skip: "\<not> sublist queries_close (lit ''<grok_file id='' @ [34] @ z)" "\<not> sublist queries_close ([34] @ lit '' name='' @ [34] @ z)"
    "\<not> sublist queries_close ([34] @ lit '' />'' @ [10] @ z)" if "\<not> sublist queries_close z" for z
    using that by (simp_all add: queries_close_def sublist_Cons_right)
  let ?n = "file_name f @ [34] @ lit '' />'' @ [10] @ y"
  have "\<not> sublist queries_close ?n" by (rule close_append [OF assms(2) skip(3) [OF assms(3)]]) simp
  then have "\<not> sublist queries_close (file_id f @ [34] @ lit '' name='' @ [34] @ ?n)"
    by (intro close_append [OF assms(1)] skip(2)) simp_all
  then have "\<not> sublist queries_close (lit ''<grok_file id='' @ [34] @ file_id f @ [34] @ lit '' name='' @ [34] @ ?n)" by (rule skip(1))
  then show ?thesis unfolding grok_file_line_def by (simp only: append_assoc not_False_eq_True)
qed

lemma truncate_free:
  assumes "\<not> sublist queries_close t" and "truncate_middle t n = Some u"
  shows "\<not> sublist queries_close u"
proof -
  obtain a b where u: "u = a @ lit ''...[truncated]...'' @ b" "sublist a t" "sublist b t"
    using assms(2) sublist_take sublist_drop by (fastforce simp: truncate_middle_def Let_def split: if_splits)
  then have ab: "\<not> sublist queries_close a" "\<not> sublist queries_close b" using assms(1) sublist_order.order.trans by blast+
  then have "\<not> sublist queries_close (lit ''...[truncated]...'' @ b)" by (simp add: queries_close_def sublist_Cons_right)
  then show ?thesis unfolding u(1) by (rule close_append [OF ab(1)]) simp
qed

lemma query_free:
  assumes "\<not> quotes_close I turn" and "\<not> sublist queries_close y"
  shows "\<not> sublist queries_close (grok_query I n turn @ y)"
proof -
  let ?t = "case item_text I turn of None \<Rightarrow> [] | Some t \<Rightarrow> t"
  let ?u = "case truncate_middle ?t n of Some truncated \<Rightarrow> truncated | None \<Rightarrow> ?t"
  let ?tail = "lit ''</grok_query>'' @ [10] @ y"
  have fin: "\<not> sublist queries_close ?tail" using assms(2) by (simp add: queries_close_def sublist_Cons_right)
  have files: "\<not> sublist queries_close (concat (map grok_file_line fs) @ ?tail)" if "set fs \<subseteq> set (attachment_refs I turn)" for fs
    using that
  proof (induction fs)
    case (Cons f fs)
    then have "\<not> sublist queries_close (grok_file_line f @ concat (map grok_file_line fs) @ ?tail)"
      using assms(1) by (intro file_line_free) (auto simp: quotes_close_def list_ex_iff contains_iff)
    then show ?case by (simp only: list.map concat.simps append_assoc not_False_eq_True)
  qed (use fin in simp)
  let ?a = "if attachment_refs I turn = [] then [] else [10] @ concat (map grok_file_line (attachment_refs I turn))"
  have "\<not> sublist queries_close ([10] @ z)" if "\<not> sublist queries_close z" for z
    using that by (simp add: queries_close_def sublist_Cons_right)
  then have tail: "\<not> sublist queries_close (?a @ ?tail)" using files [OF subset_refl] fin by (simp del: lit_simps)
  have u: "\<not> sublist queries_close ?u"
    using assms(1) truncate_free [of ?t n] by (auto simp: quotes_close_def contains_iff split: option.splits)
  have "hd (?a @ ?tail) \<in> {10, 34, 46, 60}" by auto
  then have "\<not> sublist queries_close (?u @ ?a @ ?tail)" using close_append [OF u tail] by blast
  then have "\<not> sublist queries_close (lit ''<grok_query>'' @ ?u @ ?a @ ?tail)" by (simp add: queries_close_def sublist_Cons_right)
  then show ?thesis unfolding grok_query_def Let_def by (simp only: append_assoc not_False_eq_True)
qed

lemma extract_loop_eq:
  "extract_loop I n turns result e =
     (result @ concat (map (grok_query I n) (filter (\<lambda>t. item_role I t = UserRole \<and> \<not> empty_query I t) turns)),
      e \<or> list_ex (\<lambda>t. item_role I t = UserRole \<and> \<not> empty_query I t) turns)"
  by (induction turns arbitrary: result e) auto

lemma extract_block:
  assumes "extract_user_queries_from_turns I turns n = Some q" and "list_all (\<lambda>t. \<not> quotes_close I t) turns"
  shows "query_block q"
proof -
  let ?body = "\<lambda>ts. concat (map (grok_query I n) (filter (\<lambda>t. item_role I t = UserRole \<and> \<not> empty_query I t) ts))"
  have "\<not> sublist queries_close (?body turns)"
    using assms(2)
  proof (induction turns)
    case Nil
    then show ?case by (simp add: queries_close_def)
  next
    case (Cons t ts)
    then show ?case using query_free [of I t "?body ts" n] by simp
  qed
  then have "\<not> sublist queries_close ([10] @ ?body turns)" by (simp add: queries_close_def sublist_Cons_right)
  moreover have "q = queries_open @ ([10] @ ?body turns) @ queries_close"
    using assms(1) by (auto simp: extract_user_queries_from_turns_def extract_loop_eq split: if_splits)
  ultimately show ?thesis unfolding query_block_def by blast
qed

lemma preamble_split:
  assumes "list_all query_block (qs @ [q])" and "\<not> sublist queries_open summary"
  shows "split_prior_compaction_text
      (assemble_user_queries_preamble (if qs = [] then None else Some (join [10] qs)) (Some q) @ summary) =
    (Some (join [10] (qs @ [q])), trim summary)"
proof -
  let ?p = "assemble_user_queries_preamble (if qs = [] then None else Some (join [10] qs)) (Some q) @ summary"
  have nl: "list_all is_whitespace [10, 10]" by (simp add: is_whitespace_def)
  have "\<not> sublist queries_open ([10, 10] @ summary)" using assms(2) by (simp add: queries_open_def sublist_Cons_right)
  from split_tail [OF this] have tail: "split_prior_loop ([10, 10] @ summary) secs [] = (secs, trim summary)" for secs
    using trim_blank [OF nl, of summary] by simp
  have "split_prior_loop ?p [] [] = (qs @ [q], trim summary)"
  proof (cases "qs = []")
    case True
    then show ?thesis
      using split_block [of q "[]" "[10, 10] @ summary" "[]" "[]"] tail assms(1) by (simp add: assemble_user_queries_preamble_def)
  next
    case False
    then have "split_prior_loop ?p [] [] = split_prior_loop ([10, 10] @ q @ [10, 10] @ summary) qs []"
      using split_blocks [of qs "[]" "[10, 10] @ q @ [10, 10] @ summary" "[]" "[]"] assms(1)
      by (simp add: assemble_user_queries_preamble_def)
    then show ?thesis using split_block [OF _ nl, of q "[10, 10] @ summary" qs "[]"] tail assms(1) by simp
  qed
  then show ?thesis by (simp add: split_prior_compaction_text_def)
qed

lemma separate_plain:
  "list_all (\<lambda>t. \<not> is_compaction_summary I t) ts \<Longrightarrow>
     foldl (separate_step I) acc ts = acc\<lparr>turns_for_llm := turns_for_llm acc @ ts\<rparr>"
  by (induction ts arbitrary: acc) (simp_all add: separate_step_def)

text \<open>
  C20: the block of user queries survives compaction after compaction. In a history with one summary item,
  whose text is the preamble of the earlier blocks \<open>qs\<close> and the block \<open>q\<close> taken from the turns, followed by
  the summary, the next compaction recovers exactly those blocks, verbatim and in order, and hands on the
  turns before the item, the summary without the blocks, and the turns after it; \<open>q\<close> is again a block, so
  this goes on. Two conditions: no turn quotes the closing tag, and the model did not copy the opening tag
  into the summary.
\<close>

theorem user_queries_survive:
  assumes "extract_user_queries_from_turns I turns n = Some q" and "list_all (\<lambda>t. \<not> quotes_close I t) turns"
    and "list_all query_block qs" and "\<not> contains_str summary queries_open"
    and "list_all (\<lambda>t. \<not> is_compaction_summary I t) (before @ after)" and "is_compaction_summary I item"
    and "item_text I item =
      Some (assemble_user_queries_preamble (if qs = [] then None else Some (join [10] qs)) (Some q) @ summary)"
  shows "query_block q \<and>
    separate_prior_user_queries I (before @ item # after) =
      \<lparr>turns_for_llm = before @ (if trim summary = [] then [] else [compaction_summary_item I (trim summary)]) @ after,
       prior_user_queries = Some (join [10] (qs @ [q])), has_prior_compaction = True\<rparr>"
proof -
  have q: "query_block q" using extract_block assms(1,2) by blast
  have "\<not> sublist queries_open summary" using assms(4) by (simp add: contains_iff)
  then have "split_prior_compaction_text
      (assemble_user_queries_preamble (if qs = [] then None else Some (join [10] qs)) (Some q) @ summary) =
    (Some (join [10] (qs @ [q])), trim summary)"
    using preamble_split [of qs q summary] q assms(3) by simp
  then show ?thesis
    using q assms(5,6,7) by (simp add: separate_prior_user_queries_def separate_plain separate_step_def)
qed

text \<open>A small item type for the witnesses: a role, a text and whether the item is a summary.\<close>

definition text_ops :: "(CompactionRole \<times> rstr \<times> bool) item_ops" where
  "text_ops = \<lparr>item_role = fst, item_text = (\<lambda>x. Some (fst (snd x))), has_tool_requests = (\<lambda>_. False),
     is_compaction_summary = (\<lambda>x. snd (snd x)), attachment_refs = (\<lambda>_. []),
     compaction_summary_item = (\<lambda>s. (DeveloperRole, s, True)), strip_tool_content = Some,
     truncate_payload_for_compaction = (\<lambda>x n. (fst x, take n (fst (snd x)), snd (snd x))),
     count_item_tokens = (\<lambda>x. length (fst (snd x)))\<rparr>"

theorem user_queries_survive_witness:
  "\<exists>q. extract_user_queries_from_turns text_ops [(UserRole, lit ''fix it'', False)] 100 = Some q \<and>
     separate_prior_user_queries text_ops
         [(SystemRole, lit ''be brief'', False), (DeveloperRole, assemble_user_queries_preamble None (Some q) @ lit ''Done.'', True),
          (UserRole, lit ''go on'', False)] =
       \<lparr>turns_for_llm = [(SystemRole, lit ''be brief'', False), (DeveloperRole, lit ''Done.'', True), (UserRole, lit ''go on'', False)],
        prior_user_queries = Some q, has_prior_compaction = True\<rparr>"
proof -
  let ?turns = "[(UserRole, lit ''fix it'', False)]"
  let ?q = "queries_open @ [10] @ lit ''<grok_query>fix it</grok_query>'' @ [10] @ queries_close"
  let ?item = "(DeveloperRole, assemble_user_queries_preamble None (Some ?q) @ lit ''Done.'', True)"
  have q: "extract_user_queries_from_turns text_ops ?turns 100 = Some ?q"
    by (simp add: extract_user_queries_from_turns_def text_ops_def empty_query_def grok_query_def truncate_middle_def)
  have "separate_prior_user_queries text_ops ([(SystemRole, lit ''be brief'', False)] @ ?item # [(UserRole, lit ''go on'', False)]) =
      \<lparr>turns_for_llm = [(SystemRole, lit ''be brief'', False)] @
          (if trim (lit ''Done.'') = [] then [] else [compaction_summary_item text_ops (trim (lit ''Done.''))]) @
          [(UserRole, lit ''go on'', False)],
       prior_user_queries = Some (join [10] ([] @ [?q])), has_prior_compaction = True\<rparr>"
    by (rule user_queries_survive [THEN conjunct2, OF q, of "[]"])
      (simp_all add: text_ops_def quotes_close_def contains_str_def queries_open_def queries_close_def)
  moreover have "trim (lit ''Done.'') = lit ''Done.''" by (simp add: trimmed_def is_whitespace_def)
  ultimately show ?thesis using q by (intro exI [of _ ?q]) (simp add: text_ops_def)
qed

text \<open>
  A summary into which the model copied a block: the copy is taken for a block of the preamble and is
  carried along from then on, once more with every such summary.
\<close>

lemma copied_block_accumulates:
  "split_prior_compaction_text
     (queries_open @ lit ''q'' @ queries_close @ [10, 10] @ lit ''S '' @ queries_open @ lit ''q'' @ queries_close) =
   (Some (queries_open @ lit ''q'' @ queries_close @ [10] @ queries_open @ lit ''q'' @ queries_close), lit ''S'')"
  by (simp add: split_prior_compaction_text_def split_prior_loop.simps queries_open_def queries_close_def
      push_rest_def trim_def trim_start_def trim_end_def is_whitespace_def)

text \<open>
  A query that quotes the closing tag is not recovered: the block ends at the quotation and the rest of
  the query is handed to the summarising model as part of the summary.
\<close>

lemma quoted_close_cuts_block:
  "split_prior_compaction_text
     (queries_open @ [10] @ lit ''<grok_query>a</grok_user_queries>b</grok_query>'' @ [10] @ queries_close @ [10, 10] @ lit ''S'') =
   (Some (queries_open @ [10] @ lit ''<grok_query>a</grok_user_queries>''),
    lit ''b</grok_query>'' @ [10] @ queries_close @ [10, 10] @ lit ''S'')"
  by (simp add: split_prior_compaction_text_def split_prior_loop.simps queries_open_def queries_close_def
      push_rest_def trim_def trim_start_def trim_end_def is_whitespace_def)

end
