(* ===== verification/Compact_Sample.thy ===== *)
theory Compact_Sample
  imports Compact_Text
begin

text \<open>
  \<open>sampler.rs\<close> and \<open>code_compaction\<close> (\<open>sample.rs\<close>, \<open>prompt.rs\<close>, \<open>assemble.rs\<close>, \<open>compact.rs\<close>) of
  \<open>xai-grok-compaction\<close>: asking a model for a summary, with bounded retries, and rebuilding the history
  around it. The trait \<open>CompactionSampler\<close> is a function of the number of calls made before, the turns and
  the prompt, so a reply may depend on everything that went before it. An observer is the list of the
  outcomes it is told. Sleeping and clocks are left out; the template of the prompt, a text file the build
  embeds, is an argument.
\<close>

section \<open>Replies and errors\<close>

record LlmCompactionOutput =
  response :: rstr
  thinking :: rstr

datatype CompactionSampleError =
    SampleTimeout nat nat
  | SampleBuild rstr
  | SampleStart rstr
  | SampleEmptyResponse
  | SampleContextOverflow rstr
  | SampleOther rstr

record CompactionPrompt =
  prompt_system :: rstr
  prompt_user :: rstr

type_synonym 'a sampler = "nat \<Rightarrow> 'a list \<Rightarrow> CompactionPrompt \<Rightarrow> CompactionSampleError + LlmCompactionOutput"

definition SAMPLER_BUILD_FAILED_PREFIX :: rstr where
  "SAMPLER_BUILD_FAILED_PREFIX = lit ''Compaction sampler build failed: ''"

definition SAMPLER_START_FAILED_PREFIX :: rstr where
  "SAMPLER_START_FAILED_PREFIX = lit ''Compaction sampler start failed: ''"

definition CompactionSampleError_fmt :: "CompactionSampleError \<Rightarrow> rstr" where
  "CompactionSampleError_fmt e =
     (case e of
        SampleTimeout timeout_secs collected_bytes \<Rightarrow>
          lit ''Compaction sampling timed out after '' @ show_dec timeout_secs @ lit ''s (collected '' @
          show_dec collected_bytes @ lit '' bytes so far)''
      | SampleBuild msg \<Rightarrow> SAMPLER_BUILD_FAILED_PREFIX @ msg
      | SampleStart msg \<Rightarrow> SAMPLER_START_FAILED_PREFIX @ msg
      | SampleEmptyResponse \<Rightarrow> lit ''Compaction sampler returned no response channel content''
      | SampleContextOverflow msg \<Rightarrow> msg
      | SampleOther msg \<Rightarrow> msg)"

definition is_deterministic :: "CompactionSampleError \<Rightarrow> bool" where
  "is_deterministic e =
     (case e of
        SampleTimeout _ _ \<Rightarrow> False
      | SampleEmptyResponse \<Rightarrow> False
      | SampleBuild _ \<Rightarrow> True
      | SampleStart _ \<Rightarrow> True
      | SampleContextOverflow _ \<Rightarrow> True
      | SampleOther msg \<Rightarrow>
          contains_str msg (lit ''Failed to build AgenticScheduler'') \<or>
          contains_str msg (lit ''Failed to start compaction sample''))"

definition is_context_overflow :: "CompactionSampleError \<Rightarrow> bool" where
  "is_context_overflow e = (case e of SampleContextOverflow _ \<Rightarrow> True | _ \<Rightarrow> False)"

section \<open>Sampling with retries\<close>

record SampledSummary =
  sampled_summary :: rstr
  sampled_attempts :: nat

text \<open>\<open>RetryEmpty attempts\<close> and \<open>RetryFailure message deterministic context_overflow attempts\<close>.\<close>

datatype SampleRetryError =
    RetryEmpty nat
  | RetryFailure rstr bool bool nat

text \<open>Outcomes as the observer is told: the last field of each but the first is \<open>will_retry\<close>.\<close>

datatype FullReplaceAttemptOutcome =
    AttemptSuccess rstr
  | AttemptEmptyResponse bool
  | AttemptDegenerate rstr bool
  | AttemptFailure rstr bool bool bool

function sample_attempts ::
  "'a sampler \<Rightarrow> 'a list \<Rightarrow> CompactionPrompt \<Rightarrow> nat \<Rightarrow> nat \<Rightarrow> nat \<Rightarrow>
   (SampleRetryError + SampledSummary) \<times> nat \<times> (nat \<times> FullReplaceAttemptOutcome) list" where
  "sample_attempts sampler turns prompt max_attempts attempt calls =
     (if max_attempts < attempt then (Inl (RetryEmpty max_attempts), calls, [])
      else
        let will_retry = (attempt < max_attempts);
            again = (\<lambda>outcome.
              case sample_attempts sampler turns prompt max_attempts (attempt + 1) (calls + 1) of
                (r, n, log) \<Rightarrow> (r, n, (attempt, outcome) # log));
            stop = (\<lambda>r outcome. (r, calls + 1, [(attempt, outcome)]))
        in case sampler calls turns prompt of
             Inr output \<Rightarrow>
               if trim (response output) \<noteq> [] then
                 if is_degenerate_summary (response output) then
                   if \<not> will_retry then stop (Inl (RetryEmpty attempt)) (AttemptDegenerate (response output) will_retry)
                   else again (AttemptDegenerate (response output) will_retry)
                 else stop (Inr \<lparr>sampled_summary = response output, sampled_attempts = attempt\<rparr>) (AttemptSuccess (response output))
               else if \<not> will_retry then stop (Inl (RetryEmpty attempt)) (AttemptEmptyResponse will_retry)
               else again (AttemptEmptyResponse will_retry)
           | Inl e \<Rightarrow>
               let message = CompactionSampleError_fmt e;
                   context_overflow = (is_context_overflow e \<or> is_context_length_error message);
                   deterministic = (is_deterministic e \<or> context_overflow);
                   retrying = (will_retry \<and> \<not> deterministic);
                   outcome = AttemptFailure message deterministic context_overflow retrying
               in if deterministic then stop (Inl (RetryFailure message True context_overflow attempt)) outcome
                  else if \<not> will_retry then stop (Inl (RetryFailure message False False attempt)) outcome
                  else again outcome)"
  by pat_completeness auto
termination by (relation "measure (\<lambda>(_, _, _, m, a, _). Suc m - a)") auto

declare sample_attempts.simps [simp del]

definition sample_summary_with_retries ::
  "'a sampler \<Rightarrow> 'a list \<Rightarrow> CompactionPrompt \<Rightarrow> nat \<Rightarrow> nat \<Rightarrow>
   (SampleRetryError + SampledSummary) \<times> nat \<times> (nat \<times> FullReplaceAttemptOutcome) list" where
  "sample_summary_with_retries sampler turns prompt max_attempts calls =
     sample_attempts sampler turns prompt (max max_attempts 1) 1 calls"

section \<open>Prompts\<close>

definition build_summary_prompt :: "rstr \<Rightarrow> rstr option \<Rightarrow> rstr" where
  "build_summary_prompt template user_context =
     replace_str (lit ''{user_context_section}'')
       (case user_context of
          Some context \<Rightarrow>
            [10, 10] @ lit ''**User-provided context for this compaction:**'' @ [10] @ context @ [10, 10] @
            lit ''Please incorporate this context into your summary, ensuring it is prominently addressed in the relevant sections.'' @
            [10, 10]
        | None \<Rightarrow> [])
       template"

definition SELF_SUMMARIZATION_PROMPT :: rstr where
  "SELF_SUMMARIZATION_PROMPT =
     join [10]
       [lit ''<summary_request>'',
        lit ''Please summarize the conversation so far. This summary (everything after your'',
        lit ''thinking) will be provided to another AI assistant to continue working on the'',
        lit ''task. The other assistant will only see the user'' @ [39] @ lit ''s original query and your'',
        lit ''summary, it will not have access to any tool calls or tool outputs from this'',
        lit ''conversation. The purpose of the summary is to compress the conversation'',
        lit ''context while preserving the essential information needed to seamlessly'',
        lit ''continue. Useful things to include: the user'' @ [39] @ lit ''s requests, what you'' @ [39] @ lit ''ve done so'',
        lit ''far, relevant file paths and code details, any errors encountered and how'',
        lit ''they were resolved, and what remains to be done. DO NOT call any tools in'',
        lit ''your response.'',
        lit ''</summary_request>'']"

datatype SummaryPromptKind = Structured | SelfSummary

definition build_summary_prompt_kind :: "rstr \<Rightarrow> SummaryPromptKind \<Rightarrow> rstr option \<Rightarrow> rstr" where
  "build_summary_prompt_kind template kind user_context =
     (case kind of
        Structured \<Rightarrow> build_summary_prompt template user_context
      | SelfSummary \<Rightarrow>
          (case user_context of
             Some ctx \<Rightarrow>
               SELF_SUMMARIZATION_PROMPT @ [10, 10] @ lit ''<user_provided_context>'' @ [10] @ ctx @ [10] @
               lit ''</user_provided_context>'' @ [10, 10] @
               lit ''Incorporate the user-provided context above into your summary.''
           | None \<Rightarrow> SELF_SUMMARIZATION_PROMPT))"

section \<open>Rebuilding the history\<close>

record 'a item_factory =
  new_user :: "rstr \<Rightarrow> 'a"
  new_user_meta :: "rstr \<Rightarrow> 'a"
  new_project_instructions :: "rstr \<Rightarrow> 'a"
  new_system_reminder :: "rstr \<Rightarrow> 'a"

record 'a FullReplaceContext =
  system_message :: 'a
  user_message_prefix :: rstr
  agents_md_reminder :: "rstr option"
  last_user_query :: "rstr option"
  recent_messages :: "'a list"
  system_reminder :: "rstr option"
  transcript_hint :: "rstr option"

text \<open>\<open>CompactedHistoryParts\<close> is the context with the raw summary beside it.\<close>

record 'a CompactedHistoryParts = "'a FullReplaceContext" +
  compaction_summary :: rstr

definition assemble_compacted_history :: "'a item_factory \<Rightarrow> 'a CompactedHistoryParts \<Rightarrow> 'a list" where
  "assemble_compacted_history F parts =
     [system_message parts, new_user_meta F (user_message_prefix parts)] @
     (case agents_md_reminder parts of None \<Rightarrow> [] | Some reminder \<Rightarrow> [new_project_instructions F reminder]) @
     (case last_user_query parts of None \<Rightarrow> [] | Some q \<Rightarrow> [new_user F (wrap_user_query q)]) @
     recent_messages parts @
     [new_user_meta F
        (format_compact_summary_content (compaction_summary parts) @
         (case transcript_hint parts of None \<Rightarrow> [] | Some hint \<Rightarrow> hint))] @
     (case system_reminder parts of None \<Rightarrow> [] | Some reminder \<Rightarrow> [new_system_reminder F reminder])"

datatype FullReplaceError =
    NothingToReplace
  | ReplaceEmptyResponse
  | ReplaceSampler rstr bool bool

definition FullReplaceError_fmt :: "FullReplaceError \<Rightarrow> rstr" where
  "FullReplaceError_fmt e =
     (case e of
        NothingToReplace \<Rightarrow> lit ''nothing to compact''
      | ReplaceEmptyResponse \<Rightarrow> lit ''compaction model returned an empty summary''
      | ReplaceSampler message _ _ \<Rightarrow> lit ''compaction sampling failed: '' @ message)"

record FullReplaceConfig =
  replace_max_attempts :: nat
  replace_retry_delay_secs :: nat
  replace_sampling_timeout_secs :: nat

definition FullReplaceConfig_default :: FullReplaceConfig where
  "FullReplaceConfig_default = \<lparr>replace_max_attempts = 3, replace_retry_delay_secs = 3, replace_sampling_timeout_secs = 120\<rparr>"

record FullReplaceSummary =
  raw_summary :: rstr
  summary_attempts :: nat

definition sample_full_replace_summary ::
  "rstr \<Rightarrow> 'a sampler \<Rightarrow> 'a list \<Rightarrow> rstr option \<Rightarrow> FullReplaceConfig \<Rightarrow> nat \<Rightarrow>
   (FullReplaceError + FullReplaceSummary) \<times> nat" where
  "sample_full_replace_summary template sampler llm_turns user_context config calls =
     (if llm_turns = [] then (Inl NothingToReplace, calls)
      else
        case sample_summary_with_retries sampler llm_turns
               \<lparr>prompt_system = [], prompt_user = build_summary_prompt template user_context\<rparr>
               (replace_max_attempts config) calls of
          (Inr s, n, log) \<Rightarrow> (Inr \<lparr>raw_summary = sampled_summary s, summary_attempts = sampled_attempts s\<rparr>, n)
        | (Inl (RetryEmpty attempts), n, log) \<Rightarrow> (Inl ReplaceEmptyResponse, n)
        | (Inl (RetryFailure message deterministic context_overflow attempts), n, log) \<Rightarrow>
            (Inl (ReplaceSampler message deterministic context_overflow), n))"

record 'a FullReplaceOutput =
  replace_history :: "'a list"
  replace_summary :: rstr
  replace_attempts :: nat

definition apply_code_full_replace ::
  "'a item_factory \<Rightarrow> rstr \<Rightarrow> 'a sampler \<Rightarrow> 'a list \<Rightarrow> rstr option \<Rightarrow> 'a FullReplaceContext \<Rightarrow> FullReplaceConfig \<Rightarrow> nat \<Rightarrow>
   (FullReplaceError + 'a FullReplaceOutput) \<times> nat" where
  "apply_code_full_replace F template sampler llm_turns user_context ctx config calls =
     (case sample_full_replace_summary template sampler llm_turns user_context config calls of
        (Inl e, n) \<Rightarrow> (Inl e, n)
      | (Inr s, n) \<Rightarrow>
          (Inr \<lparr>replace_history =
                  assemble_compacted_history F
                    (FullReplaceContext.extend ctx \<lparr>compaction_summary = raw_summary s\<rparr>),
                replace_summary = raw_summary s,
                replace_attempts = summary_attempts s\<rparr>, n))"

section \<open>Retries\<close>

definition size_error :: "CompactionSampleError \<Rightarrow> bool" where
  "size_error e \<longleftrightarrow> is_context_overflow e \<or> is_context_length_error (CompactionSampleError_fmt e)"

definition fatal_error :: "CompactionSampleError \<Rightarrow> bool" where
  "fatal_error e \<longleftrightarrow> is_deterministic e \<or> size_error e"

text \<open>A reply that is worth another attempt.\<close>

definition transient_reply :: "CompactionSampleError + LlmCompactionOutput \<Rightarrow> bool" where
  "transient_reply reply =
     (case reply of
        Inr output \<Rightarrow> trim (response output) = [] \<or> is_degenerate_summary (response output)
      | Inl e \<Rightarrow> \<not> fatal_error e)"

text \<open>What the result says of the reply to the last call, after \<open>a\<close> attempts.\<close>

definition settles :: "CompactionSampleError + LlmCompactionOutput \<Rightarrow> nat \<Rightarrow> SampleRetryError + SampledSummary \<Rightarrow> bool" where
  "settles reply a r =
     (case r of
        Inr s \<Rightarrow> \<not> transient_reply reply \<and> sampled_attempts s = a \<and>
          (case reply of Inr output \<Rightarrow> response output = sampled_summary s | Inl _ \<Rightarrow> False)
      | Inl (RetryEmpty n) \<Rightarrow> n = a \<and> transient_reply reply \<and> (case reply of Inr _ \<Rightarrow> True | Inl _ \<Rightarrow> False)
      | Inl (RetryFailure message deterministic context_overflow n) \<Rightarrow>
          n = a \<and>
          (case reply of
             Inl e \<Rightarrow> message = CompactionSampleError_fmt e \<and> deterministic = fatal_error e \<and> context_overflow = size_error e
           | Inr _ \<Rightarrow> False))"

definition attempts_spec ::
  "(nat \<Rightarrow> CompactionSampleError + LlmCompactionOutput) \<Rightarrow> nat \<Rightarrow> nat \<Rightarrow> nat \<Rightarrow>
   (SampleRetryError + SampledSummary) \<times> nat \<times> (nat \<times> FullReplaceAttemptOutcome) list \<Rightarrow> bool" where
  "attempts_spec reply m a calls res =
     (case res of
        (r, n, log) \<Rightarrow>
          calls < n \<and> a + (n - calls) \<le> Suc m \<and> map fst log = [a..<a + (n - calls)] \<and>
          (\<forall>i. calls \<le> i \<longrightarrow> Suc i < n \<longrightarrow> transient_reply (reply i)) \<and>
          (transient_reply (reply (n - 1)) \<longrightarrow> a + (n - calls) = Suc m) \<and>
          settles (reply (n - 1)) (a + (n - calls) - 1) r)"

lemma attempts_spec_stop:
  "a \<le> m \<Longrightarrow> settles (reply calls) a r \<Longrightarrow> (transient_reply (reply calls) \<Longrightarrow> a = m) \<Longrightarrow>
     attempts_spec reply m a calls (r, Suc calls, [(a, out)])"
  by (auto simp: attempts_spec_def)

lemma attempts_spec_again:
  assumes "attempts_spec reply m (Suc a) (Suc calls) (r, n, log)" and "transient_reply (reply calls)"
  shows "attempts_spec reply m a calls (r, n, (a, out) # log)"
proof -
  from assms(1) have "Suc calls < n" by (simp add: attempts_spec_def)
  then obtain d where n: "n = Suc (Suc (calls + d))" by (metis less_natE add_Suc)
  have "transient_reply (reply i)" if "calls \<le> i" "Suc i < n" for i
    using assms that by (cases "i = calls") (auto simp: attempts_spec_def)
  moreover have "a # [Suc a..<Suc (Suc (a + d))] = [a..<Suc (Suc (a + d))]" by (simp add: upt_conv_Cons del: upt_Suc)
  ultimately show ?thesis using assms(1) by (simp add: attempts_spec_def n del: upt_Suc)
qed

lemma sample_attempts_transient:
  assumes "transient_reply (sampler calls turns prompt)" and "a < m"
  shows "\<exists>out. sample_attempts sampler turns prompt m a calls =
    (case sample_attempts sampler turns prompt m (Suc a) (Suc calls) of (r, n, log) \<Rightarrow> (r, n, (a, out) # log))"
  using assms
  by (subst sample_attempts.simps)
    (auto simp: Let_def transient_reply_def fatal_error_def size_error_def split: sum.splits)

lemma sample_attempts_settled:
  assumes "\<not> transient_reply (sampler calls turns prompt) \<or> a = m" and "a \<le> m"
  shows "\<exists>r out. sample_attempts sampler turns prompt m a calls = (r, Suc calls, [(a, out)]) \<and>
    settles (sampler calls turns prompt) a r"
  using assms
  by (subst sample_attempts.simps)
    (auto simp: Let_def transient_reply_def settles_def fatal_error_def size_error_def split: sum.splits)

lemma sample_attempts_spec:
  "a \<le> m \<Longrightarrow> attempts_spec (\<lambda>i. sampler i turns prompt) m a calls (sample_attempts sampler turns prompt m a calls)"
proof (induction "m - a" arbitrary: a calls)
  case 0
  then have "a = m" by simp
  then show ?case
    using sample_attempts_settled [of sampler calls turns prompt a m] attempts_spec_stop [of a m "\<lambda>i. sampler i turns prompt"]
    by fastforce
next
  case (Suc k)
  then have m: "a < m" "Suc a \<le> m" "k = m - Suc a" by simp_all
  show ?case
  proof (cases "transient_reply (sampler calls turns prompt)")
    case True
    obtain r n log where "sample_attempts sampler turns prompt m (Suc a) (Suc calls) = (r, n, log)" by (metis prod_cases3)
    then show ?thesis
      using Suc.hyps(1) [OF m(3,2), of "Suc calls"] sample_attempts_transient [of sampler calls turns prompt a m, OF True m(1)]
        attempts_spec_again [of "\<lambda>i. sampler i turns prompt", OF _ True]
      by fastforce
  next
    case False
    then show ?thesis
      using sample_attempts_settled [of sampler calls turns prompt a m] attempts_spec_stop [of a m "\<lambda>i. sampler i turns prompt"] m(1)
      by fastforce
  qed
qed

text \<open>
  C24: \<open>sample_summary_with_retries\<close> ends after at least one and at most \<open>max(1, max_attempts)\<close> calls of the sampler. Every
  call but the last got a reply worth another attempt (a transient error, an empty or a degenerate summary), the
  last one did only when the attempts were used up, so a deterministic error or a size overflow is never
  retried; the result is the reply to the last call, classified, with the number of attempts made.
\<close>

theorem retries_bounded_and_classified:
  assumes "sample_summary_with_retries sampler turns prompt max_attempts calls = (r, n, log)"
  shows "calls < n \<and> n \<le> calls + max max_attempts 1 \<and> map fst log = [1..<Suc (n - calls)] \<and>
    (\<forall>i. calls \<le> i \<longrightarrow> Suc i < n \<longrightarrow> transient_reply (sampler i turns prompt)) \<and>
    (transient_reply (sampler (n - 1) turns prompt) \<longrightarrow> n = calls + max max_attempts 1) \<and>
    settles (sampler (n - 1) turns prompt) (n - calls) r"
proof -
  have "attempts_spec (\<lambda>i. sampler i turns prompt) (max max_attempts 1) 1 calls (r, n, log)"
    using sample_attempts_spec [of 1 "max max_attempts 1" sampler turns prompt calls] assms
    by (simp add: sample_summary_with_retries_def)
  then show ?thesis by (auto simp: attempts_spec_def simp del: upt_Suc)
qed

text \<open>A sampler that times out once and then reports a bad configuration.\<close>

definition sample_replies :: "nat sampler" where
  "sample_replies n turns prompt = (if n = 0 then Inl (SampleTimeout 120 0) else Inl (SampleBuild (lit ''no model'')))"

lemma sample_replies_run:
  "sample_summary_with_retries sample_replies [] \<lparr>prompt_system = [], prompt_user = []\<rparr> 5 0 =
     (Inl (RetryFailure (SAMPLER_BUILD_FAILED_PREFIX @ lit ''no model'') True False 2), 2,
      [(1, AttemptFailure (CompactionSampleError_fmt (SampleTimeout 120 0)) False False True),
       (2, AttemptFailure (SAMPLER_BUILD_FAILED_PREFIX @ lit ''no model'') True False False)])"
proof -
  have "\<not> is_context_length_error (CompactionSampleError_fmt (SampleTimeout 120 0))"
    "\<not> is_context_length_error (SAMPLER_BUILD_FAILED_PREFIX @ lit ''no model'')"
    by (code_simp, code_simp)
  then show ?thesis
    by (simp add: sample_summary_with_retries_def sample_attempts.simps Let_def sample_replies_def is_context_overflow_def
        is_deterministic_def CompactionSampleError_fmt_def del: lit_simps)
qed

theorem retries_bounded_and_classified_witness:
  "(2::nat) \<le> 0 + max 5 1 \<and> transient_reply (sample_replies 0 [] \<lparr>prompt_system = [], prompt_user = []\<rparr>) \<and>
   settles (sample_replies 1 [] \<lparr>prompt_system = [], prompt_user = []\<rparr>) 2
     (Inl (RetryFailure (SAMPLER_BUILD_FAILED_PREFIX @ lit ''no model'') True False 2))"
  using retries_bounded_and_classified [OF sample_replies_run] by (auto simp del: lit_simps)

section \<open>The rebuilt history\<close>

lemma content_clean:
  assumes "t \<in> set control_tokens"
  shows "\<not> sublist t (format_compact_summary_content raw)"
proof -
  let ?pre = "lit ''This session is being continued from a previous conversation that ran out of context. '' @
    lit ''The summary below covers the earlier portion of the conversation.'' @ [10, 10]"
  have "hd t = 60" "t \<noteq> []" using control_tags [OF assms] by (auto simp: is_tag_def)
  moreover have "60 \<notin> set ?pre" by simp
  ultimately have "sublist t (?pre @ format_compact_summary raw) \<longleftrightarrow> sublist t (format_compact_summary raw)"
    by (intro sublist_skip) auto
  then show ?thesis using format_clean(1) [OF assms] by (simp only: format_compact_summary_content_def append_assoc not_False_eq_True)
qed

text \<open>
  when the full-replace pass returns a history, its summary is a reply of the sampler to one of its calls that is neither
  empty nor degenerate, within the attempts allowed. The history is the system message, the user prefix, the project
  instructions, the last query, the recent messages verbatim, and one carrier of the summary that holds no live control
  tag, with the reminder last; nothing else of the summarised turns is in it. With no turns to summarise the sampler is not
  called, and the pass fails.
\<close>

lemma full_replace_history:
  assumes "apply_code_full_replace F template sampler llm_turns user_context ctx config calls = (Inr out, n)"
  shows "llm_turns \<noteq> [] \<and> calls < n \<and> n \<le> calls + max (replace_max_attempts config) 1 \<and> replace_attempts out = n - calls \<and>
    (\<exists>reply. sampler (n - 1) llm_turns \<lparr>prompt_system = [], prompt_user = build_summary_prompt template user_context\<rparr> = Inr reply \<and>
       response reply = replace_summary out \<and> \<not> transient_reply (Inr reply)) \<and>
    (\<exists>carrier. list_all (\<lambda>t. \<not> contains_str carrier t) control_tokens \<and>
       replace_history out =
         [system_message ctx, new_user_meta F (user_message_prefix ctx)] @
         map (new_project_instructions F) (case agents_md_reminder ctx of None \<Rightarrow> [] | Some r \<Rightarrow> [r]) @
         map (new_user F) (case last_user_query ctx of None \<Rightarrow> [] | Some q \<Rightarrow> [wrap_user_query q]) @
         recent_messages ctx @
         [new_user_meta F (carrier @ (case transcript_hint ctx of None \<Rightarrow> [] | Some hint \<Rightarrow> hint))] @
         map (new_system_reminder F) (case system_reminder ctx of None \<Rightarrow> [] | Some r \<Rightarrow> [r]))"
proof -
  let ?prompt = "\<lparr>prompt_system = [], prompt_user = build_summary_prompt template user_context\<rparr>"
  obtain r k log where run: "sample_summary_with_retries sampler llm_turns ?prompt (replace_max_attempts config) calls = (r, k, log)"
    by (metis prod_cases3)
  from assms run obtain s where s: "llm_turns \<noteq> []" "r = Inr s" "n = k"
    "replace_summary out = sampled_summary s" "replace_attempts out = sampled_attempts s"
    "replace_history out = assemble_compacted_history F (FullReplaceContext.extend ctx \<lparr>compaction_summary = sampled_summary s\<rparr>)"
    by (auto simp: apply_code_full_replace_def sample_full_replace_summary_def split: if_splits sum.splits SampleRetryError.splits)
  note spec = attempts_spec_def settles_def
  have "attempts_spec (\<lambda>i. sampler i llm_turns ?prompt) (max (replace_max_attempts config) 1) 1 calls (r, k, log)"
    using sample_attempts_spec [of 1 "max (replace_max_attempts config) 1" sampler llm_turns ?prompt calls] run
    by (simp add: sample_summary_with_retries_def)
  then have "calls < n \<and> n \<le> calls + max (replace_max_attempts config) 1 \<and> replace_attempts out = n - calls"
    "\<exists>reply. sampler (n - 1) llm_turns ?prompt = Inr reply \<and> response reply = replace_summary out \<and> \<not> transient_reply (Inr reply)"
    using s by (auto simp: spec split: sum.splits simp del: upt_Suc)
  moreover have "list_all (\<lambda>t. \<not> contains_str (format_compact_summary_content (sampled_summary s)) t) control_tokens"
    using content_clean by (simp add: list_all_iff contains_iff)
  then have "\<exists>carrier. list_all (\<lambda>t. \<not> contains_str carrier t) control_tokens \<and>
       replace_history out =
         [system_message ctx, new_user_meta F (user_message_prefix ctx)] @
         map (new_project_instructions F) (case agents_md_reminder ctx of None \<Rightarrow> [] | Some r \<Rightarrow> [r]) @
         map (new_user F) (case last_user_query ctx of None \<Rightarrow> [] | Some q \<Rightarrow> [wrap_user_query q]) @
         recent_messages ctx @
         [new_user_meta F (carrier @ (case transcript_hint ctx of None \<Rightarrow> [] | Some hint \<Rightarrow> hint))] @
         map (new_system_reminder F) (case system_reminder ctx of None \<Rightarrow> [] | Some r \<Rightarrow> [r])"
    using s(6) by (intro exI [of _ "format_compact_summary_content (sampled_summary s)"])
      (auto simp: assemble_compacted_history_def FullReplaceContext.defs split: option.splits)
  ultimately show ?thesis using s(1) by blast
qed

definition long_summary :: rstr where
  "long_summary = replicate 600 97"

lemma long_summary_clean: "format_compact_summary long_summary = long_summary" "trim long_summary = long_summary"
proof -
  have "\<not> sublist t long_summary" if "t \<noteq> []" "hd t \<noteq> 97" for t
    using that set_mono_sublist [of t long_summary] by (cases t) (auto simp: long_summary_def)
  moreover have "t \<noteq> [] \<and> hd t \<noteq> 97" if "t \<in> set control_tokens" for t
    using control_tags [OF that] by (auto simp: is_tag_def)
  moreover have t: "trimmed long_summary" by (simp add: long_summary_def trimmed_def is_whitespace_def)
  ultimately show "format_compact_summary long_summary = long_summary" by (intro format_fixed) auto
  show "trim long_summary = long_summary" using t by simp
qed

lemma long_summary_length: "length (format_compact_summary long_summary) = 600"
  unfolding long_summary_clean by (simp add: long_summary_def)

lemma long_summary_usable: "\<not> is_degenerate_summary long_summary" "trim long_summary = long_summary" "long_summary \<noteq> []"
proof -
  show "\<not> is_degenerate_summary long_summary"
    by (simp add: is_degenerate_summary_def MIN_SUMMARY_SEED_CHARS_def long_summary_length)
  show "trim long_summary = long_summary" by (rule long_summary_clean)
  show "long_summary \<noteq> []" by (simp add: long_summary_def)
qed

theorem full_replace_history_witness:
  "\<exists>out. apply_code_full_replace \<lparr>new_user = id, new_user_meta = id, new_project_instructions = id, new_system_reminder = id\<rparr>
      [] (\<lambda>_ _ _. Inr \<lparr>response = long_summary, thinking = []\<rparr>) [lit ''turn''] None
      \<lparr>system_message = lit ''sys'', user_message_prefix = lit ''info'', agents_md_reminder = None, last_user_query = Some (lit ''fix''),
       recent_messages = [lit ''tail''], system_reminder = None, transcript_hint = None\<rparr> FullReplaceConfig_default 0 = (Inr out, 1) \<and>
    replace_attempts out = 1 \<and>
    (\<exists>carrier. list_all (\<lambda>t. \<not> contains_str carrier t) control_tokens \<and>
      replace_history out = [lit ''sys'', lit ''info'', wrap_user_query (lit ''fix''), lit ''tail'', carrier])"
proof -
  let ?F = "\<lparr>new_user = id, new_user_meta = id, new_project_instructions = id, new_system_reminder = id\<rparr> :: rstr item_factory"
  let ?ctx = "\<lparr>system_message = lit ''sys'', user_message_prefix = lit ''info'', agents_md_reminder = None,
    last_user_query = Some (lit ''fix''), recent_messages = [lit ''tail''], system_reminder = None, transcript_hint = None\<rparr>"
  let ?S = "\<lambda>_ _ _. Inr \<lparr>response = long_summary, thinking = []\<rparr>"
  obtain out where run: "apply_code_full_replace ?F [] ?S [lit ''turn''] None ?ctx FullReplaceConfig_default 0 = (Inr out, 1)"
    by (simp add: apply_code_full_replace_def sample_full_replace_summary_def sample_summary_with_retries_def
        sample_attempts.simps long_summary_usable Let_def del: lit_simps)
  from full_replace_history [OF run] run show ?thesis by (auto simp del: lit_simps)
qed

end
