(* ===== verification/Compact_Reminder.thy ===== *)
theory Compact_Reminder
  imports Str_Search
begin

text \<open>
  \<open>reminder.rs\<close> of \<open>xai-grok-compaction\<close>: the \<open>system-reminder\<close> that carries what is still running (commands,
  scheduled loops, workflows, open todos, subagents) across a compaction, and the block appended to a summary.
\<close>

section \<open>Views of the running state\<close>

record SubagentToolNames =
  poll_tool :: rstr
  cancel_tool :: rstr

datatype ReminderTodoStatus = TodoPending | TodoInProgress | TodoCompleted | TodoCancelled

definition is_actionable :: "ReminderTodoStatus \<Rightarrow> bool" where
  "is_actionable s \<longleftrightarrow> s = TodoPending \<or> s = TodoInProgress"

definition todo_tag :: "ReminderTodoStatus \<Rightarrow> rstr" where
  "todo_tag s =
     (case s of
        TodoPending \<Rightarrow> lit ''[pending]''
      | TodoInProgress \<Rightarrow> lit ''[in_progress]''
      | TodoCompleted \<Rightarrow> lit ''[completed]''
      | TodoCancelled \<Rightarrow> lit ''[cancelled]'')"

record ReminderTodoItem =
  todo_id :: rstr
  todo_content :: rstr
  todo_status :: ReminderTodoStatus

record BackgroundTask =
  bg_task_id :: rstr
  bg_command :: rstr
  bg_status :: rstr
  bg_tool_name :: "rstr option"

record RunningSubagent =
  subagent_id :: rstr
  subagent_type :: "rstr option"
  subagent_description :: "rstr option"
  subagent_elapsed_secs :: nat

record ScheduledLoop =
  loop_task_id :: rstr
  loop_interval :: rstr
  loop_next_fire_at :: rstr
  loop_prompt :: rstr
  loop_recurring :: bool
  loop_durable :: bool

record WorkflowRun =
  run_name :: rstr
  run_id :: rstr
  run_status :: rstr
  run_objective :: "rstr option"
  run_current_phase :: "rstr option"
  run_agents_used :: nat
  run_agent_budget :: "nat option"
  run_elapsed_secs :: nat

record ActiveAgentReminderState =
  running_commands :: "BackgroundTask list"
  reminder_todos :: "ReminderTodoItem list"
  running_subagents :: "RunningSubagent list"
  scheduled_loops :: "ScheduledLoop list"
  reminder_workflows :: "WorkflowRun list"
  workflow_tool :: "rstr option"

definition ActiveAgentReminderState_default :: ActiveAgentReminderState where
  "ActiveAgentReminderState_default =
     \<lparr>running_commands = [], reminder_todos = [], running_subagents = [], scheduled_loops = [],
      reminder_workflows = [], workflow_tool = None\<rparr>"

definition has_actionable_todos :: "ActiveAgentReminderState \<Rightarrow> bool" where
  "has_actionable_todos state \<longleftrightarrow> list_ex (\<lambda>t. is_actionable (todo_status t)) (reminder_todos state)"

definition reminder_is_empty :: "ActiveAgentReminderState \<Rightarrow> bool" where
  "reminder_is_empty state \<longleftrightarrow>
     running_commands state = [] \<and> running_subagents state = [] \<and> scheduled_loops state = [] \<and>
     reminder_workflows state = [] \<and> \<not> has_actionable_todos state"

section \<open>Sections\<close>

definition collapsed_ws :: "rstr \<Rightarrow> rstr" where
  "collapsed_ws s = join [32] (split_whitespace s)"

definition format_background_task_line :: "BackgroundTask \<Rightarrow> rstr" where
  "format_background_task_line t =
     (case bg_tool_name t of
        Some tool \<Rightarrow>
          lit ''- '' @ [34] @ bg_task_id t @ [34] @ lit '': `'' @ bg_command t @ lit ''` ('' @ bg_status t @ lit '', '' @ tool @ lit '')''
      | None \<Rightarrow> lit ''- '' @ [34] @ bg_task_id t @ [34] @ lit '': `'' @ bg_command t @ lit ''` ('' @ bg_status t @ lit '')'')"

definition format_scheduled_loop_line :: "ScheduledLoop \<Rightarrow> rstr" where
  "format_scheduled_loop_line l =
     lit ''- '' @ [34] @ loop_task_id l @ [34] @ lit '': `'' @ collapsed_ws (loop_prompt l) @ lit ''` ('' @
     (if loop_recurring l then lit ''scheduler runs '' @ loop_interval l else lit ''scheduler one-shot'') @
     lit '', next '' @ loop_next_fire_at l @ lit '')''"

definition section_running_background :: "ActiveAgentReminderState \<Rightarrow> SubagentToolNames option \<Rightarrow> rstr option" where
  "section_running_background state subagent_tools =
     (let lines = map format_background_task_line (running_commands state) @ map format_scheduled_loop_line (scheduled_loops state)
      in if lines = [] then None
         else Some (lit ''## Running Background Tasks'' @ [10] @ lit ''These tasks are still running:'' @ [10] @ join [10] lines))"

definition section_background_tasks :: "BackgroundTask list \<Rightarrow> rstr option" where
  "section_background_tasks tasks =
     section_running_background (ActiveAgentReminderState_default\<lparr>running_commands := tasks\<rparr>) None"

definition section_scheduled_loops :: "ScheduledLoop list \<Rightarrow> rstr option" where
  "section_scheduled_loops loops =
     section_running_background (ActiveAgentReminderState_default\<lparr>scheduled_loops := loops\<rparr>) None"

definition todo_line :: "ReminderTodoItem \<Rightarrow> rstr" where
  "todo_line t = lit ''- '' @ todo_tag (todo_status t) @ lit '' '' @ todo_id t @ lit '': '' @ todo_content t"

definition todo_trailer :: "ReminderTodoItem list \<Rightarrow> rstr" where
  "todo_trailer todos =
     (let completed = length (filter (\<lambda>t. todo_status t = TodoCompleted) todos);
          cancelled = length (filter (\<lambda>t. todo_status t = TodoCancelled) todos)
      in if completed = 0 \<and> cancelled = 0 then []
         else if cancelled = 0 then [10] @ lit ''('' @ show_dec completed @ lit '' completed)''
         else if completed = 0 then [10] @ lit ''('' @ show_dec cancelled @ lit '' cancelled)''
         else [10] @ lit ''('' @ show_dec completed @ lit '' completed, '' @ show_dec cancelled @ lit '' cancelled)'')"

definition section_todo_list :: "ReminderTodoItem list \<Rightarrow> rstr option" where
  "section_todo_list todos =
     (let active = map todo_line (filter (\<lambda>t. is_actionable (todo_status t)) todos)
      in if active = [] then None
         else Some
           (lit ''## TODO List'' @ [10] @
            lit ''This is your task list from before the conversation was compacted '' @ [8212] @ lit '' it is still '' @
            lit ''active. Keep working through the items below and update their status as you make '' @
            lit ''progress:'' @ [10] @ join [10] active @ todo_trailer todos))"

definition format_subagent_line :: "RunningSubagent \<Rightarrow> rstr" where
  "format_subagent_line s =
     (let kind = (case subagent_type s of Some k \<Rightarrow> k | None \<Rightarrow> lit ''subagent'');
          command = collapsed_ws (case subagent_description s of Some d \<Rightarrow> d | None \<Rightarrow> kind)
      in lit ''- '' @ [34] @ subagent_id s @ [34] @ lit '': `'' @ command @ lit ''` (running for '' @
         show_dec (subagent_elapsed_secs s) @ lit ''s, '' @ kind @ lit '')'')"

definition section_running_subagents :: "RunningSubagent list \<Rightarrow> SubagentToolNames \<Rightarrow> rstr option" where
  "section_running_subagents subagents tools =
     (if subagents = [] then None
      else Some
        (lit ''## Running Subagents'' @ [10] @
         lit ''These subagents were launched before this compaction and are still running. '' @
         lit ''Use `'' @ poll_tool tools @ lit ''` with the subagent_id to check their status or retrieve results. '' @
         lit ''Use `'' @ cancel_tool tools @ lit ''` with the subagent_id to cancel a subagent.'' @ [10] @
         join [10] (map format_subagent_line subagents)))"

definition format_workflow_line :: "WorkflowRun \<Rightarrow> rstr" where
  "format_workflow_line run =
     (let head =
            lit ''- Workflow '' @ [39] @ run_name run @ [39] @ lit '' (run id `'' @ run_id run @ lit ''`) '' @ [8212] @ lit '' status: '' @
            run_status run @
            (case run_current_phase run of Some phase \<Rightarrow> lit '', phase: '' @ phase | None \<Rightarrow> []) @
            lit '' (running for '' @ show_dec (run_elapsed_secs run) @ lit ''s)'';
          objective =
            (case run_objective run of
               Some o_ \<Rightarrow> if o_ = [] then [] else [lit ''  Objective: '' @ collapsed_ws o_]
             | None \<Rightarrow> []);
          agents =
            (case run_agent_budget run of
               Some budget \<Rightarrow> [lit ''  Agents: '' @ show_dec (run_agents_used run) @ lit '' of '' @ show_dec budget @ lit '' budget'']
             | None \<Rightarrow> if 0 < run_agents_used run then [lit ''  Agents: '' @ show_dec (run_agents_used run)] else [])
      in join [10] ([head] @ objective @ agents))"

definition section_workflows :: "WorkflowRun list \<Rightarrow> rstr option \<Rightarrow> rstr option" where
  "section_workflows workflows tool_name =
     (if workflows = [] then None
      else Some
        (lit ''## Running Workflows'' @ [10] @ lit ''These workflows are currently running:'' @ [10] @
         join [10]
           (map format_workflow_line workflows @
            [case tool_name of
               Some tool \<Rightarrow> lit ''  Use `'' @ tool @ lit ''` to inspect or resume a paused run. Keep run ids internal.''
             | None \<Rightarrow>
                 lit ''  Keep workflow run ids internal '' @ [8212] @ lit '' the user knows runs by display name.''])))"

definition format_active_agent_sections :: "ActiveAgentReminderState \<Rightarrow> SubagentToolNames option \<Rightarrow> rstr list" where
  "format_active_agent_sections state subagent_tools =
     (let opt = (\<lambda>s. case s of Some x \<Rightarrow> [x] | None \<Rightarrow> [])
      in opt (section_running_background state subagent_tools) @
         opt (section_workflows (reminder_workflows state) (workflow_tool state)) @
         opt (section_todo_list (reminder_todos state)) @
         (case subagent_tools of
            Some tools \<Rightarrow> opt (section_running_subagents (running_subagents state) tools)
          | None \<Rightarrow> []))"

fun wrap_loop :: "rstr list \<Rightarrow> rstr \<Rightarrow> rstr" where
  "wrap_loop [] body = body"
| "wrap_loop (s # sections) body =
     (if trim s = [] then wrap_loop sections body
      else wrap_loop sections ((if body = [] then body else body @ [10, 10]) @ s))"

definition wrap_system_reminder :: "rstr list \<Rightarrow> rstr option" where
  "wrap_system_reminder sections =
     (let body = wrap_loop sections []
      in if body = [] then None
         else Some (lit ''<system-reminder>'' @ [10] @ body @ [10] @ lit ''</system-reminder>''))"

definition format_active_agent_reminder :: "ActiveAgentReminderState \<Rightarrow> SubagentToolNames option \<Rightarrow> rstr option" where
  "format_active_agent_reminder state subagent_tools = wrap_system_reminder (format_active_agent_sections state subagent_tools)"

definition append_reminder_block :: "rstr \<Rightarrow> rstr option \<Rightarrow> rstr" where
  "append_reminder_block summary reminder =
     (case reminder of
        Some r \<Rightarrow> if trim r \<noteq> [] then summary @ [10, 10] @ r else summary
      | None \<Rightarrow> summary)"

section \<open>Nothing that runs is forgotten\<close>

text \<open>The lines the state stands for, by the section they belong to.\<close>

definition running_lines :: "ActiveAgentReminderState \<Rightarrow> SubagentToolNames option \<Rightarrow> rstr list" where
  "running_lines state tools =
     map format_background_task_line (running_commands state) @ map format_scheduled_loop_line (scheduled_loops state) @
     map format_workflow_line (reminder_workflows state) @
     map todo_line (filter (\<lambda>t. is_actionable (todo_status t)) (reminder_todos state)) @
     (if tools = None then [] else map format_subagent_line (running_subagents state))"

lemma sublist_append_mono: "sublist x a \<Longrightarrow> sublist x (a @ b)" "sublist x b \<Longrightarrow> sublist x (a @ b)"
  by (metis sublist_append)+

lemma sublist_join: "w \<in> set ws \<Longrightarrow> sublist w (join sep ws)"
proof (induction sep ws rule: join.induct)
  case (3 sep w v ws)
  then show ?case by (auto intro: sublist_append_mono)
qed auto

lemma wrap_loop_mono: "sublist x body \<Longrightarrow> sublist x (wrap_loop ss body)"
proof (induction ss arbitrary: body)
  case (Cons a ss)
  have "sublist x ((if body = [] then body else body @ [10, 10]) @ a)"
    using sublist_append_mono(1) [OF Cons.prems] by (cases "body = []") (use Cons.prems in simp_all)
  then show ?case using Cons.IH Cons.prems by simp
qed simp

lemma wrap_loop_sublist: "s \<in> set ss \<Longrightarrow> trim s \<noteq> [] \<Longrightarrow> sublist s (wrap_loop ss body)"
proof (induction ss arbitrary: body)
  case (Cons a ss)
  show ?case
  proof (cases "s = a")
    case True
    have "sublist s ((if body = [] then body else body @ [10, 10]) @ s)" by (rule sublist_append_mono(2)) simp
    then show ?thesis using True Cons.prems wrap_loop_mono by simp
  next
    case False
    then show ?thesis using Cons by simp
  qed
qed simp

lemma sublist_pre: "sublist x b \<Longrightarrow> sublist x (a @ b)" "sublist x b \<Longrightarrow> sublist x (c # b)"
  by (auto intro: sublist_append_mono simp: sublist_Cons_right)

lemma trim_solid: "s \<noteq> [] \<Longrightarrow> \<not> is_whitespace (hd s) \<Longrightarrow> trim s \<noteq> []"
  by (cases s) (auto simp: trim_def trim_start_def trim_end_def)

lemma wrap_loop_Nil: "wrap_loop ss body = [] \<longleftrightarrow> body = [] \<and> list_all (\<lambda>s. trim s = []) ss"
proof (induction ss arbitrary: body)
  case (Cons a ss)
  show ?case
  proof (cases "trim a = []")
    case True
    then show ?thesis using Cons.IH [of body] by simp
  next
    case False
    then have "a \<noteq> []" by auto
    then show ?thesis using False Cons.IH [of "(if body = [] then body else body @ [10, 10]) @ a"] by simp
  qed
qed simp

lemma background_section:
  assumes "l \<in> set (map format_background_task_line (running_commands state) @ map format_scheduled_loop_line (scheduled_loops state))"
  shows "\<exists>s. section_running_background state tools = Some s \<and> hd s = 35 \<and> s \<noteq> [] \<and> sublist l s"
  using sublist_join [OF assms, of "[10]"] assms
  by (auto simp: section_running_background_def Let_def intro!: sublist_pre simp del: map_append set_append)

lemma workflow_section:
  assumes "l \<in> set (map format_workflow_line runs)"
  shows "\<exists>s. section_workflows runs tool = Some s \<and> hd s = 35 \<and> s \<noteq> [] \<and> sublist l s"
proof -
  have "l \<in> set (map format_workflow_line runs @ [x])" for x using assms by simp
  from sublist_join [OF this, of "[10]"] show ?thesis
    using assms by (cases runs) (auto simp: section_workflows_def intro!: sublist_pre simp del: list.map append.simps)
qed

lemma todo_section:
  assumes "l \<in> set (map todo_line (filter (\<lambda>t. is_actionable (todo_status t)) todos))"
  shows "\<exists>s. section_todo_list todos = Some s \<and> hd s = 35 \<and> s \<noteq> [] \<and> sublist l s"
proof -
  let ?ls = "map todo_line (filter (\<lambda>t. is_actionable (todo_status t)) todos)"
  have sub: "sublist l (join [10] ?ls @ trailer)" for trailer using sublist_join [OF assms] by (rule sublist_append_mono(1))
  have "filter (\<lambda>t. is_actionable (todo_status t)) todos \<noteq> []" using assms by (auto simp: filter_empty_conv)
  then show ?thesis by (simp add: section_todo_list_def Let_def del: filter_empty_conv) (intro sublist_pre sub)
qed

lemma subagent_section:
  assumes "l \<in> set (map format_subagent_line subagents)"
  shows "\<exists>s. section_running_subagents subagents tools = Some s \<and> hd s = 35 \<and> s \<noteq> [] \<and> sublist l s"
  using sublist_join [OF assms, of "[10]"] assms
  by (cases subagents) (auto simp: section_running_subagents_def intro!: sublist_pre simp del: list.map)

lemma section_lines:
  assumes "l \<in> set (running_lines state tools)"
  shows "\<exists>s \<in> set (format_active_agent_sections state tools). trim s \<noteq> [] \<and> sublist l s"
proof -
  from assms consider
      "l \<in> set (map format_background_task_line (running_commands state) @ map format_scheduled_loop_line (scheduled_loops state))"
    | "l \<in> set (map format_workflow_line (reminder_workflows state))"
    | "l \<in> set (map todo_line (filter (\<lambda>t. is_actionable (todo_status t)) (reminder_todos state)))"
    | t where "tools = Some t" "l \<in> set (map format_subagent_line (running_subagents state))"
    by (auto simp: running_lines_def split: if_splits)
  then have "\<exists>s \<in> set (format_active_agent_sections state tools). hd s = 35 \<and> s \<noteq> [] \<and> sublist l s"
  proof cases
    case 1
    then show ?thesis using background_section [OF 1, of tools] by (auto simp: format_active_agent_sections_def Let_def)
  next
    case 2
    then show ?thesis using workflow_section [OF 2, of "workflow_tool state"] by (auto simp: format_active_agent_sections_def Let_def)
  next
    case 3
    then show ?thesis using todo_section [OF 3] by (auto simp: format_active_agent_sections_def Let_def)
  next
    case 4
    then show ?thesis using subagent_section [OF 4(2), of t] by (auto simp: format_active_agent_sections_def Let_def)
  qed
  then show ?thesis using trim_solid by (fastforce simp: is_whitespace_def)
qed

lemma no_lines_no_sections: "running_lines state tools = [] \<Longrightarrow> format_active_agent_sections state tools = []"
  by (auto simp: running_lines_def format_active_agent_sections_def section_running_background_def section_workflows_def
      section_todo_list_def section_running_subagents_def Let_def simp del: lit_simps split: if_splits option.splits)

text \<open>
  the line of every running command, scheduled loop, workflow run and open todo, and of every subagent when the names
  of its tools are known, stands verbatim (with its id) in the reminder, and so in the summary the reminder is appended to,
  after the summary itself. There is no reminder only when there is no such line.
\<close>

lemma running_state_survives:
  assumes "l \<in> set (running_lines state tools)"
  shows "\<exists>r. format_active_agent_reminder state tools = Some r \<and> contains_str r l \<and>
    append_reminder_block summary (Some r) = summary @ [10, 10] @ r"
proof -
  obtain s where s: "s \<in> set (format_active_agent_sections state tools)" "trim s \<noteq> []" "sublist l s"
    using section_lines [OF assms] by blast
  let ?body = "wrap_loop (format_active_agent_sections state tools) []"
  let ?r = "lit ''<system-reminder>'' @ [10] @ ?body @ [10] @ lit ''</system-reminder>''"
  have "?body \<noteq> []" using s by (auto simp: wrap_loop_Nil list_all_iff)
  then have r: "format_active_agent_reminder state tools = Some ?r"
    by (simp add: format_active_agent_reminder_def wrap_system_reminder_def Let_def del: lit_simps)
  have "sublist l ?body" using wrap_loop_sublist [OF s(1,2), of "[]"] s(3) sublist_order.order.trans by blast
  then have "sublist l ?r" by (intro sublist_append_mono)
  moreover have "trim ?r \<noteq> []" by (rule trim_solid) (simp_all add: is_whitespace_def)
  ultimately show ?thesis using r by (auto simp: contains_iff append_reminder_block_def simp del: lit_simps)
qed

definition sample_running :: ActiveAgentReminderState where
  "sample_running = ActiveAgentReminderState_default
     \<lparr>running_commands := [\<lparr>bg_task_id = lit ''t1'', bg_command = lit ''make'', bg_status = lit ''running'', bg_tool_name = None\<rparr>]\<rparr>"

theorem running_state_survives_witness:
  "\<exists>r. format_active_agent_reminder sample_running None = Some r \<and>
    contains_str r (lit ''- '' @ [34] @ lit ''t1'' @ [34] @ lit '': `make` (running)'') \<and>
    append_reminder_block (lit ''S'') (Some r) = lit ''S'' @ [10, 10] @ r"
  by (rule running_state_survives)
    (simp add: running_lines_def sample_running_def ActiveAgentReminderState_default_def format_background_task_line_def)

text \<open>
  A state that counts as not empty may have no reminder: subagents are left out when the names of the tools that
  poll and cancel them are unknown.
\<close>

lemma no_reminder_iff: "format_active_agent_reminder state tools = None \<longleftrightarrow> running_lines state tools = []"
proof
  show "running_lines state tools = []" if "format_active_agent_reminder state tools = None"
  proof (rule ccontr)
    assume "running_lines state tools \<noteq> []"
    then obtain l where "l \<in> set (running_lines state tools)" by (cases "running_lines state tools") auto
    then obtain s where "s \<in> set (format_active_agent_sections state tools)" "trim s \<noteq> []" using section_lines by blast
    then have "wrap_loop (format_active_agent_sections state tools) [] \<noteq> []" by (auto simp: wrap_loop_Nil list_all_iff)
    with that show False by (simp add: format_active_agent_reminder_def wrap_system_reminder_def Let_def)
  qed
  show "format_active_agent_reminder state tools = None" if "running_lines state tools = []"
    using no_lines_no_sections [OF that] by (simp add: format_active_agent_reminder_def wrap_system_reminder_def)
qed

end
