(* ===== verification/Compact_Intra.thy ===== *)
theory Compact_Intra
  imports Compact_Fit Compact_Sample Compact_Reminder Float64
begin

text \<open>
  \<open>intra_compaction\<close> (\<open>config.rs\<close>, \<open>trigger.rs\<close>, \<open>traits.rs\<close>, \<open>compact.rs\<close>) of \<open>xai-grok-compaction\<close>: when a running
  agent compacts its own context, and the passes that do it. The trait \<open>CompactionStreamProc\<close>, implemented outside
  the sources, is the record \<open>stream_ops\<close> over an unknown state; what its documentation promises is
  \<open>stream_contract\<close>. A run carries that state, the number of sampler calls and what the observer was told. Clocks
  are left out, and the embedded prompt texts are arguments.
\<close>

section \<open>Configuration and trigger\<close>

datatype IntraCompactionMode = FullReplaceMode | StepsOnly | HistoryOnly | HistoryThenSteps

datatype IntraSummarizer = SharedSummarizer | LegacySummarizer

record IntraCompactionConfig =
  intra_enabled :: bool
  intra_mode :: IntraCompactionMode
  trigger_threshold_percent :: nat
  min_steps_before_compact :: nat
  min_compactable_tokens :: nat
  max_reduction_ratio :: f64
  compaction_model_name :: "rstr option"
  intra_sampling_timeout_secs :: nat
  intra_max_attempts :: nat
  intra_retry_delay_secs :: nat
  compaction_version :: rstr
  summarizer :: IntraSummarizer
  target_threshold_percent :: nat
  steps_trigger_ratio :: f64
  user_message_truncate_chars :: nat

definition DEFAULT_COMPACTION_MODEL_NAME :: rstr where
  "DEFAULT_COMPACTION_MODEL_NAME = lit ''grok-4.20''"

definition effective_compaction_model_name :: "IntraCompactionConfig \<Rightarrow> rstr" where
  "effective_compaction_model_name c =
     (case compaction_model_name c of
        Some s \<Rightarrow> if trim s \<noteq> [] then trim s else DEFAULT_COMPACTION_MODEL_NAME
      | None \<Rightarrow> DEFAULT_COMPACTION_MODEL_NAME)"

text \<open>The doubles nearest to 0.8 and 0.3.\<close>

definition IntraCompactionConfig_default :: IntraCompactionConfig where
  "IntraCompactionConfig_default =
     \<lparr>intra_enabled = False, intra_mode = FullReplaceMode, trigger_threshold_percent = 85, min_steps_before_compact = 3,
      min_compactable_tokens = 5000, max_reduction_ratio = F64_Fin False 3602879701896397 52,
      compaction_model_name = Some DEFAULT_COMPACTION_MODEL_NAME, intra_sampling_timeout_secs = 120,
      intra_max_attempts = 2, intra_retry_delay_secs = 3, compaction_version = lit ''intra-v1'',
      summarizer = SharedSummarizer, target_threshold_percent = 50,
      steps_trigger_ratio = F64_Fin False 5404319552844595 54, user_message_truncate_chars = 3000\<rparr>"

record IntraCompactionTrigger =
  last_prompt_tokens :: nat
  context_window :: nat
  trigger_percent :: nat
  trigger_step :: nat

text \<open>\<open>(context_window as u64 * percent as u64 / 100) as u32\<close>.\<close>

definition percent_of_window :: "nat \<Rightarrow> nat \<Rightarrow> nat" where
  "percent_of_window window percent = (window * percent div 100) mod 2 ^ 32"

definition should_compact :: "IntraCompactionConfig \<Rightarrow> nat \<Rightarrow> nat \<Rightarrow> nat \<Rightarrow> IntraCompactionTrigger option" where
  "should_compact policy last_prompt window current_step =
     (if \<not> intra_enabled policy then None
      else if window = 0 then None
      else if intra_mode policy \<noteq> FullReplaceMode \<and> current_step < min_steps_before_compact policy then None
      else if last_prompt \<le> percent_of_window window (trigger_threshold_percent policy) then None
      else Some \<lparr>last_prompt_tokens = last_prompt, context_window = window,
                 trigger_percent = min (last_prompt * 100 div window) 100, trigger_step = current_step\<rparr>)"

section \<open>Results and errors\<close>

record IntraCompactionResult =
  tokens_before :: nat
  tokens_after :: nat
  turns_compacted :: nat
  result_summary :: rstr

datatype IntraCompactionError =
    NothingToCompact
  | IntraTimeout
  | IntraEmptyResponse
  | InsufficientReduction nat nat
  | InvalidSplit nat nat
  | Unsupported
  | SamplerBuild rstr
  | SamplerStart rstr
  | SamplerStream rstr
  | ContextOverflow rstr
  | Apply rstr

definition error_status_label :: "IntraCompactionError \<Rightarrow> rstr" where
  "error_status_label err =
     (case err of
        NothingToCompact \<Rightarrow> lit ''nothing_to_compact''
      | IntraTimeout \<Rightarrow> lit ''timeout''
      | IntraEmptyResponse \<Rightarrow> lit ''empty_response''
      | InsufficientReduction _ _ \<Rightarrow> lit ''insufficient_reduction''
      | InvalidSplit _ _ \<Rightarrow> lit ''invalid_split''
      | Unsupported \<Rightarrow> lit ''unsupported''
      | SamplerBuild _ \<Rightarrow> lit ''sampler_build''
      | SamplerStart _ \<Rightarrow> lit ''sampler_start''
      | SamplerStream _ \<Rightarrow> lit ''sampler_stream''
      | ContextOverflow _ \<Rightarrow> lit ''context_overflow''
      | Apply _ \<Rightarrow> lit ''apply'')"

definition IntraCompactionError_fmt :: "IntraCompactionError \<Rightarrow> rstr" where
  "IntraCompactionError_fmt err =
     (case err of
        NothingToCompact \<Rightarrow> lit ''nothing to compact''
      | IntraTimeout \<Rightarrow> lit ''compaction LLM call timed out''
      | IntraEmptyResponse \<Rightarrow> lit ''compaction LLM returned empty response''
      | InsufficientReduction before after \<Rightarrow>
          lit ''insufficient reduction: '' @ show_dec after @ lit '' > '' @ show_dec before @ lit '' * ratio''
      | InvalidSplit requested available \<Rightarrow>
          lit ''invalid split: requested '' @ show_dec requested @ lit '', only '' @ show_dec available @ lit '' available''
      | Unsupported \<Rightarrow> lit ''intra-compaction not supported by this parser variant''
      | SamplerBuild msg \<Rightarrow> lit ''compaction sampler build failed: '' @ msg
      | SamplerStart msg \<Rightarrow> lit ''compaction sampler start failed: '' @ msg
      | SamplerStream msg \<Rightarrow> lit ''compaction sampler error: '' @ msg
      | ContextOverflow msg \<Rightarrow> lit ''compaction input exceeds size limits: '' @ msg
      | Apply msg \<Rightarrow> lit ''apply failed: '' @ msg)"

section \<open>The stream processor\<close>

datatype CompactionTarget = StepsTarget | HistoryTarget | FullReplaceTarget

definition CompactionTarget_label :: "CompactionTarget \<Rightarrow> rstr" where
  "CompactionTarget_label t =
     (case t of StepsTarget \<Rightarrow> lit ''steps'' | HistoryTarget \<Rightarrow> lit ''history'' | FullReplaceTarget \<Rightarrow> lit ''full_replace'')"

record ('p, 'a) stream_ops =
  get_accumulated_turns :: "'p \<Rightarrow> 'a list"
  get_history_turns :: "'p \<Rightarrow> 'a list"
  replace_with_compaction :: "'p \<Rightarrow> CompactionTarget \<Rightarrow> nat \<Rightarrow> 'a \<Rightarrow> 'p \<times> IntraCompactionError option"

definition get_all_turns :: "('p, 'a) stream_ops \<Rightarrow> 'p \<Rightarrow> 'a list" where
  "get_all_turns P p = get_history_turns P p @ get_accumulated_turns P p"

text \<open>What the observer was told.\<close>

datatype IntraEvent =
    PassSucceeded CompactionTarget nat nat nat
  | PassFailed rstr

record 'p intra_run =
  proc :: 'p
  calls :: nat
  events :: "IntraEvent list"

record intra_prompts =
  full_replace_template :: rstr
  steps_prompt :: CompactionPrompt
  history_prompt :: CompactionPrompt

section \<open>Sampling\<close>

definition compaction_sample_error_to_intra :: "CompactionSampleError \<Rightarrow> IntraCompactionError" where
  "compaction_sample_error_to_intra err =
     (case err of
        SampleTimeout _ _ \<Rightarrow> IntraTimeout
      | SampleBuild msg \<Rightarrow> SamplerBuild msg
      | SampleStart msg \<Rightarrow> SamplerStart msg
      | SampleContextOverflow msg \<Rightarrow> ContextOverflow msg
      | SampleEmptyResponse \<Rightarrow> IntraEmptyResponse
      | SampleOther msg \<Rightarrow>
          if contains_str msg (lit ''Failed to build'') then SamplerBuild msg
          else if contains_str msg (lit ''Failed to start'') then SamplerStart msg
          else if contains_str msg (lit ''no response channel content'') then IntraEmptyResponse
          else SamplerStream msg)"

definition is_transient :: "IntraCompactionError \<Rightarrow> bool" where
  "is_transient err =
     (case err of
        IntraTimeout \<Rightarrow> True
      | IntraEmptyResponse \<Rightarrow> True
      | SamplerStream _ \<Rightarrow> True
      | SamplerStart _ \<Rightarrow> True
      | _ \<Rightarrow> False)"

function legacy_attempts ::
  "'a sampler \<Rightarrow> 'a list \<Rightarrow> CompactionPrompt \<Rightarrow> nat \<Rightarrow> nat \<Rightarrow> nat \<Rightarrow> IntraCompactionError option \<Rightarrow>
   (IntraCompactionError + rstr) \<times> nat" where
  "legacy_attempts sampler turns prompt max_attempts attempt n last_err =
     (if max_attempts < attempt
      then (Inl (case last_err of Some e \<Rightarrow> e | None \<Rightarrow> IntraEmptyResponse), n)
      else case sampler n turns prompt of
             Inr output \<Rightarrow> (Inr (response output), n + 1)
           | Inl e \<Rightarrow>
               let intra_err = compaction_sample_error_to_intra e
               in if is_transient intra_err \<and> attempt < max_attempts
                  then legacy_attempts sampler turns prompt max_attempts (attempt + 1) (n + 1) (Some intra_err)
                  else (Inl intra_err, n + 1))"
  by pat_completeness auto
termination by (relation "measure (\<lambda>(_, _, _, m, a, _, _). Suc m - a)") auto

declare legacy_attempts.simps [simp del]

definition sample_compaction_with_retries ::
  "'a sampler \<Rightarrow> 'a list \<Rightarrow> CompactionPrompt \<Rightarrow> IntraCompactionConfig \<Rightarrow> nat \<Rightarrow> (IntraCompactionError + rstr) \<times> nat" where
  "sample_compaction_with_retries sampler turns prompt policy n =
     legacy_attempts sampler turns prompt (max (intra_max_attempts policy) 1) 1 n None"

definition sample_shared_summary_with_retries ::
  "intra_prompts \<Rightarrow> 'a sampler \<Rightarrow> 'a list \<Rightarrow> IntraCompactionConfig \<Rightarrow> nat \<Rightarrow> (IntraCompactionError + rstr) \<times> nat" where
  "sample_shared_summary_with_retries prompts sampler turns policy n =
     (case sample_summary_with_retries sampler turns
             \<lparr>prompt_system = [], prompt_user = build_summary_prompt (full_replace_template prompts) None\<rparr>
             (intra_max_attempts policy) n of
        (Inr s, k, _) \<Rightarrow> (Inr (format_compact_summary (sampled_summary s)), k)
      | (Inl (RetryEmpty _), k, _) \<Rightarrow> (Inl IntraEmptyResponse, k)
      | (Inl (RetryFailure message deterministic context_overflow _), k, _) \<Rightarrow>
          (Inl (if context_overflow then ContextOverflow message
                else if deterministic then SamplerBuild message
                else SamplerStream message), k))"

section \<open>One pass over steps or history\<close>

text \<open>The guard of every pass, then the commit and the report to the observer.\<close>

definition commit_pass ::
  "'a item_ops \<Rightarrow> ('p, 'a) stream_ops \<Rightarrow> IntraCompactionConfig \<Rightarrow> CompactionTarget \<Rightarrow> nat \<Rightarrow> nat \<Rightarrow> rstr \<Rightarrow> 'p intra_run \<Rightarrow>
   (IntraCompactionError + IntraCompactionResult) \<times> 'p intra_run" where
  "commit_pass I P policy target n before summary run =
     (let compaction_turn = compaction_summary_item I summary;
          after = count_item_tokens I compaction_turn
      in if 0 < before \<and> scaled_u32 before (max_reduction_ratio policy) < after
         then (Inl (InsufficientReduction before after), run)
         else case replace_with_compaction P (proc run) target n compaction_turn of
                (p, Some e) \<Rightarrow> (Inl e, run\<lparr>proc := p\<rparr>)
              | (p, None) \<Rightarrow>
                  (Inr \<lparr>tokens_before = before, tokens_after = after, turns_compacted = n mod 2 ^ 32, result_summary = summary\<rparr>,
                   run\<lparr>proc := p, events := events run @ [PassSucceeded target before after (n mod 2 ^ 32)]\<rparr>))"

text \<open>
  The turns of the target's view, split; the summary the policy asks for, with the block of user queries before it
  when history is summarised. Only \<open>StepsTarget\<close> and \<open>HistoryTarget\<close> are passed here.
\<close>

definition source_turns :: "('p, 'a) stream_ops \<Rightarrow> CompactionTarget \<Rightarrow> 'p \<Rightarrow> 'a list" where
  "source_turns P target p = (if target = HistoryTarget then get_history_turns P p else get_accumulated_turns P p)"

definition pass_plan ::
  "'a item_ops \<Rightarrow> IntraCompactionConfig \<Rightarrow> IntraCompactionTrigger \<Rightarrow> 'a list \<Rightarrow> SplitPlan option" where
  "pass_plan I policy trigger turns =
     select_turns_to_compact I (token_counts I turns) turns
       (percent_of_window (context_window trigger) (target_threshold_percent policy)) (min_compactable_tokens policy)"

definition separated_turns :: "'a item_ops \<Rightarrow> CompactionTarget \<Rightarrow> 'a list \<Rightarrow> 'a list \<times> rstr option" where
  "separated_turns I target turns =
     (if target = HistoryTarget
      then let sep = separate_prior_user_queries I turns in (turns_for_llm sep, prior_user_queries sep)
      else (turns, None))"

definition build_prompt_for_target :: "intra_prompts \<Rightarrow> CompactionTarget \<Rightarrow> CompactionPrompt" where
  "build_prompt_for_target prompts target = (if target = HistoryTarget then history_prompt prompts else steps_prompt prompts)"

definition sample_for_target ::
  "intra_prompts \<Rightarrow> 'a sampler \<Rightarrow> IntraCompactionConfig \<Rightarrow> CompactionTarget \<Rightarrow> 'a list \<Rightarrow> nat \<Rightarrow> (IntraCompactionError + rstr) \<times> nat" where
  "sample_for_target prompts sampler policy target turns n =
     (case summarizer policy of
        LegacySummarizer \<Rightarrow>
          sample_compaction_with_retries sampler turns (build_prompt_for_target prompts target) policy n
      | SharedSummarizer \<Rightarrow> sample_shared_summary_with_retries prompts sampler turns policy n)"

definition final_summary_text ::
  "'a item_ops \<Rightarrow> IntraCompactionConfig \<Rightarrow> CompactionTarget \<Rightarrow> 'a list \<Rightarrow> rstr option \<Rightarrow> rstr \<Rightarrow> rstr" where
  "final_summary_text I policy target turns_to_compact prior summary_text =
     (if target = HistoryTarget
      then assemble_user_queries_preamble prior
             (extract_user_queries_from_turns I turns_to_compact (user_message_truncate_chars policy)) @ summary_text
      else summary_text)"

definition compact_one_pass ::
  "'a item_ops \<Rightarrow> ('p, 'a) stream_ops \<Rightarrow> intra_prompts \<Rightarrow> 'a sampler \<Rightarrow> IntraCompactionConfig \<Rightarrow> IntraCompactionTrigger \<Rightarrow>
   CompactionTarget \<Rightarrow> 'p intra_run \<Rightarrow> (IntraCompactionError + IntraCompactionResult) \<times> 'p intra_run" where
  "compact_one_pass I P prompts sampler policy trigger target run =
     (let turns = source_turns P target (proc run)
      in if turns = [] then (Inl NothingToCompact, run)
         else case pass_plan I policy trigger turns of
                None \<Rightarrow> (Inl NothingToCompact, run)
              | Some plan \<Rightarrow>
                  let turns_to_compact = take (split_idx plan) turns;
                      (llm, prior) = separated_turns I target turns_to_compact
                  in case sample_for_target prompts sampler policy target llm (calls run) of
                       (Inl e, n) \<Rightarrow> (Inl e, run\<lparr>calls := n\<rparr>)
                     | (Inr summary_text, n) \<Rightarrow>
                         commit_pass I P policy target (split_idx plan) (tokens_to_compact plan)
                           (final_summary_text I policy target turns_to_compact prior summary_text) (run\<lparr>calls := n\<rparr>))"

definition apply_steps_compaction ::
  "'a item_ops \<Rightarrow> ('p, 'a) stream_ops \<Rightarrow> intra_prompts \<Rightarrow> 'a sampler \<Rightarrow> IntraCompactionConfig \<Rightarrow> IntraCompactionTrigger \<Rightarrow>
   'p intra_run \<Rightarrow> (IntraCompactionError + IntraCompactionResult) \<times> 'p intra_run" where
  "apply_steps_compaction I P prompts sampler policy trigger run =
     compact_one_pass I P prompts sampler policy trigger StepsTarget run"

definition apply_history_compaction ::
  "'a item_ops \<Rightarrow> ('p, 'a) stream_ops \<Rightarrow> intra_prompts \<Rightarrow> 'a sampler \<Rightarrow> IntraCompactionConfig \<Rightarrow> IntraCompactionTrigger \<Rightarrow>
   'p intra_run \<Rightarrow> (IntraCompactionError + IntraCompactionResult) \<times> 'p intra_run" where
  "apply_history_compaction I P prompts sampler policy trigger run =
     compact_one_pass I P prompts sampler policy trigger HistoryTarget run"

section \<open>Full replacement\<close>

text \<open>
  The sum of the token counts is an unchecked \<open>u32\<close> sum: it wraps in a release build (and panics in a debug
  build when the counts exceed the type).
\<close>

definition apply_full_replace_compaction ::
  "'a item_ops \<Rightarrow> ('p, 'a) stream_ops \<Rightarrow> intra_prompts \<Rightarrow> 'a sampler \<Rightarrow> IntraCompactionConfig \<Rightarrow>
   rstr option \<Rightarrow> nat option \<Rightarrow> 'p intra_run \<Rightarrow> (IntraCompactionError + IntraCompactionResult) \<times> 'p intra_run" where
  "apply_full_replace_compaction I P prompts sampler policy active_reminder summarizer_input_budget run =
     (let history = get_history_turns P (proc run);
          steps = get_accumulated_turns P (proc run);
          total = length history + length steps;
          before = sum_list (map (count_item_tokens I) (history @ steps)) mod 2 ^ 32
      in if total = 0 then (Inl NothingToCompact, run)
         else if before < min_compactable_tokens policy then (Inl NothingToCompact, run)
         else case (case summarizer_input_budget of
                      Some budget \<Rightarrow>
                        let plan = fit_turns_for_summarizer I history steps budget
                        in if llm_turns plan = [] \<or> tokens_fit plan = 0 then None else Some (llm_turns plan)
                    | None \<Rightarrow> Some (history @ steps)) of
                None \<Rightarrow> (Inl NothingToCompact, run)
              | Some llm \<Rightarrow>
                  (case sample_shared_summary_with_retries prompts sampler llm policy (calls run) of
                     (Inl e, n) \<Rightarrow> (Inl e, run\<lparr>calls := n\<rparr>)
                   | (Inr summary_text, n) \<Rightarrow>
                       commit_pass I P policy FullReplaceTarget total before
                         (append_reminder_block summary_text active_reminder) (run\<lparr>calls := n\<rparr>)))"

section \<open>History, then steps\<close>

definition steps_exceed_ratio :: "'a item_ops \<Rightarrow> ('p, 'a) stream_ops \<Rightarrow> IntraCompactionConfig \<Rightarrow> 'p \<Rightarrow> bool" where
  "steps_exceed_ratio I P policy p =
     (let steps_tokens = sum_list (map (count_item_tokens I) (get_accumulated_turns P p));
          history_tokens = sum_list (map (count_item_tokens I) (get_history_turns P p))
      in f64_as_uint u64_max (f64_ceil (f64_mul (f64_of_nat history_tokens) (steps_trigger_ratio policy))) < steps_tokens)"

definition join_results :: "IntraCompactionResult \<Rightarrow> IntraCompactionResult \<Rightarrow> IntraCompactionResult" where
  "join_results h s =
     \<lparr>tokens_before = add32 (tokens_before h) (tokens_before s),
      tokens_after = add32 (tokens_after h) (tokens_after s),
      turns_compacted = add32 (turns_compacted h) (turns_compacted s),
      result_summary =
        (if result_summary h \<noteq> [] \<and> result_summary s \<noteq> [] then result_summary h @ [10, 10] @ result_summary s
         else if result_summary h \<noteq> [] then result_summary h
         else result_summary s)\<rparr>"

definition apply_history_then_steps ::
  "'a item_ops \<Rightarrow> ('p, 'a) stream_ops \<Rightarrow> intra_prompts \<Rightarrow> 'a sampler \<Rightarrow> IntraCompactionConfig \<Rightarrow> IntraCompactionTrigger \<Rightarrow>
   'p intra_run \<Rightarrow> (IntraCompactionError + IntraCompactionResult) \<times> 'p intra_run" where
  "apply_history_then_steps I P prompts sampler policy trigger run =
     (let decide = (\<lambda>history_result run1.
            if \<not> steps_exceed_ratio I P policy (proc run1)
            then (case history_result of Some h \<Rightarrow> Inr h | None \<Rightarrow> Inl NothingToCompact, run1)
            else case apply_steps_compaction I P prompts sampler policy trigger run1 of
                   (steps_result, run2) \<Rightarrow>
                     (case (history_result, steps_result) of
                        (Some h, Inr s) \<Rightarrow> Inr (join_results h s)
                      | (Some h, Inl NothingToCompact) \<Rightarrow> Inr h
                      | (None, Inr s) \<Rightarrow> Inr s
                      | (_, Inl e) \<Rightarrow> Inl e, run2))
      in case apply_history_compaction I P prompts sampler policy trigger run of
           (Inr h, run1) \<Rightarrow> decide (Some h) run1
         | (Inl NothingToCompact, run1) \<Rightarrow> decide None run1
         | (Inl e, run1) \<Rightarrow> (Inl e, run1))"

definition apply_intra_compaction ::
  "'a item_ops \<Rightarrow> ('p, 'a) stream_ops \<Rightarrow> intra_prompts \<Rightarrow> 'a sampler \<Rightarrow> IntraCompactionConfig \<Rightarrow> IntraCompactionTrigger \<Rightarrow>
   rstr option \<Rightarrow> nat option \<Rightarrow> 'p intra_run \<Rightarrow> (IntraCompactionError + IntraCompactionResult) \<times> 'p intra_run" where
  "apply_intra_compaction I P prompts sampler policy trigger active_reminder summarizer_input_budget run =
     (case (case intra_mode policy of
              FullReplaceMode \<Rightarrow>
                apply_full_replace_compaction I P prompts sampler policy active_reminder summarizer_input_budget run
            | StepsOnly \<Rightarrow> apply_steps_compaction I P prompts sampler policy trigger run
            | HistoryOnly \<Rightarrow> apply_history_compaction I P prompts sampler policy trigger run
            | HistoryThenSteps \<Rightarrow> apply_history_then_steps I P prompts sampler policy trigger run) of
        (Inl e, r) \<Rightarrow> (Inl e, r\<lparr>events := events r @ [PassFailed (error_status_label e)]\<rparr>)
      | (Inr res, r) \<Rightarrow> (Inr res, r))"

section \<open>When a pass is due\<close>

lemma percent_of_window_exact:
  assumes "percent \<le> 100" and "window < 2 ^ 32"
  shows "percent_of_window window percent = window * percent div 100"
proof -
  have "window * percent \<le> window * 100" using assms(1) by simp
  then have "window * percent div 100 \<le> window" by (metis div_le_mono nonzero_mult_div_cancel_right zero_neq_numeral)
  then show ?thesis using assms(2) by (simp add: percent_of_window_def)
qed

text \<open>
  a pass is due exactly when compaction is enabled, the window is not empty, enough steps were made (not asked for in
  full-replace mode) and the last prompt took more than the configured share of the window, compared exactly although
  the threshold is rounded down; the percentage reported is at most 100.
\<close>

lemma should_compact_iff:
  assumes "trigger_threshold_percent policy \<le> 100" and "window < 2 ^ 32"
  shows "(should_compact policy last_prompt window step \<noteq> None \<longleftrightarrow>
      intra_enabled policy \<and> 0 < window \<and>
      (intra_mode policy = FullReplaceMode \<or> min_steps_before_compact policy \<le> step) \<and>
      window * trigger_threshold_percent policy < 100 * last_prompt) \<and>
    (\<forall>t. should_compact policy last_prompt window step = Some t \<longrightarrow>
      trigger_percent t \<le> 100 \<and> (last_prompt \<le> window \<longrightarrow> trigger_percent t = 100 * last_prompt div window))"
proof -
  have "last_prompt \<le> window * p div 100 \<longleftrightarrow> \<not> window * p < 100 * last_prompt" for p
    by (simp add: less_eq_div_iff_mult_less_eq linorder_not_less mult.commute)
  moreover have "last_prompt * 100 div window \<le> 100" if "last_prompt \<le> window" "0 < window"
    using that by (metis div_le_mono mult_le_mono1 nonzero_mult_div_cancel_left not_less_zero)
  ultimately show ?thesis
    using percent_of_window_exact [OF assms] by (auto simp: should_compact_def mult.commute [of 100])
qed

theorem should_compact_iff_witness:
  "should_compact (IntraCompactionConfig_default\<lparr>intra_enabled := True\<rparr>) 86 100 0 \<noteq> None \<and>
   should_compact (IntraCompactionConfig_default\<lparr>intra_enabled := True\<rparr>) 85 100 0 = None"
  using should_compact_iff [of "IntraCompactionConfig_default\<lparr>intra_enabled := True\<rparr>" 100 86 0]
    should_compact_iff [of "IntraCompactionConfig_default\<lparr>intra_enabled := True\<rparr>" 100 85 0]
  by (simp add: IntraCompactionConfig_default_def)

section \<open>What the stream processor promises\<close>

definition target_view :: "('p, 'a) stream_ops \<Rightarrow> CompactionTarget \<Rightarrow> 'p \<Rightarrow> 'a list" where
  "target_view P target p =
     (case target of
        StepsTarget \<Rightarrow> get_accumulated_turns P p
      | HistoryTarget \<Rightarrow> get_history_turns P p
      | FullReplaceTarget \<Rightarrow> get_all_turns P p)"

text \<open>
  A replacement that succeeds puts the given turn in place of the first \<open>n\<close> turns of the target's view, and
  leaves the other view alone.
\<close>

definition stream_contract :: "('p, 'a) stream_ops \<Rightarrow> bool" where
  "stream_contract P \<longleftrightarrow>
     (\<forall>p target n x p'. replace_with_compaction P p target n x = (p', None) \<longrightarrow>
        n \<le> length (target_view P target p) \<and>
        target_view P target p' = x # drop n (target_view P target p) \<and>
        (target = StepsTarget \<longrightarrow> get_history_turns P p' = get_history_turns P p) \<and>
        (target = HistoryTarget \<longrightarrow> get_accumulated_turns P p' = get_accumulated_turns P p))"

text \<open>A processor that keeps both views as lists.\<close>

definition list_proc :: "('a list \<times> 'a list, 'a) stream_ops" where
  "list_proc = \<lparr>get_accumulated_turns = snd, get_history_turns = fst,
     replace_with_compaction = (\<lambda>(h, s) target n x.
       case target of
         StepsTarget \<Rightarrow> if length s < n then ((h, s), Some (InvalidSplit n (length s))) else ((h, x # drop n s), None)
       | HistoryTarget \<Rightarrow> if length h < n then ((h, s), Some (InvalidSplit n (length h))) else ((x # drop n h, s), None)
       | FullReplaceTarget \<Rightarrow>
           if length h + length s < n then ((h, s), Some (InvalidSplit n (length h + length s)))
           else (([x], drop n (h @ s)), None))\<rparr>"

lemma list_proc_contract: "stream_contract list_proc"
  by (auto simp: stream_contract_def list_proc_def target_view_def get_all_turns_def split: CompactionTarget.splits if_splits)

section \<open>Commits\<close>

lemma commit_pass_cases [consumes 1, case_names insufficient failed ok]:
  fixes I :: "'a item_ops" and P :: "('p, 'a) stream_ops"
  assumes "commit_pass I P policy target n before summary run = (r, run')"
  obtains "r = Inl (InsufficientReduction before (count_item_tokens I (compaction_summary_item I summary)))" "run' = run"
  | e where "r = Inl e"
      "replace_with_compaction P (proc run) target n (compaction_summary_item I summary) = (proc run', Some e)"
      "calls run' = calls run" "events run' = events run"
  | after where "r = Inr \<lparr>tokens_before = before, tokens_after = after, turns_compacted = n mod 2 ^ 32, result_summary = summary\<rparr>"
      "after = count_item_tokens I (compaction_summary_item I summary)"
      "before = 0 \<or> after \<le> scaled_u32 before (max_reduction_ratio policy)"
      "replace_with_compaction P (proc run) target n (compaction_summary_item I summary) = (proc run', None)"
      "events run' = events run @ [PassSucceeded target before after (n mod 2 ^ 32)]"
  using assms by (force simp: commit_pass_def Let_def split: if_splits prod.splits option.splits)

lemma one_pass_Ok:
  assumes "compact_one_pass I P prompts sampler policy trigger target run = (Inr res, run')"
  obtains plan summary n where "pass_plan I policy trigger (source_turns P target (proc run)) = Some plan"
    "commit_pass I P policy target (split_idx plan) (tokens_to_compact plan) summary (run\<lparr>calls := n\<rparr>) = (Inr res, run')"
  using assms by (auto simp: compact_one_pass_def Let_def split: if_splits option.splits prod.splits sum.splits)

lemma one_pass_Err:
  assumes "compact_one_pass I P prompts sampler policy trigger target run = (Inl e, run')"
  obtains "proc run' = proc run" "events run' = events run"
  | n before summary k where
    "commit_pass I P policy target n before summary (run\<lparr>calls := k\<rparr>) = (Inl e, run')"
  using assms by (auto simp: compact_one_pass_def Let_def split: if_splits option.splits prod.splits sum.splits)

lemma full_replace_Ok:
  assumes "apply_full_replace_compaction I P prompts sampler policy reminder budget run = (Inr res, run')"
  obtains llm body n where
    "sample_shared_summary_with_retries prompts sampler llm policy (calls run) = (Inr body, n)"
    "commit_pass I P policy FullReplaceTarget (length (get_all_turns P (proc run)))
       (sum_list (map (count_item_tokens I) (get_all_turns P (proc run))) mod 2 ^ 32)
       (append_reminder_block body reminder) (run\<lparr>calls := n\<rparr>) = (Inr res, run')"
    "get_all_turns P (proc run) \<noteq> []"
  using assms
  by (auto simp: apply_full_replace_compaction_def get_all_turns_def Let_def split: if_splits option.splits prod.splits sum.splits)

lemma full_replace_Err:
  assumes "apply_full_replace_compaction I P prompts sampler policy reminder budget run = (Inl e, run')"
  obtains "proc run' = proc run" "events run' = events run"
  | n before summary k where
    "commit_pass I P policy FullReplaceTarget n before summary (run\<lparr>calls := k\<rparr>) = (Inl e, run')"
  using assms
  by (auto simp: apply_full_replace_compaction_def Let_def split: if_splits option.splits prod.splits sum.splits)

text \<open>
  C23: a pass that fails changes the stream processor only if the processor itself failed to apply the replacement, and the
  error is then the processor's own; every other error (nothing to compact, a failed or useless summary, too little gained)
  leaves it as it was, and the observer is told of the failure alone. This covers all modes but history-then-steps.
\<close>

theorem failed_pass_keeps_state:
  assumes "intra_mode policy \<noteq> HistoryThenSteps"
    and "apply_intra_compaction I P prompts sampler policy trigger reminder budget run = (Inl e, run')"
  shows "events run' = events run @ [PassFailed (error_status_label e)] \<and>
    (proc run' = proc run \<or>
     (\<exists>target n x. replace_with_compaction P (proc run) target n x = (proc run', Some e)))"
proof -
  have commit: "events r = events run \<and> (proc r = proc run \<or>
      (\<exists>target n x. replace_with_compaction P (proc run) target n x = (proc r, Some e)))"
    if "commit_pass I P policy target n before summary (run\<lparr>calls := k\<rparr>) = (Inl e, r)" for target n before summary k r
    using that by (cases rule: commit_pass_cases) auto
  have one: "events r = events run \<and> (proc r = proc run \<or>
      (\<exists>target n x. replace_with_compaction P (proc run) target n x = (proc r, Some e)))"
    if "compact_one_pass I P prompts sampler policy trigger target run = (Inl e, r)" for target r
    using one_pass_Err [OF that] commit by metis
  have full: "events r = events run \<and> (proc r = proc run \<or>
      (\<exists>target n x. replace_with_compaction P (proc run) target n x = (proc r, Some e)))"
    if "apply_full_replace_compaction I P prompts sampler policy reminder budget run = (Inl e, r)" for r
    using full_replace_Err [OF that] commit by metis
  from assms obtain r where "run' = r\<lparr>events := events r @ [PassFailed (error_status_label e)]\<rparr>"
    "(apply_full_replace_compaction I P prompts sampler policy reminder budget run = (Inl e, r)) \<or>
     (compact_one_pass I P prompts sampler policy trigger StepsTarget run = (Inl e, r)) \<or>
     (compact_one_pass I P prompts sampler policy trigger HistoryTarget run = (Inl e, r))"
    by (auto simp: apply_intra_compaction_def apply_steps_compaction_def apply_history_compaction_def
        split: IntraCompactionMode.splits prod.splits sum.splits)
  then show ?thesis using one full by fastforce
qed

theorem failed_pass_keeps_state_witness:
  "\<exists>run'. apply_intra_compaction text_ops list_proc \<lparr>full_replace_template = [], steps_prompt = \<lparr>prompt_system = [], prompt_user = []\<rparr>,
      history_prompt = \<lparr>prompt_system = [], prompt_user = []\<rparr>\<rparr> (\<lambda>_ _ _. Inl SampleEmptyResponse) IntraCompactionConfig_default
      \<lparr>last_prompt_tokens = 9, context_window = 10, trigger_percent = 90, trigger_step = 0\<rparr> None None
      \<lparr>proc = ([], []), calls = 0, events = []\<rparr> = (Inl NothingToCompact, run') \<and> events run' = [PassFailed (lit ''nothing_to_compact'')]"
proof -
  let ?prompts = "\<lparr>full_replace_template = [], steps_prompt = \<lparr>prompt_system = [], prompt_user = []\<rparr>,
      history_prompt = \<lparr>prompt_system = [], prompt_user = []\<rparr>\<rparr>"
  let ?t = "\<lparr>last_prompt_tokens = 9, context_window = 10, trigger_percent = 90, trigger_step = 0\<rparr>"
  let ?run = "\<lparr>proc = ([], []), calls = 0, events = []\<rparr>"
  obtain run' where r: "apply_intra_compaction text_ops list_proc ?prompts (\<lambda>_ _ _. Inl SampleEmptyResponse)
      IntraCompactionConfig_default ?t None None ?run = (Inl NothingToCompact, run')"
    by (simp add: apply_intra_compaction_def apply_full_replace_compaction_def IntraCompactionConfig_default_def list_proc_def)
  have "intra_mode IntraCompactionConfig_default \<noteq> HistoryThenSteps" by (simp add: IntraCompactionConfig_default_def)
  from failed_pass_keeps_state [OF this r] r show ?thesis by (auto simp: error_status_label_def simp del: lit_simps)
qed

lemma one_pass_commit:
  assumes "stream_contract P" and "target \<noteq> FullReplaceTarget"
    and "compact_one_pass I P prompts sampler policy trigger target run = (Inr res, run')"
  obtains plan where "pass_plan I policy trigger (target_view P target (proc run)) = Some plan"
    "tokens_before res = tokens_to_compact plan"
    "tokens_after res = count_item_tokens I (compaction_summary_item I (result_summary res))"
    "tokens_before res = 0 \<or> tokens_after res \<le> scaled_u32 (tokens_before res) (max_reduction_ratio policy)"
    "target_view P target (proc run') =
       compaction_summary_item I (result_summary res) # drop (split_idx plan) (target_view P target (proc run))"
    "target = StepsTarget \<longrightarrow> get_history_turns P (proc run') = get_history_turns P (proc run)"
    "target = HistoryTarget \<longrightarrow> get_accumulated_turns P (proc run') = get_accumulated_turns P (proc run)"
proof -
  let ?v = "target_view P target (proc run)"
  have v: "source_turns P target (proc run) = ?v" using assms(2) by (cases target) (auto simp: source_turns_def target_view_def)
  from assms(3) obtain plan summary k where plan: "pass_plan I policy trigger ?v = Some plan" and
    com: "commit_pass I P policy target (split_idx plan) (tokens_to_compact plan) summary (run\<lparr>calls := k\<rparr>) = (Inr res, run')"
    by (rule one_pass_Ok) (simp add: v)
  from com have res: "tokens_before res = tokens_to_compact plan" "result_summary res = summary"
    "tokens_after res = count_item_tokens I (compaction_summary_item I summary)"
    "tokens_before res = 0 \<or> tokens_after res \<le> scaled_u32 (tokens_before res) (max_reduction_ratio policy)"
    "replace_with_compaction P (proc run) target (split_idx plan) (compaction_summary_item I summary) = (proc run', None)"
    by (cases rule: commit_pass_cases; simp)+
  note stream = assms(1) [unfolded stream_contract_def, rule_format, OF res(5)]
  show thesis by (rule that [OF plan res(1) _ res(4)]) (use stream res in auto)
qed

lemma length_token_counts: "length (token_counts I xs) = length xs"
  by (simp add: token_counts_def)

lemmas plan_select = select_Some [OF _ length_token_counts]

text \<open>
  C21: a pass over steps or history that succeeds replaces a proper, non-empty prefix of that view, and nothing else, by one
  summary item. What is kept starts at no tool result and fits the target share of the window; at least the minimum of
  tokens was summarised; and the summary takes at most the configured ratio of them, so no more than they did when the
  ratio is at most one.
\<close>

theorem pass_replaces_prefix:
  assumes "stream_contract P" and "target \<noteq> FullReplaceTarget"
    and "compact_one_pass I P prompts sampler policy trigger target run = (Inr res, run')"
  shows "\<exists>n. 0 < n \<and> n < length (target_view P target (proc run)) \<and>
    target_view P target (proc run') =
      compaction_summary_item I (result_summary res) # drop n (target_view P target (proc run)) \<and>
    (target = StepsTarget \<longrightarrow> get_history_turns P (proc run') = get_history_turns P (proc run)) \<and>
    (target = HistoryTarget \<longrightarrow> get_accumulated_turns P (proc run') = get_accumulated_turns P (proc run)) \<and>
    \<not> is_tool_result I (target_view P target (proc run) ! n) \<and>
    sum_tokens I (drop n (target_view P target (proc run))) \<le>
      percent_of_window (context_window trigger) (target_threshold_percent policy) \<and>
    tokens_before res = sum_tokens I (take n (target_view P target (proc run))) \<and>
    min_compactable_tokens policy \<le> tokens_before res \<and>
    tokens_after res = count_item_tokens I (compaction_summary_item I (result_summary res)) \<and>
    (tokens_before res = 0 \<or> tokens_after res \<le> scaled_u32 (tokens_before res) (max_reduction_ratio policy)) \<and>
    (at_most_one (max_reduction_ratio policy) \<longrightarrow> tokens_before res = 0 \<or> tokens_after res \<le> tokens_before res)"
proof -
  let ?v = "target_view P target (proc run)"
  obtain plan where plan: "pass_plan I policy trigger ?v = Some plan" and com: "tokens_before res = tokens_to_compact plan"
    "tokens_after res = count_item_tokens I (compaction_summary_item I (result_summary res))"
    "tokens_before res = 0 \<or> tokens_after res \<le> scaled_u32 (tokens_before res) (max_reduction_ratio policy)"
    "target_view P target (proc run') = compaction_summary_item I (result_summary res) # drop (split_idx plan) ?v"
    "target = StepsTarget \<longrightarrow> get_history_turns P (proc run') = get_history_turns P (proc run)"
    "target = HistoryTarget \<longrightarrow> get_accumulated_turns P (proc run') = get_accumulated_turns P (proc run)"
    by (rule one_pass_commit [OF assms])
  note sel = plan_select [OF plan [unfolded pass_plan_def]]
  have counts: "sum_counts (take n (token_counts I ?v)) = sum_tokens I (take n ?v)"
    "sum_counts (drop n (token_counts I ?v)) = sum_tokens I (drop n ?v)" for n
    by (simp_all add: sum_tokens_eq token_counts_def take_map drop_map)
  have "tokens_before res \<le> u32_max" using com(1) sel(5) by (simp add: sum_counts_eq)
  then have small: "tokens_before res < 2 ^ 53" by (simp add: u32_max_def)
  have "at_most_one (max_reduction_ratio policy) \<longrightarrow> tokens_before res = 0 \<or> tokens_after res \<le> tokens_before res"
    using com(3) scaled_u32_le [OF _ small] order_trans by blast
  then show ?thesis
    using sel [unfolded counts] com by (intro exI [of _ "split_idx plan"]) auto
qed

text \<open>
  C22: a successful pass keeps every tool result of the view behind the request it answers, if the summary item is not itself
  a tool result.
\<close>

theorem pass_keeps_pairs:
  assumes "stream_contract P" and "target \<noteq> FullReplaceTarget"
    and "compact_one_pass I P prompts sampler policy trigger target run = (Inr res, run')"
    and "paired I False (target_view P target (proc run))"
    and "\<not> is_tool_result I (compaction_summary_item I (result_summary res))"
  shows "paired I False (target_view P target (proc run'))"
proof -
  obtain plan where plan: "pass_plan I policy trigger (target_view P target (proc run)) = Some plan" and
    view: "target_view P target (proc run') =
       compaction_summary_item I (result_summary res) # drop (split_idx plan) (target_view P target (proc run))"
    by (rule one_pass_commit [OF assms(1-3)])
  note sel = plan_select [OF plan [unfolded pass_plan_def]]
  have "paired I False (drop (split_idx plan) (target_view P target (proc run)))"
    using paired_drop [OF assms(4)] sel(2,3) by simp
  then show ?thesis using view assms(5) by (simp add: paired_mono)
qed

text \<open>
  a full replacement that succeeds leaves exactly one turn of the whole conversation, the summary item. Its text is a
  cleaned summary, without live control tags, followed by the reminder of what still runs; it takes at most the configured
  ratio of the tokens before, and the observer is told of this one success.
\<close>

lemma full_replace_leaves_summary:
  assumes "stream_contract P"
    and "apply_full_replace_compaction I P prompts sampler policy reminder budget run = (Inr res, run')"
  shows "get_all_turns P (proc run') = [compaction_summary_item I (result_summary res)] \<and>
    (\<exists>clean. list_all (\<lambda>t. \<not> contains_str clean t) control_tokens \<and> result_summary res = append_reminder_block clean reminder) \<and>
    tokens_after res = count_item_tokens I (compaction_summary_item I (result_summary res)) \<and>
    (tokens_before res = 0 \<or> tokens_after res \<le> scaled_u32 (tokens_before res) (max_reduction_ratio policy)) \<and>
    events run' = events run @ [PassSucceeded FullReplaceTarget (tokens_before res) (tokens_after res) (turns_compacted res)]"
proof -
  from assms(2) obtain llm body k where
    samp: "sample_shared_summary_with_retries prompts sampler llm policy (calls run) = (Inr body, k)" and
    com: "commit_pass I P policy FullReplaceTarget (length (get_all_turns P (proc run)))
       (sum_list (map (count_item_tokens I) (get_all_turns P (proc run))) mod 2 ^ 32)
       (append_reminder_block body reminder) (run\<lparr>calls := k\<rparr>) = (Inr res, run')"
    by (rule full_replace_Ok)
  from samp obtain raw where "body = format_compact_summary raw"
    by (auto simp: sample_shared_summary_with_retries_def split: prod.splits sum.splits SampleRetryError.splits if_splits)
  then have clean: "list_all (\<lambda>t. \<not> contains_str body t) control_tokens"
    using format_clean(1) by (simp add: list_all_iff contains_iff)
  from com have res: "result_summary res = append_reminder_block body reminder"
    "tokens_after res = count_item_tokens I (compaction_summary_item I (result_summary res))"
    "tokens_before res = 0 \<or> tokens_after res \<le> scaled_u32 (tokens_before res) (max_reduction_ratio policy)"
    "events run' = events run @ [PassSucceeded FullReplaceTarget (tokens_before res) (tokens_after res) (turns_compacted res)]"
    "replace_with_compaction P (proc run) FullReplaceTarget (length (get_all_turns P (proc run)))
       (compaction_summary_item I (result_summary res)) = (proc run', None)"
    by (cases rule: commit_pass_cases; simp)+
  have "target_view P FullReplaceTarget (proc run') = [compaction_summary_item I (result_summary res)]"
    using assms(1) [unfolded stream_contract_def, rule_format, OF res(5)] by (simp add: target_view_def)
  then show ?thesis using clean res by (auto simp: target_view_def)
qed

section \<open>Sample runs\<close>

definition no_prompts :: intra_prompts where
  "no_prompts = \<lparr>full_replace_template = [], steps_prompt = \<lparr>prompt_system = [], prompt_user = []\<rparr>,
     history_prompt = \<lparr>prompt_system = [], prompt_user = []\<rparr>\<rparr>"

definition sample_policy :: "IntraCompactionMode \<Rightarrow> IntraCompactionConfig" where
  "sample_policy m = IntraCompactionConfig_default\<lparr>intra_mode := m, summarizer := LegacySummarizer, target_threshold_percent := 2,
     min_compactable_tokens := 0, max_reduction_ratio := F64_Fin False 1 1\<rparr>"

definition sample_trigger :: IntraCompactionTrigger where
  "sample_trigger = \<lparr>last_prompt_tokens = 90, context_window = 100, trigger_percent = 90, trigger_step = 4\<rparr>"

definition long_turn :: "CompactionRole \<times> rstr \<times> bool" where
  "long_turn = (AssistantRole, lit ''aaaaaaaaaa'', False)"

definition short_turn :: "CompactionRole \<times> rstr \<times> bool" where
  "short_turn = (AssistantRole, lit ''bb'', False)"

text \<open>The first call is answered, later ones fail for good.\<close>

definition one_answer :: "'a sampler" where
  "one_answer n turns prompt = (if n = 0 then Inr \<lparr>response = lit ''s'', thinking = []\<rparr> else Inl (SampleBuild []))"

lemma scaled_half: "n < 2 ^ 53 \<Longrightarrow> scaled_u32 n (F64_Fin False (Suc 0) (Suc 0)) = min u32_max (n div 2)"
  by (simp add: scaled_u32_def f64_mul_def f64_of_nat_def f64_as_uint_def round53_exact)

lemmas pass_evals = build_prompt_for_target_def compact_one_pass_def source_turns_def pass_plan_def token_counts_def separated_turns_def sample_for_target_def
  final_summary_text_def select_turns_to_compact_def snap_to_safe_boundary_def is_tool_result_def percent_of_window_def
  sample_compaction_with_retries_def legacy_attempts.simps commit_pass_def Let_def sum_counts_eq sat_add_def u32_max_def
  compaction_sample_error_to_intra_def is_transient_def

lemma sample_steps_pass:
  "\<exists>res. compact_one_pass text_ops list_proc no_prompts one_answer (sample_policy StepsOnly) sample_trigger StepsTarget
     \<lparr>proc = ([], [long_turn, short_turn]), calls = 0, events = []\<rparr> =
     (Inr res, \<lparr>proc = ([], [(DeveloperRole, lit ''s'', True), short_turn]), calls = 1, events = [PassSucceeded StepsTarget 10 1 1]\<rparr>) \<and>
     result_summary res = lit ''s''"
  by (simp add: pass_evals scaled_half no_prompts_def sample_policy_def sample_trigger_def long_turn_def short_turn_def one_answer_def
      text_ops_def list_proc_def IntraCompactionConfig_default_def)

theorem pass_replaces_prefix_witness:
  "\<exists>res n. compact_one_pass text_ops list_proc no_prompts one_answer (sample_policy StepsOnly) sample_trigger StepsTarget
     \<lparr>proc = ([], [long_turn, short_turn]), calls = 0, events = []\<rparr> =
     (Inr res, \<lparr>proc = ([], [(DeveloperRole, lit ''s'', True), short_turn]), calls = 1, events = [PassSucceeded StepsTarget 10 1 1]\<rparr>) \<and>
     0 < n \<and> n < length [long_turn, short_turn] \<and> [(DeveloperRole, lit ''s'', True), short_turn] = (DeveloperRole, lit ''s'', True) # drop n [long_turn, short_turn] \<and>
     (tokens_before res = 0 \<or> tokens_after res \<le> tokens_before res)"
proof -
  obtain res where r: "compact_one_pass text_ops list_proc no_prompts one_answer (sample_policy StepsOnly) sample_trigger StepsTarget
     \<lparr>proc = ([], [long_turn, short_turn]), calls = 0, events = []\<rparr> =
     (Inr res, \<lparr>proc = ([], [(DeveloperRole, lit ''s'', True), short_turn]), calls = 1, events = [PassSucceeded StepsTarget 10 1 1]\<rparr>)"
    "result_summary res = lit ''s''" using sample_steps_pass by blast
  have "at_most_one (max_reduction_ratio (sample_policy StepsOnly))" by (simp add: sample_policy_def at_most_one_def)
  moreover have "compaction_summary_item text_ops (lit ''s'') = (DeveloperRole, lit ''s'', True)" by (simp add: text_ops_def)
  moreover have "target_view list_proc StepsTarget (h, s) = s" for h s :: "(CompactionRole \<times> rstr \<times> bool) list"
    by (simp add: target_view_def list_proc_def)
  ultimately show ?thesis
    using pass_replaces_prefix [OF list_proc_contract _ r(1)] r by (auto simp del: lit_simps)
qed

text \<open>
  Steps with tool calls and their results. Two tokens are to be kept, which would cut between the first call
  and its result; the split moves past that result, and the second call keeps its own.
\<close>

definition call_ops :: "(CompactionRole \<times> rstr \<times> bool) item_ops" where
  "call_ops = text_ops\<lparr>has_tool_requests := (\<lambda>x. fst x = AssistantRole)\<rparr>"

definition call_steps :: "(CompactionRole \<times> rstr \<times> bool) list" where
  "call_steps = [long_turn, (ToolRole, lit ''t'', False), (AssistantRole, [], False), (ToolRole, lit ''r'', False)]"

lemma sample_calls_pass:
  "\<exists>res. compact_one_pass call_ops list_proc no_prompts one_answer (sample_policy StepsOnly) sample_trigger StepsTarget
     \<lparr>proc = ([], call_steps), calls = 0, events = []\<rparr> =
     (Inr res, \<lparr>proc = ([], (DeveloperRole, lit ''s'', True) # drop 2 call_steps), calls = 1, events = [PassSucceeded StepsTarget 11 1 2]\<rparr>) \<and>
     result_summary res = lit ''s''"
  by (simp add: pass_evals scaled_half no_prompts_def sample_policy_def sample_trigger_def long_turn_def call_steps_def
      one_answer_def call_ops_def text_ops_def list_proc_def IntraCompactionConfig_default_def snap_loop.simps)

theorem pass_keeps_pairs_witness:
  "paired call_ops False (target_view list_proc StepsTarget ([], call_steps)) \<and>
   paired call_ops False (target_view list_proc StepsTarget ([], (DeveloperRole, lit ''s'', True) # drop 2 call_steps))"
proof -
  obtain res where r: "compact_one_pass call_ops list_proc no_prompts one_answer (sample_policy StepsOnly) sample_trigger StepsTarget
     \<lparr>proc = ([], call_steps), calls = 0, events = []\<rparr> =
     (Inr res, \<lparr>proc = ([], (DeveloperRole, lit ''s'', True) # drop 2 call_steps), calls = 1, events = [PassSucceeded StepsTarget 11 1 2]\<rparr>)"
    "result_summary res = lit ''s''" using sample_calls_pass by blast
  have "paired call_ops False (target_view list_proc StepsTarget ([], call_steps))"
    "\<not> is_tool_result call_ops (compaction_summary_item call_ops (result_summary res))"
    by (simp_all add: target_view_def list_proc_def is_tool_result_def call_ops_def text_ops_def call_steps_def long_turn_def)
  then show ?thesis using pass_keeps_pairs [OF list_proc_contract _ r(1)] by simp
qed

text \<open>
  In history-then-steps mode an error does not mean that nothing happened: here the history was replaced before the
  summary of the steps failed.
\<close>

lemma history_then_steps_error_after_commit:
  "apply_intra_compaction text_ops list_proc no_prompts one_answer ((sample_policy HistoryThenSteps)\<lparr>steps_trigger_ratio := F64_Fin False 0 0\<rparr>)
     sample_trigger None None \<lparr>proc = ([long_turn, short_turn], [long_turn, short_turn]), calls = 0, events = []\<rparr> =
   (Inl (SamplerBuild []),
    \<lparr>proc = ([(DeveloperRole, lit ''s'', True), short_turn], [long_turn, short_turn]), calls = 2,
     events = [PassSucceeded HistoryTarget 10 1 1, PassFailed (lit ''sampler_build'')]\<rparr>)"
  by (simp add: apply_intra_compaction_def apply_history_then_steps_def apply_history_compaction_def apply_steps_compaction_def
      steps_exceed_ratio_def pass_evals scaled_half no_prompts_def sample_policy_def sample_trigger_def long_turn_def short_turn_def
      one_answer_def text_ops_def list_proc_def IntraCompactionConfig_default_def separate_prior_user_queries_def separate_step_def
      extract_user_queries_from_turns_def assemble_user_queries_preamble_def f64_mul_def f64_of_nat_def f64_ceil_def f64_as_uint_def
      round53_exact error_status_label_def)

theorem full_replace_leaves_summary_witness:
  "\<exists>res run'. apply_full_replace_compaction text_ops list_proc no_prompts (\<lambda>_ _ _. Inr \<lparr>response = long_summary, thinking = []\<rparr>)
     (IntraCompactionConfig_default\<lparr>min_compactable_tokens := 0, max_reduction_ratio := F64_Inf False\<rparr>) None None
     \<lparr>proc = ([long_turn], [short_turn]), calls = 0, events = []\<rparr> = (Inr res, run') \<and>
   get_all_turns list_proc (proc run') = [compaction_summary_item text_ops (result_summary res)]"
proof -
  have "count_item_tokens text_ops (compaction_summary_item text_ops (format_compact_summary long_summary)) \<le> u32_max"
    using long_summary_length by (simp add: text_ops_def u32_max_def)
  then obtain res run' where r: "apply_full_replace_compaction text_ops list_proc no_prompts
     (\<lambda>_ _ _. Inr \<lparr>response = long_summary, thinking = []\<rparr>)
     (IntraCompactionConfig_default\<lparr>min_compactable_tokens := 0, max_reduction_ratio := F64_Inf False\<rparr>) None None
     \<lparr>proc = ([long_turn], [short_turn]), calls = 0, events = []\<rparr> = (Inr res, run')"
    by (simp add: apply_full_replace_compaction_def sample_shared_summary_with_retries_def sample_summary_with_retries_def
        sample_attempts.simps long_summary_usable commit_pass_def Let_def list_proc_def IntraCompactionConfig_default_def
        append_reminder_block_def scaled_u32_def f64_mul_def f64_of_nat_def f64_as_uint_def f64_is_zero_def f64_neg_def
        text_ops_def long_turn_def short_turn_def round53_exact)
  from full_replace_leaves_summary [OF list_proc_contract r] r show ?thesis by blast
qed

end
