(* ===== verification/Compact_Inter.thy ===== *)
theory Compact_Inter
  imports Compact_Fit Compact_Sample
begin

text \<open>
  \<open>inter_compaction\<close> of \<open>xai-grok-compaction\<close>: summarising a stored conversation between two turns, in one piece or in chunks of
  bounded size, and putting the summaries together. Log messages and clocks are left out; the embedded prompt
  is an argument.
\<close>

section \<open>The pipeline\<close>

record InterCompactionConfig =
  inter_model_name :: rstr
  inter_sampling_timeout_secs :: nat
  compaction_strategy :: CompactionStrategy
  dnc_chunk_token_limit :: nat
  user_message_compact_threshold :: nat

datatype InterEvent = Recompaction rstr | ChunkCount nat | ChunkSampled bool

definition UNBOUNDED_CHUNK_LIMIT :: nat where
  "UNBOUNDED_CHUNK_LIMIT = u32_max"

record ChunkedCompactionOutput =
  combined_text :: rstr
  analysis_text :: rstr

definition flush_chunk ::
  "'a sampler \<Rightarrow> CompactionPrompt \<Rightarrow> 'a list \<Rightarrow> nat \<Rightarrow> (CompactionSampleError + LlmCompactionOutput) \<times> InterEvent" where
  "flush_chunk sampler prompt turns n =
     (let result = sampler n turns prompt in (result, ChunkSampled (case result of Inr _ \<Rightarrow> True | Inl _ \<Rightarrow> False)))"

text \<open>
  The walk over the turns and the final flush, after \<open>n\<close> calls of the sampler. The count of a chunk is added up
  unchecked, and so modulo the word size.
\<close>

fun chunk_walk ::
  "'a item_ops \<Rightarrow> nat \<Rightarrow> 'a sampler \<Rightarrow> CompactionPrompt \<Rightarrow> 'a list \<Rightarrow> 'a list \<Rightarrow> nat \<Rightarrow> LlmCompactionOutput list \<Rightarrow> nat \<Rightarrow>
   InterEvent list \<Rightarrow> (CompactionSampleError + LlmCompactionOutput list) \<times> nat \<times> InterEvent list" where
  "chunk_walk I limit sampler prompt [] compactable chunk_tokens outputs n log =
     (if compactable = [] then (Inr outputs, n, log)
      else case flush_chunk sampler prompt compactable n of
             (Inl e, ev) \<Rightarrow> (Inl e, n + 1, log @ [ev])
           | (Inr out, ev) \<Rightarrow> (Inr (outputs @ [out]), n + 1, log @ [ev]))"
| "chunk_walk I limit sampler prompt (turn # turns) compactable chunk_tokens outputs n log =
     (let turn_tokens = count_item_tokens I turn
      in if compactable \<noteq> [] \<and> limit \<noteq> UNBOUNDED_CHUNK_LIMIT \<and> limit < add32 chunk_tokens turn_tokens
         then case flush_chunk sampler prompt compactable n of
                (Inl e, ev) \<Rightarrow> (Inl e, n + 1, log @ [ev])
              | (Inr out, ev) \<Rightarrow>
                  chunk_walk I limit sampler prompt turns [turn] ((0 + turn_tokens) mod 2 ^ 32) (outputs @ [out]) (n + 1) (log @ [ev])
         else chunk_walk I limit sampler prompt turns (compactable @ [turn]) ((chunk_tokens + turn_tokens) mod 2 ^ 32) outputs n log)"

definition chunk_summary_block :: "nat \<Rightarrow> rstr \<Rightarrow> rstr" where
  "chunk_summary_block i text =
     lit ''<chunk_summary index='' @ [34] @ show_dec i @ [34] @ lit ''>'' @ [10] @ text @ [10] @ lit ''</chunk_summary>'' @ [10, 10]"

definition sample_compaction_chunked ::
  "'a item_ops \<Rightarrow> CompactionPrompt \<Rightarrow> 'a sampler \<Rightarrow> 'a list \<Rightarrow> rstr option \<Rightarrow> InterCompactionConfig \<Rightarrow> nat \<Rightarrow>
   (CompactionSampleError + ChunkedCompactionOutput) \<times> nat \<times> InterEvent list" where
  "sample_compaction_chunked I prompt sampler turns current_user_queries config n =
     (case (case compaction_strategy config of
              BasicStrategy \<Rightarrow> Some UNBOUNDED_CHUNK_LIMIT
            | DivideAndConquer \<Rightarrow> Some (dnc_chunk_token_limit config)
            | FullReplaceStrategy \<Rightarrow> None) of
        None \<Rightarrow>
          (Inl (SampleBuild (lit ''full_replace must be routed through the event-proc compact_conversation helper'')), n, [])
      | Some chunk_token_limit \<Rightarrow>
          let filtered = filter_turns_for_inter_compaction I turns
          in if filtered = [] then (Inl (SampleOther (lit ''No turns remaining after filtering'')), n, [])
             else
               let separated = separate_prior_user_queries I filtered
               in case chunk_walk I chunk_token_limit sampler prompt (turns_for_llm separated) [] 0 [] n [] of
                    (Inl e, k, log) \<Rightarrow> (Inl e, k, log)
                  | (Inr outputs, k, log) \<Rightarrow>
                      (Inr
                         \<lparr>combined_text =
                            assemble_user_queries_preamble (prior_user_queries separated) current_user_queries @
                            concat (map (\<lambda>(i, out). chunk_summary_block i (response out)) (enumerate 0 outputs)),
                          analysis_text = concat (map (\<lambda>(i, out). wrap_chunk_analysis i (thinking out)) (enumerate 0 outputs))\<rparr>,
                       k,
                       log @
                       (if has_prior_compaction separated then [Recompaction (CompactionStrategy_label (compaction_strategy config))] else []) @
                       [ChunkCount (length outputs)]))"

section \<open>Chunks\<close>

text \<open>The chunks alone, without the calls between them.\<close>

fun chunk_turns :: "'a item_ops \<Rightarrow> nat \<Rightarrow> 'a list \<Rightarrow> 'a list \<Rightarrow> nat \<Rightarrow> 'a list list" where
  "chunk_turns I limit [] compactable chunk_tokens = (if compactable = [] then [] else [compactable])"
| "chunk_turns I limit (turn # turns) compactable chunk_tokens =
     (if compactable \<noteq> [] \<and> limit \<noteq> UNBOUNDED_CHUNK_LIMIT \<and> limit < add32 chunk_tokens (count_item_tokens I turn)
      then compactable # chunk_turns I limit turns [turn] (count_item_tokens I turn mod 2 ^ 32)
      else chunk_turns I limit turns (compactable @ [turn]) ((chunk_tokens + count_item_tokens I turn) mod 2 ^ 32))"

text \<open>The calls on a list of chunks, up to the first that fails.\<close>

fun sample_chunks :: "'a sampler \<Rightarrow> CompactionPrompt \<Rightarrow> 'a list list \<Rightarrow> nat \<Rightarrow> (CompactionSampleError + LlmCompactionOutput list) \<times> nat" where
  "sample_chunks sampler prompt [] n = (Inr [], n)"
| "sample_chunks sampler prompt (c # cs) n =
     (case sampler n c prompt of
        Inl e \<Rightarrow> (Inl e, Suc n)
      | Inr out \<Rightarrow>
          (case sample_chunks sampler prompt cs (Suc n) of
             (Inl e, k) \<Rightarrow> (Inl e, k)
           | (Inr outs, k) \<Rightarrow> (Inr (out # outs), k)))"

lemma chunk_walk_eq:
  "\<exists>log'. chunk_walk I limit sampler prompt turns compactable tokens outputs n log =
     (map_sum id ((@) outputs) (fst (sample_chunks sampler prompt (chunk_turns I limit turns compactable tokens) n)),
      snd (sample_chunks sampler prompt (chunk_turns I limit turns compactable tokens) n), log')"
proof (induction turns arbitrary: compactable tokens outputs n log)
  case Nil
  then show ?case by (auto simp: flush_chunk_def split: sum.splits)
next
  case (Cons t turns)
  show ?case
  proof (cases "compactable \<noteq> [] \<and> limit \<noteq> UNBOUNDED_CHUNK_LIMIT \<and> limit < add32 tokens (count_item_tokens I t)")
    case True
    show ?thesis
    proof (cases "sampler n compactable prompt")
      case (Inl e)
      then show ?thesis using True by (simp add: flush_chunk_def)
    next
      case (Inr out)
      obtain log' where "chunk_walk I limit sampler prompt turns [t] (count_item_tokens I t mod 2 ^ 32) (outputs @ [out]) (Suc n)
          (log @ [ChunkSampled True]) =
        (map_sum id ((@) (outputs @ [out])) (fst (sample_chunks sampler prompt (chunk_turns I limit turns [t] (count_item_tokens I t mod 2 ^ 32)) (Suc n))),
         snd (sample_chunks sampler prompt (chunk_turns I limit turns [t] (count_item_tokens I t mod 2 ^ 32)) (Suc n)), log')"
        using Cons.IH by blast
      then show ?thesis using True Inr by (simp add: flush_chunk_def split: prod.splits sum.splits)
    qed
  next
    case False
    show ?thesis unfolding chunk_walk.simps chunk_turns.simps Let_def if_not_P [OF False] by (rule Cons.IH)
  qed
qed

lemma sample_chunks_Ok:
  "sample_chunks sampler prompt cs n = (Inr outs, k) \<Longrightarrow>
     k = n + length cs \<and> length outs = length cs \<and> (\<forall>i < length cs. sampler (n + i) (cs ! i) prompt = Inr (outs ! i))"
proof (induction cs arbitrary: n outs)
  case (Cons c cs)
  then obtain out outs' where o: "sampler n c prompt = Inr out" "sample_chunks sampler prompt cs (Suc n) = (Inr outs', k)" "outs = out # outs'"
    by (auto split: sum.splits prod.splits)
  with Cons.IH [OF o(2)] show ?case by (auto simp: nth_Cons split: nat.splits)
qed simp

lemma sample_chunks_Err:
  "sample_chunks sampler prompt cs n = (Inl e, k) \<Longrightarrow>
     n < k \<and> k \<le> n + length cs \<and> sampler (k - 1) (cs ! (k - 1 - n)) prompt = Inl e \<and>
     (\<forall>i < k - 1 - n. \<exists>out. sampler (n + i) (cs ! i) prompt = Inr out)"
proof (induction cs arbitrary: n)
  case (Cons c cs)
  show ?case
  proof (cases "sampler n c prompt")
    case (Inl e')
    then show ?thesis using Cons.prems by auto
  next
    case (Inr out)
    then have "sample_chunks sampler prompt cs (Suc n) = (Inl e, k)" using Cons.prems by (auto split: sum.splits prod.splits)
    from Cons.IH [OF this] have ih: "Suc n < k" "k \<le> Suc n + length cs" "sampler (k - 1) (cs ! (k - 1 - Suc n)) prompt = Inl e"
      "\<forall>i < k - 1 - Suc n. \<exists>out. sampler (Suc n + i) (cs ! i) prompt = Inr out" by auto
    have "k - 1 - n = Suc (k - 1 - Suc n)" using ih(1) by simp
    with ih Inr show ?thesis by (auto simp: nth_Cons split: nat.splits)
  qed
qed simp

definition chunk_size :: "'a item_ops \<Rightarrow> 'a list \<Rightarrow> nat" where
  "chunk_size I c = sum_list (map (count_item_tokens I) c)"

lemma chunk_turns_concat: "concat (chunk_turns I limit ts held tok) = held @ ts"
  by (induction ts arbitrary: held tok) auto

lemma chunk_turns_not_Nil: "[] \<notin> set (chunk_turns I limit ts held tok)"
  by (induction ts arbitrary: held tok) auto

lemma chunk_turns_hd: "held \<noteq> [] \<Longrightarrow> chunk_turns I limit ts held tok \<noteq> [] \<and> hd (hd (chunk_turns I limit ts held tok)) = hd held"
  by (induction ts arbitrary: held tok) auto

lemma chunk_turns_sizes:
  assumes "limit < u32_max" and "list_all (\<lambda>t. count_item_tokens I t \<le> u32_max) ts"
    and "tok = chunk_size I held" and "tok \<le> u32_max" and "length held \<le> 1 \<or> chunk_size I held \<le> limit"
  shows "list_all (\<lambda>c. length c = 1 \<or> chunk_size I c \<le> limit) (chunk_turns I limit ts held tok) \<and>
    successively (\<lambda>c d. limit < chunk_size I c + count_item_tokens I (hd d)) (chunk_turns I limit ts held tok)"
  using assms(2-5)
proof (induction ts arbitrary: held tok)
  case Nil
  then show ?case by (cases held) auto
next
  case (Cons t ts)
  let ?c = "count_item_tokens I t"
  have tc: "?c \<le> u32_max" "?c mod 2 ^ 32 = ?c" using Cons.prems(1) by (simp_all add: u32_max_def)
  show ?case
  proof (cases "held \<noteq> [] \<and> limit \<noteq> UNBOUNDED_CHUNK_LIMIT \<and> limit < add32 tok ?c")
    case True
    let ?rest = "chunk_turns I limit ts [t] ?c"
    have ih: "list_all (\<lambda>c. length c = 1 \<or> chunk_size I c \<le> limit) ?rest"
      "successively (\<lambda>c d. limit < chunk_size I c + count_item_tokens I (hd d)) ?rest"
      using Cons.IH [of ?c "[t]"] Cons.prems(1) tc by (auto simp: chunk_size_def)
    have "limit < chunk_size I held + ?c" using True Cons.prems(2) by (simp add: add32_eq)
    moreover have "length held = 1 \<or> chunk_size I held \<le> limit" using Cons.prems(4) True by (cases held) auto
    moreover have "chunk_turns I limit (t # ts) held tok = held # ?rest" using True tc(2) by simp
    ultimately show ?thesis
      using ih chunk_turns_hd [of "[t]" I limit ts ?c] by (auto simp: successively_Cons)
  next
    case False
    have sum: "chunk_size I (held @ [t]) = tok + ?c" using Cons.prems(2) by (simp add: chunk_size_def)
    have fits: "tok + ?c \<le> u32_max \<and> (length (held @ [t]) \<le> 1 \<or> tok + ?c \<le> limit)"
    proof (cases "held = []")
      case True
      then show ?thesis using tc(1) Cons.prems(2) by (simp add: chunk_size_def)
    next
      case c: False
      then have "add32 tok ?c \<le> limit" using False assms(1) by (auto simp: UNBOUNDED_CHUNK_LIMIT_def)
      then show ?thesis using assms(1) by (auto simp: add32_eq min_def split: if_splits)
    qed
    then have "(tok + ?c) mod 2 ^ 32 = tok + ?c" by (simp add: u32_max_def)
    moreover have "chunk_turns I limit (t # ts) held tok = chunk_turns I limit ts (held @ [t]) ((tok + ?c) mod 2 ^ 32)"
      unfolding chunk_turns.simps if_not_P [OF False] ..
    ultimately show ?thesis
      using Cons.IH [of "tok + ?c" "held @ [t]"] Cons.prems(1) sum fits by simp
  qed
qed

text \<open>
  the chunked pipeline asks for one summary per chunk, in order, and stops at the first that fails. When it returns a text,
  the chunks are a partition of the turns in their order, none of them empty; below the unbounded limit each chunk but a single
  turn keeps to the limit, and is cut only where the next turn would not have fitted. The text is the preamble of user queries,
  then the summaries in order.
\<close>

lemma chunked_compaction_partitions:
  assumes "sample_compaction_chunked I prompt sampler turns current config n = (Inr out, k, log)"
    and "compaction_strategy config = DivideAndConquer" and "dnc_chunk_token_limit config < u32_max"
    and "list_all (\<lambda>t. count_item_tokens I t \<le> u32_max) (turns_for_llm (separate_prior_user_queries I (filter_turns_for_inter_compaction I turns)))"
  shows "\<exists>chunks outs.
    concat chunks = turns_for_llm (separate_prior_user_queries I (filter_turns_for_inter_compaction I turns)) \<and> [] \<notin> set chunks \<and>
    list_all (\<lambda>c. length c = 1 \<or> chunk_size I c \<le> dnc_chunk_token_limit config) chunks \<and>
    successively (\<lambda>c d. dnc_chunk_token_limit config < chunk_size I c + count_item_tokens I (hd d)) chunks \<and>
    length outs = length chunks \<and> k = n + length chunks \<and>
    (\<forall>i < length chunks. sampler (n + i) (chunks ! i) prompt = Inr (outs ! i)) \<and>
    combined_text out =
      assemble_user_queries_preamble (prior_user_queries (separate_prior_user_queries I (filter_turns_for_inter_compaction I turns))) current @
      concat (map (\<lambda>(i, reply). chunk_summary_block i (response reply)) (enumerate 0 outs))"
proof -
  let ?limit = "dnc_chunk_token_limit config"
  let ?llm = "turns_for_llm (separate_prior_user_queries I (filter_turns_for_inter_compaction I turns))"
  let ?chunks = "chunk_turns I ?limit ?llm [] 0"
  obtain log' where walk: "chunk_walk I ?limit sampler prompt ?llm [] 0 [] n [] =
      (map_sum id ((@) []) (fst (sample_chunks sampler prompt ?chunks n)), snd (sample_chunks sampler prompt ?chunks n), log')"
    using chunk_walk_eq [of I ?limit sampler prompt ?llm "[]" 0 "[]" n "[]"] by blast
  from assms(1,2) walk obtain outs where outs: "sample_chunks sampler prompt ?chunks n = (Inr outs, k)"
    "combined_text out =
      assemble_user_queries_preamble (prior_user_queries (separate_prior_user_queries I (filter_turns_for_inter_compaction I turns))) current @
      concat (map (\<lambda>(i, reply). chunk_summary_block i (response reply)) (enumerate 0 outs))"
    by (cases "sample_chunks sampler prompt ?chunks n"; cases "fst (sample_chunks sampler prompt ?chunks n)")
      (auto simp: sample_compaction_chunked_def Let_def split: if_splits)
  have "list_all (\<lambda>c. length c = 1 \<or> chunk_size I c \<le> ?limit) ?chunks \<and>
    successively (\<lambda>c d. ?limit < chunk_size I c + count_item_tokens I (hd d)) ?chunks"
    by (rule chunk_turns_sizes [OF assms(3,4)]) (simp_all add: chunk_size_def)
  then show ?thesis
    using sample_chunks_Ok [OF outs(1)] outs(2) chunk_turns_concat [of I ?limit ?llm "[]" 0] chunk_turns_not_Nil [of I ?limit ?llm "[]" 0]
    by (intro exI [of _ ?chunks] exI [of _ outs]) simp
qed

definition sample_inter_config :: InterCompactionConfig where
  "sample_inter_config = \<lparr>inter_model_name = [], inter_sampling_timeout_secs = 120, compaction_strategy = DivideAndConquer,
     dnc_chunk_token_limit = 5, user_message_compact_threshold = 3000\<rparr>"

definition sample_turns :: "(CompactionRole \<times> rstr \<times> bool) list" where
  "sample_turns = [(UserRole, lit ''aaaa'', False), (ToolRole, lit ''tool'', False), (UserRole, lit ''bbbb'', False)]"

lemma sample_turns_filtered:
  "filter_turns_for_inter_compaction text_ops sample_turns = [(UserRole, lit ''aaaa'', False), (UserRole, lit ''bbbb'', False)]"
  by (simp add: sample_turns_def filter_turns_for_inter_compaction_def List.map_filter_simps inter_turn_def text_ops_def)

lemma sample_turns_llm:
  "turns_for_llm (separate_prior_user_queries text_ops (filter_turns_for_inter_compaction text_ops sample_turns)) =
     [(UserRole, lit ''aaaa'', False), (UserRole, lit ''bbbb'', False)]"
  unfolding sample_turns_filtered by (simp add: text_ops_def separate_prior_user_queries_def separate_step_def)

theorem chunked_compaction_partitions_witness:
  "\<exists>out log chunks. sample_compaction_chunked text_ops \<lparr>prompt_system = [], prompt_user = []\<rparr>
      (\<lambda>_ _ _. Inr \<lparr>response = lit ''s'', thinking = []\<rparr>) sample_turns None sample_inter_config 0 = (Inr out, 2, log) \<and>
    length chunks = 2 \<and> concat chunks = [(UserRole, lit ''aaaa'', False), (UserRole, lit ''bbbb'', False)]"
proof -
  let ?S = "\<lambda>_ _ _. Inr \<lparr>response = lit ''s'', thinking = []\<rparr>"
  let ?p = "\<lparr>prompt_system = [], prompt_user = []\<rparr>"
  have count: "count_item_tokens text_ops (r, t, b) = length t" for r t b by (simp add: text_ops_def)
  obtain out log where run: "sample_compaction_chunked text_ops ?p ?S sample_turns None sample_inter_config 0 = (Inr out, 2, log)"
    using sample_turns_llm
    by (simp add: sample_compaction_chunked_def sample_inter_config_def sample_turns_filtered Let_def count
        flush_chunk_def sat_add_def UNBOUNDED_CHUNK_LIMIT_def u32_max_def del: lit_simps)
  have "compaction_strategy sample_inter_config = DivideAndConquer" "dnc_chunk_token_limit sample_inter_config < u32_max"
    "list_all (\<lambda>t. count_item_tokens text_ops t \<le> u32_max)
       (turns_for_llm (separate_prior_user_queries text_ops (filter_turns_for_inter_compaction text_ops sample_turns)))"
    unfolding sample_turns_llm by (simp_all add: sample_inter_config_def u32_max_def count del: lit_simps)
  from chunked_compaction_partitions [OF run this] run show ?thesis unfolding sample_turns_llm by (auto simp del: lit_simps)
qed

end
