(* ===== verification/Hunk_Diff.thy ===== *)
theory Hunk_Diff
  imports Prelude Unix_Path
begin

text \<open>
  The diff layer of \<open>xai-hunk-tracker\<close> (\<open>types.rs\<close>, \<open>diff.rs\<close>): hunks and their line
  information, the scan that turns the line changes of the \<open>similar\<close> crate into hunks,
  \<open>patch_lines\<close>, which accepting and rejecting use, the matching of new hunks with old ones and
  the printed patch of one hunk. The crate \<open>similar\<close>, the generator of identifiers and the clock are
  the fields of \<open>Env\<close>; \<open>diff_law\<close> states what the diff of two texts promises.
\<close>

section \<open>Data\<close>

type_synonym HunkId = rstr
type_synonym pathbuf = "Component list"

record HunkLineInfo =
  old_start :: nat
  old_count :: nat
  new_start :: nat
  new_count :: nat

datatype HunkSource = AgentEdit nat | ExternalEditOnAgentFile | External

definition is_agent_edit :: "HunkSource \<Rightarrow> bool" where
  "is_agent_edit s = (case s of AgentEdit _ \<Rightarrow> True | _ \<Rightarrow> False)"

definition is_agent_tracked :: "HunkSource \<Rightarrow> bool" where
  "is_agent_tracked s = (case s of AgentEdit _ \<Rightarrow> True | ExternalEditOnAgentFile \<Rightarrow> True | External \<Rightarrow> False)"

definition is_external :: "HunkSource \<Rightarrow> bool" where
  "is_external s = (case s of External \<Rightarrow> True | ExternalEditOnAgentFile \<Rightarrow> True | AgentEdit _ \<Rightarrow> False)"

definition prompt_index :: "HunkSource \<Rightarrow> nat option" where
  "prompt_index s = (case s of AgentEdit p \<Rightarrow> Some p | _ \<Rightarrow> None)"

record Hunk =
  hunk_id :: HunkId
  hunk_path :: pathbuf
  line_info :: HunkLineInfo
  hunk_source :: HunkSource
  old_text :: "rstr option"
  new_text :: rstr
  hunk_patch :: "rstr option"
  created_at :: nat
  selected :: bool

text \<open>The surroundings: the \<open>n\<close>-th identifier and time stamp drawn, the line diff of two texts, and
  whether it was ready before the deadline.\<close>

datatype Change = Equal rstr | Delete rstr | Insert rstr

record Env =
  new_id :: "nat \<Rightarrow> HunkId"
  utc_now :: "nat \<Rightarrow> nat"
  diff_lines :: "rstr \<Rightarrow> rstr \<Rightarrow> Change list"
  in_time :: "rstr \<Rightarrow> rstr \<Rightarrow> bool"

definition CONTEXT_LINES :: nat where "CONTEXT_LINES = 3"
definition MAX_DIFF_FILE_SIZE :: nat where "MAX_DIFF_FILE_SIZE = 1024 * 1024"

definition file_created :: "('e) Env_scheme \<Rightarrow> nat \<Rightarrow> pathbuf \<Rightarrow> rstr \<Rightarrow> HunkSource \<Rightarrow> Hunk" where
  "file_created env n path content source =
     \<lparr> hunk_id = new_id env n, hunk_path = path,
       line_info = \<lparr> old_start = 0, old_count = 0, new_start = 1,
                     new_count = max (length (str_lines content)) 1 \<rparr>,
       hunk_source = source, old_text = None, new_text = content, hunk_patch = None,
       created_at = utc_now env n, selected = False \<rparr>"

definition file_deleted :: "('e) Env_scheme \<Rightarrow> nat \<Rightarrow> pathbuf \<Rightarrow> rstr \<Rightarrow> HunkSource \<Rightarrow> Hunk" where
  "file_deleted env n path content source =
     \<lparr> hunk_id = new_id env n, hunk_path = path,
       line_info = \<lparr> old_start = 1, old_count = max (length (str_lines content)) 1,
                     new_start = 0, new_count = 0 \<rparr>,
       hunk_source = source, old_text = Some content, new_text = [], hunk_patch = None,
       created_at = utc_now env n, selected = False \<rparr>"

section \<open>Computing hunks\<close>

record HunkBuilder =
  b_old_start :: nat
  b_new_start :: nat
  b_old_lines :: "rstr list"
  b_new_lines :: "rstr list"

definition HunkBuilder_new :: "nat \<Rightarrow> nat \<Rightarrow> HunkBuilder" where
  "HunkBuilder_new ol nl = \<lparr> b_old_start = ol, b_new_start = nl, b_old_lines = [], b_new_lines = [] \<rparr>"

definition add_old_line :: "rstr \<Rightarrow> HunkBuilder \<Rightarrow> HunkBuilder" where
  "add_old_line v b = b\<lparr> b_old_lines := b_old_lines b @ [v] \<rparr>"

definition add_new_line :: "rstr \<Rightarrow> HunkBuilder \<Rightarrow> HunkBuilder" where
  "add_new_line v b = b\<lparr> b_new_lines := b_new_lines b @ [v] \<rparr>"

definition build :: "('e) Env_scheme \<Rightarrow> nat \<Rightarrow> pathbuf \<Rightarrow> HunkSource \<Rightarrow> HunkBuilder \<Rightarrow> Hunk" where
  "build env n path source b =
     \<lparr> hunk_id = new_id env n, hunk_path = path,
       line_info = \<lparr> old_start = b_old_start b, old_count = length (b_old_lines b),
                     new_start = b_new_start b, new_count = length (b_new_lines b) \<rparr>,
       hunk_source = source,
       old_text = (if b_old_lines b = [] then None else Some (concat (b_old_lines b))),
       new_text = concat (b_new_lines b), hunk_patch = None,
       created_at = utc_now env n, selected = False \<rparr>"

definition open_builder :: "HunkBuilder option \<Rightarrow> nat \<Rightarrow> nat \<Rightarrow> HunkBuilder" where
  "open_builder cur ol nl = (case cur of Some b \<Rightarrow> b | None \<Rightarrow> HunkBuilder_new ol nl)"

definition finished :: "HunkBuilder option \<Rightarrow> HunkBuilder list" where
  "finished cur = (case cur of Some b \<Rightarrow> [b] | None \<Rightarrow> [])"

fun scan_changes :: "Change list \<Rightarrow> HunkBuilder option \<Rightarrow> nat \<Rightarrow> nat \<Rightarrow> HunkBuilder list" where
  "scan_changes [] cur ol nl = finished cur"
| "scan_changes (Equal v # cs) cur ol nl = finished cur @ scan_changes cs None (ol + 1) (nl + 1)"
| "scan_changes (Delete v # cs) cur ol nl =
     scan_changes cs (Some (add_old_line v (open_builder cur ol nl))) (ol + 1) nl"
| "scan_changes (Insert v # cs) cur ol nl =
     scan_changes cs (Some (add_new_line v (open_builder cur ol nl))) ol (nl + 1)"

text \<open>Hunks are built in the order in which the scan finishes them; the \<open>i\<close>-th takes the \<open>i\<close>-th
  identifier from \<open>n\<close> on.\<close>

definition compute_hunks :: "('e) Env_scheme \<Rightarrow> nat \<Rightarrow> pathbuf \<Rightarrow> rstr \<Rightarrow> rstr \<Rightarrow> HunkSource \<Rightarrow> Hunk list" where
  "compute_hunks env n path baseline current source =
     (if baseline = current then []
      else if MAX_DIFF_FILE_SIZE < byte_len baseline \<or> MAX_DIFF_FILE_SIZE < byte_len current then []
      else if \<not> in_time env baseline current then []
      else map (\<lambda>(i, b). build env i path source b)
             (enumerate n (scan_changes (diff_lines env baseline current) None 1 1)))"

section \<open>Patching text\<close>

definition ends_nl :: "rstr \<Rightarrow> bool" where
  "ends_nl s \<longleftrightarrow> s \<noteq> [] \<and> last s = 10"

definition patch_lines :: "rstr \<Rightarrow> nat \<Rightarrow> nat \<Rightarrow> rstr \<Rightarrow> rstr" where
  "patch_lines content start_line remove_count insert_text =
     (let lns = str_lines content;
          start_idx = start_line - 1;
          inserted = (if insert_text \<noteq> [] then str_lines insert_text else []);
          end_idx = min (start_idx + remove_count) (length lns);
          result = take (min start_idx (length lns)) lns @ inserted @ drop end_idx lns;
          output = join [10] result
      in if ends_nl content \<and> output \<noteq> [] then output @ [10] else output)"

section \<open>Comparing hunks\<close>

definition hunks_match_content :: "Hunk \<Rightarrow> Hunk \<Rightarrow> bool" where
  "hunks_match_content a b \<longleftrightarrow>
     hunk_path a = hunk_path b \<and> old_text a = old_text b \<and> new_text a = new_text b"

definition hunk_moved :: "Hunk \<Rightarrow> Hunk \<Rightarrow> bool" where
  "hunk_moved old new \<longleftrightarrow> hunks_match_content old new \<and> line_info old \<noteq> line_info new"

definition hunks_overlap :: "Hunk \<Rightarrow> Hunk \<Rightarrow> bool" where
  "hunks_overlap a b =
     (if hunk_path a \<noteq> hunk_path b then False
      else
        let a_start = old_start (line_info a);
            a_end = sat_add u64_max (old_start (line_info a)) (old_count (line_info a));
            b_start = old_start (line_info b);
            b_end = sat_add u64_max (old_start (line_info b)) (old_count (line_info b))
        in if old_count (line_info a) = 0 \<and> old_count (line_info b) = 0 then a_start = b_start
           else if old_count (line_info a) = 0 then b_start \<le> a_start \<and> a_start \<le> b_end
           else if old_count (line_info b) = 0 then a_start \<le> b_start \<and> b_start \<le> a_end
           else \<not> (a_end < b_start \<or> b_end < a_start))"

definition calculate_overlap_size :: "HunkLineInfo \<Rightarrow> HunkLineInfo \<Rightarrow> nat" where
  "calculate_overlap_size a b =
     min (old_start a + old_count a) (old_start b + old_count b) - max (old_start a) (old_start b)"

text \<open>\<open>Iterator::min_by_key\<close> returns the first least element, \<open>max_by_key\<close> the last greatest.\<close>

fun min_by_key :: "('a \<Rightarrow> nat) \<Rightarrow> 'a list \<Rightarrow> 'a option" where
  "min_by_key f [] = None"
| "min_by_key f (x # xs) =
     (case min_by_key f xs of None \<Rightarrow> Some x | Some y \<Rightarrow> if f x \<le> f y then Some x else Some y)"

fun max_by_key :: "('a \<Rightarrow> nat) \<Rightarrow> 'a list \<Rightarrow> 'a option" where
  "max_by_key f [] = None"
| "max_by_key f (x # xs) =
     (case max_by_key f xs of None \<Rightarrow> Some x | Some y \<Rightarrow> if f x \<le> f y then Some y else Some x)"

definition abs_diff :: "nat \<Rightarrow> nat \<Rightarrow> nat" where
  "abs_diff a b = (if a \<le> b then b - a else a - b)"

definition find_matching_old_hunk :: "Hunk \<Rightarrow> Hunk list \<Rightarrow> Hunk option" where
  "find_matching_old_hunk new_hunk old_hunks =
     (let content_matches = filter (\<lambda>h. hunks_match_content h new_hunk) old_hunks
      in if content_matches \<noteq> [] then
           min_by_key (\<lambda>h. abs_diff (new_start (line_info h)) (new_start (line_info new_hunk))) content_matches
         else
           max_by_key (\<lambda>h. calculate_overlap_size (line_info h) (line_info new_hunk))
             (filter (\<lambda>h. hunks_overlap h new_hunk) old_hunks))"

definition find_overlapping_hunks :: "Hunk \<Rightarrow> Hunk list \<Rightarrow> Hunk list" where
  "find_overlapping_hunks new_hunk old_hunks = filter (\<lambda>h. hunks_overlap h new_hunk) old_hunks"

section \<open>Printing\<close>

definition HunkLineInfo_display :: "HunkLineInfo \<Rightarrow> rstr" where
  "HunkLineInfo_display li =
     lit ''@@ -'' @ show_dec (old_start li) @ lit '','' @ show_dec (old_count li) @
     lit '' +'' @ show_dec (new_start li) @ lit '','' @ show_dec (new_count li) @ lit '' @@''"

definition prefixed :: "uchar \<Rightarrow> rstr list \<Rightarrow> rstr" where
  "prefixed c ls = concat (map (\<lambda>l. c # l @ [10]) ls)"

definition format_unified_diff :: "Hunk \<Rightarrow> rstr" where
  "format_unified_diff h =
     lit ''--- a/'' @ path_text (hunk_path h) @ [10] @
     lit ''+++ b/'' @ path_text (hunk_path h) @ [10] @
     HunkLineInfo_display (line_info h) @ [10] @
     (case old_text h of Some t \<Rightarrow> prefixed 45 (str_lines t) | None \<Rightarrow> []) @
     prefixed 43 (str_lines (new_text h))"

definition Hunk_summary :: "Hunk \<Rightarrow> rstr" where
  "Hunk_summary h =
     lit ''+'' @ show_dec (length (str_lines (new_text h))) @ lit ''/-'' @
     show_dec (case old_text h of Some t \<Rightarrow> length (str_lines t) | None \<Rightarrow> 0)"

text \<open>Subtraction on \<open>usize\<close> panics, in a build with overflow checks, when it would go below zero.\<close>

definition checked_sub :: "nat \<Rightarrow> nat \<Rightarrow> nat option" where
  "checked_sub a b = (if b \<le> a then Some (a - b) else None)"

definition slice :: "nat \<Rightarrow> nat \<Rightarrow> 'a list \<Rightarrow> 'a list" where
  "slice a b xs = take (b - a) (drop a xs)"

definition generate_hunk_patch :: "rstr \<Rightarrow> rstr \<Rightarrow> Hunk \<Rightarrow> rstr option" where
  "generate_hunk_patch baseline current h =
     (let old_lines = str_lines baseline;
          new_lines = str_lines current;
          old_start_idx = old_start (line_info h) - 1;
          new_start_idx = new_start (line_info h) - 1;
          before_start = old_start_idx - CONTEXT_LINES;
          changes_end_new = new_start_idx + new_count (line_info h);
          after_end = min (changes_end_new + CONTEXT_LINES) (length new_lines);
          changes_end_old = old_start_idx + old_count (line_info h);
          after_end_old = min (changes_end_old + CONTEXT_LINES) (length old_lines)
      in case (checked_sub after_end_old changes_end_old, checked_sub after_end changes_end_new) of
           (Some ctx_old, Some ctx_new) \<Rightarrow>
             Some (HunkLineInfo_display
                     \<lparr> old_start = before_start + 1,
                       old_count = (old_start_idx - before_start) + old_count (line_info h) + ctx_old,
                       new_start = before_start + 1,
                       new_count = (old_start_idx - before_start) + new_count (line_info h) + ctx_new \<rparr> @ [10] @
                   prefixed 32 (slice before_start old_start_idx old_lines) @
                   (case old_text h of Some t \<Rightarrow> prefixed 45 (str_lines t) | None \<Rightarrow> []) @
                   prefixed 43 (str_lines (new_text h)) @
                   prefixed 32 (slice changes_end_new after_end new_lines))
         | _ \<Rightarrow> None)"


section \<open>Lines with their ends\<close>

text \<open>\<open>str::split_inclusive\<close> at line feeds, and the lists of lines it yields for text without
  carriage returns: only the last may lack its line feed.\<close>

fun split_inclusive :: "rstr \<Rightarrow> rstr list" where
  "split_inclusive [] = []"
| "split_inclusive (c # s) =
     (if c = 10 then [10] # split_inclusive s
      else case split_inclusive s of [] \<Rightarrow> [[c]] | w # ws \<Rightarrow> (c # w) # ws)"

definition full_line :: "rstr \<Rightarrow> bool" where
  "full_line v \<longleftrightarrow> ends_nl v \<and> 10 \<notin> set (butlast v) \<and> 13 \<notin> set v"

definition part_line :: "rstr \<Rightarrow> bool" where
  "part_line v \<longleftrightarrow> v \<noteq> [] \<and> 10 \<notin> set v \<and> 13 \<notin> set v"

fun lines_ok :: "rstr list \<Rightarrow> bool" where
  "lines_ok [] = True"
| "lines_ok [v] = (full_line v \<or> part_line v)"
| "lines_ok (v # w # ws) = (full_line v \<and> lines_ok (w # ws))"

definition chomp :: "rstr \<Rightarrow> rstr" where
  "chomp v = (if ends_nl v then butlast v else v)"

lemma lines_ok_Cons: "lines_ok (v # vs) \<longleftrightarrow> (full_line v \<or> vs = [] \<and> part_line v) \<and> lines_ok vs"
  by (cases vs) auto

lemma lines_ok_append:
  "lines_ok (vs @ ws) \<longleftrightarrow> lines_ok vs \<and> lines_ok ws \<and> (ws \<noteq> [] \<longrightarrow> list_all full_line vs)"
  by (induction vs) (auto simp: lines_ok_Cons)

lemma list_all_full_ok: "list_all full_line vs \<Longrightarrow> lines_ok vs"
  by (induction vs) (auto simp: lines_ok_Cons)

lemma concat_split_inclusive [simp]: "concat (split_inclusive s) = s"
  by (induction s) (auto split: list.splits)

lemma split_inclusive_eq_Nil [simp]: "split_inclusive s = [] \<longleftrightarrow> s = []"
  by (cases s) (auto split: list.splits)

lemma full_line_Cons: "full_line (c # w) \<longleftrightarrow> (w = [] \<and> c = 10) \<or> (c \<noteq> 10 \<and> c \<noteq> 13 \<and> full_line w)"
  by (cases w) (auto simp: full_line_def ends_nl_def)

lemma lines_ok_split_inclusive: "13 \<notin> set s \<Longrightarrow> lines_ok (split_inclusive s)"
proof (induction s)
  case (Cons c s)
  then show ?case
    by (cases "split_inclusive s") (auto simp: lines_ok_Cons full_line_Cons part_line_def)
qed simp

lemma full_lineE: "full_line v \<Longrightarrow> (\<And>l. v = l @ [10] \<Longrightarrow> 10 \<notin> set l \<Longrightarrow> 13 \<notin> set l \<Longrightarrow> thesis) \<Longrightarrow> thesis"
  by (metis append_butlast_last_id butlast_snoc ends_nl_def full_line_def in_set_butlastD)

lemma chomp_full [simp]: "chomp (l @ [10]) = l"
  by (simp add: chomp_def ends_nl_def)

lemma part_line_chomp: "part_line v \<Longrightarrow> chomp v = v \<and> \<not> ends_nl v"
  by (metis chomp_def ends_nl_def last_in_set part_line_def)

lemma chomp_eq_Nil: "full_line v \<or> part_line v \<Longrightarrow> chomp v = [] \<longleftrightarrow> v = [10]"
  by (auto simp: part_line_chomp elim!: full_lineE) (simp_all add: part_line_def chomp_def ends_nl_def)

lemma strip_cr_id: "13 \<notin> set l \<Longrightarrow> strip_cr l = l"
  by (metis last_in_set strip_cr_def)

lemma str_lines_Nil [simp]: "str_lines [] = []"
  by (simp add: str_lines_def)

lemma str_lines_full: "10 \<notin> set l \<Longrightarrow> 13 \<notin> set l \<Longrightarrow> str_lines (l @ 10 # s) = l # str_lines s"
  by (simp add: str_lines_def split_char_append_sep Let_def strip_cr_id)

lemma str_lines_part: "part_line v \<Longrightarrow> str_lines v = [v]"
  by (auto simp: str_lines_def part_line_def split_char_single)

lemma str_lines_concat: "lines_ok vs \<Longrightarrow> str_lines (concat vs) = map chomp vs"
proof (induction vs)
  case (Cons v vs)
  then consider "full_line v" "lines_ok vs" | "part_line v" "vs = []" by (auto simp: lines_ok_Cons)
  then show ?case
  proof cases
    case 1
    with Cons.IH show ?thesis by (auto elim!: full_lineE simp: str_lines_full)
  qed (simp add: str_lines_part part_line_chomp)
qed simp

lemma ends_nl_append [simp]: "t \<noteq> [] \<Longrightarrow> ends_nl (s @ t) \<longleftrightarrow> ends_nl t"
  by (simp add: ends_nl_def)

lemma lines_ok_not_Nil: "lines_ok vs \<Longrightarrow> v \<in> set vs \<Longrightarrow> v \<noteq> []"
  by (induction vs) (auto simp: lines_ok_Cons part_line_def full_line_def ends_nl_def)

lemma ends_nl_concat: "lines_ok vs \<Longrightarrow> ends_nl (concat vs) \<longleftrightarrow> vs \<noteq> [] \<and> ends_nl (last vs)"
proof (induction vs rule: rev_induct)
  case (snoc v vs)
  then have "v \<noteq> []" using lines_ok_not_Nil by fastforce
  then show ?case by simp
qed (simp add: ends_nl_def)

text \<open>Joining the lines again gives the text back, less its last line feed.\<close>

lemma join_chomp:
  "lines_ok vs \<Longrightarrow> concat vs = join [10] (map chomp vs) @ (if ends_nl (concat vs) then [10] else [])"
proof (induction vs)
  case (Cons v vs)
  show ?case
  proof (cases "vs = []")
    case True
    with Cons.prems show ?thesis
      by (auto simp: part_line_chomp elim!: full_lineE) (simp add: ends_nl_def)
  next
    case False
    with Cons.prems have "full_line v" "lines_ok vs" by (auto simp: lines_ok_Cons)
    moreover from this False have "concat vs \<noteq> []" using lines_ok_not_Nil by (cases vs) auto
    ultimately show ?thesis using Cons.IH False
      by (auto elim!: full_lineE simp: join_Cons)
  qed
qed (simp add: ends_nl_def)

lemma map_chomp_join_empty:
  "lines_ok vs \<Longrightarrow> join [10] (map chomp vs) = [] \<longleftrightarrow> vs = [] \<or> vs = [[10]]"
  by (cases vs; cases "tl vs") (auto simp: join_Cons chomp_eq_Nil)

text \<open>\<open>patch_lines\<close> on a text given by its lines replaces exactly the named lines.\<close>

lemma patch_lines_concat:
  assumes "lines_ok (p @ x @ q)" "lines_ok y" "lines_ok (p @ y @ q)"
    and "ends_nl (concat (p @ x @ q)) = ends_nl (concat (p @ y @ q))" "p @ y @ q \<noteq> [[10]]"
  shows "patch_lines (concat (p @ x @ q)) (length p + 1) (length x) (concat y) = concat (p @ y @ q)"
proof -
  have ins: "(if concat y \<noteq> [] then str_lines (concat y) else []) = map chomp y"
    using str_lines_concat[OF assms(2)] by (cases "concat y = []") simp_all
  have "patch_lines (concat (p @ x @ q)) (length p + 1) (length x) (concat y) =
    (let output = join [10] (map chomp (p @ y @ q))
     in if ends_nl (concat (p @ x @ q)) \<and> output \<noteq> [] then output @ [10] else output)"
    unfolding patch_lines_def ins str_lines_concat[OF assms(1)] by (simp add: Let_def)
  also have "\<dots> = concat (p @ y @ q)"
    using join_chomp[OF assms(3)] map_chomp_join_empty[OF assms(3)] assms(4,5)
    by (cases "p @ y @ q = []") (auto simp: Let_def simp del: map_append concat_append append_is_Nil_conv)
  finally show ?thesis .
qed

section \<open>Replaying hunks\<close>

text \<open>The lines a change has on either side, and the lines both sides share.\<close>

definition old_part :: "Change \<Rightarrow> rstr list" where
  "old_part c = (case c of Equal v \<Rightarrow> [v] | Delete v \<Rightarrow> [v] | Insert v \<Rightarrow> [])"

definition new_part :: "Change \<Rightarrow> rstr list" where
  "new_part c = (case c of Equal v \<Rightarrow> [v] | Delete v \<Rightarrow> [] | Insert v \<Rightarrow> [v])"

definition common_part :: "Change \<Rightarrow> rstr list" where
  "common_part c = (case c of Equal v \<Rightarrow> [v] | _ \<Rightarrow> [])"

lemmas part_simps [simp] =
  old_part_def new_part_def common_part_def

definition good_text :: "bool \<Rightarrow> rstr list \<Rightarrow> bool" where
  "good_text t vs \<longleftrightarrow> lines_ok vs \<and> ends_nl (concat vs) = t \<and> vs \<noteq> [[10]]"

definition held :: "(HunkBuilder \<Rightarrow> 'a list) \<Rightarrow> HunkBuilder option \<Rightarrow> 'a list" where
  "held f cur = (case cur of None \<Rightarrow> [] | Some b \<Rightarrow> f b)"

lemma held_simps [simp]: "held f None = []" "held f (Some b) = f b"
  by (simp_all add: held_def)

lemma finished_simps [simp]: "finished None = []" "finished (Some b) = [b]"
  by (simp_all add: finished_def)

definition side :: "(Change \<Rightarrow> rstr list) \<Rightarrow> Change list \<Rightarrow> rstr list" where
  "side f cs = concat (map f cs)"

lemma side_simps [simp]:
  "side f [] = []" "side f (c # cs) = f c @ side f cs" "side f (cs @ ds) = side f cs @ side f ds"
  by (simp_all add: side_def)

text \<open>The texts between the two: old lines up to a shared line, new lines after it.\<close>

definition mixed :: "(rstr list \<Rightarrow> bool) \<Rightarrow> (Change \<Rightarrow> rstr list) \<Rightarrow> (Change \<Rightarrow> rstr list) \<Rightarrow> rstr list \<Rightarrow> Change list \<Rightarrow> bool" where
  "mixed P src dst x cs \<longleftrightarrow> (\<forall>as v bs. cs = as @ Equal v # bs \<longrightarrow> P (x @ side src as @ v # side dst bs))"

lemma mixed_tl: "mixed P src dst x (c # cs) \<Longrightarrow> mixed P src dst (x @ src c) cs"
  unfolding mixed_def by (metis append.assoc append_Cons side_simps(2))

lemma mixed_hd: "mixed P src dst x (Equal v # cs) \<Longrightarrow> P (x @ v # side dst cs)"
  unfolding mixed_def by (metis append_Nil side_simps(1))

definition patch_with ::
  "(HunkBuilder \<Rightarrow> nat) \<Rightarrow> (HunkBuilder \<Rightarrow> rstr list) \<Rightarrow> (HunkBuilder \<Rightarrow> rstr list) \<Rightarrow> HunkBuilder \<Rightarrow> rstr \<Rightarrow> rstr" where
  "patch_with start removed inserted b content =
     patch_lines content (start b) (length (removed b)) (concat (inserted b))"

text \<open>
  Accepting a hunk patches the baseline, rejecting it patches the current text. Both replay the
  changes in one direction: \<open>src\<close> is the side that is patched, \<open>dst\<close> the side the text is to reach.
\<close>

locale replay =
  fixes src dst :: "Change \<Rightarrow> rstr list"
    and start :: "HunkBuilder \<Rightarrow> nat"
    and removed inserted :: "HunkBuilder \<Rightarrow> rstr list"
    and pos :: "nat \<Rightarrow> nat \<Rightarrow> nat"
  assumes equal: "src (Equal v) = [v]" "dst (Equal v) = [v]"
    and fresh: "start (HunkBuilder_new ol nl) = pos ol nl"
      "removed (HunkBuilder_new ol nl) = []" "inserted (HunkBuilder_new ol nl) = []"
    and old_line: "start (add_old_line v b) = start b"
      "removed (add_old_line v b) = removed b @ src (Delete v)"
      "inserted (add_old_line v b) = inserted b @ dst (Delete v)"
    and new_line: "start (add_new_line v b) = start b"
      "removed (add_new_line v b) = removed b @ src (Insert v)"
      "inserted (add_new_line v b) = inserted b @ dst (Insert v)"
    and advance: "pos (Suc ol) nl = pos ol nl + length (src (Delete v))"
      "pos ol (Suc nl) = pos ol nl + length (src (Insert v))"
      "pos (Suc ol) (Suc nl) = Suc (pos ol nl)"
begin

lemma open_builder_laws [simp]:
  "removed (open_builder cur ol nl) = held removed cur"
  "inserted (open_builder cur ol nl) = held inserted cur"
  by (cases cur; simp add: open_builder_def fresh)+

lemma replay_scan:
  assumes "pos ol nl = length p + length (held removed cur) + 1"
    and "\<forall>b. cur = Some b \<longrightarrow> start b = length p + 1"
    and "lines_ok (p @ held removed cur @ side src cs)"
    and "ends_nl (concat (p @ held removed cur @ side src cs)) = t"
    and "good_text t (p @ held inserted cur @ side dst cs)"
    and "mixed (good_text t) src dst (p @ held removed cur) cs"
  shows "foldr (patch_with start removed inserted) (scan_changes cs cur ol nl)
           (concat (p @ held removed cur @ side src cs)) =
         concat (p @ held inserted cur @ side dst cs)"
  using assms
proof (induction cs cur ol nl arbitrary: p rule: scan_changes.induct)
  case (1 cur ol nl)
  then show ?case
    using patch_lines_concat[of p "held removed cur" "[]" "held inserted cur"]
    by (cases cur) (auto simp: patch_with_def good_text_def lines_ok_append)
next
  case (2 v cs cur ol nl)
  let ?patch = "patch_with start removed inserted"
  let ?q = "p @ held removed cur @ [v]"
  have mix: "good_text t (p @ held removed cur @ v # side dst cs)"
    using mixed_hd[OF 2(7)] by simp
  have "foldr ?patch (scan_changes cs None (ol + 1) (nl + 1)) (concat (?q @ held removed None @ side src cs)) =
        concat (?q @ held inserted None @ side dst cs)"
    using 2 mix mixed_tl[OF 2(7)] by (intro 2(1)) (simp_all add: equal advance)
  then have inner: "foldr ?patch (scan_changes cs None (ol + 1) (nl + 1)) (concat (p @ held removed cur @ v # side src cs)) =
        concat (p @ held removed cur @ v # side dst cs)" by simp
  show ?case
  proof (cases cur)
    case (Some b)
    have "?patch b (concat (p @ removed b @ v # side dst cs)) = concat (p @ inserted b @ v # side dst cs)"
      using mix 2(3,6) Some patch_lines_concat[of p "removed b" "v # side dst cs" "inserted b"]
      by (auto simp: good_text_def equal lines_ok_append patch_with_def)
    then show ?thesis using inner Some by (simp add: equal)
  qed (use inner in \<open>simp add: equal\<close>)
next
  case (3 v cs cur ol nl)
  have "\<forall>b. Some (add_old_line v (open_builder cur ol nl)) = Some b \<longrightarrow> start b = length p + 1"
    using 3(2,3) by (cases cur) (auto simp: open_builder_def old_line fresh)
  then show ?case
    using 3(1)[of p] 3(2-) mixed_tl[OF 3(7)] advance(1)[of ol nl v] by (simp add: old_line)
next
  case (4 v cs cur ol nl)
  have "\<forall>b. Some (add_new_line v (open_builder cur ol nl)) = Some b \<longrightarrow> start b = length p + 1"
    using 4(2,3) by (cases cur) (auto simp: open_builder_def new_line fresh)
  then show ?case
    using 4(1)[of p] 4(2-) mixed_tl[OF 4(7)] advance(2)[of ol nl v] by (simp add: new_line)
qed

lemma mixed_good:
  assumes "lines_ok (side src cs)" "good_text t (side dst cs)" "side common_part cs \<noteq> [[10]]"
  shows "mixed (good_text t) src dst [] cs"
  unfolding mixed_def
proof (intro allI impI)
  fix as v bs
  assume cs: "cs = as @ Equal v # bs"
  have ok: "lines_ok (side src as @ v # side dst bs)"
    using assms(1,2) by (auto simp: cs equal good_text_def lines_ok_append lines_ok_Cons)
  have "ends_nl (concat (side src as @ v # side dst bs)) = t"
    using assms(2) ok ends_nl_concat[OF ok] ends_nl_concat[of "side dst cs"] by (simp add: good_text_def cs equal)
  moreover have "side common_part xs = []" if "side f xs = []" "\<And>u. f (Equal u) = [u]" for f xs
    using that by (induction xs) (auto simp: equal split: Change.splits)
  then have "side src as @ v # side dst bs \<noteq> [[10]]"
    using assms(3) equal by (auto simp: cs append_eq_Cons_conv)
  ultimately show "good_text t ([] @ side src as @ v # side dst bs)"
    using ok by (simp add: good_text_def)
qed

lemma replay_all:
  assumes "pos 1 1 = 1" "lines_ok (side src cs)" "good_text (ends_nl (concat (side src cs))) (side dst cs)"
    and "side common_part cs \<noteq> [[10]]"
  shows "foldr (patch_with start removed inserted) (scan_changes cs None 1 1) (concat (side src cs)) =
         concat (side dst cs)"
  using replay_scan[of 1 1 "[]" None] mixed_good[OF assms(2-4)] assms by simp

text \<open>Every builder names lines of the patched side where they stand, and builders are apart.\<close>

lemma scan_located:
  assumes "pos ol nl = length p + length (held removed cur) + 1"
    and "\<forall>b. cur = Some b \<longrightarrow> start b = length p + 1"
    and "b \<in> set (scan_changes cs cur ol nl)"
  shows "\<exists>x y. p @ held removed cur @ side src cs = x @ removed b @ y \<and> start b = length x + 1 \<and> length p \<le> length x"
  using assms
proof (induction cs cur ol nl arbitrary: p rule: scan_changes.induct)
  case (1 cur ol nl)
  then show ?case by (cases cur) (simp_all, metis append_Nil2 le_refl)
next
  case (2 v cs cur ol nl)
  show ?case
  proof (cases "b \<in> set (finished cur)")
    case True
    then show ?thesis using 2(3) by (cases cur) (simp_all, metis le_refl)
  next
    case False
    then obtain x y where "(p @ held removed cur @ [v]) @ side src cs = x @ removed b @ y"
      "start b = length x + 1" "length (p @ held removed cur @ [v]) \<le> length x"
      using 2(1)[of "p @ held removed cur @ [v]"] 2(2,4) by (auto simp: advance)
    then show ?thesis by (intro exI[of _ x] exI[of _ y]) (simp add: equal)
  qed
next
  case (3 v cs cur ol nl)
  have "\<forall>b. Some (add_old_line v (open_builder cur ol nl)) = Some b \<longrightarrow> start b = length p + 1"
    using 3(2,3) by (cases cur) (auto simp: open_builder_def old_line fresh)
  then show ?case using 3(1)[of p] 3(2-) advance(1)[of ol nl v] by (simp add: old_line)
next
  case (4 v cs cur ol nl)
  have "\<forall>b. Some (add_new_line v (open_builder cur ol nl)) = Some b \<longrightarrow> start b = length p + 1"
    using 4(2,3) by (cases cur) (auto simp: open_builder_def new_line fresh)
  then show ?case using 4(1)[of p] 4(2-) advance(2)[of ol nl v] by (simp add: new_line)
qed

lemma scan_apart:
  fixes p :: "rstr list"
  assumes "pos ol nl = length p + length (held removed cur) + 1"
    and "\<forall>b. cur = Some b \<longrightarrow> start b = length p + 1"
  shows "sorted_wrt (\<lambda>a b. start a + length (removed a) < start b) (scan_changes cs cur ol nl)"
  using assms
proof (induction cs cur ol nl arbitrary: p rule: scan_changes.induct)
  case (1 cur ol nl)
  then show ?case by (cases cur) auto
next
  case (2 v cs cur ol nl)
  let ?q = "p @ held removed cur @ [v]"
  have "pos (ol + 1) (nl + 1) = length ?q + length (held removed None) + 1" using 2(2) by (simp add: advance)
  from scan_located[OF this] 2(1)[OF this]
  show ?case using 2(3) by (cases cur) (fastforce simp: sorted_wrt_append)+
next
  case (3 v cs cur ol nl)
  have "\<forall>b. Some (add_old_line v (open_builder cur ol nl)) = Some b \<longrightarrow> start b = length p + 1"
    using 3(2,3) by (cases cur) (auto simp: open_builder_def old_line fresh)
  then show ?case using 3(1)[of p] 3(2-) advance(1)[of ol nl v] by (simp add: old_line)
next
  case (4 v cs cur ol nl)
  have "\<forall>b. Some (add_new_line v (open_builder cur ol nl)) = Some b \<longrightarrow> start b = length p + 1"
    using 4(2,3) by (cases cur) (auto simp: open_builder_def new_line fresh)
  then show ?case using 4(1)[of p] 4(2-) advance(2)[of ol nl v] by (simp add: new_line)
qed

end

interpretation accept: replay old_part new_part b_old_start b_old_lines b_new_lines "\<lambda>ol nl. ol"
  by unfold_locales (simp_all add: HunkBuilder_new_def add_old_line_def add_new_line_def)

interpretation reject: replay new_part old_part b_new_start b_new_lines b_old_lines "\<lambda>ol nl. nl"
  by unfold_locales (simp_all add: HunkBuilder_new_def add_old_line_def add_new_line_def)

text \<open>\<open>sort_by_key\<close> with a reversed key is stable: equal keys keep their order.\<close>

definition sort_desc :: "('a \<Rightarrow> nat) \<Rightarrow> 'a list \<Rightarrow> 'a list" where
  "sort_desc key xs = sort_key (\<lambda>x. - int (key x)) xs"

lemma sort_desc_rev:
  assumes "sorted_wrt (\<lambda>a b. key a < key b) xs"
  shows "sort_desc key xs = rev xs"
  unfolding sort_desc_def
proof (rule sort_key_inj_key_eq)
  show "inj_on (\<lambda>x. - int (key x)) (set xs)"
    using assms strict_sorted_iff[of "map key xs"] by (simp add: sorted_wrt_map distinct_map inj_on_def)
  show "sorted (map (\<lambda>x. - int (key x)) (rev xs))"
    using assms by (auto simp: sorted_wrt_map sorted_wrt_rev elim: sorted_wrt_mono_rel[rotated])
qed simp

text \<open>The patches of a batch, applied from the end of the file to its start.\<close>

definition accept_patches :: "Hunk list \<Rightarrow> rstr \<Rightarrow> rstr" where
  "accept_patches hunks baseline =
     fold (\<lambda>h t. patch_lines t (old_start (line_info h)) (old_count (line_info h)) (new_text h))
       (sort_desc (\<lambda>h. old_start (line_info h)) hunks) baseline"

definition reject_patches :: "Hunk list \<Rightarrow> rstr \<Rightarrow> rstr" where
  "reject_patches hunks current =
     fold (\<lambda>h t. patch_lines t (new_start (line_info h)) (new_count (line_info h))
                   (case old_text h of Some o' \<Rightarrow> o' | None \<Rightarrow> []))
       (sort_desc (\<lambda>h. new_start (line_info h)) hunks) current"

text \<open>What the diff promises for texts without carriage returns, and the texts for which patching
  is exact: both end alike, neither is a lone line feed, and the shared lines are not one blank line.\<close>

definition diff_law :: "(rstr \<Rightarrow> rstr \<Rightarrow> Change list) \<Rightarrow> bool" where
  "diff_law diff \<longleftrightarrow>
     (\<forall>b c. 13 \<notin> set b \<longrightarrow> 13 \<notin> set c \<longrightarrow>
        side old_part (diff b c) = split_inclusive b \<and> side new_part (diff b c) = split_inclusive c)"

definition regular_pair :: "(rstr \<Rightarrow> rstr \<Rightarrow> Change list) \<Rightarrow> rstr \<Rightarrow> rstr \<Rightarrow> bool" where
  "regular_pair diff b c \<longleftrightarrow>
     13 \<notin> set b \<and> 13 \<notin> set c \<and> ends_nl b = ends_nl c \<and> b \<noteq> [10] \<and> c \<noteq> [10] \<and>
     side common_part (diff b c) \<noteq> [[10]]"

definition core :: "Hunk \<Rightarrow> HunkLineInfo \<times> rstr option \<times> rstr" where
  "core h = (line_info h, old_text h, new_text h)"

definition builder_core :: "HunkBuilder \<Rightarrow> HunkLineInfo \<times> rstr option \<times> rstr" where
  "builder_core b =
     (\<lparr> old_start = b_old_start b, old_count = length (b_old_lines b),
        new_start = b_new_start b, new_count = length (b_new_lines b) \<rparr>,
      if b_old_lines b = [] then None else Some (concat (b_old_lines b)), concat (b_new_lines b))"

lemma core_build [simp]: "core (build env n path source b) = builder_core b"
  by (simp add: core_def build_def builder_core_def)

lemma map_core_build [simp]:
  "map core (map (\<lambda>(i, b). build env i path source b) (enumerate n bs)) = map builder_core bs"
  by (induction bs arbitrary: n) simp_all

lemma split_inclusive_lone: "split_inclusive s = [[10]] \<longleftrightarrow> s = [10]"
  by (metis concat.simps concat_split_inclusive append_Nil2 split_inclusive.simps)

lemma foldr_core:
  assumes "map core hs = map builder_core bs"
  shows "foldr (\<lambda>h. g (core h)) hs t = foldr (\<lambda>b. g (builder_core b)) bs t"
  using foldr_map[of g core hs t] foldr_map[of g builder_core bs t] assms by (simp add: comp_def)

lemma sorted_core:
  assumes "map core hs = map builder_core bs" "sorted_wrt (\<lambda>a b. f (builder_core a) < f (builder_core b)) bs"
  shows "sorted_wrt (\<lambda>a b. f (core a) < f (core b)) hs"
proof -
  have "sorted_wrt (\<lambda>x y. f x < f y) (map core hs)"
    unfolding assms(1) using assms(2) by (simp add: sorted_wrt_map)
  then show ?thesis by (simp add: sorted_wrt_map)
qed

lemma accept_patches_foldr:
  assumes "map core hs = map builder_core (scan_changes cs None 1 1)"
  shows "accept_patches hs t =
         foldr (patch_with b_old_start b_old_lines b_new_lines) (scan_changes cs None 1 1) t"
proof -
  let ?g = "\<lambda>k t. patch_lines t (old_start (fst k)) (old_count (fst k)) (snd (snd k))"
  let ?bs = "scan_changes cs None 1 1"
  have "sorted_wrt (\<lambda>a b. b_old_start a < b_old_start b) ?bs"
    using accept.scan_apart[where p="[]" and cur=None and ol=1 and nl=1 and cs=cs] by (auto elim: sorted_wrt_mono_rel[rotated])
  then have "sorted_wrt (\<lambda>a b. old_start (line_info a) < old_start (line_info b)) hs"
    using sorted_core[OF assms, of "\<lambda>k. old_start (fst k)"] by (simp add: core_def builder_core_def)
  then have "accept_patches hs t =
foldr (\<lambda>h. ?g (core h)) hs t"
    by (simp add: accept_patches_def sort_desc_rev foldr_conv_fold core_def)
  also have "\<dots> = foldr (patch_with b_old_start b_old_lines b_new_lines) ?bs t"
    unfolding foldr_core[OF assms, of ?g] by (rule foldr_cong) (auto simp: builder_core_def patch_with_def)
  finally show ?thesis .
qed

lemma reject_patches_foldr:
  assumes "map core hs = map builder_core (scan_changes cs None 1 1)"
  shows "reject_patches hs t =
         foldr (patch_with b_new_start b_new_lines b_old_lines) (scan_changes cs None 1 1) t"
proof -
  let ?g = "\<lambda>k t. patch_lines t (new_start (fst k)) (new_count (fst k))
    (case fst (snd k) of Some v \<Rightarrow> v | None \<Rightarrow> [])"
  let ?bs = "scan_changes cs None 1 1"
  have "sorted_wrt (\<lambda>a b. b_new_start a < b_new_start b) ?bs"
    using reject.scan_apart[where p="[]" and cur=None and ol=1 and nl=1 and cs=cs] by (auto elim: sorted_wrt_mono_rel[rotated])
  then have "sorted_wrt (\<lambda>a b. new_start (line_info a) < new_start (line_info b)) hs"
    using sorted_core[OF assms, of "\<lambda>k. new_start (fst k)"] by (simp add: core_def builder_core_def)
  then have "reject_patches hs t =
foldr (\<lambda>h. ?g (core h)) hs t"
    by (simp add: reject_patches_def sort_desc_rev foldr_conv_fold core_def)
  also have "\<dots> = foldr (patch_with b_new_start b_new_lines b_old_lines) ?bs t"
    unfolding foldr_core[OF assms, of ?g] by (rule foldr_cong) (auto simp: builder_core_def patch_with_def)
  finally show ?thesis .
qed

text \<open>The hunks a diff yields, whatever identifiers and sources they carry.\<close>

definition hunk_cores :: "(rstr \<Rightarrow> rstr \<Rightarrow> Change list) \<Rightarrow> rstr \<Rightarrow> rstr \<Rightarrow> (HunkLineInfo \<times> rstr option \<times> rstr) list" where
  "hunk_cores diff b c = map builder_core (scan_changes (diff b c) None 1 1)"

lemma map_core_compute:
  "compute_hunks env n path b c source = [] \<or>
   map core (compute_hunks env n path b c source) = hunk_cores (diff_lines env) b c"
  by (simp add: hunk_cores_def compute_hunks_def del: map_map)

lemma regular_good:
  assumes "regular_pair diff b c"
  shows "lines_ok (split_inclusive b)" "lines_ok (split_inclusive c)"
    "good_text (ends_nl b) (split_inclusive b)" "good_text (ends_nl b) (split_inclusive c)"
  using assms by (auto simp: regular_pair_def good_text_def split_inclusive_lone lines_ok_split_inclusive)

lemma regular_sides:
  assumes "diff_law diff" "regular_pair diff b c"
  shows "side old_part (diff b c) = split_inclusive b" "side new_part (diff b c) = split_inclusive c"
    "side common_part (diff b c) \<noteq> [[10]]"
  using assms by (auto simp: diff_law_def regular_pair_def)

text \<open>Accepting every hunk of a regular pair turns the old text into the new, rejecting every hunk
  turns the new text into the old.\<close>

lemma accept_patches_exact:
  assumes "diff_law diff" "regular_pair diff b c" "map core hs = hunk_cores diff b c"
  shows "accept_patches hs b = c"
  using accept_patches_foldr[OF assms(3)[unfolded hunk_cores_def], of b]
    accept.replay_all[of "diff b c"] regular_sides[OF assms(1,2)] regular_good[OF assms(2)]
  by simp

lemma reject_patches_exact:
  assumes "diff_law diff" "regular_pair diff b c" "map core hs = hunk_cores diff b c"
  shows "reject_patches hs c = b"
  using reject_patches_foldr[OF assms(3)[unfolded hunk_cores_def], of c] assms(2)
    reject.replay_all[of "diff b c"] regular_sides[OF assms(1,2)] regular_good[OF assms(2)]
  by (simp add: regular_pair_def)

section \<open>Where hunks stand\<close>

lemma scan_not_empty:
  assumes "\<forall>b. cur = Some b \<longrightarrow> b_old_lines b \<noteq> [] \<or> b_new_lines b \<noteq> []" "b \<in> set (scan_changes cs cur ol nl)"
  shows "b_old_lines b \<noteq> [] \<or> b_new_lines b \<noteq> []"
  using assms
  by (induction cs cur ol nl rule: scan_changes.induct)
    (auto simp: add_old_line_def add_new_line_def finished_def split: option.splits)

definition hunk_stands :: "rstr list \<Rightarrow> rstr list \<Rightarrow> Hunk \<Rightarrow> bool" where
  "hunk_stands old new h \<longleftrightarrow>
     (let li = line_info h
      in 1 \<le> old_start li \<and> old_start li - 1 + old_count li \<le> length old \<and>
         1 \<le> new_start li \<and> new_start li - 1 + new_count li \<le> length new \<and>
         0 < old_count li + new_count li \<and>
         old_text h = (if old_count li = 0 then None
                       else Some (concat (take (old_count li) (drop (old_start li - 1) old)))) \<and>
         new_text h = concat (take (new_count li) (drop (new_start li - 1) new)))"

definition hunks_apart :: "Hunk \<Rightarrow> Hunk \<Rightarrow> bool" where
  "hunks_apart g h \<longleftrightarrow>
     old_start (line_info g) + old_count (line_info g) < old_start (line_info h) \<and>
     new_start (line_info g) + new_count (line_info g) < new_start (line_info h)"

lemma build_stands:
  assumes "b \<in> set (scan_changes cs None 1 1)"
  shows "hunk_stands (side old_part cs) (side new_part cs) (build env n path source b)"
proof -
  obtain x y where "side old_part cs = x @ b_old_lines b @ y" "b_old_start b = length x + 1"
    using accept.scan_located[where p="[]" and cur=None and ol=1 and nl=1, OF _ _ assms] by auto
  moreover obtain u w where "side new_part cs = u @ b_new_lines b @ w" "b_new_start b = length u + 1"
    using reject.scan_located[where p="[]" and cur=None and ol=1 and nl=1, OF _ _ assms] by auto
  moreover have "b_old_lines b \<noteq> [] \<or> b_new_lines b \<noteq> []" using scan_not_empty[OF _ assms] by simp
  ultimately show ?thesis by (auto simp: hunk_stands_def build_def Let_def)
qed

lemma sorted_wrt_enumerate:
  assumes "sorted_wrt Q bs" "\<And>i j a b. Q a b \<Longrightarrow> P (f i a) (f j b)"
  shows "sorted_wrt P (map (\<lambda>(i, b). f i b) (enumerate n bs))"
  using assms by (induction bs arbitrary: n) (auto simp: in_set_enumerate_eq)

text \<open>
  Between texts without carriage returns the hunks \<open>compute_hunks\<close> returns stand apart in file
  order on both sides, at least one unchanged line between two of them; each is non-empty, lies
  inside both files, and its old and new text are the lines that stand at its positions.
\<close>

lemma compute_hunks_stand:
  assumes "diff_law (diff_lines env)" "13 \<notin> set b" "13 \<notin> set c"
  shows "sorted_wrt hunks_apart (compute_hunks env n path b c source) \<and>
    list_all (hunk_stands (split_inclusive b) (split_inclusive c)) (compute_hunks env n path b c source)"
proof (cases "compute_hunks env n path b c source = []")
  case False
  let ?cs = "diff_lines env b c"
  from False have hs: "compute_hunks env n path b c source =
      map (\<lambda>(i, b). build env i path source b) (enumerate n (scan_changes ?cs None 1 1))"
    by (auto simp: compute_hunks_def split: if_splits)
  have sides: "side old_part ?cs = split_inclusive b" "side new_part ?cs = split_inclusive c"
    using assms by (auto simp: diff_law_def)
  have "sorted_wrt (\<lambda>a b. b_old_start a + length (b_old_lines a) < b_old_start b \<and>
                           b_new_start a + length (b_new_lines a) < b_new_start b) (scan_changes ?cs None 1 1)"
    using accept.scan_apart[where p="[]" and cur=None and ol=1 and nl=1 and cs="?cs"]
      reject.scan_apart[where p="[]" and cur=None and ol=1 and nl=1 and cs="?cs"]
    by (simp add: sorted_wrt_iff_nth_less)
  then have "sorted_wrt hunks_apart (compute_hunks env n path b c source)"
    unfolding hs by (rule sorted_wrt_enumerate) (simp add: hunks_apart_def build_def)
  moreover have "list_all (hunk_stands (split_inclusive b) (split_inclusive c)) (compute_hunks env n path b c source)"
    unfolding hs by (auto simp: list_all_iff sides[symmetric] in_set_enumerate_eq intro!: build_stands)
  ultimately show ?thesis by blast
qed simp

text \<open>A line-by-line diff, for concrete evaluation: it compares lines at the same index.\<close>

fun index_diff :: "rstr list \<Rightarrow> rstr list \<Rightarrow> Change list" where
  "index_diff [] ns = map Insert ns"
| "index_diff os [] = map Delete os"
| "index_diff (x # os) (y # ns) = (if x = y then [Equal x] else [Delete x, Insert y]) @ index_diff os ns"

definition index_env :: Env where
  "index_env = \<lparr> new_id = show_dec, utc_now = (\<lambda>n. n),
                 diff_lines = (\<lambda>b c. index_diff (split_inclusive b) (split_inclusive c)),
                 in_time = (\<lambda>b c. True) \<rparr>"

lemma index_diff_sides: "side old_part (index_diff os ns) = os" "side new_part (index_diff os ns) = ns"
proof -
  have ins: "side old_part (map Insert ns) = []" "side new_part (map Insert ns) = ns" for ns
    by (induction ns) simp_all
  have del: "side old_part (map Delete os) = os" "side new_part (map Delete os) = []" for os
    by (induction os) simp_all
  show "side old_part (index_diff os ns) = os" "side new_part (index_diff os ns) = ns"
    by (induction os ns rule: index_diff.induct) (auto simp: ins del simp del: list.map)
qed

lemma index_env_law: "diff_law (diff_lines index_env)"
  by (simp add: diff_law_def index_env_def index_diff_sides)

theorem compute_hunks_stand_witness:
  "list_all (hunk_stands [[97, 10], [98, 10]] [[120, 10], [98, 10], [121, 10]])
     (compute_hunks index_env 0 [] [97, 10, 98, 10] [120, 10, 98, 10, 121, 10] External) \<and>
   length (compute_hunks index_env 0 [] [97, 10, 98, 10] [120, 10, 98, 10, 121, 10] External) = 2"
  using compute_hunks_stand[OF index_env_law, of "[97, 10, 98, 10]" "[120, 10, 98, 10, 121, 10]" 0 "[]" External]
  by (simp add: compute_hunks_def index_env_def MAX_DIFF_FILE_SIZE_def len_utf8_def)

section \<open>The patch of one hunk\<close>

lemma length_str_lines: "13 \<notin> set s \<Longrightarrow> length (str_lines s) = length (split_inclusive s)"
  using str_lines_concat[OF lines_ok_split_inclusive, of s] by simp

text \<open>Printing the hunks of a diff never underflows, provided the texts hold no carriage return.\<close>

lemma hunk_patch_total:
  assumes "hunk_stands (split_inclusive b) (split_inclusive c) h" "13 \<notin> set b" "13 \<notin> set c"
  shows "generate_hunk_patch b c h \<noteq> None"
  using assms by (auto simp: generate_hunk_patch_def hunk_stands_def checked_sub_def Let_def length_str_lines)

text \<open>A hunk that counts more lines than \<open>str::lines\<close> finds, as a diff that also splits at a bare
  carriage return yields, makes the subtraction underflow.\<close>

lemma bare_cr_patch_underflows:
  "generate_hunk_patch [97, 10] [98, 13, 99, 10]
     (build index_env 0 [] External
        \<lparr> b_old_start = 1, b_new_start = 1, b_old_lines = [[97, 10]], b_new_lines = [[98, 13], [99, 10]] \<rparr>) = None"
  by (simp add: generate_hunk_patch_def build_def str_lines_def strip_cr_def CONTEXT_LINES_def checked_sub_def Let_def)

text \<open>Two hunks a line apart: the fragment of the first announces three old lines after the change
  and prints one, and the fragment of the second shows a context line the current text does not have.\<close>

lemma near_hunks_patch:
  "map (generate_hunk_patch (lit ''a'' @ [10] @ lit ''b'' @ [10] @ lit ''c'' @ [10] @ lit ''d'' @ [10])
          (lit ''x'' @ [10] @ lit ''b'' @ [10]))
     (compute_hunks index_env 0 []
        (lit ''a'' @ [10] @ lit ''b'' @ [10] @ lit ''c'' @ [10] @ lit ''d'' @ [10])
        (lit ''x'' @ [10] @ lit ''b'' @ [10]) External) =
   [Some (lit ''@@ -1,4 +1,2 @@'' @ [10] @ lit ''-a'' @ [10] @ lit ''+x'' @ [10] @ lit '' b'' @ [10]),
    Some (lit ''@@ -1,4 +1,2 @@'' @ [10] @ lit '' a'' @ [10] @ lit '' b'' @ [10] @ lit ''-c'' @ [10] @ lit ''-d'' @ [10])]"
proof -
  let ?b = "lit ''a'' @ [10] @ lit ''b'' @ [10] @ lit ''c'' @ [10] @ lit ''d'' @ [10]"
  let ?c = "lit ''x'' @ [10] @ lit ''b'' @ [10]"
  have hs: "compute_hunks index_env 0 [] ?b ?c External =
    map (\<lambda>(i, b). build index_env i [] External b)
      (enumerate 0 (scan_changes (index_diff (split_inclusive ?b) (split_inclusive ?c)) None 1 1))"
    by (simp add: compute_hunks_def MAX_DIFF_FILE_SIZE_def len_utf8_def) (simp add: index_env_def)
  show ?thesis unfolding hs by code_simp
qed

section \<open>Limits of patching by lines\<close>

text \<open>The text after a patch takes its final line feed from the text before, and its line ends are
  line feeds.\<close>

lemma patch_keeps_missing_newline: "patch_lines (lit ''a'') 1 1 (lit ''a'' @ [10]) = lit ''a''"
  by code_simp

lemma patch_of_empty_text: "patch_lines [] 1 0 (lit ''a'' @ [10]) = lit ''a''"
  by code_simp

lemma patch_rewrites_crlf:
  "patch_lines (lit ''a'' @ [13, 10] @ lit ''b'' @ [13, 10]) 2 1 (lit ''c'' @ [13, 10]) =
   lit ''a'' @ [10] @ lit ''c'' @ [10]"
  by code_simp

section \<open>Matching hunks\<close>

lemma hunks_overlap_sym: "hunks_overlap a b \<longleftrightarrow> hunks_overlap b a"
  by (auto simp: hunks_overlap_def Let_def)

lemma min_by_key_eq_None [simp]: "min_by_key f xs = None \<longleftrightarrow> xs = []"
  by (cases xs) (auto split: option.splits if_splits)

lemma max_by_key_eq_None [simp]: "max_by_key f xs = None \<longleftrightarrow> xs = []"
  by (cases xs) (auto split: option.splits if_splits)

lemma min_by_key_Some: "min_by_key f xs = Some x \<Longrightarrow> x \<in> set xs \<and> (\<forall>y\<in>set xs. f x \<le> f y)"
  by (induction xs arbitrary: x) (fastforce split: option.splits if_splits)+

lemma max_by_key_Some: "max_by_key f xs = Some x \<Longrightarrow> x \<in> set xs \<and> (\<forall>y\<in>set xs. f y \<le> f x)"
  by (induction xs arbitrary: x) (fastforce split: option.splits if_splits)+

lemma find_matching_sound:
  assumes "find_matching_old_hunk h hs = Some m"
  shows "m \<in> set hs" "hunks_match_content m h \<or> hunks_overlap m h"
proof -
  have "m \<in> set hs \<and> (hunks_match_content m h \<or> hunks_overlap m h)"
    using assms by (auto simp: find_matching_old_hunk_def Let_def split: if_splits
        dest!: min_by_key_Some max_by_key_Some)
  then show "m \<in> set hs" "hunks_match_content m h \<or> hunks_overlap m h" by auto
qed

text \<open>An unchanged hunk is matched with a hunk of the same content, the nearest one.\<close>

lemma find_matching_content:
  assumes "g \<in> set hs" "hunks_match_content g h"
  obtains m where "find_matching_old_hunk h hs = Some m" "hunks_match_content m h"
    "abs_diff (new_start (line_info m)) (new_start (line_info h)) \<le>
     abs_diff (new_start (line_info g)) (new_start (line_info h))"
proof -
  let ?ms = "filter (\<lambda>h'. hunks_match_content h' h) hs"
  let ?d = "\<lambda>k. abs_diff (new_start (line_info k)) (new_start (line_info h))"
  have "g \<in> set ?ms" using assms by simp
  then have ne: "?ms \<noteq> []" by (metis empty_iff list.set(1))
  then obtain m where m: "min_by_key ?d ?ms = Some m" by (metis min_by_key_eq_None not_None_eq)
  with ne have "find_matching_old_hunk h hs = Some m" by (simp add: find_matching_old_hunk_def Let_def)
  with that min_by_key_Some[OF m] \<open>g \<in> set ?ms\<close> show thesis by auto
qed

end
