(* ===== verification/Hunk_Tracker.thy ===== *)
theory Hunk_Tracker
  imports Hunk_Diff Utf8 "HOL-Library.AList"
begin

text \<open>
  The state and the operations of the hunk tracker actor (\<open>actor/state.rs\<close>, \<open>file_utils.rs\<close>,
  \<open>hunks.rs\<close>, \<open>actions.rs\<close>, \<open>mutations.rs\<close>, \<open>queries.rs\<close>, \<open>mod.rs\<close> of \<open>xai-hunk-tracker\<close>). A hash map
  of tracked files is an association list whose order is the iteration order of the map. The disk is part of the
  state, because rejecting a hunk writes it; what git answers, and how reads and
  writes turn out, are fields of the environment \<open>TrackerEnv\<close>. Events are appended to \<open>events\<close> in the order they are sent.
\<close>

section \<open>File content\<close>

definition MAX_TRACKED_TEXT_BYTES :: nat where "MAX_TRACKED_TEXT_BYTES = 1024 * 1024"

datatype FileContentState =
  Missing | Binary "nat option" | TooLarge nat | LfsPointer nat | Symlink | Full rstr

definition content_str :: "FileContentState \<Rightarrow> rstr option" where
  "content_str s = (case s of Full t \<Rightarrow> Some t | _ \<Rightarrow> None)"

definition is_diffable :: "FileContentState \<Rightarrow> bool" where
  "is_diffable s = (case s of Full _ \<Rightarrow> True | _ \<Rightarrow> False)"

definition LFS_POINTER_PREFIX :: "nat list" where
  "LFS_POINTER_PREFIX = lit ''version https://git-lfs.github.com/spec/v1'' @ [10]"

definition is_lfs_pointer :: "nat list \<Rightarrow> bool" where
  "is_lfs_pointer bytes \<longleftrightarrow> length bytes < 1024 \<and> prefix LFS_POINTER_PREFIX bytes"

definition is_binary :: "nat list \<Rightarrow> bool" where
  "is_binary bytes \<longleftrightarrow> 0 \<in> set (take 8000 bytes)"

text \<open>What a path names on disk: text is a file whose bytes are valid UTF-8, \<open>Raw\<close> one whose bytes are not.\<close>

datatype Node = Text rstr | Raw "nat list" | Directory | Link

definition node_bytes :: "Node \<Rightarrow> nat list" where
  "node_bytes d = (case d of Text s \<Rightarrow> str_bytes s | Raw bs \<Rightarrow> bs | _ \<Rightarrow> [])"

definition from_utf8 :: "Node \<Rightarrow> rstr option" where
  "from_utf8 d = (case d of Text s \<Rightarrow> Some s | _ \<Rightarrow> None)"

definition classify_bytes :: "Node \<Rightarrow> FileContentState" where
  "classify_bytes d =
     (let n = length (node_bytes d)
      in if MAX_TRACKED_TEXT_BYTES < n then TooLarge n
         else if is_lfs_pointer (node_bytes d) then LfsPointer n
         else if is_binary (node_bytes d) then Binary (Some n)
         else case from_utf8 d of Some s \<Rightarrow> Full s | None \<Rightarrow> Binary (Some n))"

definition classify_string :: "rstr \<Rightarrow> FileContentState" where
  "classify_string s =
     (if MAX_TRACKED_TEXT_BYTES < byte_len s then TooLarge (byte_len s)
      else if is_lfs_pointer (str_bytes s) then LfsPointer (byte_len s)
      else if is_binary (str_bytes s) then Binary (Some (byte_len s))
      else Full s)"

text \<open>
  How the calls of one read turn out: whether the file can be opened, how many of the bytes asked for the first
  read delivers (\<open>None\<close> an error; a read may deliver fewer), and whether reading the rest succeeds.
\<close>

record ReadIO =
  opens :: bool
  prefix_read :: "nat \<Rightarrow> nat option"
  rest_reads :: bool

definition full_reads :: ReadIO where
  "full_reads = \<lparr> opens = True, prefix_read = Some, rest_reads = True \<rparr>"

text \<open>\<open>String::from_utf8\<close> on a part of the bytes.\<close>

definition utf8_part :: "nat list \<Rightarrow> rstr option" where
  "utf8_part bs = (let t = from_utf8_lossy bs in if str_bytes t = bs then Some t else None)"

text \<open>\<open>read_file_bounded\<close>: the size is checked before anything is read, the prefix of 8000 bytes
  before the rest. A file of at most 8000 bytes is read by one call of \<open>read\<close>.\<close>

definition read_file_bounded :: "ReadIO \<Rightarrow> Node option \<Rightarrow> FileContentState" where
  "read_file_bounded io node =
     (case node of
        None \<Rightarrow> Missing
      | Some Link \<Rightarrow> Symlink
      | Some Directory \<Rightarrow> Missing
      | Some d \<Rightarrow>
          (let n = length (node_bytes d); prefix_size = min 8000 n
           in if MAX_TRACKED_TEXT_BYTES < n then TooLarge n
              else if \<not> opens io then Missing
              else case prefix_read io prefix_size of
                     None \<Rightarrow> Missing
                   | Some k \<Rightarrow>
                       (let pre = take (min k prefix_size) (node_bytes d)
                        in if is_lfs_pointer pre then LfsPointer n
                           else if is_binary pre then Binary (Some n)
                           else if prefix_size < n \<and> \<not> rest_reads io then Missing
                           else case (if prefix_size < n \<or> prefix_size \<le> k then from_utf8 d else utf8_part pre) of
                                  Some s \<Rightarrow> Full s
                                | None \<Rightarrow> Binary (Some n))))"

section \<open>State\<close>

record FileHunkState =
  baseline :: FileContentState
  current_content :: FileContentState
  hunks :: "Hunk list"
  is_agent_file :: bool
  baseline_accepted :: bool

datatype TrackingMode = AgentOnly | AllDirty

record SessionStats =
  accepted_hunks :: nat
  rejected_hunks :: nat
  accepted_lines_added :: nat
  accepted_lines_removed :: nat
  rejected_lines_added :: nat
  rejected_lines_removed :: nat

definition SessionStats_default :: SessionStats where
  "SessionStats_default =
     \<lparr> accepted_hunks = 0, rejected_hunks = 0, accepted_lines_added = 0, accepted_lines_removed = 0,
       rejected_lines_added = 0, rejected_lines_removed = 0 \<rparr>"

datatype HunkRemovalReason = Accepted | Rejected | Superseded

datatype HunkEvent =
  HunkAdded pathbuf Hunk
| HunkRemoved pathbuf HunkId HunkRemovalReason
| HunkMoved pathbuf HunkId HunkLineInfo
| HunkContentChanged pathbuf Hunk HunkSource nat nat
| FileAdded pathbuf bool
| FileRemoved pathbuf
| BaselineUpdated pathbuf

datatype HunkAction = Accept | Reject

datatype HunkActionError = HunkNotFound HunkId | WriteError pathbuf | DeleteError pathbuf

type_synonym RepoSyncState = "rstr option \<times> nat option"

record TrackerEnv = Env +
  read_baseline :: "pathbuf \<Rightarrow> FileContentState"
  git_status :: "pathbuf list option \<Rightarrow> (pathbuf list \<times> pathbuf list) option"
  read_repo_sync_state :: "RepoSyncState option"
  io_fails :: "pathbuf \<Rightarrow> bool"
  torn_write :: "pathbuf \<Rightarrow> rstr \<Rightarrow> Node option"
  reading :: "pathbuf \<Rightarrow> ReadIO"

record Tracker =
  working_dir :: pathbuf
  file_states :: "(pathbuf \<times> FileHunkState) list"
  turn_index :: "nat \<rightharpoonup> HunkId list"
  git_dirty_cache :: "pathbuf list"
  git_staged_cache :: "pathbuf list"
  repo_sync_state :: RepoSyncState
  mode :: TrackingMode
  session_stats :: SessionStats
  next_id :: nat
  disk :: "pathbuf \<rightharpoonup> Node"
  events :: "HunkEvent list"

definition HunkTrackerActor_new :: "pathbuf \<Rightarrow> TrackingMode \<Rightarrow> (pathbuf \<rightharpoonup> Node) \<Rightarrow> Tracker" where
  "HunkTrackerActor_new wd md d =
     \<lparr> working_dir = wd, file_states = [], turn_index = Map.empty, git_dirty_cache = [],
       git_staged_cache = [], repo_sync_state = (None, None), mode = md,
       session_stats = SessionStats_default, next_id = 0, disk = d, events = [] \<rparr>"

definition file_state :: "Tracker \<Rightarrow> pathbuf \<Rightarrow> FileHunkState option" where
  "file_state tr path = map_of (file_states tr) path"

definition with_file :: "pathbuf \<Rightarrow> (FileHunkState \<Rightarrow> FileHunkState) \<Rightarrow> Tracker \<Rightarrow> Tracker" where
  "with_file path f tr = tr\<lparr> file_states := AList.map_entry path f (file_states tr) \<rparr>"

definition insert_file :: "pathbuf \<Rightarrow> FileHunkState \<Rightarrow> Tracker \<Rightarrow> Tracker" where
  "insert_file path st tr = tr\<lparr> file_states := AList.update path st (file_states tr) \<rparr>"

definition remove_file :: "pathbuf \<Rightarrow> Tracker \<Rightarrow> Tracker" where
  "remove_file path tr = tr\<lparr> file_states := AList.delete path (file_states tr) \<rparr>"

definition send_events :: "HunkEvent list \<Rightarrow> Tracker \<Rightarrow> Tracker" where
  "send_events es tr = tr\<lparr> events := events tr @ es \<rparr>"

section \<open>The index of turns\<close>

text \<open>Removal leaves an empty set behind; insertion creates the set when it is missing.\<close>

definition index_remove :: "HunkId \<Rightarrow> HunkSource \<Rightarrow> (nat \<rightharpoonup> HunkId list) \<Rightarrow> (nat \<rightharpoonup> HunkId list)" where
  "index_remove i source ti =
     (case prompt_index source of
        None \<Rightarrow> ti
      | Some p \<Rightarrow> (case ti p of None \<Rightarrow> ti | Some ids \<Rightarrow> ti(p \<mapsto> filter (\<lambda>j. j \<noteq> i) ids)))"

definition index_insert :: "HunkId \<Rightarrow> HunkSource \<Rightarrow> (nat \<rightharpoonup> HunkId list) \<Rightarrow> (nat \<rightharpoonup> HunkId list)" where
  "index_insert i source ti =
     (case prompt_index source of
        None \<Rightarrow> ti
      | Some p \<Rightarrow> ti(p \<mapsto> List.insert i (case ti p of None \<Rightarrow> [] | Some ids \<Rightarrow> ids)))"

definition unindex :: "Hunk list \<Rightarrow> (nat \<rightharpoonup> HunkId list) \<Rightarrow> (nat \<rightharpoonup> HunkId list)" where
  "unindex hs ti = fold (\<lambda>h. index_remove (hunk_id h) (hunk_source h)) hs ti"

definition reindex :: "Hunk list \<Rightarrow> (nat \<rightharpoonup> HunkId list) \<Rightarrow> (nat \<rightharpoonup> HunkId list)" where
  "reindex hs ti = fold (\<lambda>h. index_insert (hunk_id h) (hunk_source h)) hs ti"

section \<open>Recomputing hunks\<close>

definition fresh_hunks ::
  "('e) Env_scheme \<Rightarrow> nat \<Rightarrow> pathbuf \<Rightarrow> FileContentState \<Rightarrow> FileContentState \<Rightarrow> HunkSource \<Rightarrow> Hunk list" where
  "fresh_hunks env n path base cur source =
     (case (base, cur) of
        (Full b, Full c) \<Rightarrow> compute_hunks env n path b c source
      | (Full b, Missing) \<Rightarrow> if b = [] then [] else [file_deleted env n path b source]
      | (Missing, Full c) \<Rightarrow> if c = [] then [] else [file_created env n path c source]
      | _ \<Rightarrow> [])"

text \<open>A new hunk takes over the identifier of the old hunk it matches, unless another new hunk has
  claimed it, and an agent's authorship survives an external edit.\<close>

fun preserve_ids :: "Hunk list \<Rightarrow> HunkId list \<Rightarrow> Hunk list \<Rightarrow> Hunk list" where
  "preserve_ids old claimed [] = []"
| "preserve_ids old claimed (h # hs) =
     (case find_matching_old_hunk h old of
        None \<Rightarrow> h # preserve_ids old claimed hs
      | Some m \<Rightarrow>
          if hunk_id m \<in> set claimed then h # preserve_ids old claimed hs
          else h\<lparr> hunk_id := hunk_id m,
                  hunk_source := (if is_external (hunk_source h) \<and> is_agent_edit (hunk_source m)
                                  then hunk_source m else hunk_source h) \<rparr>
               # preserve_ids old (hunk_id m # claimed) hs)"

definition removed_events :: "pathbuf \<Rightarrow> Hunk list \<Rightarrow> Hunk list \<Rightarrow> HunkEvent list" where
  "removed_events path old new =
     map (\<lambda>h. HunkRemoved path (hunk_id h) Superseded)
       (filter (\<lambda>h. \<not> list_ex (\<lambda>n. hunks_overlap h n \<or> hunks_match_content h n) new) old)"

definition changed_events :: "pathbuf \<Rightarrow> Hunk list \<Rightarrow> HunkSource \<Rightarrow> Hunk \<Rightarrow> HunkEvent list" where
  "changed_events path old trigger n =
     (case find (\<lambda>h. hunks_match_content h n) old of
        Some h \<Rightarrow> if hunk_moved h n then [HunkMoved path (hunk_id h) (line_info n)] else []
      | None \<Rightarrow>
          if \<not> list_ex (\<lambda>h. hunks_overlap h n) old then [HunkAdded path n]
          else
            let prev = (case find (\<lambda>h. hunk_id h = hunk_id n) old of
                          Some h \<Rightarrow> Some h
                        | None \<Rightarrow> find (\<lambda>h. hunks_overlap h n) old)
            in [HunkContentChanged path n trigger
                  (case prev of Some h \<Rightarrow> new_count (line_info h) | None \<Rightarrow> 0)
                  (case prev of Some h \<Rightarrow> old_count (line_info h) | None \<Rightarrow> 0)])"

definition hunk_diff_events :: "pathbuf \<Rightarrow> Hunk list \<Rightarrow> Hunk list \<Rightarrow> HunkSource \<Rightarrow> HunkEvent list" where
  "hunk_diff_events path old new trigger =
     removed_events path old new @ concat (map (changed_events path old trigger) new)"

definition recompute_hunks ::
  "('e) TrackerEnv_scheme \<Rightarrow> pathbuf \<Rightarrow> FileContentState option \<Rightarrow> HunkSource \<Rightarrow> Tracker \<Rightarrow> Tracker" where
  "recompute_hunks env path new_current source tr =
     (case file_state tr path of
        None \<Rightarrow> tr
      | Some st \<Rightarrow>
          let cur = (case new_current of Some c \<Rightarrow> c | None \<Rightarrow> Missing);
              fresh = fresh_hunks env (next_id tr) path (baseline st) cur source;
              new = preserve_ids (hunks st) [] fresh
          in send_events (hunk_diff_events path (hunks st) new source)
               ((with_file path (\<lambda>s. s\<lparr> current_content := cur, hunks := new \<rparr>) tr)
                  \<lparr> turn_index := reindex new (unindex (hunks st) (turn_index tr)),
                    next_id := next_id tr + length fresh \<rparr>))"

section \<open>Actions\<close>

definition update_session_stats :: "HunkLineInfo \<Rightarrow> bool \<Rightarrow> SessionStats \<Rightarrow> SessionStats" where
  "update_session_stats li acc s =
     (if acc then
        s\<lparr> accepted_hunks := sat_add u64_max (accepted_hunks s) 1,
           accepted_lines_added := sat_add u64_max (accepted_lines_added s) (new_count li),
           accepted_lines_removed := sat_add u64_max (accepted_lines_removed s) (old_count li) \<rparr>
      else
        s\<lparr> rejected_hunks := sat_add u64_max (rejected_hunks s) 1,
           rejected_lines_added := sat_add u64_max (rejected_lines_added s) (new_count li),
           rejected_lines_removed := sat_add u64_max (rejected_lines_removed s) (old_count li) \<rparr>)"

definition count_hunk :: "HunkAction \<Rightarrow> Hunk \<Rightarrow> Tracker \<Rightarrow> Tracker" where
  "count_hunk action h tr =
     tr\<lparr> session_stats := update_session_stats (line_info h) (action = Accept) (session_stats tr),
         turn_index := index_remove (hunk_id h) (hunk_source h) (turn_index tr) \<rparr>"

definition remaining_source :: "pathbuf \<Rightarrow> Tracker \<Rightarrow> HunkSource" where
  "remaining_source path tr =
     (case file_state tr path of
        Some st \<Rightarrow> (case hunks st of h # _ \<Rightarrow> hunk_source h | [] \<Rightarrow> External)
      | None \<Rightarrow> External)"

definition without_hunks :: "Hunk list \<Rightarrow> Hunk list \<Rightarrow> Hunk list" where
  "without_hunks gone hs = filter (\<lambda>h. hunk_id h \<notin> hunk_id ` set gone) hs"

definition removal_events :: "pathbuf \<Rightarrow> Hunk list \<Rightarrow> HunkRemovalReason \<Rightarrow> HunkEvent list" where
  "removal_events path hs reason = map (\<lambda>h. HunkRemoved path (hunk_id h) reason) hs"

definition accept_hunk :: "('e) TrackerEnv_scheme \<Rightarrow> pathbuf \<Rightarrow> Hunk \<Rightarrow> Tracker \<Rightarrow> Tracker" where
  "accept_hunk env path h tr =
     (case file_state tr path of
        None \<Rightarrow> tr
      | Some st \<Rightarrow>
          if baseline st = Missing then
            send_events (removal_events path [h] Accepted @ [BaselineUpdated path])
              (with_file path (\<lambda>s. s\<lparr> baseline := current_content s, baseline_accepted := True,
                                      hunks := without_hunks [h] (hunks s) \<rparr>) tr)
          else
            let base = (case baseline st of
                          Full b \<Rightarrow> Full (patch_lines b (old_start (line_info h)) (old_count (line_info h)) (new_text h))
                        | x \<Rightarrow> x);
                tr' = send_events (removal_events path [h] Accepted @ [BaselineUpdated path])
                        (with_file path (\<lambda>s. s\<lparr> baseline := base, baseline_accepted := True,
                                                hunks := without_hunks [h] (hunks s) \<rparr>) tr)
            in recompute_hunks env path (Some (current_content st)) (remaining_source path tr') tr')"

text \<open>
  Writing and removing files. A write follows a symbolic link, whose target is not a tracked path of the model.
  A write opens the file, truncates it and then writes; when it fails, \<open>torn_write\<close> is what the path holds
  then (\<open>None\<close>: it failed before truncating, the file is as it was). \<open>Inl\<close> is the failure.
\<close>

definition fs_write :: "('e) TrackerEnv_scheme \<Rightarrow> pathbuf \<Rightarrow> rstr \<Rightarrow> Tracker \<Rightarrow> Tracker + Tracker" where
  "fs_write env path s tr =
     (if disk tr path = Some Directory then Inl tr
      else if io_fails env path then
        Inl (case torn_write env path s of
               Some left \<Rightarrow> if disk tr path = Some Link then tr else tr\<lparr> disk := (disk tr)(path \<mapsto> left) \<rparr>
             | None \<Rightarrow> tr)
      else if disk tr path = Some Link then Inr tr
      else Inr (tr\<lparr> disk := (disk tr)(path \<mapsto> Text s) \<rparr>))"

definition fs_remove :: "('e) TrackerEnv_scheme \<Rightarrow> pathbuf \<Rightarrow> Tracker \<Rightarrow> Tracker option" where
  "fs_remove env path tr =
     (if io_fails env path \<or> disk tr path = None \<or> disk tr path = Some Directory then None
      else Some (tr\<lparr> disk := (disk tr)(path := None) \<rparr>))"

datatype RejectAction = RestoreDeleted rstr | DeleteCreated | RevertChange rstr | NoOp

definition reject_plan :: "FileHunkState \<Rightarrow> (rstr \<Rightarrow> rstr) \<Rightarrow> RejectAction" where
  "reject_plan st revert =
     (case (baseline st, current_content st) of
        (Full b, Missing) \<Rightarrow> RestoreDeleted b
      | (Missing, Full c) \<Rightarrow> DeleteCreated
      | (_, Full c) \<Rightarrow> RevertChange (revert c)
      | _ \<Rightarrow> NoOp)"

definition reject_hunk ::
  "('e) TrackerEnv_scheme \<Rightarrow> pathbuf \<Rightarrow> Hunk \<Rightarrow> Tracker \<Rightarrow> (HunkActionError + unit) \<times> Tracker" where
  "reject_hunk env path h tr =
     (case file_state tr path of
        None \<Rightarrow> (Ok (), tr)
      | Some st \<Rightarrow>
          (case reject_plan st (\<lambda>c. patch_lines c (new_start (line_info h)) (new_count (line_info h))
                                      (case old_text h of Some t \<Rightarrow> t | None \<Rightarrow> [])) of
             NoOp \<Rightarrow> (Ok (), tr)
           | RestoreDeleted b \<Rightarrow>
               (case fs_write env path b tr of
                  Inl tr \<Rightarrow> (Err (WriteError path), tr)
                | Inr tr \<Rightarrow>
                    (Ok (), send_events (removal_events path [h] Rejected)
                       (with_file path (\<lambda>s. s\<lparr> current_content := Full b, hunks := without_hunks [h] (hunks s) \<rparr>) tr)))
           | DeleteCreated \<Rightarrow>
               (case fs_remove env path tr of
                  None \<Rightarrow> (Err (DeleteError path), tr)
                | Some tr \<Rightarrow>
                    (Ok (), send_events (removal_events path [h] Rejected)
                       (with_file path (\<lambda>s. s\<lparr> current_content := Missing, hunks := without_hunks [h] (hunks s) \<rparr>) tr)))
           | RevertChange c \<Rightarrow>
               (case fs_write env path c tr of
                  Inl tr \<Rightarrow> (Err (WriteError path), tr)
                | Inr tr \<Rightarrow>
                    let tr' = send_events (removal_events path [h] Rejected)
                                (with_file path (\<lambda>s. s\<lparr> current_content := Full c, hunks := without_hunks [h] (hunks s) \<rparr>) tr)
                    in (Ok (), recompute_hunks env path (Some (Full c)) (remaining_source path tr') tr'))))"

fun find_in_files :: "HunkId \<Rightarrow> (pathbuf \<times> FileHunkState) list \<Rightarrow> (pathbuf \<times> Hunk) option" where
  "find_in_files i [] = None"
| "find_in_files i ((path, st) # rest) =
     (case find (\<lambda>h. hunk_id h = i) (hunks st) of
        Some h \<Rightarrow> Some (path, h)
      | None \<Rightarrow> find_in_files i rest)"

definition apply_hunk_action ::
  "('e) TrackerEnv_scheme \<Rightarrow> HunkId \<Rightarrow> HunkAction \<Rightarrow> Tracker \<Rightarrow> (HunkActionError + unit) \<times> Tracker" where
  "apply_hunk_action env i action tr =
     (case find_in_files i (file_states tr) of
        None \<Rightarrow> (Err (HunkNotFound i), tr)
      | Some (path, h) \<Rightarrow>
          let tr = count_hunk action h tr
          in case action of
               Accept \<Rightarrow> (Ok (), accept_hunk env path h tr)
             | Reject \<Rightarrow> reject_hunk env path h tr)"

section \<open>Actions on many hunks\<close>

definition accept_hunks_batch :: "('e) TrackerEnv_scheme \<Rightarrow> pathbuf \<Rightarrow> Hunk list \<Rightarrow> Tracker \<Rightarrow> Tracker" where
  "accept_hunks_batch env path hs tr =
     (if hs = [] then tr
      else case file_state tr path of
        None \<Rightarrow> tr
      | Some st \<Rightarrow>
          if baseline st = Missing then
            send_events (removal_events path hs Accepted @ [BaselineUpdated path])
              (with_file path (\<lambda>s. s\<lparr> baseline := current_content s, baseline_accepted := True,
                                      hunks := without_hunks hs (hunks s) \<rparr>) tr)
          else
            let base = (case baseline st of Full b \<Rightarrow> Full (accept_patches hs b) | x \<Rightarrow> x);
                tr' = send_events (removal_events path hs Accepted @ [BaselineUpdated path])
                        (with_file path (\<lambda>s. s\<lparr> baseline := base, baseline_accepted := True,
                                                hunks := without_hunks hs (hunks s) \<rparr>) tr)
            in recompute_hunks env path (Some (current_content st)) (remaining_source path tr') tr')"

definition reject_hunks_batch ::
  "('e) TrackerEnv_scheme \<Rightarrow> pathbuf \<Rightarrow> Hunk list \<Rightarrow> Tracker \<Rightarrow> (HunkActionError + unit) \<times> Tracker" where
  "reject_hunks_batch env path hs tr =
     (if hs = [] then (Ok (), tr)
      else case file_state tr path of
        None \<Rightarrow> (Ok (), tr)
      | Some st \<Rightarrow>
          (case reject_plan st (reject_patches hs) of
             NoOp \<Rightarrow> (Ok (), tr)
           | RestoreDeleted b \<Rightarrow>
               (case fs_write env path b tr of
                  Inl tr \<Rightarrow> (Err (WriteError path), tr)
                | Inr tr \<Rightarrow>
                    (Ok (), send_events (removal_events path hs Rejected)
                       (with_file path (\<lambda>s. s\<lparr> current_content := baseline s, hunks := without_hunks hs (hunks s) \<rparr>) tr)))
           | DeleteCreated \<Rightarrow>
               (case fs_remove env path tr of
                  None \<Rightarrow> (Err (DeleteError path), tr)
                | Some tr \<Rightarrow>
                    (Ok (), send_events (removal_events path hs Rejected)
                       (with_file path (\<lambda>s. s\<lparr> current_content := Missing, hunks := without_hunks hs (hunks s) \<rparr>) tr)))
           | RevertChange c \<Rightarrow>
               (case fs_write env path c tr of
                  Inl tr \<Rightarrow> (Err (WriteError path), tr)
                | Inr tr \<Rightarrow>
                    let tr' = send_events (removal_events path hs Rejected)
                                (with_file path (\<lambda>s. s\<lparr> current_content := Full c, hunks := without_hunks hs (hunks s) \<rparr>) tr)
                    in (Ok (), recompute_hunks env path (Some (Full c)) (remaining_source path tr') tr'))))"

fun apply_action_batch ::
  "('e) TrackerEnv_scheme \<Rightarrow> HunkAction \<Rightarrow> HunkId list \<Rightarrow> (pathbuf \<times> Hunk list) list \<Rightarrow> Tracker \<Rightarrow>
   (HunkActionError + HunkId list) \<times> Tracker" where
  "apply_action_batch env action ids [] tr = (Ok ids, tr)"
| "apply_action_batch env action ids ((path, hs) # rest) tr =
     (let tr = fold (count_hunk action) hs tr
      in case action of
           Accept \<Rightarrow> apply_action_batch env action (ids @ map hunk_id hs) rest (accept_hunks_batch env path hs tr)
         | Reject \<Rightarrow>
             (case reject_hunks_batch env path hs tr of
                (Inl e, tr) \<Rightarrow> (Err e, tr)
              | (Inr _, tr) \<Rightarrow> apply_action_batch env action (ids @ map hunk_id hs) rest tr))"

definition apply_file_action ::
  "('e) TrackerEnv_scheme \<Rightarrow> pathbuf \<Rightarrow> HunkAction \<Rightarrow> Tracker \<Rightarrow> (HunkActionError + HunkId list) \<times> Tracker" where
  "apply_file_action env path action tr =
     (case file_state tr path of
        None \<Rightarrow> (Ok [], tr)
      | Some st \<Rightarrow>
          if hunks st = [] then (Ok [], tr)
          else apply_action_batch env action [] [(path, hunks st)] tr)"

definition apply_all_action ::
  "('e) TrackerEnv_scheme \<Rightarrow> HunkAction \<Rightarrow> Tracker \<Rightarrow> (HunkActionError + HunkId list) \<times> Tracker" where
  "apply_all_action env action tr =
     apply_action_batch env action []
       (map (\<lambda>(path, st). (path, hunks st)) (filter (\<lambda>(path, st). hunks st \<noteq> []) (file_states tr))) tr"

definition apply_turn_action ::
  "('e) TrackerEnv_scheme \<Rightarrow> nat \<Rightarrow> HunkAction \<Rightarrow> Tracker \<Rightarrow> (HunkActionError + HunkId list) \<times> Tracker" where
  "apply_turn_action env p action tr =
     apply_action_batch env action []
       (filter (\<lambda>(path, hs). hs \<noteq> [])
          (map (\<lambda>(path, st). (path, filter (\<lambda>h. prompt_index (hunk_source h) = Some p) (hunks st)))
             (file_states tr))) tr"

section \<open>Classification\<close>

lemma is_lfs_prefix: "is_lfs_pointer (take (min 8000 (length bs)) bs) \<longleftrightarrow> is_lfs_pointer bs"
  by (cases "length bs < 1024") (auto simp: is_lfs_pointer_def min_def)

lemma is_binary_prefix: "is_binary (take (min 8000 (length bs)) bs) \<longleftrightarrow> is_binary bs"
  by (simp add: is_binary_def min_def)

text \<open>
  C37: The three classifiers agree on text, whether it was read from disk (the calls delivering what they are
  asked for), from git or handed over by an agent, and text is retained exactly when it has at most 1 MiB, is no
  LFS pointer and holds no NUL in its first 8000 bytes; it is retained unchanged.
\<close>

theorem text_classification:
  "read_file_bounded full_reads (Some (Text s)) = classify_string s \<and> classify_bytes (Text s) = classify_string s \<and>
   (classify_string s = Full t \<longleftrightarrow>
      t = s \<and> byte_len s \<le> MAX_TRACKED_TEXT_BYTES \<and> \<not> is_lfs_pointer (str_bytes s) \<and> 0 \<notin> set (take 8000 (str_bytes s)))"
proof -
  have "read_file_bounded full_reads (Some (Text s)) = classify_bytes (Text s)"
    by (simp add: read_file_bounded_def full_reads_def classify_bytes_def Let_def is_lfs_prefix is_binary_prefix)
  moreover have "classify_bytes (Text s) = classify_string s"
    by (simp add: classify_bytes_def classify_string_def Let_def node_bytes_def from_utf8_def length_str_bytes)
  ultimately show ?thesis
    by (auto simp: classify_string_def is_binary_def not_less split: if_splits)
qed

text \<open>A file that cannot be opened or read counts as missing, whatever it holds.\<close>

lemma unreadable_is_missing:
  "length (node_bytes d) \<le> MAX_TRACKED_TEXT_BYTES \<Longrightarrow> d \<noteq> Link \<Longrightarrow> \<not> opens io \<or> (\<forall>n. prefix_read io n = None) \<Longrightarrow>
     read_file_bounded io (Some d) = Missing"
  by (cases d) (auto simp: read_file_bounded_def Let_def)

text \<open>
  The one call of \<open>read\<close> for a small file may deliver less than was asked for; the part is then taken for the
  whole content.
\<close>

lemma short_read_truncates:
  "read_file_bounded (full_reads\<lparr> prefix_read := \<lambda>n. Some 2 \<rparr>) (Some (Text [97, 10, 98, 10])) = Full [97, 10]"
  by (simp add: read_file_bounded_def full_reads_def node_bytes_def MAX_TRACKED_TEXT_BYTES_def is_lfs_pointer_def
      LFS_POINTER_PREFIX_def is_binary_def utf8_part_def utf8_char_def utf8_step_def Let_def)

end
