(* ===== verification/Hunk_Actor.thy ===== *)
theory Hunk_Actor
  imports Hunk_Tracker
begin

text \<open>
  The commands of the hunk tracker actor: agent writes, file notifications, refreshes after a git
  change, changes of mode and working directory, snapshots, queries, and the coalescing of queued
  notifications (\<open>actor/mutations.rs\<close>, \<open>git.rs\<close>, \<open>queries.rs\<close>, \<open>mod.rs\<close>, \<open>commands.rs\<close>). A call of git is a
  field of the environment: \<open>git_status\<close> returns \<open>None\<close> when the directory is known not to be a repository.
\<close>

section \<open>Agent writes and file notifications\<close>

definition new_file :: "FileContentState \<Rightarrow> FileContentState \<Rightarrow> bool \<Rightarrow> FileHunkState" where
  "new_file base cur agent =
     \<lparr> baseline = base, current_content = cur, hunks = [], is_agent_file = agent, baseline_accepted = False \<rparr>"

definition is_tracked :: "Tracker \<Rightarrow> pathbuf \<Rightarrow> bool" where
  "is_tracked tr path \<longleftrightarrow> file_state tr path \<noteq> None"

definition record_agent_write ::
  "('e) TrackerEnv_scheme \<Rightarrow> pathbuf \<Rightarrow> rstr \<Rightarrow> nat \<Rightarrow> rstr option \<Rightarrow> Tracker \<Rightarrow> Tracker" where
  "record_agent_write env path content p previous tr =
     (let cur = classify_string content
      in if \<not> is_diffable cur then
           (if \<not> is_tracked tr path then
              send_events [FileAdded path True]
                (insert_file path
                   (new_file (case previous of Some prev \<Rightarrow> classify_string prev | None \<Rightarrow> read_baseline env path) cur True) tr)
            else
              with_file path (\<lambda>s. s\<lparr> is_agent_file := True, current_content := cur, hunks := [] \<rparr>) tr)
         else
           let tr' =
             (if \<not> is_tracked tr path then
                let base = (case read_baseline env path of
                              Missing \<Rightarrow> (case previous of Some prev \<Rightarrow> classify_string prev | None \<Rightarrow> Missing)
                            | other \<Rightarrow> other)
                in send_events [FileAdded path True] (insert_file path (new_file base cur True) tr)
              else with_file path (\<lambda>s. s\<lparr> is_agent_file := True \<rparr>) tr)
           in recompute_hunks env path (Some cur) (AgentEdit p) tr')"

definition strip_single_trailing_newline :: "rstr \<Rightarrow> rstr" where
  "strip_single_trailing_newline s =
     (case strip_suffix [13, 10] s of
        Some t \<Rightarrow> t
      | None \<Rightarrow> (case strip_suffix [10] s of Some t \<Rightarrow> t | None \<Rightarrow> s))"

definition relative_path :: "pathbuf \<Rightarrow> pathbuf \<Rightarrow> pathbuf" where
  "relative_path wd path = (if prefix wd path then drop (length wd) path else path)"

definition is_dirty :: "Tracker \<Rightarrow> pathbuf \<Rightarrow> bool" where
  "is_dirty tr path \<longleftrightarrow> relative_path (working_dir tr) path \<in> set (git_dirty_cache tr)"

text \<open>A path git does not know and does not report as dirty is ignored, unless it is a directory.\<close>

definition ignored_path :: "Tracker \<Rightarrow> pathbuf \<Rightarrow> FileContentState \<Rightarrow> bool" where
  "ignored_path tr path base \<longleftrightarrow>
     mode tr = AllDirty \<and> base = Missing \<and> disk tr path \<noteq> Some Directory \<and> \<not> is_dirty tr path"

definition content_matches_head :: "Tracker \<Rightarrow> pathbuf \<Rightarrow> FileContentState \<Rightarrow> FileContentState \<Rightarrow> bool" where
  "content_matches_head tr path cur head =
     (case (cur, head) of
        (Full c, Full h) \<Rightarrow> strip_single_trailing_newline c = strip_single_trailing_newline h
      | (Missing, Missing) \<Rightarrow> True
      | (Binary _, Binary _) \<Rightarrow> True
      | (TooLarge _, TooLarge _) \<Rightarrow> True
      | (LfsPointer _, LfsPointer _) \<Rightarrow> True
      | (Symlink, Symlink) \<Rightarrow> True
      | (Symlink, Full _) \<Rightarrow> \<not> is_dirty tr path
      | (Full _, Symlink) \<Rightarrow> \<not> is_dirty tr path
      | _ \<Rightarrow> False)"

definition edit_source :: "Tracker \<Rightarrow> pathbuf \<Rightarrow> HunkSource" where
  "edit_source tr path =
     (case file_state tr path of
        Some st \<Rightarrow> if is_agent_file st then ExternalEditOnAgentFile else External
      | None \<Rightarrow> External)"

definition process_file_change ::
  "('e) TrackerEnv_scheme \<Rightarrow> pathbuf \<Rightarrow> FileContentState option \<Rightarrow> Tracker \<Rightarrow> Tracker" where
  "process_file_change env path preloaded tr =
     (let head = (case preloaded of Some b \<Rightarrow> b | None \<Rightarrow> read_baseline env path);
          cur = read_file_bounded (reading env path) (disk tr path)
      in case file_state tr path of
           None \<Rightarrow>
             if mode tr = AgentOnly then tr
             else if ignored_path tr path head then tr
             else if \<not> is_diffable cur then
               (let tr' = send_events [FileAdded path False] (insert_file path (new_file head cur False) tr)
                in if is_diffable head then recompute_hunks env path None External tr' else tr')
             else
               recompute_hunks env path (Some cur) External
                 (send_events [FileAdded path False] (insert_file path (new_file head Missing False) tr))
         | Some st \<Rightarrow>
             if baseline_accepted st \<and> content_matches_head tr path cur head then
               with_file path (\<lambda>s. s\<lparr> baseline := head, current_content := head,
                                       baseline_accepted := False, hunks := [] \<rparr>) tr
             else recompute_hunks env path (Some cur) (edit_source tr path) tr)"

definition handle_file_change :: "('e) TrackerEnv_scheme \<Rightarrow> pathbuf \<Rightarrow> Tracker \<Rightarrow> Tracker" where
  "handle_file_change env path tr = process_file_change env path None tr"

text \<open>Baselines of a batch are read first, for the paths that need one; each is handed out once.\<close>

definition needs_baseline :: "Tracker \<Rightarrow> pathbuf \<Rightarrow> bool" where
  "needs_baseline tr path =
     (case file_state tr path of
        None \<Rightarrow> mode tr \<noteq> AgentOnly
      | Some st \<Rightarrow> baseline_accepted st)"

fun process_changes ::
  "('e) TrackerEnv_scheme \<Rightarrow> (pathbuf \<times> FileContentState) list \<Rightarrow> pathbuf list \<Rightarrow> Tracker \<Rightarrow> Tracker" where
  "process_changes env baselines [] tr = tr"
| "process_changes env baselines (path # paths) tr =
     process_changes env (AList.delete path baselines) paths
       (process_file_change env path (map_of baselines path) tr)"

definition handle_file_changes_batch :: "('e) TrackerEnv_scheme \<Rightarrow> pathbuf list \<Rightarrow> Tracker \<Rightarrow> Tracker" where
  "handle_file_changes_batch env paths tr =
     process_changes env (map (\<lambda>p. (p, read_baseline env p)) (filter (needs_baseline tr) paths)) paths tr"

definition path_exists :: "Tracker \<Rightarrow> pathbuf \<Rightarrow> bool" where
  "path_exists tr path \<longleftrightarrow> disk tr path \<noteq> None"

definition handle_file_deleted :: "('e) TrackerEnv_scheme \<Rightarrow> pathbuf \<Rightarrow> Tracker \<Rightarrow> Tracker" where
  "handle_file_deleted env path tr =
     (if \<not> is_tracked tr path then
        (if mode tr = AgentOnly \<or> path_exists tr path \<or> read_baseline env path = Missing then tr
         else recompute_hunks env path None External
                (send_events [FileAdded path False]
                   (insert_file path (new_file (read_baseline env path) Missing False) tr)))
      else if path_exists tr path then handle_file_change env path tr
      else recompute_hunks env path None (edit_source tr path) tr)"

section \<open>Baselines\<close>

definition drop_hunks :: "pathbuf \<Rightarrow> Hunk list \<Rightarrow> Tracker \<Rightarrow> Tracker" where
  "drop_hunks path hs tr =
     send_events (removal_events path hs Superseded) (tr\<lparr> turn_index := unindex hs (turn_index tr) \<rparr>)"

definition reset_baseline :: "pathbuf \<Rightarrow> Tracker \<Rightarrow> Tracker" where
  "reset_baseline path tr =
     (case file_state tr path of
        None \<Rightarrow> tr
      | Some st \<Rightarrow>
          send_events [BaselineUpdated path]
            (drop_hunks path (hunks st)
               (with_file path (\<lambda>s. s\<lparr> baseline := current_content s, baseline_accepted := False, hunks := [] \<rparr>) tr)))"

definition refresh_git_dirty_cache ::
  "('e) TrackerEnv_scheme \<Rightarrow> pathbuf list option \<Rightarrow> Tracker \<Rightarrow> Tracker" where
  "refresh_git_dirty_cache env scope tr =
     (case git_status env scope of
        None \<Rightarrow> tr
      | Some (dirty, staged) \<Rightarrow>
          let to_track = filter (\<lambda>rel. \<not> is_tracked tr (working_dir tr @ rel)) dirty;
              tr' = tr\<lparr> git_dirty_cache := dirty, git_staged_cache := staged \<rparr>
          in if mode tr = AllDirty then
               fold (\<lambda>rel t. handle_file_change env (working_dir t @ rel) t) to_track tr'
             else tr')"

definition is_clean :: "Tracker \<Rightarrow> pathbuf \<Rightarrow> FileContentState \<Rightarrow> FileContentState \<Rightarrow> bool" where
  "is_clean tr path base cur =
     (case (base, cur) of
        (Full b, Full c) \<Rightarrow> strip_single_trailing_newline b = strip_single_trailing_newline c
      | (Binary _, Binary _) \<Rightarrow> \<not> is_dirty tr path
      | (TooLarge _, TooLarge _) \<Rightarrow> \<not> is_dirty tr path
      | (Symlink, Symlink) \<Rightarrow> \<not> is_dirty tr path
      | (LfsPointer _, _) \<Rightarrow> \<not> is_dirty tr path
      | (_, LfsPointer _) \<Rightarrow> \<not> is_dirty tr path
      | (Symlink, Full _) \<Rightarrow> \<not> is_dirty tr path
      | (Full _, Symlink) \<Rightarrow> \<not> is_dirty tr path
      | (Missing, Missing) \<Rightarrow> \<not> path_exists tr path
      | (Missing, _) \<Rightarrow> \<not> is_dirty tr path
      | _ \<Rightarrow> False)"

definition refresh_file :: "('e) TrackerEnv_scheme \<Rightarrow> pathbuf \<Rightarrow> Tracker \<Rightarrow> Tracker" where
  "refresh_file env path tr =
     (case file_state tr path of
        None \<Rightarrow> tr
      | Some st \<Rightarrow>
          let base = read_baseline env path;
              cur = read_file_bounded (reading env path) (disk tr path);
              tr' = with_file path (\<lambda>s. s\<lparr> baseline := base, current_content := cur, baseline_accepted := False \<rparr>) tr
          in if is_clean tr path base cur \<and> \<not> is_agent_file st then
               send_events [FileRemoved path] (drop_hunks path (hunks st) (remove_file path tr'))
             else if is_clean tr path base cur then
               send_events [BaselineUpdated path]
                 (drop_hunks path (hunks st) (with_file path (\<lambda>s. s\<lparr> hunks := [] \<rparr>) tr'))
             else
               send_events [BaselineUpdated path]
                 (recompute_hunks env path (Some cur) (edit_source tr path) tr'))"

definition refresh_scope :: "Tracker \<Rightarrow> pathbuf list option" where
  "refresh_scope tr =
     (case mode tr of
        AllDirty \<Rightarrow> None
      | AgentOnly \<Rightarrow> Some (map (drop (length (working_dir tr)))
                             (filter (prefix (working_dir tr)) (map fst (file_states tr)))))"

definition refresh_all_baselines_except :: "('e) TrackerEnv_scheme \<Rightarrow> pathbuf list \<Rightarrow> Tracker \<Rightarrow> Tracker" where
  "refresh_all_baselines_except env skip tr =
     (if mode tr = AgentOnly \<and> file_states tr = [] then tr
      else if read_repo_sync_state env = Some (repo_sync_state tr) then tr
      else
        let tr1 = (case read_repo_sync_state env of Some s \<Rightarrow> tr\<lparr> repo_sync_state := s \<rparr> | None \<Rightarrow> tr);
            tr2 = (if refresh_scope tr1 = Some [] then tr1\<lparr> git_dirty_cache := [], git_staged_cache := [] \<rparr>
                   else refresh_git_dirty_cache env (refresh_scope tr1) tr1)
        in fold (refresh_file env) (filter (\<lambda>p. p \<notin> set skip) (map fst (file_states tr2))) tr2)"

definition refresh_all_baselines :: "('e) TrackerEnv_scheme \<Rightarrow> Tracker \<Rightarrow> Tracker" where
  "refresh_all_baselines env tr = refresh_all_baselines_except env [] tr"

section \<open>Mode and working directory\<close>

definition stop_tracking :: "pathbuf \<Rightarrow> Tracker \<Rightarrow> Tracker" where
  "stop_tracking path tr =
     (case file_state tr path of
        None \<Rightarrow> tr
      | Some st \<Rightarrow> send_events [FileRemoved path] (drop_hunks path (hunks st) (remove_file path tr)))"

definition set_mode :: "('e) TrackerEnv_scheme \<Rightarrow> TrackingMode \<Rightarrow> Tracker \<Rightarrow> Tracker" where
  "set_mode env md tr =
     (let tr' = tr\<lparr> mode := md \<rparr>
      in if mode tr = AgentOnly \<and> md = AllDirty then refresh_git_dirty_cache env None tr'
         else if mode tr = AllDirty \<and> md = AgentOnly then
           fold stop_tracking (map fst (filter (\<lambda>(path, st). \<not> is_agent_file st) (file_states tr))) tr'
         else tr')"

text \<open>\<open>rewrite_single_path\<close>: move a path from one directory to another; the canonical form of the old
  directory is tried first.\<close>

definition rewrite_single_path :: "pathbuf \<Rightarrow> pathbuf \<Rightarrow> pathbuf \<Rightarrow> pathbuf \<Rightarrow> pathbuf option" where
  "rewrite_single_path path old_cwd canonical_old new_cwd =
     (if prefix canonical_old path then Some (new_cwd @ drop (length canonical_old) path)
      else if prefix old_cwd path then Some (new_cwd @ drop (length old_cwd) path)
      else None)"

definition rekey_path :: "pathbuf \<Rightarrow> pathbuf \<Rightarrow> pathbuf \<Rightarrow> pathbuf" where
  "rekey_path old new_cwd path =
     (if prefix new_cwd path then path
      else case rewrite_single_path path old old new_cwd of Some p \<Rightarrow> p | None \<Rightarrow> path)"

definition rekey_state :: "pathbuf \<Rightarrow> FileHunkState \<Rightarrow> FileHunkState" where
  "rekey_state path st = st\<lparr> hunks := map (\<lambda>h. h\<lparr> hunk_path := path \<rparr>) (hunks st) \<rparr>"

definition merge_states :: "FileHunkState \<Rightarrow> FileHunkState \<Rightarrow> FileHunkState" where
  "merge_states dest st =
     dest\<lparr> hunks := hunks dest @ hunks st, is_agent_file := is_agent_file dest \<or> is_agent_file st,
           baseline_accepted := baseline_accepted dest \<or> baseline_accepted st \<rparr>"

definition rekey_insert ::
  "pathbuf \<times> FileHunkState \<Rightarrow> (pathbuf \<times> FileHunkState) list \<Rightarrow> (pathbuf \<times> FileHunkState) list" where
  "rekey_insert = (\<lambda>(path, st) next.
     (case map_of next path of
        None \<Rightarrow> AList.update path st next
      | Some dest \<Rightarrow> AList.update path (merge_states dest st) next))"

definition rekey_paths_for_working_dir :: "pathbuf \<Rightarrow> Tracker \<Rightarrow> Tracker" where
  "rekey_paths_for_working_dir new_cwd tr =
     (if new_cwd = working_dir tr then tr
      else
        let rw = rekey_path (working_dir tr) new_cwd;
            moved = map (\<lambda>(path, st). (rw path, rekey_state (rw path) st));
            already = moved (filter (\<lambda>(path, st). prefix new_cwd path) (file_states tr));
            rewritten = moved (filter (\<lambda>(path, st). \<not> prefix new_cwd path) (file_states tr))
        in tr\<lparr> file_states := fold rekey_insert rewritten (fold (\<lambda>(p, st). AList.update p st) already []),
               git_dirty_cache := remdups (map rw (git_dirty_cache tr)),
               git_staged_cache := remdups (map rw (git_staged_cache tr)) \<rparr>)"

definition set_working_dir :: "pathbuf \<Rightarrow> Tracker \<Rightarrow> Tracker" where
  "set_working_dir wd tr =
     (rekey_paths_for_working_dir wd tr)\<lparr> working_dir := wd, repo_sync_state := (None, None) \<rparr>"

section \<open>Snapshots\<close>

record HunkTrackerSnapshot =
  snap_files :: "(pathbuf \<times> FileHunkState) list"
  snap_index :: "nat \<rightharpoonup> HunkId list"
  snap_stats :: SessionStats

definition take_snapshot :: "Tracker \<Rightarrow> HunkTrackerSnapshot" where
  "take_snapshot tr =
     \<lparr> snap_files = file_states tr, snap_index = turn_index tr, snap_stats = session_stats tr \<rparr>"

definition restore_snapshot :: "HunkTrackerSnapshot \<Rightarrow> Tracker \<Rightarrow> Tracker" where
  "restore_snapshot s tr =
     tr\<lparr> file_states := snap_files s, turn_index := snap_index s, session_stats := snap_stats s \<rparr>"

record HunkTurnDelta =
  delta_prompt :: nat
  delta_files :: "(pathbuf \<times> FileHunkState) list"
  delta_ids :: "HunkId list"

definition take_turn_delta :: "nat \<Rightarrow> Tracker \<Rightarrow> HunkTurnDelta" where
  "take_turn_delta p tr =
     (let ids = (case turn_index tr p of Some ids \<Rightarrow> ids | None \<Rightarrow> [])
      in \<lparr> delta_prompt = p,
           delta_files = filter (\<lambda>(path, st). list_ex (\<lambda>h. hunk_id h \<in> set ids) (hunks st)) (file_states tr),
           delta_ids = ids \<rparr>)"

definition rewrite_paths :: "pathbuf \<Rightarrow> pathbuf \<Rightarrow> pathbuf \<Rightarrow> HunkTrackerSnapshot \<Rightarrow> HunkTrackerSnapshot" where
  "rewrite_paths old_cwd canonical_old_cwd new_cwd s =
     s\<lparr> snap_files :=
          fold (\<lambda>(path, st). let target = (case rewrite_single_path path old_cwd canonical_old_cwd new_cwd of
                                            Some p \<Rightarrow> p | None \<Rightarrow> path)
                             in AList.update target (rekey_state target st)) (snap_files s) [] \<rparr>"

section \<open>Queries\<close>

definition get_all_hunks :: "Tracker \<Rightarrow> Hunk list" where
  "get_all_hunks tr = concat (map (\<lambda>(path, st). hunks st) (file_states tr))"

definition get_hunks_for_path :: "Tracker \<Rightarrow> pathbuf \<Rightarrow> Hunk list" where
  "get_hunks_for_path tr path = (case file_state tr path of Some st \<Rightarrow> hunks st | None \<Rightarrow> [])"

definition get_hunk :: "Tracker \<Rightarrow> HunkId \<Rightarrow> Hunk option" where
  "get_hunk tr i = find (\<lambda>h. hunk_id h = i) (get_all_hunks tr)"

definition get_hunks_for_turn :: "Tracker \<Rightarrow> nat \<Rightarrow> Hunk list" where
  "get_hunks_for_turn tr p =
     (case turn_index tr p of None \<Rightarrow> [] | Some ids \<Rightarrow> List.map_filter (get_hunk tr) ids)"

datatype HunkSourceFilter = AgentFilter | ExternalFilter

definition get_hunks_by_source :: "Tracker \<Rightarrow> HunkSourceFilter \<Rightarrow> Hunk list" where
  "get_hunks_by_source tr f =
     filter (\<lambda>h. case f of AgentFilter \<Rightarrow> is_agent_edit (hunk_source h) | ExternalFilter \<Rightarrow> is_external (hunk_source h))
       (get_all_hunks tr)"

definition get_all_tracked_paths :: "Tracker \<Rightarrow> pathbuf list" where
  "get_all_tracked_paths tr = map fst (file_states tr)"

text \<open>File contents with an explicit status, and the data a client needs to draw the diff of a file. \<open>None\<close>
  stands for the panic of an underflowing subtraction while a patch is printed.\<close>

datatype FileContentStatus = StMissing | StBinary | StTooLarge | StLfsPointer | StSymlink | StFull

record FileContentView =
  view_status :: FileContentStatus
  view_byte_len :: "nat option"
  view_content :: "rstr option"

definition from_content_state :: "FileContentState \<Rightarrow> FileContentView" where
  "from_content_state s =
     (case s of
        Missing \<Rightarrow> \<lparr> view_status = StMissing, view_byte_len = None, view_content = None \<rparr>
      | Binary n \<Rightarrow> \<lparr> view_status = StBinary, view_byte_len = n, view_content = None \<rparr>
      | TooLarge n \<Rightarrow> \<lparr> view_status = StTooLarge, view_byte_len = Some n, view_content = None \<rparr>
      | LfsPointer n \<Rightarrow> \<lparr> view_status = StLfsPointer, view_byte_len = Some n, view_content = None \<rparr>
      | Symlink \<Rightarrow> \<lparr> view_status = StSymlink, view_byte_len = None, view_content = None \<rparr>
      | Full t \<Rightarrow> \<lparr> view_status = StFull, view_byte_len = Some (byte_len t), view_content = Some t \<rparr>)"

record FileHunkData =
  data_hunks :: "Hunk list"
  data_baseline :: FileContentView
  data_current :: FileContentView
  data_baseline_content :: "rstr option"
  data_current_content :: "rstr option"

definition FileHunkData_default :: FileHunkData where
  "FileHunkData_default =
     \<lparr> data_hunks = [], data_baseline = from_content_state Missing, data_current = from_content_state Missing,
       data_baseline_content = None, data_current_content = None \<rparr>"

definition hunk_with_patch :: "FileHunkState \<Rightarrow> Hunk \<Rightarrow> Hunk option" where
  "hunk_with_patch st h =
     (case (content_str (baseline st), content_str (current_content st)) of
        (Some b, Some c) \<Rightarrow> map_option (\<lambda>t. h\<lparr> hunk_patch := Some t \<rparr>) (generate_hunk_patch b c h)
      | (None, Some c) \<Rightarrow> map_option (\<lambda>t. h\<lparr> hunk_patch := Some t \<rparr>) (generate_hunk_patch [] c h)
      | (Some b, None) \<Rightarrow> map_option (\<lambda>t. h\<lparr> hunk_patch := Some t \<rparr>) (generate_hunk_patch b [] h)
      | (None, None) \<Rightarrow> Some (h\<lparr> hunk_patch := None \<rparr>))"

definition get_file_hunk_data :: "Tracker \<Rightarrow> pathbuf \<Rightarrow> FileHunkData option" where
  "get_file_hunk_data tr path =
     (case file_state tr path of
        None \<Rightarrow> Some FileHunkData_default
      | Some st \<Rightarrow>
          (case those (map (hunk_with_patch st) (hunks st)) of
             None \<Rightarrow> None
           | Some hs \<Rightarrow>
               let base = from_content_state (baseline st); cur = from_content_state (current_content st)
               in Some \<lparr> data_hunks = hs, data_baseline = base, data_current = cur,
                         data_baseline_content = view_content base, data_current_content = view_content cur \<rparr>))"

text \<open>The session summary: the pending hunks grouped by the prompt that made them.\<close>

record TurnSummary =
  turn_prompt :: nat
  turn_files :: "pathbuf list"
  turn_pending :: "Hunk list"
  turn_lines_added :: nat
  turn_lines_removed :: nat

definition pending_prompts :: "Tracker \<Rightarrow> nat list" where
  "pending_prompts tr = sort (remdups (List.map_filter (\<lambda>h. prompt_index (hunk_source h)) (get_all_hunks tr)))"

definition turn_hunks :: "nat \<Rightarrow> Hunk list \<Rightarrow> Hunk list" where
  "turn_hunks p hs = filter (\<lambda>h. prompt_index (hunk_source h) = Some p) hs"

definition turn_summary :: "Tracker \<Rightarrow> nat \<Rightarrow> TurnSummary" where
  "turn_summary tr p =
     (let pending = turn_hunks p (get_all_hunks tr)
      in \<lparr> turn_prompt = p,
           turn_files = map fst (filter (\<lambda>(path, st). turn_hunks p (hunks st) \<noteq> []) (file_states tr)),
           turn_pending = pending,
           turn_lines_added = sum_list (map (\<lambda>h. new_count (line_info h)) pending),
           turn_lines_removed = sum_list (map (\<lambda>h. old_count (line_info h)) pending) \<rparr>)"

record SessionSummary =
  summary_stats :: SessionStats
  summary_turns :: "TurnSummary list"
  files_modified :: nat
  files_with_pending :: nat
  pending_hunks :: nat
  pending_lines_added :: nat
  pending_lines_removed :: nat
  unattributed_pending :: nat

definition compute_session_summary :: "Tracker \<Rightarrow> SessionSummary" where
  "compute_session_summary tr =
     (let turns = map (turn_summary tr) (pending_prompts tr);
          agent_files = length (filter (\<lambda>(path, st). list_ex (\<lambda>h. prompt_index (hunk_source h) \<noteq> None) (hunks st))
                                  (file_states tr))
      in \<lparr> summary_stats = session_stats tr, summary_turns = turns,
           files_modified = agent_files, files_with_pending = agent_files,
           pending_hunks = sum_list (map (\<lambda>t. length (turn_pending t)) turns),
           pending_lines_added = sum_list (map turn_lines_added turns),
           pending_lines_removed = sum_list (map turn_lines_removed turns),
           unattributed_pending = length (filter (\<lambda>h. prompt_index (hunk_source h) = None) (get_all_hunks tr)) \<rparr>)"

section \<open>Commands and coalescing\<close>

datatype HunkTrackerCommand =
  RecordAgentWrite pathbuf rstr nat "rstr option"
| HandleFileChange pathbuf
| HandleFileDeleted pathbuf
| RefreshGitDirtyCache
| ResetBaseline pathbuf
| SetMode TrackingMode
| SetWorkingDir pathbuf
| HunkActionCmd HunkId HunkAction
| FileAction pathbuf HunkAction
| AllAction HunkAction
| TurnAction nat HunkAction
| GetAllHunks
| GetHunksForPath pathbuf
| GetFileHunkData pathbuf
| GetHunksBySource HunkSourceFilter
| GetHunk HunkId
| IsAgentFile pathbuf
| GetAllTrackedPaths
| GetStagedFiles
| GetAllFileContents
| GetSessionSummary
| GetTurnHunks nat
| ResetStats
| RefreshAllBaselines
| SnapshotState
| SnapshotTurnDelta nat
| RestoreState HunkTrackerSnapshot

definition handle_command :: "('e) TrackerEnv_scheme \<Rightarrow> HunkTrackerCommand \<Rightarrow> Tracker \<Rightarrow> Tracker" where
  "handle_command env cmd tr =
     (case cmd of
        RecordAgentWrite path content p prev \<Rightarrow> record_agent_write env path content p prev tr
      | HandleFileChange path \<Rightarrow> handle_file_change env path tr
      | HandleFileDeleted path \<Rightarrow> handle_file_deleted env path tr
      | RefreshGitDirtyCache \<Rightarrow> refresh_git_dirty_cache env None tr
      | ResetBaseline path \<Rightarrow> reset_baseline path tr
      | SetMode md \<Rightarrow> set_mode env md tr
      | SetWorkingDir wd \<Rightarrow> set_working_dir wd tr
      | HunkActionCmd i action \<Rightarrow> snd (apply_hunk_action env i action tr)
      | FileAction path action \<Rightarrow> snd (apply_file_action env path action tr)
      | AllAction action \<Rightarrow> snd (apply_all_action env action tr)
      | TurnAction p action \<Rightarrow> snd (apply_turn_action env p action tr)
      | ResetStats \<Rightarrow> tr\<lparr> session_stats := SessionStats_default \<rparr>
      | RefreshAllBaselines \<Rightarrow> refresh_all_baselines env tr
      | RestoreState s \<Rightarrow> restore_snapshot s tr
      | GetAllHunks \<Rightarrow> tr | GetHunksForPath _ \<Rightarrow> tr | GetFileHunkData _ \<Rightarrow> tr | GetHunksBySource _ \<Rightarrow> tr
      | GetHunk _ \<Rightarrow> tr | IsAgentFile _ \<Rightarrow> tr | GetAllTrackedPaths \<Rightarrow> tr | GetStagedFiles \<Rightarrow> tr
      | GetAllFileContents \<Rightarrow> tr | GetSessionSummary \<Rightarrow> tr | GetTurnHunks _ \<Rightarrow> tr
      | SnapshotState \<Rightarrow> tr | SnapshotTurnDelta _ \<Rightarrow> tr)"

text \<open>What the arm of a command sends on its reply channel; \<open>NoReply\<close> for the commands without one. The data
  of a file is an option because drawing its fragments can underflow.\<close>

record FileContentEntry =
  entry_path :: pathbuf
  entry_baseline :: FileContentView
  entry_current :: FileContentView
  entry_is_agent_file :: bool
  entry_staged :: bool

datatype CommandReply =
  NoReply
| RootSet
| ActionResult "HunkActionError + unit"
| BatchResult "HunkActionError + HunkId list"
| Hunks "Hunk list"
| FileData "FileHunkData option"
| OneHunk "Hunk option"
| Flag bool
| Paths "pathbuf list"
| Contents "FileContentEntry list"
| Summary SessionSummary
| Snapshot HunkTrackerSnapshot
| TurnDelta HunkTurnDelta

definition file_content_entry :: "Tracker \<Rightarrow> pathbuf \<times> FileHunkState \<Rightarrow> FileContentEntry" where
  "file_content_entry tr = (\<lambda>(path, st).
     \<lparr> entry_path = path, entry_baseline = from_content_state (baseline st),
       entry_current = from_content_state (current_content st), entry_is_agent_file = is_agent_file st,
       entry_staged = (relative_path (working_dir tr) path \<in> set (git_staged_cache tr)) \<rparr>)"

definition command_reply :: "('e) TrackerEnv_scheme \<Rightarrow> HunkTrackerCommand \<Rightarrow> Tracker \<Rightarrow> CommandReply" where
  "command_reply env cmd tr =
     (case cmd of
        SetWorkingDir wd \<Rightarrow> RootSet
      | HunkActionCmd i action \<Rightarrow> ActionResult (fst (apply_hunk_action env i action tr))
      | FileAction path action \<Rightarrow> BatchResult (fst (apply_file_action env path action tr))
      | AllAction action \<Rightarrow> BatchResult (fst (apply_all_action env action tr))
      | TurnAction p action \<Rightarrow> BatchResult (fst (apply_turn_action env p action tr))
      | GetAllHunks \<Rightarrow> Hunks (get_all_hunks tr)
      | GetHunksForPath path \<Rightarrow> Hunks (get_hunks_for_path tr path)
      | GetFileHunkData path \<Rightarrow> FileData (get_file_hunk_data tr path)
      | GetHunksBySource source \<Rightarrow> Hunks (get_hunks_by_source tr source)
      | GetHunk i \<Rightarrow> OneHunk (get_hunk tr i)
      | IsAgentFile path \<Rightarrow> Flag (case file_state tr path of Some st \<Rightarrow> is_agent_file st | None \<Rightarrow> False)
      | GetAllTrackedPaths \<Rightarrow> Paths (get_all_tracked_paths tr)
      | GetStagedFiles \<Rightarrow> Paths (map (\<lambda>rel. working_dir tr @ rel) (git_staged_cache tr))
      | GetAllFileContents \<Rightarrow> Contents (map (file_content_entry tr) (file_states tr))
      | GetSessionSummary \<Rightarrow> Summary (compute_session_summary tr)
      | GetTurnHunks p \<Rightarrow> Hunks (get_hunks_for_turn tr p)
      | SnapshotState \<Rightarrow> Snapshot (take_snapshot tr)
      | SnapshotTurnDelta p \<Rightarrow> TurnDelta (take_turn_delta p tr)
      | _ \<Rightarrow> NoReply)"

datatype CoalescedPathAction = Changed | Deleted | DeletedThenChanged

record CoalescedBatch =
  file_actions :: "(pathbuf \<times> CoalescedPathAction) list"
  refresh_all :: bool
  refresh_dirty :: bool
  other_commands :: "HunkTrackerCommand list"
  command_count :: nat

definition CoalescedBatch_new :: CoalescedBatch where
  "CoalescedBatch_new =
     \<lparr> file_actions = [], refresh_all = False, refresh_dirty = False, other_commands = [], command_count = 0 \<rparr>"

definition CoalescedBatch_add :: "HunkTrackerCommand \<Rightarrow> CoalescedBatch \<Rightarrow> CoalescedBatch" where
  "CoalescedBatch_add cmd bt =
     (let bt = bt\<lparr> command_count := command_count bt + 1 \<rparr>
      in case cmd of
           HandleFileChange path \<Rightarrow>
             bt\<lparr> file_actions := AList.update path
                  (case map_of (file_actions bt) path of
                     None \<Rightarrow> Changed | Some Deleted \<Rightarrow> DeletedThenChanged | Some a \<Rightarrow> a) (file_actions bt) \<rparr>
         | HandleFileDeleted path \<Rightarrow> bt\<lparr> file_actions := AList.update path Deleted (file_actions bt) \<rparr>
         | RefreshAllBaselines \<Rightarrow> bt\<lparr> refresh_all := True \<rparr>
         | RefreshGitDirtyCache \<Rightarrow> bt\<lparr> refresh_dirty := True \<rparr>
         | _ \<Rightarrow> bt\<lparr> other_commands := other_commands bt @ [cmd] \<rparr>)"

definition is_coalescable :: "HunkTrackerCommand \<Rightarrow> bool" where
  "is_coalescable cmd =
     (case cmd of HandleFileChange _ \<Rightarrow> True | HandleFileDeleted _ \<Rightarrow> True
      | RefreshAllBaselines \<Rightarrow> True | RefreshGitDirtyCache \<Rightarrow> True | _ \<Rightarrow> False)"

definition drain_and_coalesce :: "HunkTrackerCommand \<Rightarrow> HunkTrackerCommand list \<Rightarrow> CoalescedBatch" where
  "drain_and_coalesce first queued = fold CoalescedBatch_add (first # queued) CoalescedBatch_new"

definition refresh_path_action ::
  "('e) TrackerEnv_scheme \<Rightarrow> pathbuf \<times> CoalescedPathAction \<Rightarrow> Tracker \<times> pathbuf list \<Rightarrow> Tracker \<times> pathbuf list" where
  "refresh_path_action env = (\<lambda>(path, action) (tr, seen).
     if action = Deleted then
       (if is_tracked tr path then (handle_file_deleted env path tr, seen) else (tr, seen))
     else if \<not> is_tracked tr path then (handle_file_change env path tr, path # seen)
     else (tr, seen))"

definition handle_coalesced_batch :: "('e) TrackerEnv_scheme \<Rightarrow> CoalescedBatch \<Rightarrow> Tracker \<Rightarrow> Tracker" where
  "handle_coalesced_batch env bt tr =
     (let tr1 = (if refresh_dirty bt \<and> \<not> refresh_all bt then refresh_git_dirty_cache env None tr else tr);
          tr2 = (if refresh_all bt then
                   (case fold (refresh_path_action env) (file_actions bt) (tr1, []) of
                      (t, seen) \<Rightarrow> refresh_all_baselines_except env seen t)
                 else
                   handle_file_changes_batch env
                     (map fst (filter (\<lambda>(path, a). a \<noteq> Deleted) (file_actions bt)))
                     (fold (\<lambda>(path, a) t. if a = Deleted then handle_file_deleted env path t else t) (file_actions bt) tr1))
      in fold (handle_command env) (other_commands bt) tr2)"

end
