(* ===== verification/Hunk_Session.thy ===== *)
theory Hunk_Session
  imports Hunk_Actor
begin

text \<open>
  What a session of the hunk tracker keeps true: identifiers are unique, the hunks of a file are those
  of its baseline and its current text, and the index of turns lists exactly the pending hunks of
  each prompt. Accepting or rejecting every hunk of a file makes the two texts equal.
\<close>

section \<open>The index of turns\<close>

definition in_index :: "(nat \<rightharpoonup> HunkId list) \<Rightarrow> nat \<Rightarrow> HunkId \<Rightarrow> bool" where
  "in_index ti p i \<longleftrightarrow> (case ti p of None \<Rightarrow> False | Some ids \<Rightarrow> i \<in> set ids)"

definition by_prompt :: "nat \<Rightarrow> Hunk \<Rightarrow> bool" where
  "by_prompt p h \<longleftrightarrow> prompt_index (hunk_source h) = Some p"

lemma in_index_remove:
  "in_index (index_remove i s ti) p j \<longleftrightarrow> in_index ti p j \<and> \<not> (prompt_index s = Some p \<and> j = i)"
  by (auto simp: in_index_def index_remove_def split: option.splits)

lemma in_index_insert:
  "in_index (index_insert i s ti) p j \<longleftrightarrow> in_index ti p j \<or> (prompt_index s = Some p \<and> j = i)"
  by (auto simp: in_index_def index_insert_def split: option.splits)

lemma in_unindex: "in_index (unindex hs ti) p j \<longleftrightarrow> in_index ti p j \<and> \<not> (\<exists>h\<in>set hs. by_prompt p h \<and> hunk_id h = j)"
  unfolding unindex_def by (induction hs arbitrary: ti) (auto simp: in_index_remove by_prompt_def)

lemma in_reindex: "in_index (reindex hs ti) p j \<longleftrightarrow> in_index ti p j \<or> (\<exists>h\<in>set hs. by_prompt p h \<and> hunk_id h = j)"
  unfolding reindex_def by (induction hs arbitrary: ti) (auto simp: in_index_insert by_prompt_def)

text \<open>The invariant on all hunks of the tracker, in any order; \<open>gone\<close> holds the identifiers that have
  been taken out of the index while their hunks are still listed.\<close>

definition index_inv ::
  "(nat \<Rightarrow> HunkId) \<Rightarrow> nat \<Rightarrow> HunkId set \<Rightarrow> Hunk list \<Rightarrow> (nat \<rightharpoonup> HunkId list) \<Rightarrow> bool" where
  "index_inv uuid n gone hs ti \<longleftrightarrow>
     distinct (map hunk_id hs) \<and> hunk_id ` set hs \<subseteq> uuid ` {..<n} \<and>
     (\<forall>p i. in_index ti p i \<longrightarrow> i \<in> uuid ` {..<n} \<and> (\<forall>h\<in>set hs. hunk_id h = i \<longrightarrow> by_prompt p h)) \<and>
     (\<forall>h\<in>set hs. \<forall>p. by_prompt p h \<longrightarrow> hunk_id h \<in> gone \<or> in_index ti p (hunk_id h))"

lemma index_inv_perm:
  assumes "mset hs = mset hs'"
  shows "index_inv uuid n gone hs ti = index_inv uuid n gone hs' ti"
proof -
  have "distinct (map hunk_id hs) = distinct (map hunk_id hs')"
    using assms by (intro mset_eq_imp_distinct_iff) simp
  then show ?thesis using mset_eq_setD[OF assms] by (simp add: index_inv_def)
qed

lemma index_invD:
  assumes "index_inv uuid n gone hs ti"
  shows "distinct (map hunk_id hs)" "h \<in> set hs \<Longrightarrow> hunk_id h \<in> uuid ` {..<n}"
    "in_index ti p i \<Longrightarrow> i \<in> uuid ` {..<n}"
    "in_index ti p (hunk_id h) \<Longrightarrow> h \<in> set hs \<Longrightarrow> by_prompt p h"
    "h \<in> set hs \<Longrightarrow> by_prompt p h \<Longrightarrow> hunk_id h \<notin> gone \<Longrightarrow> in_index ti p (hunk_id h)"
  using assms by (auto simp: index_inv_def)

lemma index_inv_recompute:
  assumes inv: "index_inv uuid n gone (old @ rest) ti" and inj: "inj uuid" and "n \<le> n'"
    and new: "distinct (map hunk_id new)" "hunk_id ` set new \<subseteq> hunk_id ` set old \<union> uuid ` {n..<n'}"
    and gone: "gone \<inter> hunk_id ` set rest = {}"
  shows "index_inv uuid n' {} (new @ rest) (reindex new (unindex old ti))"
proof -
  note I = index_invD[OF inv]
  have fresh: "i \<notin> uuid ` {..<n}" if "i \<in> uuid ` {n..<n'}" for i
    using that inj by (auto simp: inj_eq)
  have disj: "hunk_id ` set old \<inter> hunk_id ` set rest = {}" using I(1) by simp
  have rest: "hunk_id ` set rest \<subseteq> uuid ` {..<n}" using I(2) by auto
  have apart: "hunk_id ` set new \<inter> hunk_id ` set rest = {}"
  proof -
    have sep: "A \<inter> R = {}" if "A \<subseteq> B \<union> F" "B \<inter> R = {}" "F \<inter> N = {}" "R \<subseteq> N" for A B F N R :: "HunkId set"
      using that by blast
    have "uuid ` {n..<n'} \<inter> uuid ` {..<n} = {}" using fresh by blast
    from sep[OF new(2) disj this rest] show ?thesis .
  qed
  have mono: "uuid ` {..<n} \<subseteq> uuid ` {..<n'}" using assms(3) by auto
  have used: "hunk_id ` set new \<subseteq> uuid ` {..<n'}"
  proof -
    have a: "hunk_id ` set old \<subseteq> uuid ` {..<n}" using I(2) by auto
    have b: "uuid ` {n..<n'} \<subseteq> uuid ` {..<n'}" by auto
    show ?thesis by (rule subset_trans[OF new(2) Un_least[OF subset_trans[OF a mono] b]])
  qed
  have clear: "\<not> in_index (unindex old ti) p (hunk_id h)" if "h \<in> set new" for h p
  proof
    assume idx: "in_index (unindex old ti) p (hunk_id h)"
    then have "hunk_id h \<notin> uuid ` {n..<n'}" using I(3) fresh by (auto simp: in_unindex)
    with new(2) that have "hunk_id h \<in> hunk_id ` set old" by blast
    then obtain g where g: "g \<in> set old" "hunk_id g = hunk_id h" by auto
    with idx I(4)[of p g] show False by (auto simp: in_unindex)
  qed
  let ?ti = "reindex new (unindex old ti)"
  have "distinct (map hunk_id (new @ rest))" using new(1) I(1) apart by simp
  moreover have "hunk_id ` set (new @ rest) \<subseteq> uuid ` {..<n'}" using used rest mono by (simp add: image_Un)
  moreover have "i \<in> uuid ` {..<n'} \<and> (\<forall>h\<in>set (new @ rest). hunk_id h = i \<longrightarrow> by_prompt p h)"
    if "in_index ?ti p i" for p i
    using that[unfolded in_reindex]
  proof
    assume old: "in_index (unindex old ti) p i"
    then have "i \<in> uuid ` {..<n'}" using I(3) mono by (auto simp: in_unindex)
    moreover have "by_prompt p h" if "h \<in> set (new @ rest)" "hunk_id h = i" for h
      using that old clear[of h p] I(4)[of p h] by (auto simp: in_unindex)
    ultimately show ?thesis by blast
  next
    assume "\<exists>h\<in>set new. by_prompt p h \<and> hunk_id h = i"
    then show ?thesis using used apart new(1) by (auto simp: distinct_map inj_on_def)
  qed
  moreover have "in_index ?ti p (hunk_id h)" if "h \<in> set (new @ rest)" "by_prompt p h" for h p
    using that I(5) gone disj by (auto simp: in_reindex in_unindex)
  ultimately show ?thesis by (auto simp: index_inv_def)
qed

lemma index_inv_remove:
  assumes "index_inv uuid n gone hs ti"
  shows "index_inv uuid n (insert (hunk_id h) gone) hs (index_remove (hunk_id h) (hunk_source h) ti)"
  using assms by (auto simp: index_inv_def in_index_remove)

lemma index_inv_keep:
  assumes "index_inv uuid n gone hs ti" "distinct (map hunk_id hs')" "set hs' \<subseteq> set hs" "gone \<inter> hunk_id ` set hs' = {}"
  shows "index_inv uuid n {} hs' ti"
  unfolding index_inv_def
proof (intro conjI allI impI ballI)
  note I = index_invD[OF assms(1)]
  show "hunk_id ` set hs' \<subseteq> uuid ` {..<n}" using I(2) assms(3) by blast
  show "i \<in> uuid ` {..<n}" if "in_index ti p i" for p i using I(3) that .
  show "by_prompt p h" if "in_index ti p i" "h \<in> set hs'" "hunk_id h = i" for p i h
    using I(4)[of p h] that assms(3) by blast
  show "hunk_id h \<in> {} \<or> in_index ti p (hunk_id h)" if "h \<in> set hs'" "by_prompt p h" for h p
    using I(5)[of h p] that assms(3,4) by blast
qed (rule assms(2))

section \<open>New hunks\<close>

lemma preserve_ids_core: "map core (preserve_ids old claimed hs) = map core hs"
  by (induction hs arbitrary: claimed) (auto simp: core_def split: option.splits)

lemma preserve_ids_path: "list_all (\<lambda>h. hunk_path h = path) hs \<Longrightarrow> list_all (\<lambda>h. hunk_path h = path) (preserve_ids old claimed hs)"
  by (induction hs arbitrary: claimed) (auto split: option.splits)

lemma preserve_ids_ids:
  "hunk_id ` set (preserve_ids old claimed hs) \<subseteq> (hunk_id ` set old - set claimed) \<union> hunk_id ` set hs"
proof (induction hs arbitrary: claimed)
  case (Cons h hs)
  show ?case
  proof (cases "find_matching_old_hunk h old")
    case None
    with Cons.IH[of claimed] show ?thesis by auto
  next
    case (Some m)
    then have "hunk_id m \<in> hunk_id ` set old" using find_matching_sound(1)[OF Some] by simp
    with Some Cons.IH[of claimed] Cons.IH[of "hunk_id m # claimed"] show ?thesis by auto
  qed
qed simp

lemma preserve_ids_distinct:
  "distinct (map hunk_id hs) \<Longrightarrow> hunk_id ` set hs \<inter> hunk_id ` set old = {} \<Longrightarrow>
   distinct (map hunk_id (preserve_ids old claimed hs))"
proof (induction hs arbitrary: claimed)
  case (Cons h hs)
  have new: "hunk_id h \<notin> hunk_id ` set (preserve_ids old c hs)" for c
    using preserve_ids_ids[of old c hs] Cons.prems by auto
  have IH: "distinct (map hunk_id (preserve_ids old c hs))" for c using Cons by simp
  show ?case
  proof (cases "find_matching_old_hunk h old")
    case None
    with IH new show ?thesis by simp
  next
    case (Some m)
    then have "hunk_id m \<in> hunk_id ` set old" using find_matching_sound(1)[OF Some] by simp
    then have "hunk_id m \<notin> hunk_id ` set (preserve_ids old (hunk_id m # claimed) hs)"
      using preserve_ids_ids[of old "hunk_id m # claimed" hs] Cons.prems(2) by auto
    with Some IH new show ?thesis by simp
  qed
qed simp

lemma fresh_hunks_ids: "map hunk_id (fresh_hunks env n path b c source) = map (new_id env) [n..<n + length (fresh_hunks env n path b c source)]"
proof -
  have "map hunk_id (map (\<lambda>(i, b). build env i path source b) (enumerate k bs)) = map (new_id env) [k..<k + length bs]" for k bs
    by (induction bs arbitrary: k) (simp_all add: build_def upt_conv_Cons del: upt_Suc)
  then show ?thesis
    by (auto simp: fresh_hunks_def compute_hunks_def file_created_def file_deleted_def
        split: FileContentState.splits simp del: map_map)
qed

section \<open>The invariant of the tracker\<close>

text \<open>The hunks the two states of a file call for.\<close>

definition created_core :: "rstr \<Rightarrow> HunkLineInfo \<times> rstr option \<times> rstr" where
  "created_core c =
     (\<lparr> old_start = 0, old_count = 0, new_start = 1, new_count = max (length (str_lines c)) 1 \<rparr>, None, c)"

definition deleted_core :: "rstr \<Rightarrow> HunkLineInfo \<times> rstr option \<times> rstr" where
  "deleted_core b =
     (\<lparr> old_start = 1, old_count = max (length (str_lines b)) 1, new_start = 0, new_count = 0 \<rparr>, Some b, [])"

definition state_cores ::
  "(rstr \<Rightarrow> rstr \<Rightarrow> Change list) \<Rightarrow> FileContentState \<Rightarrow> FileContentState \<Rightarrow> (HunkLineInfo \<times> rstr option \<times> rstr) list" where
  "state_cores diff base cur =
     (case (base, cur) of
        (Full b, Full c) \<Rightarrow> hunk_cores diff b c
      | (Full b, Missing) \<Rightarrow> if b = [] then [] else [deleted_core b]
      | (Missing, Full c) \<Rightarrow> if c = [] then [] else [created_core c]
      | _ \<Rightarrow> [])"

definition hunks_fit :: "(rstr \<Rightarrow> rstr \<Rightarrow> Change list) \<Rightarrow> FileHunkState \<Rightarrow> bool" where
  "hunks_fit diff st \<longleftrightarrow>
     hunks st = [] \<or> map core (hunks st) = state_cores diff (baseline st) (current_content st)"

text \<open>\<open>pending\<close> holds the paths whose hunks are about to be recomputed.\<close>

definition tracker_inv ::
  "(nat \<Rightarrow> HunkId) \<Rightarrow> (rstr \<Rightarrow> rstr \<Rightarrow> Change list) \<Rightarrow> HunkId set \<Rightarrow> pathbuf set \<Rightarrow> Tracker \<Rightarrow> bool" where
  "tracker_inv uuid diff gone pending tr \<longleftrightarrow>
     distinct (map fst (file_states tr)) \<and>
     index_inv uuid (next_id tr) gone (get_all_hunks tr) (turn_index tr) \<and>
     (\<forall>path st. (path, st) \<in> set (file_states tr) \<longrightarrow> path \<notin> pending \<longrightarrow> hunks_fit diff st)"

lemma tracker_inv_cong:
  "file_states tr = file_states tr' \<Longrightarrow> turn_index tr = turn_index tr' \<Longrightarrow> next_id tr = next_id tr' \<Longrightarrow>
   tracker_inv uuid diff gone pending tr = tracker_inv uuid diff gone pending tr'"
  by (simp add: tracker_inv_def get_all_hunks_def)

lemma tracker_inv_simps [simp]:
  "tracker_inv u d g P (send_events es tr) = tracker_inv u d g P tr"
  "tracker_inv u d g P (tr\<lparr> disk := dk \<rparr>) = tracker_inv u d g P tr"
  "tracker_inv u d g P (tr\<lparr> mode := md \<rparr>) = tracker_inv u d g P tr"
  "tracker_inv u d g P (tr\<lparr> session_stats := ss \<rparr>) = tracker_inv u d g P tr"
  "tracker_inv u d g P (tr\<lparr> repo_sync_state := rs \<rparr>) = tracker_inv u d g P tr"
  "tracker_inv u d g P (tr\<lparr> git_dirty_cache := dc, git_staged_cache := sc \<rparr>) = tracker_inv u d g P tr"
  by (rule tracker_inv_cong; simp add: send_events_def)+

lemma file_state_simps [simp]:
  "file_state (send_events es tr) = file_state tr"
  "file_state (tr\<lparr> disk := dk \<rparr>) = file_state tr"
  "file_state (tr\<lparr> mode := md \<rparr>) = file_state tr"
  "file_state (tr\<lparr> turn_index := ti \<rparr>) = file_state tr"
  "file_state (tr\<lparr> session_stats := ss \<rparr>) = file_state tr"
  "file_state (tr\<lparr> next_id := n \<rparr>) = file_state tr"
  by (simp_all add: file_state_def fun_eq_iff send_events_def)

lemma file_state_with_file: "file_state (with_file path f tr) = (file_state tr)(path := map_option f (file_state tr path))"
  by (auto simp: file_state_def with_file_def fun_eq_iff map_of_map_entry split: option.splits)

text \<open>The file of a path, and the hunks of the other files.\<close>

lemma split_file:
  assumes "distinct (map fst (file_states tr))" "file_state tr path = Some st"
  obtains xs ys where "file_states tr = xs @ (path, st) # ys" "path \<notin> fst ` set xs" "path \<notin> fst ` set ys"
proof -
  obtain xs ys where "file_states tr = xs @ (path, st) # ys"
    using map_of_SomeD[of "file_states tr" path st] assms(2) by (auto simp: file_state_def in_set_conv_decomp)
  with assms(1) that show thesis by auto
qed

lemma map_entry_split: "path \<notin> fst ` set xs \<Longrightarrow> AList.map_entry path f (xs @ (path, st) # ys) = xs @ (path, f st) # ys"
  by (induction xs) (auto simp: image_iff)

lemma map_entry_absent: "path \<notin> fst ` set xs \<Longrightarrow> AList.map_entry path f xs = xs"
  by (induction xs) (auto simp: image_iff)

lemma inv_update:
  assumes inv: "tracker_inv uuid diff gone pending tr" and st: "file_state tr path = Some st"
    and fs: "file_states tr' = AList.map_entry path f (file_states tr)"
    and fit: "path \<notin> pending' \<longrightarrow> hunks_fit diff (f st)" and sub: "pending \<subseteq> insert path pending'"
    and step: "\<And>rest. index_inv uuid (next_id tr) gone (hunks st @ rest) (turn_index tr) \<Longrightarrow>
                 index_inv uuid (next_id tr') gone' (hunks (f st) @ rest) (turn_index tr')"
  shows "tracker_inv uuid diff gone' pending' tr'"
proof -
  have dist: "distinct (map fst (file_states tr))" using inv by (simp add: tracker_inv_def)
  obtain xs ys where sp: "file_states tr = xs @ (path, st) # ys" "path \<notin> fst ` set xs" "path \<notin> fst ` set ys"
    by (rule split_file[OF dist st])
  then have fs': "file_states tr' = xs @ (path, f st) # ys" by (simp add: fs map_entry_split)
  let ?rest = "concat (map (\<lambda>(p, s). hunks s) (xs @ ys))"
  have all: "mset (get_all_hunks tr) = mset (hunks st @ ?rest)" "mset (get_all_hunks tr') = mset (hunks (f st) @ ?rest)"
    by (simp_all add: get_all_hunks_def sp fs')
  have "index_inv uuid (next_id tr) gone (hunks st @ ?rest) (turn_index tr)"
    using inv index_inv_perm[OF all(1)] by (simp add: tracker_inv_def)
  from step[OF this] have "index_inv uuid (next_id tr') gone' (get_all_hunks tr') (turn_index tr')"
    using index_inv_perm[OF all(2)] by simp
  moreover have "distinct (map fst (file_states tr'))" using dist by (simp add: sp fs')
  moreover have "hunks_fit diff s" if "(p, s) \<in> set (file_states tr')" "p \<notin> pending'" for p s
  proof (cases "p = path")
    case True
    with that fit sp(2,3) show ?thesis by (force simp: fs')
  next
    case False
    with that sub have "p \<notin> pending" "(p, s) \<in> set (file_states tr)" by (auto simp: fs' sp)
    with inv show ?thesis by (auto simp: tracker_inv_def)
  qed
  ultimately show ?thesis by (simp add: tracker_inv_def)
qed

text \<open>An edit of a file's record that keeps its hunks, one that forgets hunks already taken out of
  the index, and one that clears the hunks.\<close>

lemma inv_edit:
  assumes "tracker_inv uuid diff {} pending tr" "\<And>s. hunks (f s) = hunks s"
  shows "tracker_inv uuid diff {} (insert path pending) (with_file path f tr)"
proof (cases "file_state tr path")
  case None
  then have "file_states (with_file path f tr) = file_states tr"
    by (simp add: with_file_def file_state_def map_of_eq_None_iff map_entry_absent)
  then show ?thesis using assms(1) by (auto simp: tracker_inv_def get_all_hunks_def with_file_def)
next
  case (Some st)
  show ?thesis
    by (rule inv_update[OF assms(1) Some, where f=f]) (auto simp: with_file_def assms(2))
qed

lemma inv_forget:
  assumes inv: "tracker_inv uuid diff (hunk_id ` set hs) pending tr" and st: "file_state tr path = Some st"
    and hs: "set hs \<subseteq> set (hunks st)" and f: "\<And>s. hunks (f s) = without_hunks hs (hunks s)"
  shows "tracker_inv uuid diff {} (insert path pending) (with_file path f tr)"
proof (rule inv_update[OF inv st, where f=f])
  fix rest
  assume idx: "index_inv uuid (next_id tr) (hunk_id ` set hs) (hunks st @ rest) (turn_index tr)"
  have "index_inv uuid (next_id tr) {} (hunks (f st) @ rest) (turn_index tr)"
  proof (rule index_inv_keep[OF idx])
    show "distinct (map hunk_id (hunks (f st) @ rest))"
      using index_invD(1)[OF idx] by (auto simp: f without_hunks_def distinct_map_filter)
    show "hunk_id ` set hs \<inter> hunk_id ` set (hunks (f st) @ rest) = {}"
      using index_invD(1)[OF idx] hs by (auto simp: f without_hunks_def image_iff)
  qed (auto simp: f without_hunks_def)
  then show "index_inv uuid (next_id (with_file path f tr)) {} (hunks (f st) @ rest) (turn_index (with_file path f tr))"
    by (simp add: with_file_def)
qed (auto simp: with_file_def)

lemma inv_clear:
  assumes inv: "tracker_inv uuid diff {} pending tr" and f: "\<And>s. hunks (f s) = []"
  shows "tracker_inv uuid diff {} (pending - {path}) (with_file path f tr)"
proof (cases "file_state tr path")
  case None
  then have absent: "path \<notin> fst ` set (file_states tr)" by (simp add: file_state_def map_of_eq_None_iff)
  then have "file_states (with_file path f tr) = file_states tr" by (simp add: with_file_def map_entry_absent)
  then show ?thesis using inv absent by (force simp: tracker_inv_def get_all_hunks_def with_file_def)
next
  case (Some st)
  show ?thesis
  proof (rule inv_update[OF inv Some, where f=f])
    fix rest
    assume "index_inv uuid (next_id tr) {} (hunks st @ rest) (turn_index tr)"
    from index_inv_keep[OF this, of rest] index_invD(1)[OF this]
    show "index_inv uuid (next_id (with_file path f tr)) {} (hunks (f st) @ rest) (turn_index (with_file path f tr))"
      by (simp add: f with_file_def)
  qed (auto simp: with_file_def hunks_fit_def f)
qed

lemma inv_settle:
  assumes "tracker_inv uuid diff {} {path} tr" "\<And>st. file_state tr path = Some st \<Longrightarrow> hunks_fit diff st"
  shows "tracker_inv uuid diff {} {} tr"
  using assms by (force simp: tracker_inv_def file_state_def)

lemma inv_weaken: "tracker_inv uuid diff {} {} tr \<Longrightarrow> tracker_inv uuid diff {} P tr"
  by (simp add: tracker_inv_def)

text \<open>Recomputing settles a file.\<close>

lemma fresh_hunks_fit:
  "diff_lines env = diff \<Longrightarrow>
   fresh_hunks env n path b c source = [] \<or> map core (fresh_hunks env n path b c source) = state_cores diff b c"
  using map_core_compute[of env n path _ _ source]
  by (auto simp: fresh_hunks_def state_cores_def file_created_def file_deleted_def created_core_def
      deleted_core_def core_def split: FileContentState.splits)

lemma recompute_inv:
  assumes inv: "tracker_inv uuid diff {} {path} tr" and lib: "inj uuid" "new_id env = uuid" "diff_lines env = diff"
  shows "tracker_inv uuid diff {} {} (recompute_hunks env path cur source tr)"
proof (cases "file_state tr path")
  case None
  then show ?thesis using inv by (auto simp: recompute_hunks_def intro: inv_settle)
next
  case (Some st)
  let ?cur = "case cur of Some c \<Rightarrow> c | None \<Rightarrow> Missing"
  let ?fresh = "fresh_hunks env (next_id tr) path (baseline st) ?cur source"
  let ?new = "preserve_ids (hunks st) [] ?fresh"
  let ?f = "\<lambda>s. s\<lparr> current_content := ?cur, hunks := ?new \<rparr>"
  let ?n = "next_id tr + length ?fresh"
  let ?tr = "(with_file path ?f tr)\<lparr> turn_index := reindex ?new (unindex (hunks st) (turn_index tr)), next_id := ?n \<rparr>"
  have ids: "hunk_id ` set ?fresh = uuid ` {next_id tr..<?n}"
    using fresh_hunks_ids[of env "next_id tr" path "baseline st" ?cur source]
    by (metis (no_types, lifting) lib(2) list.set_map set_upt)
  have dist: "distinct (map hunk_id ?fresh)"
    unfolding fresh_hunks_ids lib(2) using inj_on_subset[OF lib(1) subset_UNIV] by (simp add: distinct_map)
  have "tracker_inv uuid diff {} {} ?tr"
  proof (rule inv_update[OF inv Some, where f="?f"])
    show "path \<notin> {} \<longrightarrow> hunks_fit diff (?f st)"
      using fresh_hunks_fit[OF lib(3), of "next_id tr" path "baseline st" ?cur source]
      by (auto simp: hunks_fit_def preserve_ids_core)
    fix rest
    assume idx: "index_inv uuid (next_id tr) {} (hunks st @ rest) (turn_index tr)"
    have old: "hunk_id ` set (hunks st) \<subseteq> uuid ` {..<next_id tr}" using index_invD(2)[OF idx] by auto
    have "uuid ` {next_id tr..<?n} \<inter> uuid ` {..<next_id tr} = {}" using lib(1) by (auto simp: inj_eq)
    then have "hunk_id ` set ?fresh \<inter> hunk_id ` set (hunks st) = {}" using old unfolding ids by blast
    from preserve_ids_distinct[OF dist this] preserve_ids_ids[of "hunks st" "[]" ?fresh]
    have "index_inv uuid ?n {} (?new @ rest) (reindex ?new (unindex (hunks st) (turn_index tr)))"
      by (intro index_inv_recompute[OF idx lib(1)]) (auto simp: ids)
    then show "index_inv uuid (next_id ?tr) {} (hunks (?f st) @ rest) (turn_index ?tr)" by simp
  qed (auto simp: with_file_def)
  then show ?thesis using Some by (simp add: recompute_hunks_def Let_def)
qed

lemma inv_drop:
  assumes inv: "tracker_inv uuid diff {} pending tr" and "inj uuid" and st: "file_state tr path = Some st"
    and f: "\<And>s. hunks (f s) = []" and hs: "hs = hunks st"
  shows "tracker_inv uuid diff {} (pending - {path}) (drop_hunks path hs (with_file path f tr))"
proof -
  have "tracker_inv uuid diff {} (pending - {path})
      ((with_file path f tr)\<lparr> turn_index := unindex hs (turn_index (with_file path f tr)) \<rparr>)"
  proof (rule inv_update[OF inv st, where f=f])
    fix rest
    assume "index_inv uuid (next_id tr) {} (hunks st @ rest) (turn_index tr)"
    from index_inv_recompute[OF this assms(2) order_refl, of "[]"]
    show "index_inv uuid (next_id ((with_file path f tr)\<lparr> turn_index := unindex hs (turn_index (with_file path f tr)) \<rparr>)) {}
      (hunks (f st) @ rest) (turn_index ((with_file path f tr)\<lparr> turn_index := unindex hs (turn_index (with_file path f tr)) \<rparr>))"
      by (simp add: f hs with_file_def reindex_def)
  qed (auto simp: with_file_def hunks_fit_def f)
  then show ?thesis by (simp add: drop_hunks_def)
qed

lemma delete_absent: "path \<notin> fst ` set xs \<Longrightarrow> AList.delete path xs = xs"
  by (induction xs) auto

lemma delete_split: "path \<notin> fst ` set xs \<Longrightarrow> path \<notin> fst ` set ys \<Longrightarrow> AList.delete path (xs @ (path, st) # ys) = xs @ ys"
  by (induction xs) (auto simp: delete_absent)

lemma inv_remove:
  assumes inv: "tracker_inv uuid diff {} pending tr" and "inj uuid" and st: "file_state tr path = Some st"
    and hs: "hs = hunks st"
  shows "tracker_inv uuid diff {} (pending - {path}) (drop_hunks path hs (remove_file path tr))"
proof -
  have dist: "distinct (map fst (file_states tr))" using inv by (simp add: tracker_inv_def)
  obtain xs ys where sp: "file_states tr = xs @ (path, st) # ys" "path \<notin> fst ` set xs" "path \<notin> fst ` set ys"
    by (rule split_file[OF dist st])
  let ?rest = "concat (map (\<lambda>(p, s). hunks s) (xs @ ys))"
  have "mset (get_all_hunks tr) = mset (hunks st @ ?rest)" by (simp add: get_all_hunks_def sp)
  from index_inv_perm[OF this] have "index_inv uuid (next_id tr) {} (hunks st @ ?rest) (turn_index tr)"
    using inv by (simp add: tracker_inv_def)
  from index_inv_recompute[OF this assms(2) order_refl, of "[]"]
  have "index_inv uuid (next_id tr) {} ?rest (unindex hs (turn_index tr))" by (simp add: reindex_def hs)
  moreover have fs: "file_states (remove_file path tr) = xs @ ys" by (simp add: remove_file_def sp delete_split)
  moreover have "hunks_fit diff s" if "(p, s) \<in> set (xs @ ys)" "p \<notin> pending - {path}" for p s
  proof -
    have "p \<noteq> path" using that(1) sp(2,3) by (metis Un_iff fst_conv image_eqI set_append)
    moreover have "(p, s) \<in> set (file_states tr)" using that(1) by (auto simp: sp(1))
    ultimately show ?thesis using that(2) inv by (simp add: tracker_inv_def)
  qed
  ultimately have "tracker_inv uuid diff {} (pending - {path})
      ((remove_file path tr)\<lparr> turn_index := unindex hs (turn_index (remove_file path tr)) \<rparr>)"
    using dist by (simp add: tracker_inv_def get_all_hunks_def sp) (simp add: remove_file_def)
  then show ?thesis by (simp add: drop_hunks_def)
qed

lemma update_absent: "path \<notin> fst ` set xs \<Longrightarrow> AList.update path v xs = xs @ [(path, v)]"
  by (induction xs) (auto simp: image_iff)

lemma inv_insert:
  assumes "tracker_inv uuid diff {} {} tr" "file_state tr path = None"
  shows "tracker_inv uuid diff {} {} (insert_file path (new_file b c a) tr)"
proof -
  have "path \<notin> fst ` set (file_states tr)" using assms(2) by (simp add: file_state_def map_of_eq_None_iff)
  then have "file_states (insert_file path (new_file b c a) tr) = file_states tr @ [(path, new_file b c a)]"
    "path \<notin> set (map fst (file_states tr))"
    by (simp_all add: insert_file_def update_absent)
  then show ?thesis using assms(1)
    by (auto simp: tracker_inv_def get_all_hunks_def new_file_def hunks_fit_def) (simp_all add: insert_file_def)
qed

section \<open>Actions keep the invariant\<close>

lemma count_inv:
  "tracker_inv uuid diff gone pending tr \<Longrightarrow> tracker_inv uuid diff (insert (hunk_id h) gone) pending (count_hunk action h tr)"
  by (auto simp: tracker_inv_def count_hunk_def get_all_hunks_def intro: index_inv_remove)

lemma fold_count_inv:
  "tracker_inv uuid diff gone pending tr \<Longrightarrow>
   tracker_inv uuid diff (hunk_id ` set hs \<union> gone) pending (fold (count_hunk action) hs tr)"
proof (induction hs arbitrary: gone tr)
  case (Cons h hs)
  from Cons.IH[OF count_inv[OF Cons.prems, of h action]] show ?case by (simp add: Un_insert_right insert_commute)
qed simp

lemma file_state_count [simp]: "file_state (count_hunk action h tr) = file_state tr"
  by (simp add: count_hunk_def file_state_def fun_eq_iff)

lemma file_state_fold_count [simp]: "file_state (fold (count_hunk action) hs tr) = file_state tr"
  by (induction hs arbitrary: tr) simp_all

lemma file_state_recompute:
  "q \<noteq> path \<Longrightarrow> file_state (recompute_hunks env path cur source tr) q = file_state tr q"
  by (simp add: recompute_hunks_def Let_def file_state_with_file split: option.split)

lemma single_core:
  assumes "hunks_fit diff st" "h \<in> set (hunks st)" "baseline st = Missing \<or> current_content st = Missing"
  shows "hunks st = [h]"
proof -
  have "map core (hunks st) = state_cores diff (baseline st) (current_content st)"
    using assms(1,2) by (auto simp: hunks_fit_def)
  with assms(3) have "length (hunks st) \<le> 1"
    by (auto simp: state_cores_def dest!: arg_cong[where f=length] split: FileContentState.splits if_splits)
  with assms(2) show ?thesis by (cases "hunks st") auto
qed

lemma inv_fit: "tracker_inv uuid diff gone {} tr \<Longrightarrow> file_state tr path = Some st \<Longrightarrow> hunks_fit diff st"
  by (auto simp: tracker_inv_def file_state_def dest: map_of_SomeD)

text \<open>Forgetting the only hunk of a file that was created or deleted leaves none.\<close>

lemma inv_forget_single:
  assumes inv: "tracker_inv uuid diff (hunk_id ` set hs) {} tr" and st: "file_state tr path = Some st"
    and hs: "set hs \<subseteq> set (hunks st)" "hs \<noteq> []" and f: "\<And>s. hunks (f s) = without_hunks hs (hunks s)"
    and single: "baseline st = Missing \<or> current_content st = Missing"
  shows "tracker_inv uuid diff {} {} (with_file path f tr)"
proof (rule inv_settle)
  show "tracker_inv uuid diff {} {path} (with_file path f tr)"
    by (rule inv_forget[OF inv st hs(1) f])
  fix s
  assume s: "file_state (with_file path f tr) path = Some s"
  have "hunks st = [hd hs]" using single_core[OF inv_fit[OF inv st] _ single, of "hd hs"] hs by (cases hs) auto
  then have "hunks (f st) = []" using hs by (cases hs) (auto simp: f without_hunks_def)
  with s st show "hunks_fit diff s" by (simp add: file_state_with_file hunks_fit_def)
qed

lemma accept_batch_inv:
  assumes inv: "tracker_inv uuid diff (hunk_id ` set hs) {} tr" and st: "file_state tr path = Some st"
    and hs: "set hs \<subseteq> set (hunks st)" "hs \<noteq> []"
    and lib: "inj uuid" "new_id env = uuid" "diff_lines env = diff"
  shows "tracker_inv uuid diff {} {} (accept_hunks_batch env path hs tr)"
proof (cases "baseline st = Missing")
  case True
  then show ?thesis using hs st
    by (simp add: accept_hunks_batch_def inv_forget_single[OF inv st hs])
next
  case False
  have "tracker_inv uuid diff {} {path}
    (with_file path (\<lambda>s. s\<lparr> baseline := b, baseline_accepted := True, hunks := without_hunks hs (hunks s) \<rparr>) tr)" for b
    by (rule inv_forget[OF inv st hs(1)]) simp
  then show ?thesis using False hs st lib
    by (simp add: accept_hunks_batch_def Let_def recompute_inv)
qed

text \<open>A file with hunks is one that can be patched: the defensive branch of rejecting is never taken.\<close>

lemma patchable:
  assumes "hunks_fit diff st" "hunks st \<noteq> []"
  shows "reject_plan st g \<noteq> NoOp"
  using assms by (auto simp: hunks_fit_def state_cores_def reject_plan_def split: FileContentState.splits)

lemma write_keeps:
  assumes "fs_write env path t tr = Inr tr'"
  shows "file_state tr' = file_state tr" "tracker_inv uuid diff gone pending tr' = tracker_inv uuid diff gone pending tr"
  using assms by (auto simp: fs_write_def split: if_splits)

lemma failed_write_keeps:
  assumes "fs_write env path t tr = Inl tr'"
  shows "file_state tr' = file_state tr"
  using assms by (auto simp: fs_write_def split: if_splits option.splits)

lemma remove_keeps:
  assumes "fs_remove env path tr = Some tr'"
  shows "file_state tr' = file_state tr" "tracker_inv uuid diff gone pending tr' = tracker_inv uuid diff gone pending tr"
  using assms by (auto simp: fs_remove_def split: if_splits)

lemma reject_plan_cases:
  "reject_plan st g = RestoreDeleted b \<Longrightarrow> baseline st = Full b \<and> current_content st = Missing"
  "reject_plan st g = DeleteCreated \<Longrightarrow> baseline st = Missing"
  by (auto simp: reject_plan_def split: FileContentState.splits)

lemma reject_batch_inv:
  assumes inv: "tracker_inv uuid diff (hunk_id ` set hs) {} tr" and st: "file_state tr path = Some st"
    and hs: "set hs \<subseteq> set (hunks st)" "hs \<noteq> []"
    and lib: "inj uuid" "new_id env = uuid" "diff_lines env = diff"
    and ok: "reject_hunks_batch env path hs tr = (Inr u, tr')"
  shows "tracker_inv uuid diff {} {} tr'"
proof (cases "reject_plan st (reject_patches hs)")
  case (RestoreDeleted b)
  then obtain tr1 where w: "fs_write env path b tr = Inr tr1"
    and tr': "tr' = send_events (removal_events path hs Rejected)
      (with_file path (\<lambda>s. s\<lparr> current_content := baseline s, hunks := without_hunks hs (hunks s) \<rparr>) tr1)"
    using ok st hs by (auto simp: reject_hunks_batch_def split: sum.splits)
  have "tracker_inv uuid diff {} {} (with_file path (\<lambda>s. s\<lparr> current_content := baseline s, hunks := without_hunks hs (hunks s) \<rparr>) tr1)"
    using reject_plan_cases(1)[OF RestoreDeleted] inv st hs
    by (intro inv_forget_single[where hs=hs and st=st]) (auto simp: write_keeps[OF w])
  then show ?thesis by (simp add: tr')
next
  case DeleteCreated
  then obtain tr1 where w: "fs_remove env path tr = Some tr1"
    and tr': "tr' = send_events (removal_events path hs Rejected)
      (with_file path (\<lambda>s. s\<lparr> current_content := Missing, hunks := without_hunks hs (hunks s) \<rparr>) tr1)"
    using ok st hs by (auto simp: reject_hunks_batch_def split: option.splits)
  have "tracker_inv uuid diff {} {} (with_file path (\<lambda>s. s\<lparr> current_content := Missing, hunks := without_hunks hs (hunks s) \<rparr>) tr1)"
    using reject_plan_cases(2)[OF DeleteCreated] inv st hs
    by (intro inv_forget_single[where hs=hs and st=st]) (auto simp: remove_keeps[OF w])
  then show ?thesis by (simp add: tr')
next
  case (RevertChange c)
  then obtain tr1 where w: "fs_write env path c tr = Inr tr1"
    and tr': "tr' = (let tr2 = send_events (removal_events path hs Rejected)
        (with_file path (\<lambda>s. s\<lparr> current_content := Full c, hunks := without_hunks hs (hunks s) \<rparr>) tr1)
      in recompute_hunks env path (Some (Full c)) (remaining_source path tr2) tr2)"
    using ok st hs by (auto simp: reject_hunks_batch_def Let_def split: sum.splits)
  have "tracker_inv uuid diff {} {path} (with_file path (\<lambda>s. s\<lparr> current_content := Full c, hunks := without_hunks hs (hunks s) \<rparr>) tr1)"
    using inv st hs by (intro inv_forget[where hs=hs and st=st]) (auto simp: write_keeps[OF w])
  then show ?thesis using lib by (simp add: tr' Let_def recompute_inv)
next
  case NoOp
  moreover have "hunks st \<noteq> []" using hs by (cases hs) auto
  ultimately show ?thesis using patchable[OF inv_fit[OF inv st]] by blast
qed

text \<open>Acting on one hunk is acting on a batch of one.\<close>

lemma accept_hunk_batch: "accept_hunk env path h tr = accept_hunks_batch env path [h] tr"
  by (simp add: accept_hunk_def accept_hunks_batch_def accept_patches_def sort_desc_def Let_def
      split: option.split FileContentState.split)

lemma map_entry_cong: "map_of xs path = Some st \<Longrightarrow> f st = g st \<Longrightarrow> AList.map_entry path f xs = AList.map_entry path g xs"
  by (induction xs) auto

lemma with_file_cong: "file_state tr path = Some st \<Longrightarrow> f st = g st \<Longrightarrow> with_file path f tr = with_file path g tr"
  using map_entry_cong[of "file_states tr" path st f g] by (simp add: with_file_def file_state_def)

lemma reject_hunk_batch: "reject_hunk env path h tr = reject_hunks_batch env path [h] tr"
proof (cases "file_state tr path")
  case (Some st)
  let ?g = "\<lambda>c. patch_lines c (new_start (line_info h)) (new_count (line_info h)) (case old_text h of Some t \<Rightarrow> t | None \<Rightarrow> [])"
  have g: "reject_patches [h] = ?g" by (simp add: reject_patches_def sort_desc_def fun_eq_iff)
  show ?thesis
  proof (cases "reject_plan st ?g")
    case (RestoreDeleted b)
    have "with_file path (\<lambda>s. s\<lparr> current_content := Full b, hunks := without_hunks [h] (hunks s) \<rparr>) tr1 =
      with_file path (\<lambda>s. s\<lparr> current_content := baseline s, hunks := without_hunks [h] (hunks s) \<rparr>) tr1"
      if "fs_write env path b tr = Inr tr1" for tr1
      using write_keeps(1)[OF that] Some reject_plan_cases(1)[OF RestoreDeleted]
      by (intro with_file_cong[of _ _ st]) simp_all
    then show ?thesis using Some RestoreDeleted
      by (simp add: reject_hunk_def reject_hunks_batch_def g split: sum.split)
  qed (use Some in \<open>simp_all add: reject_hunk_def reject_hunks_batch_def g split: option.split sum.split\<close>)
qed (simp add: reject_hunk_def reject_hunks_batch_def)

section \<open>Batches\<close>

lemma file_state_accept:
  "q \<noteq> path \<Longrightarrow> file_state (accept_hunks_batch env path hs tr) q = file_state tr q"
  by (simp add: accept_hunks_batch_def Let_def file_state_recompute file_state_with_file split: option.split)

lemma file_state_reject:
  "q \<noteq> path \<Longrightarrow> file_state (snd (reject_hunks_batch env path hs tr)) q = file_state tr q"
  by (auto simp: reject_hunks_batch_def Let_def file_state_recompute file_state_with_file write_keeps(1) failed_write_keeps remove_keeps(1)
      split: option.split sum.split RejectAction.split)

definition batch_of :: "Tracker \<Rightarrow> (pathbuf \<times> Hunk list) list \<Rightarrow> bool" where
  "batch_of tr files \<longleftrightarrow>
     distinct (map fst files) \<and>
     (\<forall>path hs. (path, hs) \<in> set files \<longrightarrow>
        hs \<noteq> [] \<and> (\<exists>st. file_state tr path = Some st \<and> set hs \<subseteq> set (hunks st)))"

lemma batch_of_tl:
  assumes "batch_of tr ((path, hs) # rest)" "\<And>q. q \<noteq> path \<Longrightarrow> file_state tr' q = file_state tr q"
  shows "batch_of tr' rest"
  unfolding batch_of_def
proof (intro conjI allI impI)
  fix q gs
  assume "(q, gs) \<in> set rest"
  moreover from this assms(1) have "q \<noteq> path" by (force simp: batch_of_def)
  ultimately show "gs \<noteq> []" "\<exists>st. file_state tr' q = Some st \<and> set gs \<subseteq> set (hunks st)"
    using assms by (auto simp: batch_of_def)
qed (use assms(1) in \<open>simp add: batch_of_def\<close>)

lemma batch_inv:
  assumes "tracker_inv uuid diff {} {} tr" "batch_of tr files"
    and lib: "inj uuid" "new_id env = uuid" "diff_lines env = diff"
    and "apply_action_batch env action ids files tr = (Inr r, tr')"
  shows "tracker_inv uuid diff {} {} tr'"
  using assms(1,2,6)
proof (induction files arbitrary: ids tr)
  case (Cons f rest)
  obtain path hs where f: "f = (path, hs)" by (cases f)
  note prems = Cons.prems[unfolded f]
  let ?tr = "fold (count_hunk action) hs tr"
  obtain st where st: "file_state ?tr path = Some st" "set hs \<subseteq> set (hunks st)" "hs \<noteq> []"
    using prems(2) unfolding batch_of_def by (metis file_state_fold_count list.set_intros(1))
  have inv: "tracker_inv uuid diff (hunk_id ` set hs) {} ?tr" using fold_count_inv[OF prems(1)] by simp
  show ?case
  proof (cases action)
    case Accept
    have "batch_of (accept_hunks_batch env path hs ?tr) rest"
      by (rule batch_of_tl[OF prems(2)]) (simp add: file_state_accept)
    then show ?thesis
      using Cons.IH[OF accept_batch_inv[OF inv st lib]] prems(3) Accept by (simp add: Let_def)
  next
    case Reject
    obtain r1 tr1 where r: "reject_hunks_batch env path hs ?tr = (r1, tr1)" by (cases "reject_hunks_batch env path hs ?tr")
    with prems(3) Reject obtain u where u: "r1 = Inr u" by (cases r1) (auto simp: Let_def)
    have "batch_of tr1 rest"
      using file_state_reject[of _ path env hs ?tr] r by (intro batch_of_tl[OF prems(2)]) simp
    then show ?thesis
      using Cons.IH[OF reject_batch_inv[OF inv st lib r[unfolded u]]] prems(3) Reject r u by (simp add: Let_def)
  qed
qed simp

section \<open>Commands keep the invariant\<close>

text \<open>The libraries of a session: identifiers never repeat, and the diff is one function.\<close>

definition libs :: "(nat \<Rightarrow> HunkId) \<Rightarrow> (rstr \<Rightarrow> rstr \<Rightarrow> Change list) \<Rightarrow> ('e) TrackerEnv_scheme \<Rightarrow> bool" where
  "libs uuid diff env \<longleftrightarrow> inj uuid \<and> new_id env = uuid \<and> diff_lines env = diff"

lemma libsD: assumes "libs uuid diff env" shows "inj uuid" "new_id env = uuid" "diff_lines env = diff"
  using assms by (auto simp: libs_def)

lemma recompute_ok:
  "libs uuid diff env \<Longrightarrow> tracker_inv uuid diff {} {path} tr \<Longrightarrow>
   tracker_inv uuid diff {} {} (recompute_hunks env path cur source tr)"
  by (rule recompute_inv) (auto dest: libsD)

lemma recompute_again:
  "libs uuid diff env \<Longrightarrow> tracker_inv uuid diff {} {} tr \<Longrightarrow>
   tracker_inv uuid diff {} {} (recompute_hunks env path cur source tr)"
  by (blast intro: recompute_ok inv_weaken)

lemma find_in_files_Some:
  "find_in_files i fs = Some (path, h) \<Longrightarrow> \<exists>st. (path, st) \<in> set fs \<and> h \<in> set (hunks st) \<and> hunk_id h = i"
proof (induction fs)
  case (Cons f fs)
  obtain q st where f: "f = (q, st)" by (cases f)
  show ?case
  proof (cases "find (\<lambda>h. hunk_id h = i) (hunks st)")
    case None
    with Cons f show ?thesis by auto
  next
    case (Some g)
    then have "g \<in> set (hunks st)" "hunk_id g = i" by (auto simp: find_Some_iff)
    with Cons.prems f Some show ?thesis by auto
  qed
qed simp

lemma hunk_action_inv:
  assumes "libs uuid diff env" "tracker_inv uuid diff {} {} tr" "apply_hunk_action env i action tr = (Inr u, tr')"
  shows "tracker_inv uuid diff {} {} tr'"
proof -
  obtain path h where h: "find_in_files i (file_states tr) = Some (path, h)"
    using assms(3) by (auto simp: apply_hunk_action_def split: option.splits)
  obtain st where st: "file_state (count_hunk action h tr) path = Some st" "h \<in> set (hunks st)"
    using find_in_files_Some[OF h] assms(2) by (auto simp: tracker_inv_def file_state_def)
  have inv: "tracker_inv uuid diff (hunk_id ` set [h]) {} (count_hunk action h tr)"
    using count_inv[OF assms(2)] by simp
  show ?thesis
  proof (cases action)
    case Accept
    then show ?thesis
      using assms(3) h accept_batch_inv[OF inv st(1) _ _ libsD[OF assms(1)]] st(2)
      by (auto simp: apply_hunk_action_def accept_hunk_batch)
  next
    case Reject
    then show ?thesis
      using assms(3) h reject_batch_inv[OF inv st(1) _ _ libsD[OF assms(1)]] st(2)
      by (auto simp: apply_hunk_action_def reject_hunk_batch)
  qed
qed

lemma batch_of_files:
  assumes "distinct (map fst (file_states tr))"
  shows "batch_of tr (filter (\<lambda>(path, hs). hs \<noteq> []) (map (\<lambda>(path, st). (path, filter P (hunks st))) (file_states tr)))"
proof -
  have "map fst (map (\<lambda>(path, st). (path, filter P (hunks st))) (file_states tr)) = map fst (file_states tr)"
    by (auto simp: comp_def case_prod_unfold)
  then have "distinct (map fst (filter (\<lambda>(path, hs). hs \<noteq> []) (map (\<lambda>(path, st). (path, filter P (hunks st))) (file_states tr))))"
    using assms by (metis distinct_map_filter)
  then show ?thesis using assms by (fastforce simp: batch_of_def file_state_def)
qed

lemma file_action_inv:
  assumes "libs uuid diff env" "tracker_inv uuid diff {} {} tr" "apply_file_action env path action tr = (Inr r, tr')"
  shows "tracker_inv uuid diff {} {} tr'"
proof (cases "\<exists>st. file_state tr path = Some st \<and> hunks st \<noteq> []")
  case True
  then obtain st where st: "file_state tr path = Some st" "hunks st \<noteq> []" by blast
  then have "batch_of tr [(path, hunks st)]" by (simp add: batch_of_def)
  from batch_inv[OF assms(2) this libsD[OF assms(1)]] st assms(3) show ?thesis
    by (auto simp: apply_file_action_def simp del: apply_action_batch.simps)
next
  case False
  with assms(2,3) show ?thesis by (auto simp: apply_file_action_def split: option.splits if_splits)
qed

lemma all_action_inv:
  assumes "libs uuid diff env" "tracker_inv uuid diff {} {} tr" "apply_all_action env action tr = (Inr r, tr')"
  shows "tracker_inv uuid diff {} {} tr'"
proof -
  have eq: "map (\<lambda>(path, st). (path, hunks st)) (filter (\<lambda>(path, st). hunks st \<noteq> []) fs) =
    filter (\<lambda>(path, hs). hs \<noteq> []) (map (\<lambda>(path, st). (path, filter (\<lambda>h. True) (hunks st))) fs)" for fs
    by (induction fs) auto
  have "distinct (map fst (file_states tr))" using assms(2) by (simp add: tracker_inv_def)
  from batch_inv[OF assms(2) batch_of_files[OF this, where P="\<lambda>h. True"] libsD[OF assms(1)]] assms(3)
  show ?thesis by (simp add: apply_all_action_def eq)
qed

lemma turn_action_inv:
  assumes "libs uuid diff env" "tracker_inv uuid diff {} {} tr" "apply_turn_action env p action tr = (Inr r, tr')"
  shows "tracker_inv uuid diff {} {} tr'"
proof -
  have "distinct (map fst (file_states tr))" using assms(2) by (simp add: tracker_inv_def)
  from batch_inv[OF assms(2) batch_of_files[OF this] libsD[OF assms(1)]] assms(3) show ?thesis
    by (simp add: apply_turn_action_def)
qed

lemma file_state_insert: "file_state (insert_file path st tr) = (file_state tr)(path \<mapsto> st)"
  by (simp add: file_state_def insert_file_def update_conv fun_eq_iff)

lemma record_agent_write_inv:
  assumes "libs uuid diff env" "tracker_inv uuid diff {} {} tr"
  shows "tracker_inv uuid diff {} {} (record_agent_write env path content p previous tr)"
proof -
  have ins: "tracker_inv uuid diff {} {} (insert_file path (new_file b c a) tr)" if "\<not> is_tracked tr path" for b c a
    using that inv_insert[OF assms(2)] by (simp add: is_tracked_def)
  have clr: "tracker_inv uuid diff {} {} (with_file path f tr)" if "\<And>s. hunks (f s) = []" for f
    using inv_clear[OF assms(2) that] by simp
  have edt: "tracker_inv uuid diff {} {path} (with_file path (\<lambda>s. s\<lparr> is_agent_file := True \<rparr>) tr)"
    by (rule inv_edit[OF assms(2)]) simp
  show ?thesis
    unfolding record_agent_write_def Let_def
    by (simp add: ins clr edt recompute_ok[OF assms(1)] recompute_again[OF assms(1)])
qed

lemma process_file_change_inv:
  assumes "libs uuid diff env" "tracker_inv uuid diff {} {} tr"
  shows "tracker_inv uuid diff {} {} (process_file_change env path preloaded tr)"
proof (cases "file_state tr path")
  case None
  then have "tracker_inv uuid diff {} {} (insert_file path (new_file b c a) tr)" for b c a
    using inv_insert[OF assms(2)] by simp
  then show ?thesis using None assms(2)
    by (simp add: process_file_change_def Let_def recompute_again[OF assms(1)])
next
  case (Some st)
  have "tracker_inv uuid diff {} {} (with_file path f tr)" if "\<And>s. hunks (f s) = []" for f
    using inv_clear[OF assms(2) that] by simp
  then show ?thesis using Some assms(2)
    by (simp add: process_file_change_def Let_def recompute_again[OF assms(1)])
qed

lemma handle_file_change_inv:
  "libs uuid diff env \<Longrightarrow> tracker_inv uuid diff {} {} tr \<Longrightarrow> tracker_inv uuid diff {} {} (handle_file_change env path tr)"
  by (simp add: handle_file_change_def process_file_change_inv)

lemma process_changes_inv:
  "libs uuid diff env \<Longrightarrow> tracker_inv uuid diff {} {} tr \<Longrightarrow> tracker_inv uuid diff {} {} (process_changes env bs paths tr)"
  by (induction env bs paths tr rule: process_changes.induct) (simp_all add: process_file_change_inv)

lemma handle_file_deleted_inv:
  assumes "libs uuid diff env" "tracker_inv uuid diff {} {} tr"
  shows "tracker_inv uuid diff {} {} (handle_file_deleted env path tr)"
  using assms inv_insert[OF assms(2), of path]
  by (simp add: handle_file_deleted_def is_tracked_def handle_file_change_inv recompute_again)

lemma reset_baseline_inv:
  assumes "inj uuid" "tracker_inv uuid diff {} {} tr"
  shows "tracker_inv uuid diff {} {} (reset_baseline path tr)"
proof (cases "file_state tr path")
  case (Some st)
  with inv_drop[OF assms(2,1) Some, of "\<lambda>s. s\<lparr> baseline := current_content s, baseline_accepted := False, hunks := [] \<rparr>" "hunks st"]
  show ?thesis by (simp add: reset_baseline_def)
qed (simp add: reset_baseline_def assms(2))

lemma fold_inv:
  assumes "\<And>x tr. x \<in> set xs \<Longrightarrow> tracker_inv uuid diff {} {} tr \<Longrightarrow> tracker_inv uuid diff {} {} (g x tr)"
    "tracker_inv uuid diff {} {} tr"
  shows "tracker_inv uuid diff {} {} (fold g xs tr)"
  using assms by (induction xs arbitrary: tr) simp_all

lemma refresh_git_dirty_cache_inv:
  assumes "libs uuid diff env" "tracker_inv uuid diff {} {} tr"
  shows "tracker_inv uuid diff {} {} (refresh_git_dirty_cache env scope tr)"
  using assms by (auto simp: refresh_git_dirty_cache_def Let_def intro!: fold_inv handle_file_change_inv split: option.split prod.split)

lemma refresh_file_inv:
  assumes "libs uuid diff env" "tracker_inv uuid diff {} {} tr"
  shows "tracker_inv uuid diff {} {} (refresh_file env path tr)"
proof (cases "file_state tr path")
  case (Some st)
  let ?f = "\<lambda>s. s\<lparr> baseline := read_baseline env path, current_content := read_file_bounded (reading env path) (disk tr path), baseline_accepted := False \<rparr>"
  have edt: "tracker_inv uuid diff {} {path} (with_file path ?f tr)" by (rule inv_edit[OF assms(2)]) simp
  have st': "file_state (with_file path ?f tr) path = Some (?f st)" by (simp add: file_state_with_file Some)
  have "tracker_inv uuid diff {} {} (drop_hunks path (hunks st) (remove_file path (with_file path ?f tr)))"
    using inv_remove[OF edt libsD(1)[OF assms(1)] st', of "hunks st"] by simp
  moreover have "tracker_inv uuid diff {} {} (drop_hunks path (hunks st) (with_file path (\<lambda>s. s\<lparr> hunks := [] \<rparr>) (with_file path ?f tr)))"
    using inv_drop[OF edt libsD(1)[OF assms(1)] st', of "\<lambda>s. s\<lparr> hunks := [] \<rparr>" "hunks st"] by simp
  ultimately show ?thesis
    using Some edt by (simp add: refresh_file_def Let_def recompute_ok[OF assms(1)])
qed (simp add: refresh_file_def assms(2))

lemma refresh_all_inv:
  assumes "libs uuid diff env" "tracker_inv uuid diff {} {} tr"
  shows "tracker_inv uuid diff {} {} (refresh_all_baselines_except env skip tr)"
  using assms
  by (auto simp: refresh_all_baselines_except_def Let_def intro!: fold_inv refresh_file_inv refresh_git_dirty_cache_inv
      split: option.split)

lemma stop_tracking_inv:
  assumes "inj uuid" "tracker_inv uuid diff {} {} tr"
  shows "tracker_inv uuid diff {} {} (stop_tracking path tr)"
proof (cases "file_state tr path")
  case (Some st)
  with inv_remove[OF assms(2,1) Some refl] show ?thesis by (simp add: stop_tracking_def)
qed (simp add: stop_tracking_def assms(2))

lemma set_mode_inv:
  assumes "libs uuid diff env" "tracker_inv uuid diff {} {} tr"
  shows "tracker_inv uuid diff {} {} (set_mode env md tr)"
  using assms libsD(1)[OF assms(1)]
  by (auto simp: set_mode_def Let_def intro!: fold_inv stop_tracking_inv refresh_git_dirty_cache_inv)

end
