(* ===== verification/Hunk_Review.thy ===== *)
theory Hunk_Review
  imports Hunk_Session
begin

text \<open>
  The tracker as a state machine, and what a reviewer of its hunks can rely on: the invariant of every
  reachable state, accepting and rejecting all hunks of a file, failed writes, and the limits the
  patching by lines has.
\<close>

section \<open>Reachable states\<close>

text \<open>Commands that install a foreign state or move the working directory are left out, and an action
  is a step when it reports success.\<close>

definition command_ok :: "TrackerEnv \<Rightarrow> HunkTrackerCommand \<Rightarrow> Tracker \<Rightarrow> bool" where
  "command_ok env cmd tr =
     (case cmd of
        RestoreState _ \<Rightarrow> False
      | SetWorkingDir _ \<Rightarrow> False
      | HunkActionCmd i action \<Rightarrow> \<not> isl (fst (apply_hunk_action env i action tr))
      | FileAction path action \<Rightarrow> \<not> isl (fst (apply_file_action env path action tr))
      | AllAction action \<Rightarrow> \<not> isl (fst (apply_all_action env action tr))
      | TurnAction p action \<Rightarrow> \<not> isl (fst (apply_turn_action env p action tr))
      | _ \<Rightarrow> True)"

inductive tracker_reachable :: "(nat \<Rightarrow> HunkId) \<Rightarrow> (rstr \<Rightarrow> rstr \<Rightarrow> Change list) \<Rightarrow> Tracker \<Rightarrow> bool"
  for uuid diff where
  start: "tracker_reachable uuid diff (HunkTrackerActor_new wd md d)"
| command: "tracker_reachable uuid diff tr \<Longrightarrow> libs uuid diff env \<Longrightarrow> command_ok env cmd tr \<Longrightarrow>
    tracker_reachable uuid diff (handle_command env cmd tr)"
| notifications: "tracker_reachable uuid diff tr \<Longrightarrow> libs uuid diff (env :: TrackerEnv) \<Longrightarrow> other_commands bt = [] \<Longrightarrow>
    tracker_reachable uuid diff (handle_coalesced_batch env bt tr)"
| restore: "tracker_reachable uuid diff tr \<Longrightarrow> tracker_reachable uuid diff tr0 \<Longrightarrow> next_id tr0 \<le> next_id tr \<Longrightarrow>
    tracker_reachable uuid diff (restore_snapshot (take_snapshot tr0) tr)"
| disk_change: "tracker_reachable uuid diff tr \<Longrightarrow> tracker_reachable uuid diff (tr\<lparr> disk := d \<rparr>)"

lemma command_inv:
  assumes "libs uuid diff env" "tracker_inv uuid diff {} {} tr" "command_ok env cmd tr"
  shows "tracker_inv uuid diff {} {} (handle_command env cmd tr)"
proof (cases cmd)
  case (HunkActionCmd i action)
  with assms hunk_action_inv[OF assms(1,2)] show ?thesis
    by (cases "apply_hunk_action env i action tr"; cases "fst (apply_hunk_action env i action tr)")
      (auto simp: handle_command_def command_ok_def)
next
  case (FileAction path action)
  with assms file_action_inv[OF assms(1,2)] show ?thesis
    by (cases "apply_file_action env path action tr"; cases "fst (apply_file_action env path action tr)")
      (auto simp: handle_command_def command_ok_def)
next
  case (AllAction action)
  with assms all_action_inv[OF assms(1,2)] show ?thesis
    by (cases "apply_all_action env action tr"; cases "fst (apply_all_action env action tr)")
      (auto simp: handle_command_def command_ok_def)
next
  case (TurnAction p action)
  with assms turn_action_inv[OF assms(1,2)] show ?thesis
    by (cases "apply_turn_action env p action tr"; cases "fst (apply_turn_action env p action tr)")
      (auto simp: handle_command_def command_ok_def)
qed (use assms libsD(1)[OF assms(1)] in \<open>simp_all add: handle_command_def command_ok_def record_agent_write_inv
  handle_file_change_inv handle_file_deleted_inv refresh_git_dirty_cache_inv reset_baseline_inv set_mode_inv
  refresh_all_inv refresh_all_baselines_def\<close>)

lemma notifications_inv:
  assumes "libs uuid diff env" "tracker_inv uuid diff {} {} tr" "other_commands bt = []"
  shows "tracker_inv uuid diff {} {} (handle_coalesced_batch env bt tr)"
proof -
  have acts: "tracker_inv uuid diff {} {} (fst (fold (refresh_path_action env) xs (t, seen)))"
    if "tracker_inv uuid diff {} {} t" for xs t seen
    using that
  proof (induction xs arbitrary: t seen)
    case (Cons x xs)
    obtain path a where x: "x = (path, a)" by (cases x)
    obtain t' seen' where step: "refresh_path_action env x (t, seen) = (t', seen')"
      by (cases "refresh_path_action env x (t, seen)")
    then have "tracker_inv uuid diff {} {} t'"
      using Cons.prems assms(1) unfolding x refresh_path_action_def
      by (auto simp: handle_file_change_inv handle_file_deleted_inv split: if_splits)
    from Cons.IH[OF this] step show ?case by simp
  qed simp
  define tr1 where "tr1 = (if refresh_dirty bt \<and> \<not> refresh_all bt then refresh_git_dirty_cache env None tr else tr)"
  have tr1: "tracker_inv uuid diff {} {} tr1" using assms by (simp add: tr1_def refresh_git_dirty_cache_inv)
  obtain t seen where t: "fold (refresh_path_action env) (file_actions bt) (tr1, []) = (t, seen)"
    by (cases "fold (refresh_path_action env) (file_actions bt) (tr1, [])")
  have all: "tracker_inv uuid diff {} {} (refresh_all_baselines_except env seen t)"
    using acts[OF tr1, of "file_actions bt" "[]"] t assms(1) by (simp add: refresh_all_inv)
  have del: "tracker_inv uuid diff {} {}
      (fold (\<lambda>(path, a) t. if a = Deleted then handle_file_deleted env path t else t) (file_actions bt) tr1)"
    by (rule fold_inv[OF _ tr1]) (auto simp: handle_file_deleted_inv assms(1))
  show ?thesis
    unfolding handle_coalesced_batch_def Let_def tr1_def[symmetric]
    using t all process_changes_inv[OF assms(1) del] assms(3)
    by (cases "refresh_all bt") (simp_all add: handle_file_changes_batch_def)
qed

lemma index_inv_mono:
  assumes inv: "index_inv uuid n {} hs ti" and "n \<le> n'"
  shows "index_inv uuid n' {} hs ti"
proof -
  have sub: "uuid ` {..<n} \<subseteq> uuid ` {..<n'}" using assms(2) by auto
  have "hunk_id ` set hs \<subseteq> uuid ` {..<n'}"
    using inv by (intro subset_trans[OF _ sub]) (simp add: index_inv_def)
  moreover have "i \<in> uuid ` {..<n'}" if "in_index ti p i" for p i
    using index_invD(3)[OF inv that] sub by (rule rev_subsetD)
  ultimately show ?thesis using inv by (simp add: index_inv_def)
qed

lemma restore_inv:
  assumes "tracker_inv uuid diff {} {} tr0" "next_id tr0 \<le> next_id tr"
  shows "tracker_inv uuid diff {} {} (restore_snapshot (take_snapshot tr0) tr)"
  using assms index_inv_mono[OF _ assms(2), of uuid "get_all_hunks tr0" "turn_index tr0"]
  by (simp add: tracker_inv_def restore_snapshot_def take_snapshot_def get_all_hunks_def)

lemma reachable_inv: "tracker_reachable uuid diff tr \<Longrightarrow> tracker_inv uuid diff {} {} tr"
proof (induction rule: tracker_reachable.induct)
  case (start wd md d)
  show ?case
    by (simp add: tracker_inv_def HunkTrackerActor_new_def get_all_hunks_def index_inv_def in_index_def)
qed (simp_all add: command_inv notifications_inv restore_inv)

lemma get_hunk_Some:
  assumes "distinct (map hunk_id (get_all_hunks tr))"
  shows "get_hunk tr i = Some h \<longleftrightarrow> h \<in> set (get_all_hunks tr) \<and> hunk_id h = i"
proof
  assume "get_hunk tr i = Some h"
  then show "h \<in> set (get_all_hunks tr) \<and> hunk_id h = i" by (auto simp: get_hunk_def find_Some_iff)
next
  assume h: "h \<in> set (get_all_hunks tr) \<and> hunk_id h = i"
  then have "get_hunk tr i \<noteq> None" by (auto simp: get_hunk_def find_None_iff)
  then obtain g where g: "get_hunk tr i = Some g" by auto
  then have "g \<in> set (get_all_hunks tr)" "hunk_id g = i" by (auto simp: get_hunk_def find_Some_iff)
  with h assms have "g = h" by (auto simp: distinct_map inj_on_def)
  with g show "get_hunk tr i = Some h" by simp
qed

lemma set_map_filter: "set (List.map_filter f xs) = {y. \<exists>x\<in>set xs. f x = Some y}"
  by (induction xs) (auto simp: map_filter_simps split: option.splits)

lemma turn_query:
  assumes "tracker_inv uuid diff {} {} tr"
  shows "set (get_hunks_for_turn tr p) = set (turn_hunks p (get_all_hunks tr))"
proof -
  have inv: "index_inv uuid (next_id tr) {} (get_all_hunks tr) (turn_index tr)"
    using assms by (simp add: tracker_inv_def)
  note I = index_invD[OF this]
  have "h \<in> set (get_hunks_for_turn tr p) \<longleftrightarrow> in_index (turn_index tr) p (hunk_id h) \<and> h \<in> set (get_all_hunks tr)" for h
    by (auto simp: get_hunks_for_turn_def in_index_def set_map_filter get_hunk_Some[OF I(1)] split: option.splits)
  moreover have "h \<in> set (turn_hunks p (get_all_hunks tr)) \<longleftrightarrow> h \<in> set (get_all_hunks tr) \<and> by_prompt p h" for h
    by (auto simp: turn_hunks_def by_prompt_def)
  ultimately show ?thesis using I(4)[of p] I(5)[of _ p] by blast
qed

section \<open>An example session\<close>

text \<open>One agent write to a committed file of two lines.\<close>

definition demo_env :: TrackerEnv where
  "demo_env =
     \<lparr> new_id = show_dec, utc_now = (\<lambda>n. n), diff_lines = diff_lines index_env, in_time = (\<lambda>b c. True),
       read_baseline = (\<lambda>p. Full [97, 10, 98, 10]), git_status = (\<lambda>s. None), read_repo_sync_state = None,
       io_fails = (\<lambda>p. False), torn_write = (\<lambda>p s. None), reading = (\<lambda>p. full_reads) \<rparr>"

definition demo_path :: pathbuf where "demo_path = [RootDir, Normal [102]]"

definition demo_tracker :: Tracker where
  "demo_tracker =
     handle_command demo_env (RecordAgentWrite demo_path [120, 10, 98, 10] 1 None)
       (HunkTrackerActor_new [RootDir] AgentOnly [demo_path \<mapsto> Text [120, 10, 98, 10]])"

definition demo_hunk :: Hunk where
  "demo_hunk =
     \<lparr> hunk_id = [48], hunk_path = demo_path,
       line_info = \<lparr> old_start = 1, old_count = 1, new_start = 1, new_count = 1 \<rparr>,
       hunk_source = AgentEdit 1, old_text = Some [97, 10], new_text = [120, 10], hunk_patch = None,
       created_at = 0, selected = False \<rparr>"

lemma demo_libs: "libs show_dec (diff_lines index_env) demo_env"
  by (auto simp: libs_def demo_env_def inj_def dest: show_dec_inj)

lemma demo_reachable: "tracker_reachable show_dec (diff_lines index_env) demo_tracker"
  unfolding demo_tracker_def
  by (rule command[OF start demo_libs]) (simp add: command_ok_def)

lemma demo_state:
  "file_states demo_tracker =
     [(demo_path, \<lparr> baseline = Full [97, 10, 98, 10], current_content = Full [120, 10, 98, 10],
                    hunks = [demo_hunk], is_agent_file = True, baseline_accepted = False \<rparr>)]"
  "turn_index demo_tracker = [1 \<mapsto> [[48]]]"
  "disk demo_tracker = [demo_path \<mapsto> Text [120, 10, 98, 10]]"
  "session_stats demo_tracker = SessionStats_default"
proof -
  have cls: "classify_string [120, 10, 98, 10] = Full [120, 10, 98, 10]"
    by (simp add: classify_string_def MAX_TRACKED_TEXT_BYTES_def len_utf8_def is_lfs_pointer_def
        LFS_POINTER_PREFIX_def is_binary_def str_bytes_def utf8_char_def)
  have hs: "compute_hunks demo_env 0 demo_path [97, 10, 98, 10] [120, 10, 98, 10] (AgentEdit (Suc 0)) = [demo_hunk]"
    by (simp add: compute_hunks_def demo_env_def index_env_def MAX_DIFF_FILE_SIZE_def len_utf8_def open_builder_def
        HunkBuilder_new_def add_old_line_def add_new_line_def build_def demo_hunk_def show_dec_def radix_digits.simps[of 10 0] digit_char_def)
  have fm: "find_matching_old_hunk h [] = None" for h by (simp add: find_matching_old_hunk_def)
  note defs = demo_tracker_def handle_command_def record_agent_write_def cls is_diffable_def is_tracked_def
    HunkTrackerActor_new_def file_state_def insert_file_def send_events_def new_file_def recompute_hunks_def
    fresh_hunks_def hs fm with_file_def unindex_def reindex_def index_insert_def prompt_index_def Let_def
  have env: "read_baseline demo_env demo_path = Full [97, 10, 98, 10]" by (simp add: demo_env_def)
  show "file_states demo_tracker =
     [(demo_path, \<lparr> baseline = Full [97, 10, 98, 10], current_content = Full [120, 10, 98, 10],
                    hunks = [demo_hunk], is_agent_file = True, baseline_accepted = False \<rparr>)]"
    by (simp add: defs env)
  show "turn_index demo_tracker = [1 \<mapsto> [[48]]]" by (simp add: defs env) (simp add: demo_hunk_def)
  show "disk demo_tracker = [demo_path \<mapsto> Text [120, 10, 98, 10]]" by (simp add: defs env)
  show "session_stats demo_tracker = SessionStats_default" by (simp add: defs env)
qed

lemma demo_file:
  "file_state demo_tracker demo_path = Some
     \<lparr> baseline = Full [97, 10, 98, 10], current_content = Full [120, 10, 98, 10],
       hunks = [demo_hunk], is_agent_file = True, baseline_accepted = False \<rparr>"
  by (simp add: file_state_def demo_state)

lemma demo_regular: "regular_pair (diff_lines index_env) [97, 10, 98, 10] [120, 10, 98, 10]"
  by (simp add: regular_pair_def index_env_def ends_nl_def)

text \<open>
  C11: In every state the tracker can reach, whatever agent writes, file notifications, git refreshes,
  successful actions, restored snapshots and foreign changes of the disk led to it while the working
  directory stayed the same: no two hunks share an identifier, a file that shows hunks shows exactly those of its
  baseline and its current text, and the query \<open>get_hunks_for_turn\<close> lists for a prompt exactly the pending hunks
  attributed to it. (The index behind the query may keep identifiers of hunks that are gone.)
\<close>

theorem tracker_reachable_consistent:
  assumes "tracker_reachable uuid diff tr"
  shows "distinct (map hunk_id (get_all_hunks tr)) \<and>
    (\<forall>path st. file_state tr path = Some st \<longrightarrow> hunks st \<noteq> [] \<longrightarrow>
       map core (hunks st) = state_cores diff (baseline st) (current_content st)) \<and>
    (\<forall>p. set (get_hunks_for_turn tr p) = set (turn_hunks p (get_all_hunks tr)))"
proof -
  have inv: "tracker_inv uuid diff {} {} tr" using reachable_inv[OF assms] .
  then have "distinct (map hunk_id (get_all_hunks tr))" by (auto simp: tracker_inv_def index_inv_def)
  then show ?thesis using turn_query[OF inv] inv_fit[OF inv] by (auto simp: hunks_fit_def)
qed

theorem tracker_reachable_consistent_witness:
  "set (get_hunks_for_turn demo_tracker 1) = {demo_hunk} \<and> distinct (map hunk_id (get_all_hunks demo_tracker))"
  using tracker_reachable_consistent[OF demo_reachable]
  by (simp add: turn_hunks_def get_all_hunks_def demo_state) (simp add: demo_hunk_def prompt_index_def)

section \<open>Reviewing a whole file\<close>

lemma disk_simps [simp]:
  "disk (send_events es tr) = disk tr" "disk (with_file path f tr) = disk tr"
  by (simp_all add: send_events_def with_file_def)

lemma disk_count [simp]: "disk (fold (count_hunk action) hs tr) = disk tr"
  by (induction hs arbitrary: tr) (simp_all add: count_hunk_def)

lemma disk_recompute [simp]: "disk (recompute_hunks env path cur source tr) = disk tr"
  by (simp add: recompute_hunks_def Let_def send_events_def with_file_def split: option.split)

lemma recompute_equal:
  assumes "file_state tr path = Some st" "baseline st = Full t"
  shows "file_state (recompute_hunks env path (Some (Full t)) source tr) path =
    Some (st\<lparr> current_content := Full t, hunks := [] \<rparr>)"
  using assms by (simp add: recompute_hunks_def Let_def fresh_hunks_def compute_hunks_def file_state_with_file)

text \<open>The cores of a file under review.\<close>

lemma reachable_cores:
  assumes "tracker_reachable uuid diff tr" "file_state tr path = Some st" "hunks st \<noteq> []"
    and "baseline st = Full b" "current_content st = Full c"
  shows "map core (hunks st) = hunk_cores diff b c"
  using inv_fit[OF reachable_inv[OF assms(1)] assms(2)] assms(3-) by (simp add: hunks_fit_def state_cores_def)

text \<open>
  An agent write of a text that is not diffed clears the hunks of the file: their identifiers stay in the index
  of the prompt they came from, and no event says that they are gone.
\<close>

lemma undiffable_write_drops_silently:
  "map_option hunks (file_state (record_agent_write demo_env demo_path [0] 2 None demo_tracker) demo_path) = Some [] \<and>
   turn_index (record_agent_write demo_env demo_path [0] 2 None demo_tracker) 1 = Some [hunk_id demo_hunk] \<and>
   events (record_agent_write demo_env demo_path [0] 2 None demo_tracker) = events demo_tracker"
proof -
  have "classify_string [0] = Binary (Some 1)"
    by (simp add: classify_string_def MAX_TRACKED_TEXT_BYTES_def len_utf8_def is_lfs_pointer_def
        LFS_POINTER_PREFIX_def is_binary_def str_bytes_def utf8_char_def)
  then show ?thesis
    using demo_file by (simp add: record_agent_write_def is_diffable_def is_tracked_def file_state_with_file)
      (simp add: with_file_def demo_state demo_hunk_def)
qed

text \<open>
  C12: Accepting all hunks of a file the tracker shows hunks for makes its baseline the current text,
  leaves it without hunks, returns the identifiers of the hunks and touches neither the disk nor any
  other file. The texts hold no carriage returns, end alike, are not a lone line feed, and what they share
  is not a single blank line.
\<close>

theorem accept_file_settles:
  assumes "tracker_reachable uuid diff tr" "diff_law diff"
    and st: "file_state tr path = Some st" "hunks st \<noteq> []" "baseline st = Full b" "current_content st = Full c"
    and "regular_pair diff b c" and "apply_file_action env path Accept tr = (r, tr')"
  shows "r = Ok (map hunk_id (hunks st)) \<and>
    file_state tr' path = Some (st\<lparr> baseline := Full c, current_content := Full c, hunks := [], baseline_accepted := True \<rparr>) \<and>
    (\<forall>q. q \<noteq> path \<longrightarrow> file_state tr' q = file_state tr q) \<and> disk tr' = disk tr"
proof -
  let ?tr = "fold (count_hunk Accept) (hunks st) tr"
  let ?f = "\<lambda>s. s\<lparr> baseline := Full c, baseline_accepted := True, hunks := without_hunks (hunks st) (hunks s) \<rparr>"
  have run: "r = Ok (map hunk_id (hunks st))" "tr' = accept_hunks_batch env path (hunks st) ?tr"
    using assms(8) st by (auto simp: apply_file_action_def Let_def)
  have patched: "accept_patches (hunks st) b = c"
    by (rule accept_patches_exact[OF assms(2,7) reachable_cores[OF assms(1) st]])
  have "without_hunks (hunks st) (hunks st) = []" by (auto simp: without_hunks_def filter_empty_conv)
  then have "file_state tr' path = Some (st\<lparr> baseline := Full c, current_content := Full c, hunks := [], baseline_accepted := True \<rparr>)"
    using st by (simp add: run(2) accept_hunks_batch_def Let_def patched)
      (subst recompute_equal[where st="?f st"]; simp add: file_state_with_file)
  moreover have "disk tr' = disk tr" using st by (simp add: run(2) accept_hunks_batch_def Let_def)
  ultimately show ?thesis using run by (simp add: file_state_accept)
qed

theorem accept_file_settles_witness:
  "map_option baseline (file_state (snd (apply_file_action demo_env demo_path Accept demo_tracker)) demo_path) =
     Some (Full [120, 10, 98, 10]) \<and>
   map_option hunks (file_state (snd (apply_file_action demo_env demo_path Accept demo_tracker)) demo_path) = Some []"
  using accept_file_settles[OF demo_reachable index_env_law demo_file _ _ _ demo_regular prod.collapse[symmetric], of demo_env]
  by simp

text \<open>
  C13: Rejecting all hunks of such a file, when the file can be written, puts the baseline back: on disk
  and as the current text, leaving no hunks and every other file as it was.
\<close>

theorem reject_file_restores:
  assumes "tracker_reachable uuid diff tr" "diff_law diff"
    and st: "file_state tr path = Some st" "hunks st \<noteq> []" "baseline st = Full b" "current_content st = Full c"
    and "regular_pair diff b c" "\<not> io_fails env path" "disk tr path \<notin> {Some Directory, Some Link}"
    and "apply_file_action env path Reject tr = (r, tr')"
  shows "r = Ok (map hunk_id (hunks st)) \<and>
    file_state tr' path = Some (st\<lparr> current_content := Full b, hunks := [] \<rparr>) \<and>
    (\<forall>q. q \<noteq> path \<longrightarrow> file_state tr' q = file_state tr q) \<and> disk tr' = (disk tr)(path \<mapsto> Text b)"
proof -
  let ?tr = "fold (count_hunk Reject) (hunks st) tr"
  let ?f = "\<lambda>s. s\<lparr> current_content := Full b, hunks := without_hunks (hunks st) (hunks s) \<rparr>"
  have patched: "reject_patches (hunks st) c = b"
    by (rule reject_patches_exact[OF assms(2,7) reachable_cores[OF assms(1) st]])
  have plan: "reject_plan st (reject_patches (hunks st)) = RevertChange b"
    using st by (simp add: reject_plan_def patched)
  have w: "fs_write env path b ?tr = Inr (?tr\<lparr> disk := (disk tr)(path \<mapsto> Text b) \<rparr>)"
    using assms(8,9) by (simp add: fs_write_def)
  let ?tr1 = "send_events (removal_events path (hunks st) Rejected) (with_file path ?f (?tr\<lparr> disk := (disk tr)(path \<mapsto> Text b) \<rparr>))"
  have batch: "reject_hunks_batch env path (hunks st) ?tr =
    (Ok (), recompute_hunks env path (Some (Full b)) (remaining_source path ?tr1) ?tr1)"
    using st plan w by (simp add: reject_hunks_batch_def Let_def)
  then have run: "r = Ok (map hunk_id (hunks st))"
    "tr' = recompute_hunks env path (Some (Full b)) (remaining_source path ?tr1) ?tr1"
    using assms(10) st by (auto simp: apply_file_action_def Let_def)
  have "without_hunks (hunks st) (hunks st) = []" by (auto simp: without_hunks_def filter_empty_conv)
  then have "file_state tr' path = Some (st\<lparr> current_content := Full b, hunks := [] \<rparr>)"
    unfolding run(2) by (subst recompute_equal[where st="?f st"]) (simp_all add: file_state_with_file st)
  then show ?thesis using run by (simp add: file_state_recompute file_state_with_file)
qed

theorem reject_file_restores_witness:
  "disk (snd (apply_file_action demo_env demo_path Reject demo_tracker)) = [demo_path \<mapsto> Text [97, 10, 98, 10]]"
  using reject_file_restores[OF demo_reachable index_env_law demo_file _ _ _ demo_regular _ _ prod.collapse[symmetric], of demo_env]
  by (simp add: demo_state) (simp add: demo_env_def)

text \<open>
  C35: When the file cannot be written, rejecting its hunks reports the error and leaves the file states, the
  events and every other file on disk as they were; the file itself is as it was when the write failed before
  truncating it, and otherwise holds what the failed write left. The statistics nevertheless count every hunk as
  rejected.
\<close>

theorem failed_reject_counts:
  assumes "tracker_reachable uuid diff tr"
    and st: "file_state tr path = Some st" "hunks st \<noteq> []" "baseline st \<noteq> Missing"
    and "io_fails env path" and "apply_file_action env path Reject tr = (r, tr')"
    and "rejected_hunks (session_stats tr) + length (hunks st) \<le> u64_max"
  shows "r = Err (WriteError path) \<and> file_states tr' = file_states tr \<and> events tr' = events tr \<and>
    (disk tr' = disk tr \<or> (\<exists>t left. torn_write env path t = Some left \<and> disk tr' = (disk tr)(path \<mapsto> left))) \<and>
    rejected_hunks (session_stats tr') = rejected_hunks (session_stats tr) + length (hunks st)"
proof -
  let ?tr = "fold (count_hunk Reject) (hunks st) tr"
  have "reject_plan st (reject_patches (hunks st)) \<noteq> NoOp"
    using patchable[OF inv_fit[OF reachable_inv[OF assms(1)] st(1)] st(2)] .
  then obtain t where t: "reject_plan st (reject_patches (hunks st)) \<in> {RestoreDeleted t, RevertChange t}"
    using st(3) by (auto simp: reject_plan_def split: FileContentState.splits)
  have "isl (fs_write env path t ?tr)" using assms(5) by (simp add: fs_write_def)
  then obtain tr1 where w: "fs_write env path t ?tr = Inl tr1" by (cases "fs_write env path t ?tr") auto
  then have "reject_hunks_batch env path (hunks st) ?tr = (Err (WriteError path), tr1)"
    using st t by (auto simp: reject_hunks_batch_def)
  then have run: "r = Err (WriteError path)" "tr' = tr1"
    using assms(6) st by (auto simp: apply_file_action_def Let_def)
  have torn: "file_states tr1 = file_states ?tr" "events tr1 = events ?tr" "session_stats tr1 = session_stats ?tr"
    "disk tr1 = disk ?tr \<or> (\<exists>left. torn_write env path t = Some left \<and> disk tr1 = (disk ?tr)(path \<mapsto> left))"
    using w by (auto simp: fs_write_def split: if_splits option.splits)
  have same: "file_states (fold (count_hunk Reject) hs t) = file_states t \<and> events (fold (count_hunk Reject) hs t) = events t" for hs t
    by (induction hs arbitrary: t) (simp_all add: count_hunk_def)
  have "rejected_hunks (session_stats (fold (count_hunk Reject) hs t)) = rejected_hunks (session_stats t) + length hs"
    if "rejected_hunks (session_stats t) + length hs \<le> u64_max" for hs t
    using that by (induction hs arbitrary: t) (simp_all add: count_hunk_def update_session_stats_def sat_add_def)
  from this[OF assms(7)] show ?thesis using run same torn by auto
qed

theorem failed_reject_counts_witness:
  "rejected_hunks (session_stats (snd (apply_file_action (demo_env\<lparr> io_fails := \<lambda>p. True, torn_write := \<lambda>p s. Some (Text []) \<rparr>)
     demo_path Reject demo_tracker))) = 1"
  using failed_reject_counts[OF demo_reachable demo_file _ _ _ prod.collapse[symmetric],
      of "demo_env\<lparr> io_fails := \<lambda>p. True, torn_write := \<lambda>p s. Some (Text []) \<rparr>"]
  by (simp add: demo_state SessionStats_default_def u64_max_def)

section \<open>Drawing diffs\<close>

lemma stands_of_core:
  assumes "core h = builder_core b" "b \<in> set (scan_changes cs None 1 1)"
  shows "hunk_stands (side old_part cs) (side new_part cs) h"
proof -
  let ?g = "build index_env 0 [] External b"
  have "core h = core ?g" using assms(1) by simp
  then have "line_info h = line_info ?g" "old_text h = old_text ?g" "new_text h = new_text ?g"
    by (simp_all only: core_def prod.inject)
  then show ?thesis using build_stands[OF assms(2), of index_env 0 "[]" External] by (simp add: hunk_stands_def)
qed

lemma whole_file_patch:
  assumes "t \<noteq> []" "13 \<notin> set t"
  shows "core h = created_core t \<Longrightarrow> generate_hunk_patch [] t h \<noteq> None"
    "core h = deleted_core t \<Longrightarrow> generate_hunk_patch t [] h \<noteq> None"
proof -
  have "1 \<le> length (str_lines t)" using assms by (simp add: length_str_lines Suc_le_eq)
  then show "core h = created_core t \<Longrightarrow> generate_hunk_patch [] t h \<noteq> None"
    "core h = deleted_core t \<Longrightarrow> generate_hunk_patch t [] h \<noteq> None"
    by (auto simp: core_def created_core_def deleted_core_def generate_hunk_patch_def checked_sub_def Let_def max_def)
qed

lemma those_patched_ids: "those (map (hunk_with_patch st) hs) = Some ys \<Longrightarrow> map hunk_id ys = map hunk_id hs"
  by (induction hs arbitrary: ys) (auto simp: hunk_with_patch_def split: option.splits prod.splits)

lemma those_map: "(\<And>x. x \<in> set xs \<Longrightarrow> f x \<noteq> None) \<Longrightarrow> those (map f xs) \<noteq> None"
  by (induction xs) (auto split: option.splits)

definition no_cr :: "FileContentState \<Rightarrow> bool" where
  "no_cr s = (case s of Full t \<Rightarrow> 13 \<notin> set t | _ \<Rightarrow> True)"

text \<open>
  Drawing the diff of a file never underflows: in every reachable state the data of a file whose texts
  hold no carriage return is produced and lists the hunks of the file in order.
\<close>

lemma file_hunk_data_total:
  assumes "tracker_reachable uuid diff tr" "diff_law diff"
    and "\<And>st. file_state tr path = Some st \<Longrightarrow> no_cr (baseline st) \<and> no_cr (current_content st)"
  shows "\<exists>d. get_file_hunk_data tr path = Some d \<and>
    map hunk_id (data_hunks d) = map hunk_id (get_hunks_for_path tr path)"
proof (cases "file_state tr path")
  case (Some st)
  have "hunk_with_patch st h \<noteq> None" if h: "h \<in> set (hunks st)" for h
  proof -
    have cores: "map core (hunks st) = state_cores diff (baseline st) (current_content st)"
      using inv_fit[OF reachable_inv[OF assms(1)] Some] h by (auto simp: hunks_fit_def)
    then have mem: "core h \<in> set (state_cores diff (baseline st) (current_content st))"
      using h by (metis image_eqI list.set_map)
    consider b c where "baseline st = Full b" "current_content st = Full c"
      | b where "baseline st = Full b" "current_content st = Missing" "b \<noteq> []" "core h = deleted_core b"
      | c where "baseline st = Missing" "current_content st = Full c" "c \<noteq> []" "core h = created_core c"
      using mem
      by (cases "baseline st"; cases "current_content st") (auto simp: state_cores_def split: if_splits)
    then show ?thesis
    proof cases
      case (1 b c)
      with assms(3)[OF Some] have cr: "13 \<notin> set b" "13 \<notin> set c" by (auto simp: no_cr_def)
      from mem 1 obtain bd where "bd \<in> set (scan_changes (diff b c) None 1 1)" "core h = builder_core bd"
        by (auto simp: state_cores_def hunk_cores_def)
      from stands_of_core[OF this(2,1)] assms(2) cr
      have "hunk_stands (split_inclusive b) (split_inclusive c) h" by (simp add: diff_law_def)
      from hunk_patch_total[OF this cr] 1 show ?thesis by (auto simp: hunk_with_patch_def content_str_def)
    next
      case (2 b)
      with assms(3)[OF Some] whole_file_patch(2)[of b h] show ?thesis
        by (auto simp: no_cr_def hunk_with_patch_def content_str_def)
    next
      case (3 c)
      with assms(3)[OF Some] whole_file_patch(1)[of c h] show ?thesis
        by (auto simp: no_cr_def hunk_with_patch_def content_str_def)
    qed
  qed
  from those_map[OF this] Some show ?thesis
    by (auto simp: get_file_hunk_data_def get_hunks_for_path_def Let_def those_patched_ids split: option.split)
qed (simp add: get_file_hunk_data_def get_hunks_for_path_def FileHunkData_default_def)

theorem file_hunk_data_total_witness:
  "\<exists>d. get_file_hunk_data demo_tracker demo_path = Some d \<and>
     map hunk_id (data_hunks d) = map hunk_id (get_hunks_for_path demo_tracker demo_path)"
  using file_hunk_data_total[OF demo_reachable index_env_law, of demo_path] by (simp add: demo_file no_cr_def)

end
