(* ===== verification/Hunk_Loc.thy ===== *)
theory Hunk_Loc
  imports Hunk_Review
begin

text \<open>
  Lines-of-code accounting over the events of the hunk tracker (\<open>loc/mod.rs\<close> of \<open>xai-hunk-tracker\<close>):
  the record made of a hunk, and the sink that turns events into records and totals. A record whose
  write fails is dropped; \<open>writes\<close> says which writes succeed.
\<close>

datatype AuthorType = Agent | Human
datatype SourceType = SrcAgentEdit | SrcExternalEditOnAgentFile | SrcExternal
datatype EventType = Added | Updated | Removed

record HunkRecord =
  rec_hunk_id :: HunkId
  rec_file_path :: pathbuf
  rec_hunk_start :: nat
  rec_hunk_end :: nat
  rec_lines_added :: int
  rec_lines_removed :: int
  rec_author_type :: "AuthorType option"
  rec_author_id :: "rstr option"
  rec_agent_id :: rstr
  rec_session_id :: rstr
  rec_timestamp :: nat
  rec_prompt_index :: "nat option"
  rec_source_type :: "SourceType option"
  rec_event_type :: EventType
  rec_removal_reason :: "HunkRemovalReason option"

record LocSinkContext =
  ctx_session_id :: rstr
  ctx_agent_id :: rstr
  ctx_user_id :: "rstr option"
  ctx_aggregates :: bool

datatype LocAggregate =
  LinesChanged AuthorType int int pathbuf
| LinesReverted int int

definition attribution ::
  "LocSinkContext \<Rightarrow> HunkSource \<Rightarrow> AuthorType \<times> rstr option \<times> nat option \<times> SourceType" where
  "attribution ctx source =
     (case source of
        AgentEdit p \<Rightarrow> (Agent, Some (ctx_agent_id ctx), Some p, SrcAgentEdit)
      | ExternalEditOnAgentFile \<Rightarrow> (Human, ctx_user_id ctx, None, SrcExternalEditOnAgentFile)
      | External \<Rightarrow> (Human, ctx_user_id ctx, None, SrcExternal))"

definition record_span :: "HunkLineInfo \<Rightarrow> nat \<times> nat" where
  "record_span li =
     (let (start, count) = (if new_count li = 0 then (old_start li, old_count li) else (new_start li, new_count li))
      in (start, if count = 0 then start else start + count - 1))"

definition from_hunk :: "Hunk \<Rightarrow> LocSinkContext \<Rightarrow> EventType \<Rightarrow> HunkSource \<Rightarrow> HunkRecord" where
  "from_hunk h ctx et source =
     (case attribution ctx source of (author, author_id, prompt, src) \<Rightarrow>
      \<lparr> rec_hunk_id = hunk_id h, rec_file_path = hunk_path h,
        rec_hunk_start = fst (record_span (line_info h)), rec_hunk_end = snd (record_span (line_info h)),
        rec_lines_added = int (new_count (line_info h)), rec_lines_removed = int (old_count (line_info h)),
        rec_author_type = Some author, rec_author_id = author_id, rec_agent_id = ctx_agent_id ctx,
        rec_session_id = ctx_session_id ctx, rec_timestamp = created_at h, rec_prompt_index = prompt,
        rec_source_type = Some src, rec_event_type = et, rec_removal_reason = None \<rparr>)"

record LocSink =
  acc :: "HunkId \<rightharpoonup> int \<times> int"
  records :: "HunkRecord list"
  aggregates :: "LocAggregate list"

definition LocSink_new :: LocSink where
  "LocSink_new = \<lparr> acc = Map.empty, records = [], aggregates = [] \<rparr>"

definition write_record :: "(HunkRecord \<Rightarrow> bool) \<Rightarrow> HunkRecord \<Rightarrow> LocSink \<Rightarrow> LocSink" where
  "write_record writes r s = (if writes r then s\<lparr> records := records s @ [r] \<rparr> else s)"

definition accumulate :: "HunkId \<Rightarrow> int \<Rightarrow> int \<Rightarrow> LocSink \<Rightarrow> LocSink" where
  "accumulate i a d s =
     (let (x, y) = (case acc s i of Some t \<Rightarrow> t | None \<Rightarrow> (0, 0))
      in s\<lparr> acc := (acc s)(i \<mapsto> (x + a, y + d)) \<rparr>)"

definition aggregate :: "LocSinkContext \<Rightarrow> LocAggregate \<Rightarrow> LocSink \<Rightarrow> LocSink" where
  "aggregate ctx g s = (if ctx_aggregates ctx then s\<lparr> aggregates := aggregates s @ [g] \<rparr> else s)"

definition log_change :: "(HunkRecord \<Rightarrow> bool) \<Rightarrow> LocSinkContext \<Rightarrow> AuthorType \<Rightarrow> HunkRecord \<Rightarrow> LocSink \<Rightarrow> LocSink" where
  "log_change writes ctx dflt r s =
     write_record writes r
       (aggregate ctx (LinesChanged (case rec_author_type r of Some a \<Rightarrow> a | None \<Rightarrow> dflt)
                         (rec_lines_added r) (rec_lines_removed r) (rec_file_path r))
          (accumulate (rec_hunk_id r) (rec_lines_added r) (rec_lines_removed r) s))"

definition removal_record ::
  "LocSinkContext \<Rightarrow> nat \<Rightarrow> pathbuf \<Rightarrow> HunkId \<Rightarrow> HunkRemovalReason \<Rightarrow> int \<times> int \<Rightarrow> HunkRecord" where
  "removal_record ctx now path i reason t =
     \<lparr> rec_hunk_id = i, rec_file_path = path, rec_hunk_start = 0, rec_hunk_end = 0,
       rec_lines_added = - fst t, rec_lines_removed = - snd t, rec_author_type = None, rec_author_id = None,
       rec_agent_id = ctx_agent_id ctx, rec_session_id = ctx_session_id ctx, rec_timestamp = now,
       rec_prompt_index = None, rec_source_type = None, rec_event_type = Removed, rec_removal_reason = Some reason \<rparr>"

definition handle_event ::
  "(HunkRecord \<Rightarrow> bool) \<Rightarrow> LocSinkContext \<Rightarrow> nat \<Rightarrow> HunkEvent \<Rightarrow> LocSink \<Rightarrow> LocSink" where
  "handle_event writes ctx now e s =
     (case e of
        HunkAdded path h \<Rightarrow> log_change writes ctx Agent (from_hunk h ctx Added (hunk_source h)) s
      | HunkContentChanged path h trigger prev_added prev_removed \<Rightarrow>
          log_change writes ctx Human
            ((from_hunk h ctx Updated trigger)
               \<lparr> rec_lines_added := int (new_count (line_info h)) - int prev_added,
                 rec_lines_removed := int (old_count (line_info h)) - int prev_removed \<rparr>) s
      | HunkRemoved path i reason \<Rightarrow>
          (case acc s i of
             None \<Rightarrow> s
           | Some t \<Rightarrow>
               let s' = s\<lparr> acc := (acc s)(i := None) \<rparr>
               in if reason = Accepted \<or> t = (0, 0) then s'
                  else write_record writes (removal_record ctx now path i reason t)
                         (aggregate ctx (LinesReverted (max (fst t) 0) (max (snd t) 0)) s'))
      | _ \<Rightarrow> s)"

text \<open>The events come with the time at which each is handled; cancellation drains what is left in the
  channel, so the sink is one fold over all events sent.\<close>

definition run_loc_sink :: "(HunkRecord \<Rightarrow> bool) \<Rightarrow> LocSinkContext \<Rightarrow> (nat \<times> HunkEvent) list \<Rightarrow> LocSink" where
  "run_loc_sink writes ctx es = fold (\<lambda>(now, e). handle_event writes ctx now e) es LocSink_new"

section \<open>Totals\<close>

definition hunk_total :: "HunkId \<Rightarrow> HunkRecord list \<Rightarrow> int \<times> int" where
  "hunk_total i rs =
     (sum_list (map rec_lines_added (filter (\<lambda>r. rec_hunk_id r = i) rs)),
      sum_list (map rec_lines_removed (filter (\<lambda>r. rec_hunk_id r = i) rs)))"

definition live_total :: "HunkId \<Rightarrow> LocSink \<Rightarrow> int \<times> int" where
  "live_total i s = (case acc s i of Some t \<Rightarrow> t | None \<Rightarrow> (0, 0))"

definition accepts :: "HunkId \<Rightarrow> HunkEvent \<Rightarrow> bool" where
  "accepts i e = (case e of HunkRemoved _ j Accepted \<Rightarrow> i = j | _ \<Rightarrow> False)"

lemma hunk_total_snoc:
  "hunk_total i (rs @ [r]) =
     (if rec_hunk_id r = i
      then (fst (hunk_total i rs) + rec_lines_added r, snd (hunk_total i rs) + rec_lines_removed r)
      else hunk_total i rs)"
  by (simp add: hunk_total_def)

lemma sink_simps [simp]:
  "records (accumulate i a d s) = records s" "records (aggregate ctx g s) = records s"
  "acc (aggregate ctx g s) = acc s" "acc (write_record writes r s) = acc s"
  "live_total i (aggregate ctx g s) = live_total i s" "live_total i (write_record writes r s) = live_total i s"
  "live_total i (s\<lparr> records := rs \<rparr>) = live_total i s"
  by (simp_all add: accumulate_def aggregate_def write_record_def live_total_def split: prod.split)

lemma live_total_accumulate:
  "live_total i (accumulate j a d s) =
     (if i = j then (fst (live_total i s) + a, snd (live_total i s) + d) else live_total i s)"
  by (simp add: live_total_def accumulate_def split: option.split prod.split)

text \<open>What an event does to the gap between the records of a hunk and its running total: only an
  acceptance opens it.\<close>

abbreviation handle_written :: "LocSinkContext \<Rightarrow> nat \<Rightarrow> HunkEvent \<Rightarrow> LocSink \<Rightarrow> LocSink" where
  "handle_written \<equiv> handle_event (\<lambda>r. True)"

lemma log_change_gap:
  "hunk_total i (records s) = live_total i s \<Longrightarrow>
   hunk_total i (records (log_change (\<lambda>r. True) ctx a r s)) = live_total i (log_change (\<lambda>r. True) ctx a r s)"
  by (auto simp: log_change_def write_record_def hunk_total_snoc live_total_accumulate)

lemma event_gap:
  assumes "\<not> accepts i e" "hunk_total i (records s) = live_total i s"
  shows "hunk_total i (records (handle_written ctx now e s)) = live_total i (handle_written ctx now e s)"
proof (cases e)
  case (HunkRemoved path j reason)
  show ?thesis
  proof (cases "acc s j")
    case None
    with HunkRemoved assms(2) show ?thesis by (simp add: handle_event_def)
  next
    case (Some t)
    then have t: "i = j \<Longrightarrow> live_total i s = t" by (simp add: live_total_def)
    show ?thesis
      using HunkRemoved Some assms t
      by (cases "i = j") (auto simp: handle_event_def Let_def write_record_def aggregate_def hunk_total_snoc removal_record_def
          live_total_def accepts_def split: HunkRemovalReason.splits)
  qed
qed (use assms log_change_gap in \<open>simp_all add: handle_event_def\<close>)

text \<open>
  C36: Over any sequence of tracker events with every record written, the records of a hunk that was never
  accepted add up to the running total the sink holds for it, and so to zero once the hunk was rejected
  or superseded.
\<close>

theorem loc_records_sum:
  assumes "\<And>now e. (now, e) \<in> set es \<Longrightarrow> \<not> accepts i e" "reason \<noteq> Accepted"
  shows "hunk_total i (records (run_loc_sink (\<lambda>r. True) ctx es)) = live_total i (run_loc_sink (\<lambda>r. True) ctx es) \<and>
    hunk_total i (records (run_loc_sink (\<lambda>r. True) ctx (es @ [(now, HunkRemoved path i reason)]))) = (0, 0)"
proof -
  have sums: "hunk_total i (records (run_loc_sink (\<lambda>r. True) ctx es)) = live_total i (run_loc_sink (\<lambda>r. True) ctx es)"
    if "\<And>now e. (now, e) \<in> set es \<Longrightarrow> \<not> accepts i e" for es
    using that unfolding run_loc_sink_def
  proof (induction es rule: rev_induct)
    case Nil
    show ?case by (simp add: LocSink_new_def hunk_total_def live_total_def)
  next
    case (snoc p es)
    obtain t e where p: "p = (t, e)" by (cases p)
    have "\<not> accepts i e" using snoc.prems[of t e] p by simp
    moreover have "\<not> accepts i e'" if "(t', e') \<in> set es" for t' e' using snoc.prems[of t' e'] that by simp
    ultimately show ?case using event_gap snoc.IH by (simp add: p)
  qed
  have "acc (handle_written ctx now (HunkRemoved path i reason) s) i = None" for s
    by (auto simp: handle_event_def Let_def split: option.split)
  then have "live_total i (run_loc_sink (\<lambda>r. True) ctx (es @ [(now, HunkRemoved path i reason)])) = (0, 0)"
    by (simp add: run_loc_sink_def live_total_def)
  moreover have "\<not> accepts i e" if "(t, e) \<in> set (es @ [(now, HunkRemoved path i reason)])" for t e
  proof -
    have "\<not> accepts i (HunkRemoved path i reason)" using assms(2) by (cases reason) (simp_all add: accepts_def)
    then show ?thesis using that assms(1)[of t e] by auto
  qed
  ultimately show ?thesis using sums[of es] sums[of "es @ [(now, HunkRemoved path i reason)]"] assms(1) by auto
qed

definition demo_ctx :: LocSinkContext where
  "demo_ctx = \<lparr> ctx_session_id = [], ctx_agent_id = [], ctx_user_id = None, ctx_aggregates = True \<rparr>"

theorem loc_records_sum_witness:
  "hunk_total [48] (records (run_loc_sink (\<lambda>r. True) demo_ctx [(0, HunkAdded demo_path demo_hunk)])) = (1, 1) \<and>
   hunk_total [48] (records (run_loc_sink (\<lambda>r. True) demo_ctx
     ([(0, HunkAdded demo_path demo_hunk)] @ [(1, HunkRemoved demo_path [48] Rejected)]))) = (0, 0)"
proof -
  have "live_total [48] (run_loc_sink (\<lambda>r. True) demo_ctx [(0, HunkAdded demo_path demo_hunk)]) = (1, 1)"
    by (simp add: run_loc_sink_def handle_event_def log_change_def live_total_accumulate from_hunk_def demo_hunk_def
        attribution_def) (simp add: live_total_def LocSink_new_def)
  then show ?thesis
    using loc_records_sum[of "[(0, HunkAdded demo_path demo_hunk)]" "[48]" Rejected demo_ctx 1 demo_path]
    by (simp add: accepts_def)
qed

section \<open>Merged hunks\<close>

text \<open>Two hunks grow into one. The new hunk overlaps both and takes over the identifier of one of them; the
  other disappears from the file without an event, so its lines stay counted.\<close>

definition line_hunk :: "nat \<Rightarrow> nat \<Rightarrow> rstr \<Rightarrow> HunkId \<Rightarrow> Hunk" where
  "line_hunk start n txt i =
     \<lparr> hunk_id = i, hunk_path = [RootDir],
       line_info = \<lparr> old_start = start, old_count = n, new_start = start, new_count = n \<rparr>,
       hunk_source = AgentEdit 1, old_text = Some txt, new_text = txt, hunk_patch = None, created_at = 0, selected = False \<rparr>"

lemma merged_hunk_not_removed:
  "preserve_ids [line_hunk 1 1 [97] [49], line_hunk 3 1 [98] [50]] [] [line_hunk 1 3 [99] [51]] = [line_hunk 1 3 [99] [50]]"
  "hunk_diff_events [RootDir] [line_hunk 1 1 [97] [49], line_hunk 3 1 [98] [50]] [line_hunk 1 3 [99] [50]] (AgentEdit 1) =
     [HunkContentChanged [RootDir] (line_hunk 1 3 [99] [50]) (AgentEdit 1) 1 1]"
  by (simp_all add: line_hunk_def find_matching_old_hunk_def hunks_match_content_def hunks_overlap_def sat_add_def
      u64_max_def calculate_overlap_size_def hunk_diff_events_def removed_events_def changed_events_def is_external_def)

end
