(* ===== verification/Spec2Isabelle.thy ===== *)
theory Spec2Isabelle
  imports Queue_Runtime Prompt_Combine Breaker_Conc Retry_Policy Event_Queue Delivery Identity Patch_Tool
    Rate_Limiter Scheduling Todo_Bridge Policy_Gate Compact_Intra Compact_Inter Hunk_Loc
begin

text \<open>
  The program is a terminal agent: a pager (the user interface), an adapter that drives the Pi agent
  process (\<open>crates/codegen/pi-grok-adapter\<close>), the tools the agent calls
  (\<open>crates/codegen/xai-grok-tools\<close>), and libraries the parts share (\<open>crates/common\<close>). This library
  models the parts that decide something: which prompt runs next, whether a request is let through,
  who may be addressed, what a patch does to a file. Text is a list of Unicode code points (\<open>rstr\<close>),
  with byte lengths computed where the code counts bytes; \<open>u64\<close> counters are naturals whose wrap-around
  is written out; \<open>Result\<close> is a sum (\<open>Err\<close> on the left); a panic of the source is \<open>None\<close>.

  \<^bold>\<open>Shared theories.\<close> \<open>Prelude\<close>: strings, trimming, splitting, decimal and hexadecimal text,
  positions in lists, and two interfaces, \<open>op_machine\<close> (a state machine driven by a list of calls
  whose invariant every call keeps) and \<open>token_codec\<close> (ids that parse back from their text). \<open>Json\<close>:
  \<open>serde_json::Value\<close> as far as the sources use it. \<open>Float64\<close>: division of naturals and products with a ratio
  in double precision, rounding half to even.

  \<^bold>\<open>The adapter\<close> (\<open>pi-grok-adapter/src\<close>). \<open>Queue_Mirror\<close> is \<open>queue_bridge.rs\<close>: the record
  \<open>QueueMirror\<close> and every method. Pi reports its queues as two arrays of texts; the mirror recovers the
  rows' identities (\<open>claim_one\<close>: an existing row, else a reservation, else a new id). Shown: the
  invariant of every reachable mirror, that an update lists exactly Pi's arrays, that no follow-up is
  lost, what reordering, editing and promotion do. \<open>Plan_Mode\<close> is \<open>plan_mode.rs\<close>: the reachable states
  and which reminder every prompt carries. \<open>Queue_Runtime\<close> is \<open>pi_adapter/queue_runtime.rs\<close>: the handlers
  on the fields of \<open>AdapterState\<close> they use, over the mirror and the tracker. Pi is the parameter \<open>rpc\<close>
  (the number of the request and the request give \<open>None\<close> for accepted or the error); a handler's awaits
  are not interleaved with other handlers. Shown: no waiting client is answered twice or forgotten,
  dispatch strands no row and drops none unsent, the flush delivers the steering lane, cancelling is a barrier. \<open>Todo_Bridge\<close>
  is \<open>todo_bridge.rs\<close>: tool results to plan updates.

  \<^bold>\<open>Shared crates.\<close> \<open>Breaker_Window\<close>, \<open>Breaker\<close>, \<open>Breaker_Conc\<close> and \<open>Retry_Policy\<close> are \<open>xai-circuit-breaker\<close>. Times
  are nanoseconds. In \<open>Breaker\<close> the atomics are fields and calls run one after the other; the gap between a
  load and its compare-and-swap, in \<open>check_open\<close>, is the parameter \<open>others\<close>, what other callers did in between.
  The window's promises are the interface \<open>sample_window\<close>. Shown: the invariant of every breaker reached by
  such calls, when it trips, that it sheds while open and never strands. \<open>Breaker_Conc\<close> takes every call apart
  into its atomic accesses and interleaves any number of callers in any order: a caller left alone does what
  \<open>Breaker\<close> says; state, window and configuration stay sound under every schedule; checks alone never admit
  more than the free slots within a lease; and four schedules show what overlapping calls can break.
  \<open>Event_Queue\<close> is \<open>xai-interjection-core\<close>; its restore
  contract is the interface \<open>restorable_queue\<close>, where exactly-once delivery across aborts is proved.
  \<open>Prompt_Combine\<close> is \<open>xai-prompt-queue\<close>: the merge run and the wire types with their derived serde.
  \<open>Delivery\<close> and \<open>Identity\<close> are \<open>xai-message-delivery-core\<close>: the accounting of messages over every
  history, addresses as capabilities, agent and attempt ids. Entropy of minted ids is an argument.

  \<^bold>\<open>Tools.\<close> \<open>Patch_Parser\<close>, \<open>Patch_Seek\<close> and \<open>Patch_Apply\<close> are \<open>codex/apply_patch\<close>: printing and parsing
  are inverse, the search contract (interface \<open>line_seeker\<close>), computing and splicing replacements, no
  panics. \<open>Patch_Tool\<close> is the tool around the
  engine (\<open>tool.rs\<close>), over the file-system service of \<open>File_System\<close> (\<open>computer/types.rs\<close>, \<open>local/file_system.rs\<close>,
  \<open>local/mock_fs.rs\<close>; interfaces \<open>async_file_system\<close> for its callers and \<open>os_disk\<close> for the operating system, from
  which \<open>LocalFs\<close> gets its contract) and lossy decoding (\<open>Utf8\<close>): a successful patch is its hunks in order, a failed
  one touches only what it names, notifications undo it. The memory policy is a parameter under the interface
  \<open>memory_policy\<close>, the host with file system and policy the interface \<open>patch_host\<close>. And where this ends: files named
  twice, moves to the same name, existing files, a policy that refuses what its preflight admitted. \<open>Rate_Limiter\<close> is \<open>grok_build/monitor\<close>: the bucket bounds the rate, when a monitor is stopped.
  \<open>Scheduling\<close> is interval parsing, the spawn graph and admission of \<open>grok_build/scheduler\<close> and
  \<open>grok_build/task\<close>.

  \<^bold>\<open>Permissions.\<close> \<open>Shell_Split\<close> is \<open>permission/bash_command_splitting.rs\<close> of \<open>xai-grok-workspace\<close>: the
  commands of a parsed script, the peeling of wrappers and prefixes, the options of \<open>env\<close>, soft breaks.
  The grammar is the parameter \<open>shell_parser\<close>, its tree the datatype \<open>Node\<close>. Shown: no command of the
  tree is hidden, normalising computes the command that runs (refinement of one-layer peeling), breaking
  for display loses nothing. \<open>Permission_Rules\<close> is \<open>permission/rules.rs\<close> and the data of \<open>types.rs\<close>: rules
  written with escapes read back, special forms included. \<open>Unix_Path\<close> is \<open>normalize_lexically\<close> of \<open>xai-grok-paths\<close> over \<open>std::path\<close>.
  \<open>Permission_Policy\<close> is \<open>permission/policy.rs\<close>; what is outside (grammar, glob matcher, URL host, file
  system) is the record \<open>policy_env\<close>. Both ways of merging decisions are instances of the interface
  \<open>ranked_combine\<close>. \<open>Policy_Gate\<close> shows what it guarantees: deny before ask before allow whatever the
  order, nothing restricted passes the gate at any nesting (relation \<open>runs\<close>), an allowed script is
  authorised throughout (relation \<open>authorized\<close>), following a link only tightens, relative rules stay in
  the working directory. \<open>Web_Access\<close> is \<open>web_fetch/ssrf.rs\<close> and \<open>domain.rs\<close>: the SSRF guard against the
  ranges as intervals, the allow list against its entries.

  \<^bold>\<open>Compaction\<close> (\<open>crates/common/xai-grok-compaction\<close>). \<open>Str_Search\<close>: searching and replacing in text.
  \<open>Compact_Select\<close> and \<open>Compact_Fit\<close> are \<open>select.rs\<close> and \<open>intra_compaction/fit.rs\<close>: where a conversation is
  split and how it is fitted into a budget (interface \<open>budgeted_suffix\<close>). \<open>Compact_Text\<close> is \<open>failure.rs\<close>,
  \<open>summary.rs\<close>, \<open>history/filter.rs\<close>, \<open>history/validate.rs\<close>: cleaned summaries have no live control tag and
  lose nothing of a well-formed body; user queries are carried over verbatim unless a query or the summary quotes
  the tags of the block. \<open>Compact_Sample\<close> is the sampler
  with its retries and \<open>code_compaction\<close>, \<open>Compact_Reminder\<close> is \<open>reminder.rs\<close>, \<open>Compact_Intra\<close> the passes of
  \<open>intra_compaction\<close>, \<open>Compact_Inter\<close> the chunked pipeline. The conversation items, the sampler and the
  stream processor are implemented by the hosts: the items are the record \<open>item_ops\<close>, the sampler is a function
  of the number of earlier calls and the request, the processor is the record \<open>stream_ops\<close> under its documented
  \<open>stream_contract\<close>. Shown: a pass replaces a prefix by one summary and keeps tool results with their requests,
  a failed pass changes nothing (history-then-steps apart), retries are bounded and never spent on deterministic errors, input fits the
  budget (the clipped last resort as far as clipping does), chunks partition the turns. Times, sleeping and the embedded prompt templates are left out.

  \<^bold>\<open>The hunk tracker\<close> (\<open>crates/codegen/xai-hunk-tracker\<close>) shows the user what the agent and others changed in
  each file, hunk by hunk, to accept or reject. \<open>Hunk_Diff\<close> is \<open>diff.rs\<close>: hunks from the changes of the
  diff crate, matching of old and new hunks, patching by lines, the printed fragments. \<open>Hunk_Tracker\<close> is
  \<open>actor/state.rs\<close>, \<open>file_utils.rs\<close>, \<open>hunks.rs\<close> and \<open>actions.rs\<close>: the record \<open>Tracker\<close>, recomputation with preserved
  identifiers, the turn index, the events, accepting and rejecting. \<open>Hunk_Actor\<close> is \<open>mutations.rs\<close>,
  \<open>queries.rs\<close> and \<open>mod.rs\<close>: every command with its reply, coalescing, snapshots, rekeying. The line diff, fresh
  identifiers, the clock, what git answers, how reads turn out and what a failed write leaves are fields of \<open>TrackerEnv\<close>, which may
  differ at every command; the disk is a field of the state that anyone may change between commands;
  hash maps are association lists, whose order stands for the iteration order. The diff is assumed to obey
  \<open>diff_law\<close> (the changes spell both texts) and identifiers to be unique. \<open>Hunk_Session\<close> proves the invariant
  operation by operation, \<open>Hunk_Review\<close> the reachable states, that accepting or rejecting a whole file
  settles it, the failed write, and that drawing is total; \<open>Hunk_Loc\<close> is \<open>loc/mod.rs\<close>: the records of a hunk
  add up. \<open>Hunk_Diff\<close> also states where patching by lines loses text: final newlines, carriage returns,
  fragments of close hunks.

  \<^bold>\<open>Termination.\<close> No definition uses fuel of its own: a counter appears only where the code has one (symbolic
  links, wrapper and nesting depths, attempts). Loops over a list are structural; the loops that are not
  (\<open>dispatch_next_queued\<close>, \<open>flush_pending_steering\<close>, the patch parser, replacing in text, peeling a summary,
  collapsing blank lines, retries, decimal printing, decoding) carry a termination proof on the number of held rows, the
  remaining lines, the length of the text or the attempts left.

  \<^bold>\<open>Not modelled.\<close> The pager and its rendering, process and network I/O, the asynchronous runtime and
  its scheduling, file-system effects (except
  the tracker's disk and the files a patch writes), git, authentication, the MCP client, configuration files, logging and
  tracing calls (which do not change the modelled state), and third-party code. The chat-state actor, token estimation, the scheduler and coordinator actors, the
  permission manager and the pager's controllers are the parts with logic of their own that are left out.
\<close>

section \<open>The published queue\<close>

text \<open>
  The adapter builds the \<open>x.ai/queue/changed\<close> notification by hand (\<open>queue_bridge.rs\<close>); the pager
  reads it with the serde type of \<open>xai-prompt-queue\<close>. The two meet here.
\<close>

definition wire_row :: "nat \<Rightarrow> 'img QueueEntry \<Rightarrow> QueueEntryWire" where
  "wire_row n e = \<lparr>qw_id = qe_id e, qw_version = qe_version e, qw_owner = None, qw_last_editor = None,
     qw_kind = lit ''prompt'', qw_text = qe_display_text e, qw_combined_texts = None, qw_position = n\<rparr>"

lemma decode_queue_row: "QueueEntryWire_deserialize (queue_row n e) = Some (wire_row n e)"
  by (simp add: QueueEntryWire_deserialize_def queue_row_def wire_row_def field_defs)

lemma decode_rows:
  "all_some (map QueueEntryWire_deserialize (map (\<lambda>(n, e). queue_row n e) ps)) = Some (map (\<lambda>(n, e). wire_row n e) ps)"
  by (induction ps) (auto simp: decode_queue_row)

text \<open>
  C39: what the adapter publishes is what the pager reads. The notification built from any state of the
  queue mirror decodes without error, to the session's id, one row per queued entry (Pi's first, then
  the adapter's) numbered from zero, and the running prompt with its text when there is one.
\<close>

theorem published_queue_decodes:
  "QueueChanged_deserialize (queue_changed_params sid (snapshot m)) =
     Some \<lparr>qc_session_id = sid,
       qc_entries = map (\<lambda>(n, e). wire_row n e)
         (zip [0..<length (pi_entries m @ local_entries m)] (pi_entries m @ local_entries m)),
       qc_running_prompt_id = map_option qe_id (running m),
       qc_running_text = map_option qe_display_text (running m),
       qc_running_kind = map_option (\<lambda>_. lit ''prompt'') (running m),
       qc_running_combined_texts = None\<rparr>"
  using decode_rows [of "zip [0..<length (pi_entries m @ local_entries m)] (pi_entries m @ local_entries m)"]
  by (cases "running m")
     (simp_all add: QueueChanged_deserialize_def queue_changed_params_def snapshot_def json_set_def
      field_defs Let_def del: map_map)

end
